(* ===== verification/Prelude.thy ===== *)
theory Prelude
  imports Main "HOL-Library.Word"
begin

text \<open>
  The vocabulary every component of the development shares.

  \<^item> Rust's fixed-width integers are words (\<open>u8\<close>, \<open>u16\<close>, \<open>u32\<close>, \<open>u64\<close>); the checked and
    saturating operations of the standard library are defined here once, with the equations
    that move a word goal to the natural numbers collected in \<open>unat_ops\<close>.
  \<^item> A SQLite \<open>INTEGER\<close> column is an \<open>i64\<close>, an \<open>int\<close> that only ever holds values the
    checked conversions \<open>to_sql_i64\<close> and \<open>sql_to_u64\<close> produce or read.
  \<^item> A \<open>Result\<close> is a sum with the error on the left. An error message is the format
    string of the source with the numbers it interpolates (\<open>Msg\<close>).
  \<^item> \<open>exec_op\<close> and \<open>run_ops\<close> run operations that may fail, a failing one leaving the
    state as it was; the locale \<open>invariant_machine\<close> lifts a one-step invariant to runs.
\<close>

section \<open>Types\<close>

type_synonym u8 = "8 word"
type_synonym u16 = "16 word"
type_synonym u32 = "32 word"
type_synonym u64 = "64 word"
type_synonym i64 = int
type_synonym bytes = "u8 list"

text \<open>A formatted message: the format string and the numbers put into it.\<close>

datatype msg = Msg string "int list"

named_theorems unat_ops \<open>equations that read a word operation as one on natural numbers\<close>

section \<open>Machine arithmetic of the standard library\<close>

definition checked_add :: "'a::len word \<Rightarrow> 'a word \<Rightarrow> 'a word option" where
  "checked_add a b = (if unat a + unat b < 2 ^ LENGTH('a) then Some (a + b) else None)"

definition checked_sub :: "'a::len word \<Rightarrow> 'a word \<Rightarrow> 'a word option" where
  "checked_sub a b = (if b \<le> a then Some (a - b) else None)"

definition saturating_add :: "'a::len word \<Rightarrow> 'a word \<Rightarrow> 'a word" where
  "saturating_add a b = (if unat a + unat b < 2 ^ LENGTH('a) then a + b else - 1)"

definition saturating_sub :: "'a::len word \<Rightarrow> 'a word \<Rightarrow> 'a word" where
  "saturating_sub a b = (if b \<le> a then a - b else 0)"

text \<open>\<open>u32::try_from\<close> on a \<open>u64\<close>, and the widening conversion back.\<close>

definition u32_try_from :: "u64 \<Rightarrow> u32 option" where
  "u32_try_from v = (if unat v < 2 ^ 32 then Some (ucast v) else None)"

definition u64_from_u32 :: "u32 \<Rightarrow> u64" where
  "u64_from_u32 v = ucast v"

lemma unat_eqI: "unat a = unat b \<Longrightarrow> a = b"
  by (rule unsigned_word_eqI)

lemma checked_add_Some_iff:
  "checked_add a b = Some c \<longleftrightarrow>
     unat a + unat b < 2 ^ LENGTH('a) \<and> unat c = unat a + unat b" for a :: "'a::len word"
  by (auto simp: checked_add_def unat_word_ariths intro!: unat_eqI)

lemma checked_add_None_iff:
  "checked_add a b = None \<longleftrightarrow> 2 ^ LENGTH('a) \<le> unat a + unat b" for a :: "'a::len word"
  by (auto simp: checked_add_def)

lemma checked_sub_Some_iff:
  "checked_sub a b = Some c \<longleftrightarrow> unat b \<le> unat a \<and> unat c = unat a - unat b"
  by (auto simp: checked_sub_def word_le_nat_alt unat_sub_if_size intro!: unat_eqI)

lemma unat_saturating_add [unat_ops]:
  "unat (saturating_add a b) = min (unat a + unat b) (2 ^ LENGTH('a) - 1)" for a :: "'a::len word"
  by (auto simp: saturating_add_def unat_word_ariths unsigned_minus_1_eq_mask mask_eq_exp_minus_1)

lemma unat_saturating_sub [unat_ops]: "unat (saturating_sub a b) = unat a - unat b"
  by (auto simp: saturating_sub_def word_le_nat_alt unat_sub_if_size)

lemma unat_max [unat_ops]: "unat (max a b) = max (unat a) (unat b)"
  by (simp add: max_def word_le_nat_alt)

lemma unat_min [unat_ops]: "unat (min a b) = min (unat a) (unat b)"
  by (simp add: min_def word_le_nat_alt)

lemma unat_u64_bound: "unat (w :: u64) < 2 ^ 64"
  using unsigned_less [of w] by simp

lemma unat_u32_bound: "unat (w :: u32) < 2 ^ 32"
  using unsigned_less [of w] by simp

lemma unat_u64_from_u32 [unat_ops]: "unat (u64_from_u32 w) = unat w"
  by (simp add: u64_from_u32_def unsigned_ucast_eq take_bit_nat_eq_self less_trans [OF unat_u32_bound])

lemma u32_try_from_Some_iff: "u32_try_from v = Some w \<longleftrightarrow> v = u64_from_u32 w"
proof
  assume "u32_try_from v = Some w"
  then have "unat v < 2 ^ 32" and w: "w = ucast v"
    by (auto simp: u32_try_from_def split: if_splits)
  then have "unat (u64_from_u32 w) = unat v"
    by (simp add: unat_ops unsigned_ucast_eq take_bit_nat_eq_self)
  then show "v = u64_from_u32 w"
    by (metis unat_eqI)
next
  assume "v = u64_from_u32 w"
  then show "u32_try_from v = Some w"
    using unat_u32_bound [of w] less_trans [OF unat_u32_bound [of w], of "2 ^ 64"]
    by (auto simp: u32_try_from_def unat_ops u64_from_u32_def unsigned_ucast_eq
          take_bit_nat_eq_self take_bit_word_eq_self intro!: unat_eqI)
qed

section \<open>Results and runs of fallible operations\<close>

text \<open>The \<open>?\<close> operator: go on with the value, or return the error.\<close>

definition bind_res :: "'e + 'a \<Rightarrow> ('a \<Rightarrow> 'e + 'b) \<Rightarrow> 'e + 'b" where
  "bind_res r f = (case r of Inl e \<Rightarrow> Inl e | Inr x \<Rightarrow> f x)"

definition ok_or :: "'a option \<Rightarrow> 'e \<Rightarrow> 'e + 'a" where
  "ok_or opt e = (case opt of None \<Rightarrow> Inl e | Some x \<Rightarrow> Inr x)"

lemma bind_res_simps [simp]:
  "bind_res (Inl e) f = Inl e"
  "bind_res (Inr x) f = f x"
  by (simp_all add: bind_res_def)

lemma bind_res_Inr_iff: "bind_res r f = Inr y \<longleftrightarrow> (\<exists>x. r = Inr x \<and> f x = Inr y)"
  by (cases r) auto

lemma ok_or_Inr_iff [simp]: "ok_or opt e = Inr x \<longleftrightarrow> opt = Some x"
  by (cases opt) (auto simp: ok_or_def)

lemma ok_or_Some [simp]: "ok_or (Some x) e = Inr x"
  by (simp add: ok_or_def)

lemma ok_or_None [simp]: "ok_or None e = Inl e"
  by (simp add: ok_or_def)

text \<open>
  One operation on a state: an operation that returns an error leaves the state unchanged
  (every writing operation of the storage crate is one statement or one transaction).
\<close>

definition exec_op :: "('op \<Rightarrow> 's \<Rightarrow> 'e + 's) \<Rightarrow> 'op \<Rightarrow> 's \<Rightarrow> 's" where
  "exec_op step op s = (case step op s of Inl e \<Rightarrow> s | Inr s' \<Rightarrow> s')"

primrec run_ops :: "('op \<Rightarrow> 's \<Rightarrow> 'e + 's) \<Rightarrow> 'op list \<Rightarrow> 's \<Rightarrow> 's" where
  "run_ops step [] s = s"
| "run_ops step (op # ops) s = run_ops step ops (exec_op step op s)"

locale invariant_machine =
  fixes step :: "'op \<Rightarrow> 's \<Rightarrow> 'e + 's"
    and allowed :: "'op \<Rightarrow> bool"
    and inv :: "'s \<Rightarrow> bool"
  assumes inv_step: "\<lbrakk>inv s; allowed op; step op s = Inr s'\<rbrakk> \<Longrightarrow> inv s'"
begin

lemma inv_exec: "inv s \<Longrightarrow> allowed op \<Longrightarrow> inv (exec_op step op s)"
  by (auto simp: exec_op_def split: sum.splits intro: inv_step)

lemma inv_run: "inv s \<Longrightarrow> list_all allowed ops \<Longrightarrow> inv (run_ops step ops s)"
  by (induction ops arbitrary: s) (auto intro: inv_exec)

end

section \<open>Lists\<close>

text \<open>\<open>Iterator::rposition\<close>: the index of the last element that satisfies the predicate.\<close>

fun rposition :: "('a \<Rightarrow> bool) \<Rightarrow> 'a list \<Rightarrow> nat option" where
  "rposition P [] = None"
| "rposition P (x # xs) = (case rposition P xs of Some i \<Rightarrow> Some (Suc i) | None \<Rightarrow> if P x then Some 0 else None)"

lemma rposition_None_iff: "rposition P xs = None \<longleftrightarrow> (\<forall>x \<in> set xs. \<not> P x)"
  by (induction xs) (auto split: option.splits)

lemma rposition_SomeD:
  "rposition P xs = Some i \<Longrightarrow> i < length xs \<and> P (xs ! i) \<and> (\<forall>j. i < j \<and> j < length xs \<longrightarrow> \<not> P (xs ! j))"
proof (induction xs arbitrary: i)
  case (Cons x xs)
  show ?case
  proof (cases "rposition P xs")
    case None
    with Cons.prems have "i = 0" "P x" by (auto split: if_splits)
    moreover have "\<not> P ((x # xs) ! j)" if "0 < j" "j < length (x # xs)" for j
      using None that by (cases j) (auto simp: rposition_None_iff)
    ultimately show ?thesis by auto
  next
    case (Some k)
    with Cons.prems have i: "i = Suc k" by simp
    have "\<not> P ((x # xs) ! j)" if "Suc k < j" "j < length (x # xs)" for j
      using Cons.IH [OF Some] that by (cases j) auto
    with Cons.IH [OF Some] i show ?thesis by auto
  qed
qed simp

section \<open>Integers in the database\<close>

text \<open>
  \<open>to_sql_i64\<close> of the storage crate (\<open>i64::try_from\<close>) and the conversion every query
  applies when it reads a height back (\<open>u64::try_from\<close>). The error is left to the caller.
\<close>

definition i64_try_from :: "u64 \<Rightarrow> i64 option" where
  "i64_try_from v = (if uint v < 2 ^ 63 then Some (uint v) else None)"

definition u64_try_from :: "i64 \<Rightarrow> u64 option" where
  "u64_try_from v = (if 0 \<le> v then Some (word_of_int v) else None)"

lemma i64_try_from_Some_iff:
  "i64_try_from v = Some k \<longleftrightarrow> uint v < 2 ^ 63 \<and> k = uint v"
  by (auto simp: i64_try_from_def)

lemma i64_try_from_nonneg: "i64_try_from v = Some k \<Longrightarrow> 0 \<le> k"
  by (auto simp: i64_try_from_Some_iff)

lemma u64_try_from_i64_try_from: "i64_try_from v = Some k \<Longrightarrow> u64_try_from k = Some v"
  by (auto simp: i64_try_from_def u64_try_from_def split: if_splits)

lemma u64_try_from_Some_uint:
  "u64_try_from k = Some v \<Longrightarrow> k < 2 ^ 63 \<Longrightarrow> uint v = k"
  by (auto simp: u64_try_from_def uint_word_of_int split: if_splits)

end
