(* ===== verification/Errors.thy ===== *)
theory Errors
  imports Prelude
begin

text \<open>
  The error types of the three crates the components return: \<open>pirate-core\<close>
  (\<open>core_error\<close>), \<open>pirate-storage-sqlite\<close> (\<open>storage_error\<close>) and \<open>pirate-sync-lightd\<close>
  (\<open>sync_error\<close>), with the classification functions of \<open>pirate-core\<close>'s \<open>Error\<close>.
  Foreign errors wrapped by a variant (I/O, serde, rusqlite, tonic) are messages, except
  rusqlite's, whose \<open>DatabaseBusy\<close> case the retry loop inspects.
\<close>

section \<open>Errors of pirate-core\<close>

datatype core_error =
    InsufficientFunds msg | InvalidAddress msg | MemoTooLong msg | InvalidMemo msg
  | FeeTooLow msg | FeeTooHigh msg | FeeCalculation msg
  | TransactionBuild msg | TransactionSigning msg | SaplingParameters msg
  | TransactionBroadcast msg | InvalidTransaction msg
  | KeyDerivation msg | InvalidKey msg | NoteDecryption msg | InvalidNote msg
  | Network msg | NetworkDown msg | BroadcastFailed msg
  | Storage msg | Sync msg | InvalidAmount msg | AmountOverflow msg
  | InvalidDiversifierIndex msg | WalletNotFound msg | WalletAlreadyExists msg
  | InvalidMnemonic msg | InvalidSeed msg | Rescan msg
  | Io msg | Serialization msg | Other msg

datatype error_category =
    CatAmount | CatAddress | CatMemo | CatFee | CatTransaction | CatKeys | CatNotes
  | CatNetwork | CatStorage | CatSync | CatWallet | CatInternal

fun is_user_error :: "core_error \<Rightarrow> bool" where
  "is_user_error (InsufficientFunds _) = True"
| "is_user_error (InvalidAddress _) = True"
| "is_user_error (MemoTooLong _) = True"
| "is_user_error (FeeTooLow _) = True"
| "is_user_error (FeeTooHigh _) = True"
| "is_user_error (InvalidAmount _) = True"
| "is_user_error (InvalidMnemonic _) = True"
| "is_user_error (SaplingParameters _) = True"
| "is_user_error (NetworkDown _) = True"
| "is_user_error (BroadcastFailed _) = True"
| "is_user_error _ = False"

text \<open>\<open>user_message\<close>: the dedicated text, or \<open>None\<close> where it falls back to \<open>to_string()\<close>.\<close>

fun user_message :: "core_error \<Rightarrow> msg option" where
  "user_message (InsufficientFunds _) =
     Some (Msg ''You don't have enough funds for this transaction. Please check your balance and try again.'' [])"
| "user_message (InvalidAddress _) =
     Some (Msg ''The recipient address is invalid. Please check and try again.'' [])"
| "user_message (MemoTooLong _) =
     Some (Msg ''Your memo is too long. Maximum length is {} characters.'' [512])"
| "user_message (FeeTooLow _) =
     Some (Msg ''The transaction fee is too low. Please increase the fee.'' [])"
| "user_message (FeeTooHigh _) =
     Some (Msg ''The transaction fee seems unusually high. Please review.'' [])"
| "user_message (InvalidAmount _) =
     Some (Msg ''The amount is invalid. Please enter a valid amount.'' [])"
| "user_message (InvalidMnemonic _) =
     Some (Msg ''The recovery phrase is invalid. Please check and try again.'' [])"
| "user_message (NetworkDown _) =
     Some (Msg ''Unable to connect to the network. Please check your connection and try again.'' [])"
| "user_message (BroadcastFailed _) =
     Some (Msg ''Failed to broadcast transaction. The network may be congested. Please try again.'' [])"
| "user_message (SaplingParameters _) =
     Some (Msg ''Sapling proving parameters are unavailable or invalid. Download the verified parameter files and try again.'' [])"
| "user_message _ = None"

fun category :: "core_error \<Rightarrow> error_category" where
  "category (InsufficientFunds _) = CatAmount"
| "category (InvalidAmount _) = CatAmount"
| "category (AmountOverflow _) = CatAmount"
| "category (InvalidAddress _) = CatAddress"
| "category (MemoTooLong _) = CatMemo"
| "category (InvalidMemo _) = CatMemo"
| "category (FeeTooLow _) = CatFee"
| "category (FeeTooHigh _) = CatFee"
| "category (FeeCalculation _) = CatFee"
| "category (TransactionBuild _) = CatTransaction"
| "category (TransactionSigning _) = CatTransaction"
| "category (SaplingParameters _) = CatTransaction"
| "category (TransactionBroadcast _) = CatTransaction"
| "category (BroadcastFailed _) = CatTransaction"
| "category (InvalidTransaction _) = CatTransaction"
| "category (KeyDerivation _) = CatKeys"
| "category (InvalidKey _) = CatKeys"
| "category (NoteDecryption _) = CatNotes"
| "category (InvalidNote _) = CatNotes"
| "category (Network _) = CatNetwork"
| "category (NetworkDown _) = CatNetwork"
| "category (Storage _) = CatStorage"
| "category (Sync _) = CatSync"
| "category (Rescan _) = CatSync"
| "category (WalletNotFound _) = CatWallet"
| "category (WalletAlreadyExists _) = CatWallet"
| "category (InvalidMnemonic _) = CatWallet"
| "category (InvalidSeed _) = CatWallet"
| "category (InvalidDiversifierIndex _) = CatAddress"
| "category (Io _) = CatInternal"
| "category (Serialization _) = CatInternal"
| "category (Other _) = CatInternal"

text \<open>The errors with a text of their own are exactly those classed as the user's.\<close>

lemma user_message_iff_user_error: "user_message e \<noteq> None \<longleftrightarrow> is_user_error e"
  by (cases e) auto

section \<open>Errors of pirate-storage-sqlite and pirate-sync-lightd\<close>

datatype rusqlite_error =
    DatabaseBusy
  | IntegralValueOutOfRange nat i64
  | ConstraintViolation
  | OtherFailure msg

datatype storage_error =
    Database rusqlite_error | Encryption msg | Migration msg | NotFound msg
  | SSerialization msg | Security msg | Validation msg | SStorage msg

datatype sync_error =
    YNetwork msg | YConnection msg | YSync msg | YCancelled | YPrivacy msg
  | YTransport msg | YStatus msg | YStorage msg | YIo msg

text \<open>The two wordings of \<open>to_sql_i64\<close> in the storage crate.\<close>

definition to_sql_i64 :: "u64 \<Rightarrow> storage_error + i64" where
  "to_sql_i64 v =
     ok_or (i64_try_from v) (SStorage (Msg ''value {} exceeds i64::MAX'' [uint v]))"

definition sync_to_sql_i64 :: "u64 \<Rightarrow> storage_error + i64" where
  "sync_to_sql_i64 v =
     ok_or (i64_try_from v) (SStorage (Msg ''Height exceeds i64 range: {}'' [uint v]))"

definition row_u64 :: "nat \<Rightarrow> i64 \<Rightarrow> storage_error + u64" where
  "row_u64 index v =
     ok_or (u64_try_from v) (Database (IntegralValueOutOfRange index v))"

definition bool_to_int :: "bool \<Rightarrow> i64" where
  "bool_to_int b = (if b then 1 else 0)"

lemma to_sql_i64_Inr_iff: "to_sql_i64 v = Inr k \<longleftrightarrow> uint v < 2 ^ 63 \<and> k = uint v"
  by (simp add: to_sql_i64_def i64_try_from_Some_iff)

lemma sync_to_sql_i64_Inr_iff:
  "sync_to_sql_i64 v = Inr k \<longleftrightarrow> uint v < 2 ^ 63 \<and> k = uint v"
  by (simp add: sync_to_sql_i64_def i64_try_from_Some_iff)

text \<open>
  The contract of the two integer conversions: whatever a height was written as, reading
  the column gives the height back, and the order of heights is the order of columns.
\<close>

locale height_codec =
  fixes write_height :: "u64 \<Rightarrow> 'e + i64"
    and read_height :: "nat \<Rightarrow> i64 \<Rightarrow> 'f + u64"
  assumes write_ok: "write_height v = Inr k \<longleftrightarrow> uint v < 2 ^ 63 \<and> k = uint v"
    and read_nonneg: "0 \<le> k \<Longrightarrow> read_height i k = Inr (word_of_int k)"
begin

lemma read_write: "write_height v = Inr k \<Longrightarrow> read_height i k = Inr v"
  by (auto simp: write_ok read_nonneg)

lemma write_order:
  "write_height v = Inr k \<Longrightarrow> write_height w = Inr l \<Longrightarrow> k \<le> l \<longleftrightarrow> v \<le> w"
  by (auto simp: write_ok word_le_def)

lemma write_range: "write_height v = Inr k \<Longrightarrow> 0 \<le> k \<and> k < 2 ^ 63"
  by (auto simp: write_ok)

end

interpretation row_codec: height_codec to_sql_i64 row_u64
  by unfold_locales
    (simp_all add: to_sql_i64_Inr_iff row_u64_def u64_try_from_def)

interpretation sync_codec: height_codec sync_to_sql_i64 row_u64
  by unfold_locales
    (simp_all add: sync_to_sql_i64_Inr_iff row_u64_def u64_try_from_def)

end
