(* ===== verification/ScanQueue.thy ===== *)
theory ScanQueue
  imports Errors
begin

text \<open>
  The scan queue of \<open>pirate-storage-sqlite\<close> (\<open>scan_queue.rs\<close>, table \<open>scan_queue\<close> of
  \<open>migrations.rs\<close>): ranges of block heights to scan or repair, with a priority and a status.
  The table is a list of rows with the \<open>AUTOINCREMENT\<close> counter; an \<open>INSERT\<close> checks the
  table's \<open>CHECK\<close> constraints; the \<open>created_at\<close>/\<open>updated_at\<close> stamps are left out, since no
  query reads them for a decision.

  \<open>active_heights\<close> is the abstract view: the heights some pending or in-progress row of a
  priority covers. Every operation is shown to act on it as a set operation, and to keep the
  table invariant (fresh distinct ids, non-empty positive ranges, disjoint pending rows of
  one priority). The locale \<open>repair_queue\<close> states what a client of the queue relies on.
\<close>

section \<open>The table\<close>

datatype scan_status = Pending | InProgress | Done

record scan_row =
  row_id :: i64
  range_start :: i64
  range_end :: i64
  row_priority :: i64
  row_status :: scan_status
  row_reason :: "string option"

record scan_table =
  scan_rows :: "scan_row list"
  next_row_id :: i64

definition SCAN_PRIORITY_HISTORIC :: i64 where "SCAN_PRIORITY_HISTORIC = 10"
definition SCAN_PRIORITY_FOUND_NOTE :: i64 where "SCAN_PRIORITY_FOUND_NOTE = 40"

text \<open>\<open>INSERT\<close> with the constraints \<open>range_start > 0\<close> and \<open>range_end > range_start\<close>.\<close>

definition insert_row ::
    "i64 \<Rightarrow> i64 \<Rightarrow> i64 \<Rightarrow> scan_status \<Rightarrow> string option \<Rightarrow> scan_table \<Rightarrow> storage_error + scan_table" where
  "insert_row s e p st reason t =
     (if 0 < s \<and> s < e
      then Inr (t\<lparr>scan_rows := scan_rows t @
             [\<lparr>row_id = next_row_id t, range_start = s, range_end = e, row_priority = p,
               row_status = st, row_reason = reason\<rparr>],
           next_row_id := next_row_id t + 1\<rparr>)
      else Inl (Database ConstraintViolation))"

definition delete_rows :: "(scan_row \<Rightarrow> bool) \<Rightarrow> scan_table \<Rightarrow> scan_table" where
  "delete_rows P t = t\<lparr>scan_rows := filter (\<lambda>r. \<not> P r) (scan_rows t)\<rparr>"

definition update_status :: "(scan_row \<Rightarrow> bool) \<Rightarrow> scan_status \<Rightarrow> scan_table \<Rightarrow> scan_table" where
  "update_status P st t =
     t\<lparr>scan_rows := map (\<lambda>r. if P r then r\<lparr>row_status := st\<rparr> else r) (scan_rows t)\<rparr>"

section \<open>Operations\<close>

text \<open>The rows the \<open>SELECT\<close> of \<open>queue_range\<close> returns.\<close>

definition overlapping :: "i64 \<Rightarrow> i64 \<Rightarrow> i64 \<Rightarrow> scan_row \<Rightarrow> bool" where
  "overlapping p s e r \<longleftrightarrow> row_priority r = p \<and> row_status r \<in> {Pending, InProgress} \<and>
     \<not> (range_end r \<le> s \<or> e \<le> range_start r)"

definition queue_range ::
    "u64 \<Rightarrow> u64 \<Rightarrow> i64 \<Rightarrow> string option \<Rightarrow> scan_table \<Rightarrow> storage_error + scan_table" where
  "queue_range start finish p reason t =
     (if finish \<le> start then Inr t
      else bind_res (to_sql_i64 start) (\<lambda>s. bind_res (to_sql_i64 finish) (\<lambda>e.
        let selected = filter (overlapping p s e) (scan_rows t);
            in_progress = filter (\<lambda>r. row_status r = InProgress) selected;
            pending = filter (\<lambda>r. row_status r \<noteq> InProgress) selected;
            merged_start = foldl (\<lambda>m r. min m (range_start r)) s pending;
            merged_end = foldl (\<lambda>m r. max m (range_end r)) e pending;
            fully_covered = list_ex (\<lambda>r. range_start r \<le> s \<and> e \<le> range_end r) in_progress;
            pending_ids = map row_id pending
        in if pending_ids = [] \<and> fully_covered then Inr t
           else insert_row merged_start merged_end p Pending reason
             (delete_rows (\<lambda>r. row_id r \<in> set pending_ids) t))))"

definition queue_found_note_range ::
    "u64 \<Rightarrow> u64 \<Rightarrow> string option \<Rightarrow> scan_table \<Rightarrow> storage_error + scan_table" where
  "queue_found_note_range start finish reason t =
     queue_range start finish SCAN_PRIORITY_FOUND_NOTE reason t"

text \<open>\<open>MIN(range_start)\<close> and \<open>MAX(range_end)\<close>, \<open>NULL\<close> on no row.\<close>

definition min_start :: "scan_row list \<Rightarrow> i64 option" where
  "min_start rs = (case map range_start rs of [] \<Rightarrow> None | x # xs \<Rightarrow> Some (foldl min x xs))"

definition max_end :: "scan_row list \<Rightarrow> i64 option" where
  "max_end rs = (case map range_end rs of [] \<Rightarrow> None | x # xs \<Rightarrow> Some (foldl max x xs))"

definition record_historic_scanned_range ::
    "u64 \<Rightarrow> u64 \<Rightarrow> string option \<Rightarrow> scan_table \<Rightarrow> storage_error + scan_table" where
  "record_historic_scanned_range start finish reason t =
     (if finish \<le> start then Inr t
      else bind_res (to_sql_i64 start) (\<lambda>s. bind_res (to_sql_i64 finish) (\<lambda>e.
        let existing = filter (\<lambda>r. row_priority r = SCAN_PRIORITY_HISTORIC) (scan_rows t);
            merged_start = min (case min_start existing of None \<Rightarrow> s | Some x \<Rightarrow> x) s;
            merged_end = max (case max_end existing of None \<Rightarrow> e | Some x \<Rightarrow> x) e
        in insert_row merged_start merged_end SCAN_PRIORITY_HISTORIC Done reason
             (delete_rows (\<lambda>r. row_priority r = SCAN_PRIORITY_HISTORIC) t))))"

record scan_range_row =
  sr_id :: i64
  sr_start :: u64
  sr_end :: u64
  sr_priority :: i64
  sr_status :: scan_status
  sr_reason :: "string option"

text \<open>\<open>ORDER BY CASE status WHEN 'in_progress' THEN 0 ELSE 1 END, range_start LIMIT 1\<close>.\<close>

definition status_rank :: "scan_row \<Rightarrow> nat" where
  "status_rank r = (if row_status r = InProgress then 0 else 1)"

definition found_note_work :: "scan_table \<Rightarrow> scan_row list" where
  "found_note_work t = filter (\<lambda>r. row_priority r = SCAN_PRIORITY_FOUND_NOTE \<and>
     row_status r \<in> {InProgress, Pending}) (scan_rows t)"

definition next_found_note_range :: "scan_table \<Rightarrow> storage_error + scan_range_row option" where
  "next_found_note_range t =
     (case sort_key status_rank (sort_key range_start (found_note_work t)) of
        [] \<Rightarrow> Inr None
      | r # _ \<Rightarrow>
          bind_res (row_u64 1 (range_start r)) (\<lambda>s. bind_res (row_u64 2 (range_end r)) (\<lambda>e.
            Inr (Some \<lparr>sr_id = row_id r, sr_start = s, sr_end = e, sr_priority = row_priority r,
              sr_status = row_status r, sr_reason = row_reason r\<rparr>))))"

definition mark_in_progress :: "i64 \<Rightarrow> scan_table \<Rightarrow> scan_table" where
  "mark_in_progress i t = update_status (\<lambda>r. row_id r = i) InProgress t"

definition mark_done :: "i64 \<Rightarrow> scan_table \<Rightarrow> scan_table" where
  "mark_done i t = update_status (\<lambda>r. row_id r = i) Done t"

definition done_through :: "i64 \<Rightarrow> scan_row \<Rightarrow> bool" where
  "done_through e r \<longleftrightarrow> row_priority r = SCAN_PRIORITY_FOUND_NOTE \<and>
     row_status r = InProgress \<and> range_end r \<le> e"

definition mark_found_note_done_through ::
    "u64 \<Rightarrow> scan_table \<Rightarrow> storage_error + scan_table \<times> nat" where
  "mark_found_note_done_through end_exclusive t =
     bind_res (to_sql_i64 end_exclusive) (\<lambda>e.
       Inr (update_status (done_through e) Done t,
         length (filter (done_through e) (scan_rows t))))"

definition clear_all :: "scan_table \<Rightarrow> scan_table" where
  "clear_all t = delete_rows (\<lambda>_. True) t"

definition clear_found_note_ranges :: "scan_table \<Rightarrow> scan_table" where
  "clear_found_note_ranges t = delete_rows (\<lambda>r. row_priority r = SCAN_PRIORITY_FOUND_NOTE) t"

lemmas table_ops = insert_row_def delete_rows_def update_status_def

section \<open>Invariant and abstract view\<close>

definition row_heights :: "scan_row \<Rightarrow> int set" where
  "row_heights r = {range_start r..<range_end r}"

definition active_heights :: "i64 \<Rightarrow> scan_table \<Rightarrow> int set" where
  "active_heights p t =
     (\<Union>r \<in> {r \<in> set (scan_rows t). row_priority r = p \<and> row_status r \<noteq> Done}. row_heights r)"

fun disjoint_pending :: "scan_row list \<Rightarrow> bool" where
  "disjoint_pending [] = True"
| "disjoint_pending (r # rs) =
     (list_all (\<lambda>q. row_status r = Pending \<longrightarrow> row_status q = Pending \<longrightarrow>
        row_priority r = row_priority q \<longrightarrow>
        range_end r \<le> range_start q \<or> range_end q \<le> range_start r) rs \<and> disjoint_pending rs)"

definition scan_inv :: "scan_table \<Rightarrow> bool" where
  "scan_inv t \<longleftrightarrow> distinct (map row_id (scan_rows t)) \<and>
     list_all (\<lambda>r. row_id r < next_row_id t) (scan_rows t) \<and>
     list_all (\<lambda>r. 0 < range_start r \<and> range_start r < range_end r \<and> range_end r < 2 ^ 63)
       (scan_rows t) \<and>
     disjoint_pending (scan_rows t)"

definition empty_scan_table :: scan_table where
  "empty_scan_table = \<lparr>scan_rows = [], next_row_id = 1\<rparr>"

subsection \<open>Shared lemmas\<close>

definition no_clash :: "scan_row \<Rightarrow> scan_row \<Rightarrow> bool" where
  "no_clash r q \<longleftrightarrow> (row_status r = Pending \<longrightarrow> row_status q = Pending \<longrightarrow>
     row_priority r = row_priority q \<longrightarrow> range_end r \<le> range_start q \<or> range_end q \<le> range_start r)"

lemma disjoint_pending_sorted_wrt: "disjoint_pending rs = sorted_wrt no_clash rs"
  by (induction rs) (auto simp: no_clash_def list_all_iff)

lemma no_clash_sym: "no_clash r q \<Longrightarrow> no_clash q r"
  by (auto simp: no_clash_def)

lemma no_clash_members:
  assumes "sorted_wrt no_clash rs" "r \<in> set rs" "q \<in> set rs" "r \<noteq> q"
  shows "no_clash r q"
  using assms by (induction rs) (auto intro: no_clash_sym)

lemma foldl_min_le:
  fixes m :: int
  shows "foldl (\<lambda>m r. min m (f r)) m xs \<le> m"
    and "r \<in> set xs \<Longrightarrow> foldl (\<lambda>m r. min m (f r)) m xs \<le> f r"
    and "foldl (\<lambda>m r. min m (f r)) m xs = m \<or> (\<exists>r \<in> set xs. foldl (\<lambda>m r. min m (f r)) m xs = f r)"
proof (induction xs arbitrary: m)
  case (Cons x xs)
  { case 1 show ?case using Cons.IH(1) [of "min m (f x)"] by simp
  next
    case 2 then show ?case using Cons.IH(1) [of "min m (f x)"] Cons.IH(2) [of "min m (f x)"] by auto
  next
    case 3 show ?case using Cons.IH(3) [of "min m (f x)"] by (auto simp: min_def) }
qed auto

lemma foldl_max_ge:
  fixes m :: int
  shows "m \<le> foldl (\<lambda>m r. max m (f r)) m xs"
    and "r \<in> set xs \<Longrightarrow> f r \<le> foldl (\<lambda>m r. max m (f r)) m xs"
    and "foldl (\<lambda>m r. max m (f r)) m xs = m \<or> (\<exists>r \<in> set xs. foldl (\<lambda>m r. max m (f r)) m xs = f r)"
proof (induction xs arbitrary: m)
  case (Cons x xs)
  { case 1 show ?case using Cons.IH(1) [of "max m (f x)"] by simp
  next
    case 2 then show ?case using Cons.IH(1) [of "max m (f x)"] Cons.IH(2) [of "max m (f x)"] by auto
  next
    case 3 show ?case using Cons.IH(3) [of "max m (f x)"] by (auto simp: max_def) }
qed auto

lemma foldl_max_less:
  fixes m b :: int
  assumes "m < b" "\<And>r. r \<in> set xs \<Longrightarrow> f r < b"
  shows "foldl (\<lambda>m r. max m (f r)) m xs < b"
  using foldl_max_ge(3) [where f = f and m = m and xs = xs] assms by auto

lemma scan_inv_row:
  "scan_inv t \<Longrightarrow> r \<in> set (scan_rows t) \<Longrightarrow> 0 < range_start r \<and> range_start r < range_end r \<and>
     range_end r < 2 ^ 63"
  by (auto simp: scan_inv_def list_all_iff)

text \<open>The hull of a range and the rows that overlap it is their union: merging adds no height.\<close>

lemma hull_eq_union:
  assumes "s < e"
    and overlap: "\<And>r. r \<in> set xs \<Longrightarrow> s < range_end r \<and> range_start r < e"
  defines "a \<equiv> foldl (\<lambda>m r. min m (range_start r)) s xs"
    and "b \<equiv> foldl (\<lambda>m r. max m (range_end r)) e xs"
  shows "{a..<b} = {s..<e} \<union> (\<Union>r \<in> set xs. row_heights r)"
proof (rule equalityI; rule subsetI)
  note lo = foldl_min_le [where f = range_start and m = s and xs = xs, folded a_def]
  note hi = foldl_max_ge [where f = range_end and m = e and xs = xs, folded b_def]
  fix x
  {
    assume x: "x \<in> {a..<b}"
    consider "x < s" | "s \<le> x" "x < e" | "e \<le> x" by linarith
    then show "x \<in> {s..<e} \<union> (\<Union>r \<in> set xs. row_heights r)"
    proof cases
      case 1
      with x lo(3) obtain r where "r \<in> set xs" "range_start r \<le> x" by auto
      with 1 overlap [of r] show ?thesis by (auto simp: row_heights_def intro!: bexI [of _ r])
    next
      case 3
      with x hi(3) obtain r where "r \<in> set xs" "x < range_end r" by auto
      with 3 overlap [of r] show ?thesis by (auto simp: row_heights_def intro!: bexI [of _ r])
    qed auto
  next
    assume "x \<in> {s..<e} \<union> (\<Union>r \<in> set xs. row_heights r)"
    then show "x \<in> {a..<b}"
      using lo(1,2) hi(1,2) by (force simp: row_heights_def)
  }
qed

text \<open>What the three table primitives do to the invariant and to the abstract view.\<close>

lemma scan_inv_delete: "scan_inv t \<Longrightarrow> scan_inv (delete_rows P t)"
  by (auto simp: scan_inv_def delete_rows_def disjoint_pending_sorted_wrt list_all_iff
        distinct_map inj_on_def intro!: sorted_wrt_filter)

lemma scan_inv_update:
  assumes "scan_inv t" "st \<noteq> Pending"
  shows "scan_inv (update_status P st t)"
proof -
  let ?f = "\<lambda>r. if P r then r\<lparr>row_status := st\<rparr> else r"
  have ids: "row_id \<circ> ?f = row_id"
    by auto
  have clash: "no_clash (?f r) (?f q)" if "no_clash r q" for r q
    using that assms(2) by (auto simp: no_clash_def)
  have "sorted_wrt no_clash (map ?f (scan_rows t))"
    unfolding sorted_wrt_map
    by (rule sorted_wrt_mono_rel [of _ no_clash])
      (use assms(1) clash in \<open>simp_all add: scan_inv_def disjoint_pending_sorted_wrt del: if_split\<close>)
  with assms(1) ids show ?thesis
    unfolding scan_inv_def update_status_def disjoint_pending_sorted_wrt
    by (auto simp: list_all_iff)
qed

lemma scan_inv_insert:
  assumes "scan_inv t" "insert_row s e p st reason t = Inr t'"
    and "\<And>r. \<lbrakk>st = Pending; r \<in> set (scan_rows t); row_status r = Pending; row_priority r = p\<rbrakk>
           \<Longrightarrow> range_end r \<le> s \<or> e \<le> range_start r"
    and "e < 2 ^ 63"
  shows "scan_inv t'"
proof -
  have ids: "\<And>r. r \<in> set (scan_rows t) \<Longrightarrow> row_id r < next_row_id t"
    using assms(1) by (auto simp: scan_inv_def list_all_iff)
  then have "next_row_id t \<notin> row_id ` set (scan_rows t)"
    by fastforce
  with assms ids show ?thesis
    by (auto simp: scan_inv_def insert_row_def disjoint_pending_sorted_wrt sorted_wrt_append
        list_all_iff no_clash_def less_imp_le split: if_splits)
qed

lemma active_heights_iff:
  "x \<in> active_heights p t \<longleftrightarrow>
     (\<exists>r \<in> set (scan_rows t). row_priority r = p \<and> row_status r \<noteq> Done \<and> x \<in> row_heights r)"
  by (auto simp: active_heights_def)

lemma active_heights_delete:
  "x \<in> active_heights p (delete_rows P t) \<longleftrightarrow>
     (\<exists>r \<in> set (scan_rows t). row_priority r = p \<and> row_status r \<noteq> Done \<and> \<not> P r \<and> x \<in> row_heights r)"
  by (auto simp: active_heights_iff delete_rows_def)

lemma active_heights_insert:
  assumes "insert_row s e p st reason t = Inr t'"
  shows "active_heights q t' = active_heights q t \<union> (if q = p \<and> st \<noteq> Done then {s..<e} else {})"
proof -
  obtain i where "scan_rows t' = scan_rows t @ [\<lparr>row_id = i, range_start = s, range_end = e,
      row_priority = p, row_status = st, row_reason = reason\<rparr>]"
    using assms by (auto simp: insert_row_def split: if_splits)
  then show ?thesis
    by (intro set_eqI) (simp add: active_heights_iff bex_Un row_heights_def, blast)
qed

lemma insert_row_Inr_iff:
  "(\<exists>t'. insert_row s e p st reason t = Inr t') \<longleftrightarrow> 0 < s \<and> s < e"
  by (auto simp: insert_row_def)

section \<open>Queueing\<close>

text \<open>The rows a queued range absorbs.\<close>

definition absorbed :: "i64 \<Rightarrow> i64 \<Rightarrow> i64 \<Rightarrow> scan_table \<Rightarrow> scan_row list" where
  "absorbed p s e t = filter (\<lambda>r. row_status r \<noteq> InProgress) (filter (overlapping p s e) (scan_rows t))"

lemma absorbed_member:
  "r \<in> set (absorbed p s e t) \<longleftrightarrow> r \<in> set (scan_rows t) \<and> row_priority r = p \<and>
     row_status r = Pending \<and> s < range_end r \<and> range_start r < e"
  by (auto simp: absorbed_def overlapping_def)

lemma delete_absorbed:
  assumes "scan_inv t"
  shows "delete_rows (\<lambda>r. row_id r \<in> set (map row_id (absorbed p s e t))) t =
     delete_rows (\<lambda>r. r \<in> set (absorbed p s e t)) t"
proof -
  have "row_id r \<in> row_id ` set (absorbed p s e t) \<longleftrightarrow> r \<in> set (absorbed p s e t)"
    if "r \<in> set (scan_rows t)" for r
    using assms that by (auto simp: scan_inv_def distinct_map absorbed_member dest: inj_onD)
  then show ?thesis
    by (auto simp: delete_rows_def intro!: filter_cong arg_cong [where f = "\<lambda>rs. scan_rows_update (\<lambda>_. rs) t"])
qed

text \<open>The three ways a call of \<open>queue_range\<close> succeeds.\<close>

lemma queue_range_cases:
  assumes "queue_range start finish p reason t = Inr t'" "scan_inv t"
  obtains (empty) "finish \<le> start" "t' = t"
  | (covered) r where "t' = t" "r \<in> set (scan_rows t)" "row_priority r = p" "row_status r = InProgress"
      "range_start r \<le> uint start" "uint finish \<le> range_end r"
  | (queued) s e where "uint start < uint finish" "e < 2 ^ 63"
      "{s..<e} = {uint start..<uint finish} \<union>
         (\<Union>r \<in> set (absorbed p (uint start) (uint finish) t). row_heights r)"
      "insert_row s e p Pending reason
         (delete_rows (\<lambda>r. r \<in> set (absorbed p (uint start) (uint finish) t)) t) = Inr t'"
proof (cases "finish \<le> start")
  case True
  with assms(1) empty show ?thesis by (simp add: queue_range_def)
next
  case False
  let ?s = "uint start" and ?e = "uint finish"
  let ?xs = "absorbed p ?s ?e t"
  from False have lt: "?s < ?e" by (simp add: word_le_def)
  have fits: "to_sql_i64 start = Inr ?s" "to_sql_i64 finish = Inr ?e" and "?e < 2 ^ 63"
    using assms(1) False
    by (auto simp: queue_range_def bind_res_Inr_iff to_sql_i64_Inr_iff)
  then have bound: "foldl (\<lambda>m r. max m (range_end r)) ?e ?xs < 2 ^ 63"
    using scan_inv_row [OF assms(2)] by (intro foldl_max_less) (auto simp: absorbed_member)
  have hull: "{foldl (\<lambda>m r. min m (range_start r)) ?s ?xs..<foldl (\<lambda>m r. max m (range_end r)) ?e ?xs} =
      {?s..<?e} \<union> (\<Union>r \<in> set ?xs. row_heights r)"
    using lt by (intro hull_eq_union) (auto simp: absorbed_member)
  show ?thesis
  proof (cases "?xs = [] \<and> list_ex (\<lambda>r. range_start r \<le> ?s \<and> ?e \<le> range_end r)
      (filter (\<lambda>r. row_status r = InProgress) (filter (overlapping p ?s ?e) (scan_rows t)))")
    case True
    with assms(1) False fits have "t' = t"
      by (simp add: queue_range_def Let_def absorbed_def)
    with True covered show ?thesis
      by (auto simp: list_ex_iff overlapping_def)
  next
    case no: False
    with assms(1) False fits
    have "insert_row (foldl (\<lambda>m r. min m (range_start r)) ?s ?xs)
        (foldl (\<lambda>m r. max m (range_end r)) ?e ?xs) p Pending reason
        (delete_rows (\<lambda>r. row_id r \<in> set (map row_id ?xs)) t) = Inr t'"
      unfolding queue_range_def by (auto simp: Let_def absorbed_def split: if_splits)
    with queued lt bound hull show ?thesis
      unfolding delete_absorbed [OF assms(2)] by blast
  qed
qed

lemma queue_range_inv:
  assumes "scan_inv t" "queue_range start finish p reason t = Inr t'"
  shows "scan_inv t'"
  using assms(2,1)
proof (cases rule: queue_range_cases)
  case (queued s e)
  let ?xs = "absorbed p (uint start) (uint finish) t"
  have "range_end r \<le> s \<or> e \<le> range_start r"
    if r: "r \<in> set (scan_rows t)" "r \<notin> set ?xs" "row_status r = Pending" "row_priority r = p" for r
  proof (rule ccontr)
    assume "\<not> ?thesis"
    moreover from assms(1) r have pos: "range_start r < range_end r"
      by (auto simp: scan_inv_def list_all_iff)
    moreover have "s < e" using queued(4) by (auto simp: insert_row_def split: if_splits)
    ultimately have "max s (range_start r) \<in> {s..<e}" "max s (range_start r) \<in> row_heights r"
      by (auto simp: row_heights_def)
    with queued(3) obtain x where x: "x \<in> row_heights r"
      and "x \<in> {uint start..<uint finish} \<or> (\<exists>q \<in> set ?xs. x \<in> row_heights q)" by blast
    then consider "x \<in> {uint start..<uint finish}" | q where "q \<in> set ?xs" "x \<in> row_heights q" by blast
    then show False
    proof cases
      case 1
      with x r show False by (auto simp: absorbed_member row_heights_def)
    next
      case 2
      with assms(1) r have "no_clash r q"
        by (intro no_clash_members [of "scan_rows t"])
          (auto simp: scan_inv_def disjoint_pending_sorted_wrt absorbed_member)
      with 2 x r show False by (auto simp: no_clash_def absorbed_member row_heights_def)
    qed
  qed
  with queued(4) scan_inv_delete [OF assms(1)] show ?thesis
    by (intro scan_inv_insert [OF _ queued(4)]) (use queued(2) in \<open>auto simp: delete_rows_def\<close>)
qed (use assms in auto)

lemma active_heights_queue_range:
  assumes "scan_inv t" "queue_range start finish p reason t = Inr t'"
  shows "active_heights q t' =
     (if q = p then active_heights p t \<union> {uint start..<uint finish} else active_heights q t)"
  using assms(2,1)
proof (cases rule: queue_range_cases)
  case empty
  then show ?thesis by (simp add: word_le_def)
next
  case (covered r)
  then have "{uint start..<uint finish} \<subseteq> active_heights p t"
    unfolding active_heights_def by (intro subset_trans [OF _ UN_upper [of r]])
      (auto simp: row_heights_def)
  with covered(1) show ?thesis by auto
next
  case (queued s e)
  have absorbed_facts: "r \<in> set (scan_rows t) \<and> row_priority r = p \<and> row_status r \<noteq> Done"
    if "r \<in> set (absorbed p (uint start) (uint finish) t)" for r
    using that by (simp add: absorbed_member)
  have "x \<in> active_heights q t' \<longleftrightarrow>
      x \<in> (if q = p then active_heights p t \<union> {uint start..<uint finish} else active_heights q t)" for x
    unfolding active_heights_insert [OF queued(4), of q] queued(3) Un_iff if_distrib UN_iff
      active_heights_delete active_heights_iff [of x p t] active_heights_iff [of x q t]
    using absorbed_facts by (cases "q = p") (simp_all, blast+)
  then show ?thesis by blast
qed

section \<open>The other operations\<close>

lemma foldl_min_start: "min (foldl (\<lambda>m r. min m (f r)) a xs) b = foldl (\<lambda>m r. min m (f r)) (min b a) xs"
  for a b :: int
  by (induction xs arbitrary: a) (simp_all add: min.assoc)

lemma foldl_max_start: "max (foldl (\<lambda>m r. max m (f r)) a xs) b = foldl (\<lambda>m r. max m (f r)) (max b a) xs"
  for a b :: int
  by (induction xs arbitrary: a) (simp_all add: max.assoc)

lemma min_start_existing:
  "min (case min_start rs of None \<Rightarrow> s | Some x \<Rightarrow> x) s = foldl (\<lambda>m r. min m (range_start r)) s rs"
  by (cases rs) (simp_all add: min_start_def foldl_map foldl_min_start)

lemma max_end_existing:
  "max (case max_end rs of None \<Rightarrow> e | Some x \<Rightarrow> x) e = foldl (\<lambda>m r. max m (range_end r)) e rs"
  by (cases rs) (simp_all add: max_end_def foldl_map foldl_max_start)

lemma record_historic_cases:
  assumes "record_historic_scanned_range start finish reason t = Inr t'" "scan_inv t"
  obtains (empty) "finish \<le> start" "t' = t"
  | (recorded) s e where "uint start < uint finish" "s \<le> uint start" "uint finish \<le> e" "e < 2 ^ 63"
      "\<And>r. r \<in> set (scan_rows t) \<Longrightarrow> row_priority r = SCAN_PRIORITY_HISTORIC \<Longrightarrow>
         s \<le> range_start r \<and> range_end r \<le> e"
      "insert_row s e SCAN_PRIORITY_HISTORIC Done reason
         (delete_rows (\<lambda>r. row_priority r = SCAN_PRIORITY_HISTORIC) t) = Inr t'"
proof (cases "finish \<le> start")
  case True
  with assms empty show ?thesis by (simp add: record_historic_scanned_range_def)
next
  case False
  let ?xs = "filter (\<lambda>r. row_priority r = SCAN_PRIORITY_HISTORIC) (scan_rows t)"
  let ?s = "foldl (\<lambda>m r. min m (range_start r)) (uint start) ?xs"
  let ?e = "foldl (\<lambda>m r. max m (range_end r)) (uint finish) ?xs"
  from False have lt: "uint start < uint finish" by (simp add: word_le_def)
  have "insert_row ?s ?e SCAN_PRIORITY_HISTORIC Done reason
      (delete_rows (\<lambda>r. row_priority r = SCAN_PRIORITY_HISTORIC) t) = Inr t'"
    and "uint finish < 2 ^ 63"
    using assms(1) False
    by (auto simp: record_historic_scanned_range_def bind_res_Inr_iff to_sql_i64_Inr_iff
        Let_def min_start_existing max_end_existing)
  then show ?thesis
    using scan_inv_row [OF assms(2)]
    by (intro recorded [of ?s ?e] lt)
      (auto intro!: foldl_min_le(1,2) foldl_max_ge(1,2) foldl_max_less)
qed

lemma record_historic_inv:
  assumes "scan_inv t" "record_historic_scanned_range start finish reason t = Inr t'"
  shows "scan_inv t'"
  using assms(2,1)
proof (cases rule: record_historic_cases)
  case (recorded s e)
  with scan_inv_delete [OF assms(1)] show ?thesis
    by (intro scan_inv_insert [OF _ recorded(6)]) auto
qed (use assms in simp)

lemma active_heights_update_done:
  "x \<in> active_heights p (update_status P Done t) \<longleftrightarrow>
     (\<exists>r \<in> set (scan_rows t). row_priority r = p \<and> row_status r \<noteq> Done \<and> \<not> P r \<and> x \<in> row_heights r)"
  by (auto simp: active_heights_iff update_status_def row_heights_def)

text \<open>The queue as a machine: every writing operation as one step.\<close>

datatype scan_op =
    QueueRange u64 u64 i64 "string option"
  | RecordHistoric u64 u64 "string option"
  | MarkInProgress i64
  | MarkDone i64
  | MarkFoundNoteDoneThrough u64
  | ClearAll
  | ClearFoundNote

fun scan_step :: "scan_op \<Rightarrow> scan_table \<Rightarrow> storage_error + scan_table" where
  "scan_step (QueueRange s e p reason) t = queue_range s e p reason t"
| "scan_step (RecordHistoric s e reason) t = record_historic_scanned_range s e reason t"
| "scan_step (MarkInProgress i) t = Inr (mark_in_progress i t)"
| "scan_step (MarkDone i) t = Inr (mark_done i t)"
| "scan_step (MarkFoundNoteDoneThrough e) t =
     bind_res (mark_found_note_done_through e t) (\<lambda>(t', _). Inr t')"
| "scan_step ClearAll t = Inr (clear_all t)"
| "scan_step ClearFoundNote t = Inr (clear_found_note_ranges t)"

lemma mark_through_Inr_iff:
  "mark_found_note_done_through e t = Inr (t', n) \<longleftrightarrow> uint e < 2 ^ 63 \<and>
     t' = update_status (done_through (uint e)) Done t \<and>
     n = length (filter (done_through (uint e)) (scan_rows t))"
  by (auto simp: mark_found_note_done_through_def bind_res_Inr_iff to_sql_i64_Inr_iff)

interpretation scan_machine: invariant_machine scan_step "\<lambda>_. True" scan_inv
proof
  fix t t' op
  assume "scan_inv t" "scan_step op t = Inr t'"
  then show "scan_inv t'"
    by (cases op)
      (auto simp: mark_in_progress_def mark_done_def clear_all_def clear_found_note_ranges_def
        bind_res_Inr_iff mark_through_Inr_iff
        intro: queue_range_inv record_historic_inv scan_inv_update scan_inv_delete)
qed

subsection \<open>Choosing the next range\<close>

lemma sort_key_two_head:
  assumes "sort_key f (sort_key g xs) = r # rest"
  shows "r \<in> set xs" "\<And>q. q \<in> set xs \<Longrightarrow> f r \<le> f q \<and> (f q = f r \<longrightarrow> g r \<le> g q)"
proof -
  have members: "set (r # rest) = set xs"
    using set_sort [of f "sort_key g xs"] by (simp only: assms set_sort)
  then show "r \<in> set xs" by auto
  fix q
  assume q: "q \<in> set xs"
  have first: "f r \<le> f q"
    using sorted_sort_key [of f "sort_key g xs"] q members by (auto simp: assms)
  have "filter (\<lambda>y. f y = f r) (r # rest) = filter (\<lambda>y. f y = f r) (sort_key g xs)"
    using sort_key_stable [of f "f r" "sort_key g xs"] by (simp only: assms)
  moreover have "sorted (map g (filter (\<lambda>y. f y = f r) (sort_key g xs)))"
    by (intro sorted_filter) simp
  ultimately have "sorted (map g (filter (\<lambda>y. f y = f r) (r # rest)))" by simp
  then have "\<forall>y \<in> set (filter (\<lambda>y. f y = f r) (r # rest)). g r \<le> g y" by auto
  with q members first show "f r \<le> f q \<and> (f q = f r \<longrightarrow> g r \<le> g q)" by auto
qed

lemma found_note_work_member:
  "r \<in> set (found_note_work t) \<longleftrightarrow> r \<in> set (scan_rows t) \<and>
     row_priority r = SCAN_PRIORITY_FOUND_NOTE \<and> row_status r \<noteq> Done"
  by (cases "row_status r") (auto simp: found_note_work_def)

lemma found_note_work_empty_iff:
  "scan_inv t \<Longrightarrow> found_note_work t = [] \<longleftrightarrow> active_heights SCAN_PRIORITY_FOUND_NOTE t = {}"
proof -
  assume inv: "scan_inv t"
  have "range_start r \<in> row_heights r" if "r \<in> set (scan_rows t)" for r
    using scan_inv_row [OF inv that] by (simp add: row_heights_def)
  then have "(\<exists>r. r \<in> set (found_note_work t)) \<longleftrightarrow> (\<exists>x. x \<in> active_heights SCAN_PRIORITY_FOUND_NOTE t)"
    unfolding active_heights_iff found_note_work_member by blast
  then show ?thesis by (metis all_not_in_conv list.set(1) set_empty2)
qed

lemma next_found_note_range_row:
  assumes "scan_inv t" "found_note_work t \<noteq> []"
  obtains r where "r \<in> set (found_note_work t)"
    "\<And>q. q \<in> set (found_note_work t) \<Longrightarrow> status_rank r \<le> status_rank q \<and>
       (status_rank q = status_rank r \<longrightarrow> range_start r \<le> range_start q)"
    "next_found_note_range t = Inr (Some \<lparr>sr_id = row_id r, sr_start = word_of_int (range_start r),
       sr_end = word_of_int (range_end r), sr_priority = row_priority r, sr_status = row_status r,
       sr_reason = row_reason r\<rparr>)"
proof -
  obtain r rest where sorted: "sort_key status_rank (sort_key range_start (found_note_work t)) = r # rest"
    using assms(2) by (metis list.exhaust set_empty2 set_sort)
  note head = sort_key_two_head [OF sorted]
  from head(1) have "r \<in> set (scan_rows t)" by (simp add: found_note_work_member)
  with scan_inv_row [OF assms(1)] have "0 \<le> range_start r" "0 \<le> range_end r" by fastforce+
  then have "next_found_note_range t = Inr (Some \<lparr>sr_id = row_id r, sr_start = word_of_int (range_start r),
       sr_end = word_of_int (range_end r), sr_priority = row_priority r, sr_status = row_status r,
       sr_reason = row_reason r\<rparr>)"
    by (simp add: next_found_note_range_def sorted row_u64_def u64_try_from_def)
  with head that show ?thesis by blast
qed

section \<open>The contract of the queue\<close>

text \<open>
  What the spendability component relies on: an accepted range is in the outstanding work, no
  outstanding work is lost, and a positive range below \<open>2^63\<close> is accepted.
\<close>

locale repair_queue =
  fixes enqueue :: "u64 \<Rightarrow> u64 \<Rightarrow> string option \<Rightarrow> 'q \<Rightarrow> storage_error + 'q"
    and work :: "'q \<Rightarrow> int set"
    and valid :: "'q \<Rightarrow> bool"
  assumes enqueue_valid: "\<lbrakk>valid q; enqueue start finish reason q = Inr q'\<rbrakk> \<Longrightarrow> valid q'"
    and enqueue_work: "\<lbrakk>valid q; enqueue start finish reason q = Inr q'\<rbrakk>
      \<Longrightarrow> work q' = work q \<union> {uint start..<uint finish}"
    and enqueue_accepts: "\<lbrakk>valid q; 0 < uint start; uint start < uint finish; uint finish < 2 ^ 63\<rbrakk>
      \<Longrightarrow> \<exists>q'. enqueue start finish reason q = Inr q'"
begin

text \<open>The range every repair request is clamped to before it is queued.\<close>

lemma clamped_request:
  fixes from_height range_end :: u64
  assumes "valid q"
  defines "s \<equiv> max from_height 1"
  defines "e \<equiv> max range_end (saturating_add s 1)"
  assumes "uint e < 2 ^ 63"
  shows "\<exists>q'. enqueue s e reason q = Inr q' \<and> valid q' \<and>
     work q' = work q \<union> {uint s..<uint e} \<and> uint s \<in> work q'"
proof -
  have "unat s = max (unat from_height) 1"
    "unat e = max (unat range_end) (min (unat s + 1) (2 ^ 64 - 1))"
    by (simp_all add: s_def e_def unat_ops)
  moreover have "unat e < 2 ^ 63"
    using assms(4) by (simp add: nat_less_iff flip: nat_uint_eq)
  ultimately have "0 < unat s" "unat s < unat e"
    by (auto simp: max_def min_def split: if_splits)
  then have "0 < uint s" "uint s < uint e"
    by (simp_all flip: nat_uint_eq)
  with enqueue_accepts [OF assms(1) _ _ assms(4)] obtain q' where q': "enqueue s e reason q = Inr q'"
    by blast
  with \<open>uint s < uint e\<close> show ?thesis
    using enqueue_valid [OF assms(1) q'] enqueue_work [OF assms(1) q'] by auto
qed

end

lemma queue_range_accepts:
  assumes inv: "scan_inv t" and range: "0 < uint start" "uint start < uint finish" "uint finish < 2 ^ 63"
  shows "\<exists>t'. queue_range start finish p reason t = Inr t'"
proof -
  let ?xs = "absorbed p (uint start) (uint finish) t"
  have "0 < foldl (\<lambda>m r. min m (range_start r)) (uint start) ?xs"
    using foldl_min_le(3) [where f = range_start and m = "uint start" and xs = ?xs] range(1)
      scan_inv_row [OF inv] by (auto simp: absorbed_member)
  moreover have "foldl (\<lambda>m r. min m (range_start r)) (uint start) ?xs <
      foldl (\<lambda>m r. max m (range_end r)) (uint finish) ?xs"
    using foldl_min_le(1) [where f = range_start and m = "uint start" and xs = ?xs]
      foldl_max_ge(1) [where f = range_end and m = "uint finish" and xs = ?xs] range(2) by linarith
  moreover have "\<not> finish \<le> start" "to_sql_i64 start = Inr (uint start)" "to_sql_i64 finish = Inr (uint finish)"
    using range by (auto simp: word_le_def to_sql_i64_Inr_iff)
  ultimately show ?thesis
    unfolding queue_range_def absorbed_def by (simp add: Let_def insert_row_def)
qed

interpretation found_note_queue: repair_queue queue_found_note_range
    "active_heights SCAN_PRIORITY_FOUND_NOTE" scan_inv
  unfolding queue_found_note_range_def
  by unfold_locales (auto intro: queue_range_inv queue_range_accepts simp: active_heights_queue_range)

section \<open>Properties\<close>

text \<open>
  Observation. From the empty table, whatever sequence of queue operations runs (queueing,
  recording a scanned range, starting, finishing, clearing, each possibly refused), the table
  keeps distinct ids, ranges that are positive, non-empty and below \<open>2^63\<close>, and pending rows
  of one priority that never overlap.
\<close>

lemma scan_queue_invariant: "scan_inv (run_ops scan_step ops empty_scan_table)"
  by (rule scan_machine.inv_run) (simp_all add: scan_inv_def empty_scan_table_def list_all_iff)

text \<open>
  Property C5. Queueing refines set union: a successful \<open>queue_range\<close> makes the outstanding
  heights of its priority exactly the old ones and the requested range (merging with pending
  rows and deferring to a covering in-progress row add and lose nothing), leaves every other
  priority alone, and leaves every in-progress and every done row as it is.
\<close>

theorem queue_range_refines_union:
  assumes "scan_inv t" "queue_range start finish p reason t = Inr t'"
  shows "active_heights p t' = active_heights p t \<union> {uint start..<uint finish} \<and>
    (\<forall>q. q \<noteq> p \<longrightarrow> active_heights q t' = active_heights q t) \<and>
    (\<forall>r \<in> set (scan_rows t). row_status r \<noteq> Pending \<longrightarrow> r \<in> set (scan_rows t'))"
proof (intro conjI allI ballI impI)
  show "active_heights p t' = active_heights p t \<union> {uint start..<uint finish}"
    using active_heights_queue_range [OF assms, of p] by simp
  show "active_heights q t' = active_heights q t" if "q \<noteq> p" for q
    using active_heights_queue_range [OF assms, of q] that by simp
  show "r \<in> set (scan_rows t')" if "r \<in> set (scan_rows t)" "row_status r \<noteq> Pending" for r
    using assms(2,1)
  proof (cases rule: queue_range_cases)
    case (queued s e)
    with that show ?thesis
      by (auto simp: insert_row_def delete_rows_def absorbed_member split: if_splits)
  qed (use that in auto)
qed

text \<open>A table with one pending and one in-progress repair row, for the witnesses.\<close>

definition example_queue :: scan_table where
  "example_queue = \<lparr>scan_rows =
     [\<lparr>row_id = 1, range_start = 10, range_end = 20, row_priority = 40, row_status = Pending,
        row_reason = None\<rparr>,
      \<lparr>row_id = 2, range_start = 30, range_end = 50, row_priority = 40, row_status = InProgress,
        row_reason = None\<rparr>], next_row_id = 3\<rparr>"

lemma example_queue_inv: "scan_inv example_queue"
  by (simp add: scan_inv_def example_queue_def)

theorem queue_range_refines_union_witness:
  "\<exists>t'. queue_range 15 35 40 None example_queue = Inr t' \<and>
     active_heights 40 t' = active_heights 40 example_queue \<union> {15..<35}"
proof -
  obtain t' where t': "queue_range 15 35 40 None example_queue = Inr t'"
    using queue_range_accepts [OF example_queue_inv, of 15 35] by auto
  show ?thesis
    using queue_range_refines_union [OF example_queue_inv t'] t' by auto
qed

text \<open>
  Observation. \<open>next_found_note_range\<close> never fails on a well-formed table and returns \<open>None\<close>
  exactly when no repair height is outstanding. Otherwise it returns a stored, unfinished
  repair row: an in-progress one if there is any, and the lowest start within its status.
\<close>

lemma next_found_note_range_correct:
  assumes "scan_inv t"
  shows "if active_heights SCAN_PRIORITY_FOUND_NOTE t = {} then next_found_note_range t = Inr None
     else \<exists>r \<in> set (found_note_work t). \<exists>row. next_found_note_range t = Inr (Some row) \<and>
        sr_id row = row_id r \<and> uint (sr_start row) = range_start r \<and> uint (sr_end row) = range_end r \<and>
        sr_status row = row_status r \<and>
        (row_status r = Pending \<longrightarrow> (\<forall>q \<in> set (found_note_work t). row_status q = Pending)) \<and>
        (\<forall>q \<in> set (found_note_work t). row_status q = row_status r \<longrightarrow> range_start r \<le> range_start q)"
proof (cases "found_note_work t = []")
  case True
  with found_note_work_empty_iff [OF assms] show ?thesis
    by (simp add: next_found_note_range_def)
next
  case False
  from next_found_note_range_row [OF assms this] obtain r where r: "r \<in> set (found_note_work t)"
    and min: "\<And>q. q \<in> set (found_note_work t) \<Longrightarrow> status_rank r \<le> status_rank q \<and>
       (status_rank q = status_rank r \<longrightarrow> range_start r \<le> range_start q)"
    and res: "next_found_note_range t = Inr (Some \<lparr>sr_id = row_id r,
       sr_start = word_of_int (range_start r), sr_end = word_of_int (range_end r),
       sr_priority = row_priority r, sr_status = row_status r, sr_reason = row_reason r\<rparr>)"
    by blast
  have bounds: "0 < range_start r" "range_start r < range_end r" "range_end r < 2 ^ 63"
    using scan_inv_row [OF assms] r by (auto simp: found_note_work_member)
  have "row_status q = Pending" if "row_status r = Pending" "q \<in> set (found_note_work t)" for q
    using min [OF that(2)] that
    by (cases "row_status q") (auto simp: status_rank_def found_note_work_member)
  moreover have "range_start r \<le> range_start q"
    if "q \<in> set (found_note_work t)" "row_status q = row_status r" for q
    using min [OF that(1)] that(2) by (simp add: status_rank_def)
  ultimately show ?thesis
    using False found_note_work_empty_iff [OF assms] bounds r res
    by (auto simp: uint_word_of_int intro!: bexI [of _ r])
qed

theorem next_found_note_range_correct_witness:
  "\<exists>row. next_found_note_range example_queue = Inr (Some row) \<and> sr_status row = InProgress"
proof -
  have "30 \<in> active_heights SCAN_PRIORITY_FOUND_NOTE example_queue"
    by (simp add: active_heights_iff example_queue_def SCAN_PRIORITY_FOUND_NOTE_def row_heights_def)
  then have "active_heights SCAN_PRIORITY_FOUND_NOTE example_queue \<noteq> {}" by blast
  with next_found_note_range_correct [OF example_queue_inv] show ?thesis
    by (auto simp: found_note_work_def example_queue_def SCAN_PRIORITY_FOUND_NOTE_def)
qed

text \<open>
  Observation. Retiring repairs by height never drops work that was not started: after
  \<open>mark_found_note_done_through\<close> the rows keep their order and count, a row changes only by
  becoming done, exactly the in-progress repair rows that end at or below the height do, and
  the returned number counts them; so every height of a pending repair stays outstanding.
\<close>

lemma found_note_done_through_correct:
  assumes "mark_found_note_done_through e t = Inr (t', n)"
  shows "scan_rows t' = map (\<lambda>r. if row_priority r = SCAN_PRIORITY_FOUND_NOTE \<and>
        row_status r = InProgress \<and> range_end r \<le> uint e then r\<lparr>row_status := Done\<rparr> else r) (scan_rows t) \<and>
    n = card {i. i < length (scan_rows t) \<and> scan_rows t' ! i \<noteq> scan_rows t ! i} \<and>
    (\<forall>r \<in> set (scan_rows t). row_status r = Pending \<longrightarrow> row_heights r \<subseteq> active_heights (row_priority r) t')"
proof -
  have t': "t' = update_status (done_through (uint e)) Done t"
    and n: "n = length (filter (done_through (uint e)) (scan_rows t))"
    using assms by (simp_all add: mark_through_Inr_iff)
  have "r\<lparr>row_status := Done\<rparr> \<noteq> r" if "done_through (uint e) r" for r
    using that by (metis done_through_def scan_row.select_convs(5) scan_row.surjective
        scan_row.update_convs(5) scan_status.distinct(5))
  then have "{i. i < length (scan_rows t) \<and> scan_rows t' ! i \<noteq> scan_rows t ! i} =
      {i. i < length (scan_rows t) \<and> done_through (uint e) (scan_rows t ! i)}"
    by (intro Collect_cong) (auto simp: t' update_status_def split: if_splits)
  moreover have "row_heights r \<subseteq> active_heights (row_priority r) t'"
    if "r \<in> set (scan_rows t)" "row_status r = Pending" for r
    using that by (auto simp: t' active_heights_update_done done_through_def intro!: bexI [of _ r])
  ultimately show ?thesis
    by (simp add: n length_filter_conv_card) (simp add: t' update_status_def done_through_def)
qed

theorem found_note_done_through_correct_witness:
  "\<exists>t'. mark_found_note_done_through 60 example_queue = Inr (t', 1) \<and>
     {10..<20} \<subseteq> active_heights 40 t'"
proof -
  obtain t' n where t': "mark_found_note_done_through 60 example_queue = Inr (t', n)"
    by (simp add: mark_through_Inr_iff)
  have "n = 1"
    using t' by (simp add: mark_through_Inr_iff example_queue_def done_through_def
        SCAN_PRIORITY_FOUND_NOTE_def)
  moreover have "{10..<20} \<subseteq> active_heights 40 t'"
    using found_note_done_through_correct [OF t']
    by (simp add: example_queue_def row_heights_def)
  ultimately show ?thesis using t' by auto
qed

end
