(* ===== verification/Spendability.thy ===== *)
theory Spendability
  imports ScanQueue
begin

text \<open>
  Spendability (\<open>spendability_state.rs\<close> of the storage crate, the status and gate of
  \<open>sync_control.rs\<close>, the witness check and the post-scan update of \<open>sync.rs\<close>): the single
  row that says whether the wallet may spend, the gates that close it (a required rescan, a
  replay owed to an imported key, a queued witness repair, an interrupted sync), and the
  anchor heights it is decided on.

  The row is kept as its SQL columns (\<open>i64\<close>, booleans as 0/1) since the updates are SQL
  expressions over them; \<open>load_state\<close> reads it back at the Rust types. The row may be absent,
  in which case an \<open>UPDATE\<close> changes nothing and a load gives the default. \<open>queue_repair\<close> and
  \<open>queue_repair_range\<close> are not atomic (the gate is written before the queue), so they return
  the database together with their result.
\<close>

section \<open>State\<close>

record spend_row =
  c_spendable :: i64
  c_rescan_required :: i64
  c_required_from :: i64
  c_generation :: i64
  c_target :: i64
  c_anchor :: i64
  c_validated :: i64
  c_repair_queued :: i64
  c_repair_from :: i64
  c_reason :: string
  c_interrupted :: i64

record spend_db =
  spend_state :: "spend_row option"
  queue_table :: scan_table
  sapling_checkpoints :: "i64 list"
  orchard_checkpoints :: "i64 list"
  account_birthdays :: "(i64 \<times> i64) list"

record spendability_state_row =
  ss_spendable :: bool
  ss_rescan_required :: bool
  required_rescan_from_height :: u64
  key_import_generation :: u64
  ss_target_height :: u64
  ss_anchor_height :: u64
  ss_validated_anchor_height :: u64
  ss_repair_queued :: bool
  repair_from_height :: u64
  sync_interrupted :: bool
  ss_reason_code :: string

definition default_state :: spendability_state_row where
  "default_state = \<lparr>ss_spendable = False, ss_rescan_required = True,
     required_rescan_from_height = 0, key_import_generation = 0, ss_target_height = 0,
     ss_anchor_height = 0, ss_validated_anchor_height = 0, ss_repair_queued = False,
     repair_from_height = 0, sync_interrupted = False,
     ss_reason_code = ''ERR_RESCAN_REQUIRED''\<rparr>"

text \<open>The row the schema inserts.\<close>

definition initial_row :: spend_row where
  "initial_row = \<lparr>c_spendable = 0, c_rescan_required = 1, c_required_from = 0, c_generation = 0,
     c_target = 0, c_anchor = 0, c_validated = 0, c_repair_queued = 0, c_repair_from = 0,
     c_reason = ''ERR_RESCAN_REQUIRED'', c_interrupted = 0\<rparr>"

definition load_row :: "spend_row \<Rightarrow> storage_error + spendability_state_row" where
  "load_row r =
     bind_res (row_u64 2 (c_required_from r)) (\<lambda>required.
     bind_res (row_u64 3 (c_generation r)) (\<lambda>generation.
     bind_res (row_u64 4 (c_target r)) (\<lambda>target.
     bind_res (row_u64 5 (c_anchor r)) (\<lambda>anchor.
     bind_res (row_u64 6 (c_validated r)) (\<lambda>validated.
     bind_res (row_u64 8 (c_repair_from r)) (\<lambda>repair.
       Inr \<lparr>ss_spendable = (c_spendable r \<noteq> 0), ss_rescan_required = (c_rescan_required r \<noteq> 0),
         required_rescan_from_height = required, key_import_generation = generation,
         ss_target_height = target, ss_anchor_height = anchor,
         ss_validated_anchor_height = validated, ss_repair_queued = (c_repair_queued r \<noteq> 0),
         repair_from_height = repair, sync_interrupted = (c_interrupted r \<noteq> 0),
         ss_reason_code = c_reason r\<rparr>))))))"

definition load_state :: "spend_db \<Rightarrow> storage_error + spendability_state_row" where
  "load_state db = (case spend_state db of None \<Rightarrow> Inr default_state | Some r \<Rightarrow> load_row r)"

text \<open>\<open>load_state().unwrap_or_default()\<close>.\<close>

definition load_state_or_default :: "spend_db \<Rightarrow> spendability_state_row" where
  "load_state_or_default db = (case load_state db of Inl _ \<Rightarrow> default_state | Inr s \<Rightarrow> s)"

section \<open>Anchor heights\<close>

definition birthday_height_for_account :: "i64 \<Rightarrow> spend_db \<Rightarrow> storage_error + u64" where
  "birthday_height_for_account account db =
     (case map (\<lambda>(_, b). if 0 < b then b else 1) (filter (\<lambda>(a, _). a = account) (account_birthdays db)) of
        [] \<Rightarrow> Inr 0
      | b # bs \<Rightarrow> (let m = foldl min b bs in
          ok_or (u64_try_from m) (SStorage (Msg ''birthday_height out of range: {}'' [m]))))"

definition scan_queue_extrema :: "spend_db \<Rightarrow> storage_error + (u64 \<times> u64) option" where
  "scan_queue_extrema db =
     (let historic = filter (\<lambda>r. row_priority r = SCAN_PRIORITY_HISTORIC) (scan_rows (queue_table db))
      in case (min_start historic, max_end historic) of
           (Some s, Some e) \<Rightarrow>
             bind_res (ok_or (u64_try_from s) (SStorage (Msg ''scan_queue.range_start out of range: {}'' [s]))) (\<lambda>range_start.
             bind_res (ok_or (u64_try_from e) (SStorage (Msg ''scan_queue.range_end out of range: {}'' [e]))) (\<lambda>range_end.
               Inr (if range_start < range_end
                    then Some (max range_start 1, saturating_sub range_end 1) else None)))
         | _ \<Rightarrow> Inr None)"

text \<open>\<open>SELECT MAX(checkpoint_id)\<close> between the bounds, for one checkpoint table.\<close>

definition snap_to_checkpoint_for_table :: "i64 list \<Rightarrow> u64 \<Rightarrow> u64 \<Rightarrow> u64 option" where
  "snap_to_checkpoint_for_table ids ceiling floor =
     (case u32_try_from ceiling of
        None \<Rightarrow> None
      | Some c \<Rightarrow>
          let f = (case u32_try_from floor of None \<Rightarrow> 0 | Some f \<Rightarrow> f)
          in case filter (\<lambda>i. i \<le> uint c \<and> uint f \<le> i) ids of
               [] \<Rightarrow> None
             | i # is \<Rightarrow> Some (u64_from_u32 (word_of_int (foldl max i is))))"

definition snap_to_checkpoint :: "u64 \<Rightarrow> u64 \<Rightarrow> spend_db \<Rightarrow> u64 option" where
  "snap_to_checkpoint ceiling floor db =
     (case (snap_to_checkpoint_for_table (sapling_checkpoints db) ceiling floor,
            snap_to_checkpoint_for_table (orchard_checkpoints db) ceiling floor) of
        (Some s, Some orch) \<Rightarrow> Some (min s orch)
      | (Some s, None) \<Rightarrow> Some s
      | (None, Some orch) \<Rightarrow> Some orch
      | (None, None) \<Rightarrow> None)"

definition get_target_and_anchor_heights_for_account_opt ::
    "u32 \<Rightarrow> i64 option \<Rightarrow> spend_db \<Rightarrow> storage_error + (u64 \<times> u64) option" where
  "get_target_and_anchor_heights_for_account_opt min_conf account db =
     (let min_confirmations = u64_from_u32 (max min_conf 1)
      in bind_res (scan_queue_extrema db) (\<lambda>ext. case ext of
           None \<Rightarrow> Inr None
         | Some (min_height, max_height) \<Rightarrow>
             let target_height = saturating_add max_height 1
             in bind_res (case account of
                    None \<Rightarrow> Inr (max min_height 1)
                  | Some a \<Rightarrow> bind_res (birthday_height_for_account a db) (\<lambda>b.
                      Inr (max (max min_height 1) (max b 1)))) (\<lambda>anchor_floor.
                let ideal_anchor = max (saturating_sub target_height min_confirmations) anchor_floor
                in if target_height < ideal_anchor then Inr None
                   else let anchor_height =
                          (case snap_to_checkpoint ideal_anchor anchor_floor db of
                             None \<Rightarrow> ideal_anchor | Some h \<Rightarrow> h)
                        in if target_height < anchor_height then Inr None
                           else Inr (Some (target_height, anchor_height)))))"

definition get_target_and_anchor_heights ::
    "u32 \<Rightarrow> spend_db \<Rightarrow> storage_error + (u64 \<times> u64) option" where
  "get_target_and_anchor_heights min_conf db =
     get_target_and_anchor_heights_for_account_opt min_conf None db"

definition get_target_and_anchor_heights_for_account ::
    "u32 \<Rightarrow> i64 \<Rightarrow> spend_db \<Rightarrow> storage_error + (u64 \<times> u64) option" where
  "get_target_and_anchor_heights_for_account min_conf account db =
     get_target_and_anchor_heights_for_account_opt min_conf (Some account) db"

record per_pool_anchor_heights =
  pp_target_height :: u64
  sapling_anchor_height :: u64
  ironwood_anchor_height :: u64
  conservative_anchor_height :: u64

definition get_target_and_anchor_heights_by_pool_for_account ::
    "u32 \<Rightarrow> i64 \<Rightarrow> spend_db \<Rightarrow> storage_error + per_pool_anchor_heights option" where
  "get_target_and_anchor_heights_by_pool_for_account min_conf account db =
     (let min_confirmations = u64_from_u32 (max min_conf 1)
      in bind_res (scan_queue_extrema db) (\<lambda>ext. case ext of
           None \<Rightarrow> Inr None
         | Some (min_height, max_height) \<Rightarrow>
             let target_height = saturating_add max_height 1
             in bind_res (birthday_height_for_account account db) (\<lambda>b.
                let anchor_floor = max (max min_height 1) (max b 1);
                    ideal_anchor = max (saturating_sub target_height min_confirmations) anchor_floor
                in if target_height < ideal_anchor then Inr None
                   else let sapling = (case snap_to_checkpoint_for_table (sapling_checkpoints db) ideal_anchor anchor_floor of
                              None \<Rightarrow> ideal_anchor | Some h \<Rightarrow> h);
                            ironwood = (case snap_to_checkpoint_for_table (orchard_checkpoints db) ideal_anchor anchor_floor of
                              None \<Rightarrow> ideal_anchor | Some h \<Rightarrow> h)
                        in Inr (Some \<lparr>pp_target_height = target_height, sapling_anchor_height = sapling,
                             ironwood_anchor_height = ironwood,
                             conservative_anchor_height = min sapling ironwood\<rparr>))))"

section \<open>Transitions\<close>

text \<open>\<open>UPDATE spendability_state SET ... WHERE id = 1\<close>.\<close>

definition update_row :: "(spend_row \<Rightarrow> spend_row) \<Rightarrow> spend_db \<Rightarrow> spend_db" where
  "update_row f db = db\<lparr>spend_state := map_option f (spend_state db)\<rparr>"

definition save_state :: "spendability_state_row \<Rightarrow> spend_db \<Rightarrow> storage_error + spend_db" where
  "save_state st db =
     bind_res (to_sql_i64 (ss_target_height st)) (\<lambda>target.
     bind_res (to_sql_i64 (ss_anchor_height st)) (\<lambda>anchor.
     bind_res (to_sql_i64 (ss_validated_anchor_height st)) (\<lambda>validated.
     bind_res (to_sql_i64 (repair_from_height st)) (\<lambda>repair.
     bind_res (to_sql_i64 (required_rescan_from_height st)) (\<lambda>required.
     bind_res (to_sql_i64 (key_import_generation st)) (\<lambda>generation.
       Inr (update_row (\<lambda>_. \<lparr>c_spendable = bool_to_int (ss_spendable st),
         c_rescan_required = bool_to_int (ss_rescan_required st), c_required_from = required,
         c_generation = generation, c_target = target, c_anchor = anchor, c_validated = validated,
         c_repair_queued = bool_to_int (ss_repair_queued st), c_repair_from = repair,
         c_reason = ss_reason_code st, c_interrupted = bool_to_int (sync_interrupted st)\<rparr>) db)))))))"

definition record_known_sync_height :: "u64 \<Rightarrow> spend_db \<Rightarrow> storage_error + spend_db" where
  "record_known_sync_height height db =
     (if height = 0 then Inr db
      else bind_res (to_sql_i64 height) (\<lambda>h. Inr (update_row (\<lambda>r. r\<lparr>
        c_target := (if c_target r > h then c_target r else h),
        c_anchor := (if c_anchor r = 0 then h else c_anchor r)\<rparr>) db)))"

definition begin_rescan :: "u64 \<Rightarrow> u64 \<Rightarrow> string \<Rightarrow> spend_db \<Rightarrow> storage_error + spend_db" where
  "begin_rescan target_height anchor_height reason_code db =
     bind_res (to_sql_i64 target_height) (\<lambda>t. bind_res (to_sql_i64 anchor_height) (\<lambda>a.
       Inr (update_row (\<lambda>r. r\<lparr>
         c_spendable := 0,
         c_rescan_required := 1,
         c_target := (if c_target r > t then c_target r else t),
         c_anchor := a,
         c_repair_queued := 0,
         c_repair_from := 0,
         c_interrupted := 0,
         c_reason := (if c_required_from r > 0 then c_reason r else reason_code)\<rparr>) db)))"

definition mark_sync_interrupted :: "spend_db \<Rightarrow> spend_db" where
  "mark_sync_interrupted = update_row (\<lambda>r. r\<lparr>
     c_spendable := 0,
     c_interrupted := 1,
     c_reason := (if c_rescan_required r = 0 \<and> c_required_from r = 0 \<and> c_repair_queued r = 0
       then ''ERR_SYNC_FINALIZING'' else c_reason r)\<rparr>)"

definition mark_rescan_required :: "string \<Rightarrow> spend_db \<Rightarrow> spend_db" where
  "mark_rescan_required reason_code = update_row (\<lambda>r. r\<lparr>
     c_spendable := 0,
     c_rescan_required := 1,
     c_repair_queued := 0,
     c_repair_from := 0,
     c_reason := reason_code\<rparr>)"

text \<open>The \<open>WHERE\<close> clause of \<open>complete_required_rescan\<close>, and the update itself.\<close>

definition replay_eligible :: "i64 \<Rightarrow> i64 \<Rightarrow> spend_row \<Rightarrow> bool" where
  "replay_eligible generation replayed_from r \<longleftrightarrow> c_rescan_required r \<noteq> 0 \<and> c_required_from r > 0 \<and>
     c_generation r = generation \<and> replayed_from \<le> c_required_from r"

definition discharge_replay :: "spend_row \<Rightarrow> spend_row" where
  "discharge_replay r = r\<lparr>
     c_spendable := (if c_repair_queued r = 0 \<and> c_anchor r > 0 \<and> c_validated r \<ge> c_anchor r then 1 else 0),
     c_rescan_required := 0,
     c_required_from := 0,
     c_reason := (if c_repair_queued r \<noteq> 0 then ''ERR_WITNESS_REPAIR_QUEUED''
       else if c_anchor r > 0 \<and> c_validated r \<ge> c_anchor r then ''OK'' else ''ERR_SYNC_FINALIZING'')\<rparr>"

definition complete_required_rescan :: "u64 \<Rightarrow> u64 \<Rightarrow> spend_db \<Rightarrow> storage_error + spend_db \<times> bool" where
  "complete_required_rescan expected_generation replayed_from_height db =
     bind_res (to_sql_i64 expected_generation) (\<lambda>g. bind_res (to_sql_i64 replayed_from_height) (\<lambda>h.
       Inr (update_row (\<lambda>r. if replay_eligible g h r then discharge_replay r else r) db,
         (case spend_state db of None \<Rightarrow> False | Some r \<Rightarrow> replay_eligible g h r))))"

definition mark_sync_finalizing :: "u64 \<Rightarrow> u64 \<Rightarrow> spend_db \<Rightarrow> storage_error + spend_db" where
  "mark_sync_finalizing target_height anchor_height db =
     bind_res (to_sql_i64 target_height) (\<lambda>t. bind_res (to_sql_i64 anchor_height) (\<lambda>a.
       Inr (update_row (\<lambda>r. r\<lparr>
         c_spendable := 0,
         c_rescan_required := (if c_required_from r > 0 then 1 else 0),
         c_target := t,
         c_anchor := a,
         c_reason := (if c_required_from r > 0 then c_reason r
           else if c_repair_queued r \<noteq> 0 then ''ERR_WITNESS_REPAIR_QUEUED''
           else ''ERR_SYNC_FINALIZING'')\<rparr>) db)))"

definition mark_validated :: "u64 \<Rightarrow> u64 \<Rightarrow> spend_db \<Rightarrow> storage_error + spend_db" where
  "mark_validated target_height anchor_height db =
     bind_res (to_sql_i64 target_height) (\<lambda>t. bind_res (to_sql_i64 anchor_height) (\<lambda>a.
       Inr (update_row (\<lambda>r. r\<lparr>
         c_spendable := (if c_required_from r > 0 then 0 else 1),
         c_rescan_required := (if c_required_from r > 0 then 1 else 0),
         c_target := t,
         c_anchor := a,
         c_validated := a,
         c_repair_queued := 0,
         c_repair_from := 0,
         c_interrupted := 0,
         c_reason := (if c_required_from r > 0 then c_reason r else ''OK'')\<rparr>) db)))"

text \<open>The update \<open>queue_repair_range\<close> and \<open>mark_repair_pending_without_enqueue\<close> share.\<close>

definition gate_repair :: "i64 \<Rightarrow> string \<Rightarrow> spend_row \<Rightarrow> spend_row" where
  "gate_repair from_height reason_code r = r\<lparr>
     c_spendable := 0,
     c_rescan_required := (if c_required_from r > 0 then 1 else 0),
     c_repair_queued := 1,
     c_repair_from := (if c_repair_from r > 0 \<and> c_repair_from r < from_height
       then c_repair_from r else from_height),
     c_reason := (if c_required_from r > 0 then c_reason r else reason_code)\<rparr>"

definition queue_repair_range ::
    "u64 \<Rightarrow> u64 \<Rightarrow> string \<Rightarrow> spend_db \<Rightarrow> spend_db \<times> (storage_error + unit)" where
  "queue_repair_range from_height range_end_exclusive reason_code db =
     (let queue_start = max from_height 1;
          queue_end = max range_end_exclusive (saturating_add queue_start 1)
      in case to_sql_i64 queue_start of
           Inl e \<Rightarrow> (db, Inl e)
         | Inr f \<Rightarrow>
             let db' = update_row (gate_repair f reason_code) db
             in case queue_found_note_range queue_start queue_end (Some reason_code) (queue_table db') of
                  Inl e \<Rightarrow> (db', Inl e)
                | Inr q \<Rightarrow> (db'\<lparr>queue_table := q\<rparr>, Inr ()))"

definition queue_repair :: "u64 \<Rightarrow> string \<Rightarrow> spend_db \<Rightarrow> spend_db \<times> (storage_error + unit)" where
  "queue_repair from_height reason_code db =
     (let queue_start = max from_height 1;
          previous_state = load_state_or_default db
      in case scan_queue_extrema db of
           Inl e \<Rightarrow> (db, Inl e)
         | Inr ext \<Rightarrow>
             let queue_extrema_end = (case ext of None \<Rightarrow> 0 | Some (_, mx) \<Rightarrow> saturating_add mx 1);
                 queue_end = max (max (saturating_add
                     (max (ss_target_height previous_state) (ss_anchor_height previous_state)) 1)
                   queue_extrema_end) (saturating_add queue_start 1)
             in queue_repair_range queue_start queue_end reason_code db)"

definition mark_repair_pending_without_enqueue ::
    "u64 \<Rightarrow> string \<Rightarrow> spend_db \<Rightarrow> storage_error + spend_db" where
  "mark_repair_pending_without_enqueue from_height reason_code db =
     bind_res (to_sql_i64 (max from_height 1)) (\<lambda>f. Inr (update_row (gate_repair f reason_code) db))"

subsection \<open>Updates of the row by other components\<close>

text \<open>
  Importing a spending key (\<open>import_spending_key_with_rescan\<close> and its siblings in
  \<open>repository.rs\<close>): the birthday guard and the update of the row; a missing row is an error.
\<close>

definition import_requires_rescan :: "i64 \<Rightarrow> string \<Rightarrow> spend_db \<Rightarrow> storage_error + spend_db" where
  "import_requires_rescan birthday reason_code db =
     (if birthday \<le> 0 then Inl (Validation (Msg ''Invalid spending-key import metadata'' []))
      else if spend_state db = None then Inl (SStorage (Msg ''Spendability state row is unavailable'' []))
      else Inr (update_row (\<lambda>r. r\<lparr>
        c_spendable := 0,
        c_rescan_required := 1,
        c_required_from := (if c_required_from r > 0 \<and> c_required_from r < birthday
          then c_required_from r else birthday),
        c_generation := c_generation r + 1,
        c_repair_queued := 0,
        c_repair_from := 0,
        c_reason := reason_code\<rparr>) db))"

text \<open>The recovery latch of the note-birthday correction (\<open>repository/birthday.rs\<close>).\<close>

definition latch_birthday_repair :: "i64 \<Rightarrow> spend_db \<Rightarrow> storage_error + spend_db" where
  "latch_birthday_repair from_height db =
     (if spend_state db = None then Inl (SStorage (Msg ''Spendability state row is unavailable'' []))
      else Inr (update_row (\<lambda>r. r\<lparr>
        c_spendable := 0,
        c_repair_queued := 1,
        c_repair_from := (if c_repair_from r > 0 \<and> c_repair_from r < from_height
          then c_repair_from r else from_height),
        c_reason := (if c_rescan_required r = 1 \<or> c_required_from r > 0
          then c_reason r else ''ERR_WITNESS_REPAIR_QUEUED'')\<rparr>) db))"

text \<open>What a chain truncation does to the row (\<open>truncate_above_height\<close> of \<open>sync_state.rs\<close>).\<close>

definition truncate_spendability :: "i64 \<Rightarrow> spend_db \<Rightarrow> spend_db" where
  "truncate_spendability height = update_row (\<lambda>r. r\<lparr>
     c_spendable := 0,
     c_target := (if c_rescan_required r \<noteq> 0 then c_target r
       else if c_target r > height then height else c_target r),
     c_anchor := (if c_anchor r > height then height else c_anchor r),
     c_validated := (if c_validated r > height then height else c_validated r),
     c_repair_queued := 0,
     c_repair_from := 0,
     c_reason := (if c_rescan_required r \<noteq> 0 then c_reason r else ''ERR_SYNC_FINALIZING'')\<rparr>)"

section \<open>The public status and the spending gate\<close>

record spendability_status =
  st_spendable :: bool
  st_rescan_required :: bool
  st_target_height :: u64
  st_anchor_height :: u64
  st_validated_anchor_height :: u64
  st_repair_queued :: bool
  st_reason_code :: string

definition load_spendability_status_internal :: "spend_db \<Rightarrow> storage_error + spendability_status" where
  "load_spendability_status_internal db =
     bind_res (load_state db) (\<lambda>state.
     bind_res (next_found_note_range (queue_table db)) (\<lambda>next.
       let queue_has_work = (next \<noteq> None);
           repair_pending = (ss_repair_queued state \<or> queue_has_work);
           interrupted = sync_interrupted state;
           epoch_ok = (ss_anchor_height state \<noteq> 0 \<and>
             ss_anchor_height state \<le> ss_validated_anchor_height state);
           spendable = (\<not> ss_rescan_required state \<and> \<not> repair_pending \<and> \<not> interrupted \<and> epoch_ok);
           reason_code = (if ss_rescan_required state then ''ERR_RESCAN_REQUIRED''
             else if repair_pending then ''ERR_WITNESS_REPAIR_QUEUED''
             else if interrupted then ''ERR_SYNC_FINALIZING''
             else if spendable then ''OK''
             else ''ERR_SYNC_FINALIZING'')
       in Inr \<lparr>st_spendable = spendable, st_rescan_required = ss_rescan_required state,
            st_target_height = ss_target_height state, st_anchor_height = ss_anchor_height state,
            st_validated_anchor_height = ss_validated_anchor_height state,
            st_repair_queued = repair_pending, st_reason_code = reason_code\<rparr>))"

datatype gate_error = GateStorage storage_error | GateClosed string string

definition require_spendability_ready :: "spend_db \<Rightarrow> gate_error + spendability_status" where
  "require_spendability_ready db =
     (case load_spendability_status_internal db of
        Inl e \<Rightarrow> Inl (GateStorage e)
      | Inr st \<Rightarrow>
          if st_rescan_required st then Inl (GateClosed ''ERR_RESCAN_REQUIRED''
            ''Wallet requires a full rescan before spending.'')
          else if st_repair_queued st then Inl (GateClosed ''ERR_WITNESS_REPAIR_QUEUED''
            ''Witness repair is queued. Let sync complete and retry.'')
          else if \<not> st_spendable st then Inl (GateClosed ''ERR_SYNC_FINALIZING''
            ''Wallet spend anchor is not available yet. Let sync complete and retry.'')
          else Inr st)"

section \<open>The transitions as a machine\<close>

datatype spend_op =
    RecordKnown u64
  | BeginRescan u64 u64 string
  | SyncInterrupted
  | RescanRequired string
  | CompleteRequired u64 u64
  | SyncFinalizing u64 u64
  | Validated u64 u64
  | QueueRepair u64 string
  | QueueRepairRange u64 u64 string
  | RepairPending u64 string
  | ImportKey i64 string
  | BirthdayRepair i64
  | Truncate u64
  | QueueOp scan_op

fun spend_step :: "spend_op \<Rightarrow> spend_db \<Rightarrow> storage_error + spend_db" where
  "spend_step (RecordKnown h) db = record_known_sync_height h db"
| "spend_step (BeginRescan t a reason) db = begin_rescan t a reason db"
| "spend_step SyncInterrupted db = Inr (mark_sync_interrupted db)"
| "spend_step (RescanRequired reason) db = Inr (mark_rescan_required reason db)"
| "spend_step (CompleteRequired g h) db = bind_res (complete_required_rescan g h db) (\<lambda>(db', _). Inr db')"
| "spend_step (SyncFinalizing t a) db = mark_sync_finalizing t a db"
| "spend_step (Validated t a) db = mark_validated t a db"
| "spend_step (QueueRepair f reason) db = Inr (fst (queue_repair f reason db))"
| "spend_step (QueueRepairRange f e reason) db = Inr (fst (queue_repair_range f e reason db))"
| "spend_step (RepairPending f reason) db = mark_repair_pending_without_enqueue f reason db"
| "spend_step (ImportKey b reason) db = import_requires_rescan b reason db"
| "spend_step (BirthdayRepair f) db = latch_birthday_repair f db"
| "spend_step (Truncate h) db = bind_res (sync_to_sql_i64 h) (\<lambda>k. Inr (truncate_spendability k db))"
| "spend_step (QueueOp op) db = bind_res (scan_step op (queue_table db)) (\<lambda>q. Inr (db\<lparr>queue_table := q\<rparr>))"

lemmas spend_op_defs = record_known_sync_height_def begin_rescan_def mark_sync_interrupted_def
  mark_rescan_required_def complete_required_rescan_def mark_sync_finalizing_def mark_validated_def
  mark_repair_pending_without_enqueue_def import_requires_rescan_def latch_birthday_repair_def
  truncate_spendability_def

text \<open>A predicate on the row that every transition keeps; an absent row has none.\<close>

definition on_row :: "(spend_row \<Rightarrow> bool) \<Rightarrow> spend_db \<Rightarrow> bool" where
  "on_row P db = (case spend_state db of None \<Rightarrow> False | Some r \<Rightarrow> P r)"

lemma on_row_update [simp]: "on_row P (update_row f db) = on_row (\<lambda>r. P (f r)) db"
  by (simp add: on_row_def update_row_def split: option.split)

lemma on_row_queue [simp]: "on_row P (db\<lparr>queue_table := q\<rparr>) = on_row P db"
  by (simp add: on_row_def)

lemma on_row_mono: "on_row P db \<Longrightarrow> (\<And>r. P r \<Longrightarrow> Q r) \<Longrightarrow> on_row Q db"
  by (auto simp: on_row_def split: option.splits)

lemma update_row_queue [simp]: "queue_table (update_row f db) = queue_table db"
  by (simp add: update_row_def)

lemma queue_repair_range_row:
  assumes "on_row P db"
    and "\<And>k r. \<lbrakk>P r; k = max (uint from_height) 1; k < 2 ^ 63\<rbrakk> \<Longrightarrow> P (gate_repair k reason r)"
  shows "on_row P (fst (queue_repair_range from_height e reason db))"
proof -
  have "uint (max from_height 1) = max (uint from_height) 1"
    by (simp add: max_def word_le_def)
  then show ?thesis
    using assms
    by (auto simp: queue_repair_range_def Let_def to_sql_i64_Inr_iff split: sum.split elim!: on_row_mono)
qed

lemma queue_repair_row:
  assumes "on_row P db"
    and "\<And>k r. \<lbrakk>P r; 0 < k; k < 2 ^ 63\<rbrakk> \<Longrightarrow> P (gate_repair k reason r)"
  shows "on_row P (fst (queue_repair from_height reason db))"
  using assms by (auto simp: queue_repair_def Let_def split: sum.split intro!: queue_repair_range_row)

lemmas spend_step_simps = spend_op_defs bind_res_Inr_iff to_sql_i64_Inr_iff sync_to_sql_i64_Inr_iff

subsection \<open>Readable rows\<close>

text \<open>The table's constraints: heights are never negative, flags are 0 or 1.\<close>

definition wf_row :: "spend_row \<Rightarrow> bool" where
  "wf_row r \<longleftrightarrow> c_required_from r \<in> {0..<2 ^ 63} \<and> 0 \<le> c_generation r \<and> c_target r \<in> {0..<2 ^ 63} \<and>
     c_anchor r \<in> {0..<2 ^ 63} \<and> c_validated r \<in> {0..<2 ^ 63} \<and> c_repair_from r \<in> {0..<2 ^ 63} \<and>
     c_spendable r \<in> {0, 1} \<and> c_rescan_required r \<in> {0, 1} \<and> c_repair_queued r \<in> {0, 1} \<and>
     c_interrupted r \<in> {0, 1}"

definition spend_inv :: "spend_db \<Rightarrow> bool" where
  "spend_inv db \<longleftrightarrow> on_row wf_row db \<and> scan_inv (queue_table db)"

text \<open>A birthday is a 64-bit column; the correction latches a positive height.\<close>

fun op_in_range :: "spend_op \<Rightarrow> bool" where
  "op_in_range (ImportKey b _) = (b < 2 ^ 63)"
| "op_in_range (BirthdayRepair f) = (0 < f \<and> f < 2 ^ 63)"
| "op_in_range _ = True"

lemma wf_gate_repair: "wf_row r \<Longrightarrow> 0 < k \<Longrightarrow> k < 2 ^ 63 \<Longrightarrow> wf_row (gate_repair k reason r)"
  by (auto simp: wf_row_def gate_repair_def)

lemma wf_row_step:
  assumes "on_row wf_row db" "op_in_range op" "spend_step op db = Inr db'"
  shows "on_row wf_row db'"
proof (cases op)
  case (QueueRepair f reason)
  with assms show ?thesis by (auto intro!: queue_repair_row wf_gate_repair)
next
  case (QueueRepairRange f e reason)
  with assms show ?thesis by (auto intro!: queue_repair_range_row wf_gate_repair)
next
  case (RepairPending f reason)
  with assms show ?thesis
    by (auto simp: spend_step_simps max_def word_le_def elim!: on_row_mono intro!: wf_gate_repair)
qed (use assms in \<open>auto simp: spend_step_simps wf_row_def discharge_replay_def
    split: if_splits elim!: on_row_mono\<close>)

lemma queue_table_step:
  assumes "scan_inv (queue_table db)" "spend_step op db = Inr db'"
  shows "scan_inv (queue_table db')"
proof (cases op)
  case (QueueRepairRange f e reason)
  with assms show ?thesis
    by (auto simp: queue_repair_range_def Let_def split: sum.splits dest: found_note_queue.enqueue_valid [rotated])
next
  case (QueueRepair f reason)
  with assms show ?thesis
    by (auto simp: queue_repair_def queue_repair_range_def Let_def split: sum.splits
        dest: found_note_queue.enqueue_valid [rotated])
next
  case (QueueOp qop)
  with assms show ?thesis by (auto simp: bind_res_Inr_iff dest: scan_machine.inv_step [rotated 2])
qed (use assms in \<open>auto simp: spend_step_simps split: if_splits\<close>)

interpretation spend_machine: invariant_machine spend_step op_in_range spend_inv
  by unfold_locales (auto simp: spend_inv_def intro: wf_row_step queue_table_step)

subsection \<open>Reading the status\<close>

lemma load_row_wf:
  assumes "wf_row r"
  obtains st where "load_row r = Inr st"
    "ss_spendable st = (c_spendable r = 1)" "ss_rescan_required st = (c_rescan_required r = 1)"
    "uint (required_rescan_from_height st) = c_required_from r"
    "uint (ss_target_height st) = c_target r" "uint (ss_anchor_height st) = c_anchor r"
    "uint (ss_validated_anchor_height st) = c_validated r"
    "ss_repair_queued st = (c_repair_queued r = 1)" "uint (repair_from_height st) = c_repair_from r"
    "sync_interrupted st = (c_interrupted r = 1)"
proof -
  have col: "row_u64 i v = Inr (word_of_int v)" "uint (word_of_int v :: u64) = v"
    if "v \<in> {0..<2 ^ 63}" for i v
    using that by (auto simp: row_u64_def u64_try_from_def uint_word_of_int)
  have "row_u64 3 (c_generation r) = Inr (word_of_int (c_generation r))"
    using assms by (simp add: row_u64_def u64_try_from_def wf_row_def)
  with assms show ?thesis
    by (intro that [of "case load_row r of Inr st \<Rightarrow> st"])
      (auto simp: wf_row_def load_row_def col simp del: One_nat_def)
qed

lemma next_found_note_total:
  "scan_inv t \<Longrightarrow> \<exists>n. next_found_note_range t = Inr n \<and> (n = None \<longleftrightarrow> active_heights SCAN_PRIORITY_FOUND_NOTE t = {})"
proof (cases "found_note_work t = []")
  case True
  assume "scan_inv t"
  with True show ?thesis
    using found_note_work_empty_iff [of t] by (simp add: next_found_note_range_def)
next
  case False
  assume inv: "scan_inv t"
  with False next_found_note_range_row [OF inv False] found_note_work_empty_iff [OF inv] show ?thesis
    by (metis option.distinct(1))
qed

text \<open>The decision of the public status, over the columns and the outstanding repair heights.\<close>

definition repair_open :: "spend_row \<Rightarrow> scan_table \<Rightarrow> bool" where
  "repair_open r q \<longleftrightarrow> c_repair_queued r = 1 \<or> active_heights SCAN_PRIORITY_FOUND_NOTE q \<noteq> {}"

definition gates_open :: "spend_row \<Rightarrow> scan_table \<Rightarrow> bool" where
  "gates_open r q \<longleftrightarrow> c_rescan_required r = 0 \<and> \<not> repair_open r q \<and> c_interrupted r = 0 \<and>
     0 < c_anchor r \<and> c_anchor r \<le> c_validated r"

lemma status_cases:
  assumes "spend_inv db" "spend_state db = Some r"
  obtains st where "load_spendability_status_internal db = Inr st"
    "st_spendable st \<longleftrightarrow> gates_open r (queue_table db)"
    "st_rescan_required st \<longleftrightarrow> c_rescan_required r = 1"
    "st_repair_queued st \<longleftrightarrow> repair_open r (queue_table db)"
    "st_reason_code st = (if c_rescan_required r = 1 then ''ERR_RESCAN_REQUIRED''
       else if repair_open r (queue_table db) then ''ERR_WITNESS_REPAIR_QUEUED''
       else if gates_open r (queue_table db) then ''OK'' else ''ERR_SYNC_FINALIZING'')"
    "uint (st_anchor_height st) = c_anchor r" "uint (st_validated_anchor_height st) = c_validated r"
    "uint (st_target_height st) = c_target r"
proof -
  from assms have wf: "wf_row r" and inv: "scan_inv (queue_table db)"
    by (auto simp: spend_inv_def on_row_def)
  from load_row_wf [OF wf] obtain st where st: "load_row r = Inr st"
    "ss_rescan_required st = (c_rescan_required r = 1)"
    "uint (ss_target_height st) = c_target r" "uint (ss_anchor_height st) = c_anchor r"
    "uint (ss_validated_anchor_height st) = c_validated r"
    "ss_repair_queued st = (c_repair_queued r = 1)" "sync_interrupted st = (c_interrupted r = 1)"
    by metis
  from next_found_note_total [OF inv] obtain n where n: "next_found_note_range (queue_table db) = Inr n"
    "n = None \<longleftrightarrow> active_heights SCAN_PRIORITY_FOUND_NOTE (queue_table db) = {}" by blast
  have anchor: "ss_anchor_height st \<noteq> 0 \<longleftrightarrow> 0 < c_anchor r"
    unfolding st(4) [symmetric] by (simp add: word_neq_0_conv word_less_def)
  have epoch: "ss_anchor_height st \<le> ss_validated_anchor_height st \<longleftrightarrow> c_anchor r \<le> c_validated r"
    using st by (simp add: word_le_def)
  have flags: "c_rescan_required r = 0 \<longleftrightarrow> c_rescan_required r \<noteq> 1" "c_interrupted r = 0 \<longleftrightarrow> c_interrupted r \<noteq> 1"
    using wf by (auto simp: wf_row_def)
  show ?thesis
    by (rule that [of "case load_spendability_status_internal db of Inr st \<Rightarrow> st"])
      (simp_all add: load_spendability_status_internal_def load_state_def assms(2) st n anchor epoch
        Let_def gates_open_def repair_open_def flags del: not_None_eq)
qed

lemma require_ready_iff:
  assumes "spend_inv db" "spend_state db = Some r"
  shows "(\<exists>st. require_spendability_ready db = Inr st) \<longleftrightarrow> gates_open r (queue_table db)"
  using status_cases [OF assms]
  by (smt (verit, best) gates_open_def require_spendability_ready_def sum.simps(4,5,6) zero_neq_one)

section \<open>The gates\<close>

text \<open>
  A replay owed to an imported key: a floor at most \<open>F\<close>, a generation at least \<open>G\<close>. It is
  kept by every run that never completes a replay from at or below \<open>F\<close> for a generation
  of at least \<open>G\<close>.
\<close>

definition replay_owed :: "i64 \<Rightarrow> i64 \<Rightarrow> spend_row \<Rightarrow> bool" where
  "replay_owed G F r \<longleftrightarrow> c_rescan_required r = 1 \<and> 0 < c_required_from r \<and> c_required_from r \<le> F \<and>
     G \<le> c_generation r"

fun not_discharging :: "i64 \<Rightarrow> i64 \<Rightarrow> spend_op \<Rightarrow> bool" where
  "not_discharging G F (CompleteRequired g h) = (uint g < G \<or> F < uint h)"
| "not_discharging G F _ = True"

lemma replay_owed_step:
  assumes "on_row (replay_owed G F) db" "not_discharging G F op" "spend_step op db = Inr db'"
  shows "on_row (replay_owed G F) db'"
proof -
  have gate: "replay_owed G F r \<Longrightarrow> replay_owed G F (gate_repair k reason r)" for r k reason
    by (simp add: replay_owed_def gate_repair_def)
  show ?thesis
  proof (cases op)
    case (CompleteRequired g h)
    with assms show ?thesis
      by (auto simp: spend_step_simps replay_owed_def replay_eligible_def elim!: on_row_mono)
  qed (use assms gate in \<open>auto simp: spend_step_simps replay_owed_def split: if_splits
      elim!: on_row_mono intro!: queue_repair_row queue_repair_range_row\<close>)
qed

interpretation replay_gate: invariant_machine spend_step "not_discharging G F" "on_row (replay_owed G F)"
  for G F
  by unfold_locales (rule replay_owed_step)

text \<open>The interruption latch.\<close>

fun keeps_latch :: "spend_op \<Rightarrow> bool" where
  "keeps_latch (Validated _ _) = False"
| "keeps_latch (BeginRescan _ _ _) = False"
| "keeps_latch _ = True"

lemma latch_step:
  assumes "on_row (\<lambda>r. c_interrupted r = 1) db" "keeps_latch op" "spend_step op db = Inr db'"
  shows "on_row (\<lambda>r. c_interrupted r = 1) db'"
  by (cases op) (use assms in \<open>auto simp: spend_step_simps gate_repair_def discharge_replay_def
      split: if_splits elim!: on_row_mono intro!: queue_repair_row queue_repair_range_row\<close>)

interpretation latch: invariant_machine spend_step keeps_latch "on_row (\<lambda>r. c_interrupted r = 1)"
  by unfold_locales (rule latch_step)

text \<open>The validated anchor: bounded by what was validated.\<close>

fun validates_at_most :: "i64 \<Rightarrow> spend_op \<Rightarrow> bool" where
  "validates_at_most m (Validated t a) = (uint a \<le> m)"
| "validates_at_most m _ = True"

lemma validated_step:
  assumes "on_row (\<lambda>r. c_validated r \<le> m) db" "validates_at_most m op" "spend_step op db = Inr db'"
  shows "on_row (\<lambda>r. c_validated r \<le> m) db'"
  by (cases op) (use assms in \<open>auto simp: spend_step_simps gate_repair_def discharge_replay_def
      split: if_splits elim!: on_row_mono intro!: queue_repair_row queue_repair_range_row\<close>)

interpretation validated_bound: invariant_machine spend_step "validates_at_most m"
    "on_row (\<lambda>r. c_validated r \<le> m)" for m
  by unfold_locales (rule validated_step)

section \<open>Properties\<close>

lemma run_inv:
  "spend_inv db \<Longrightarrow> list_all op_in_range ops \<Longrightarrow> spend_inv (run_ops spend_step ops db)"
  by (rule spend_machine.inv_run)

lemma on_rowE: "on_row P db \<Longrightarrow> (\<And>r. spend_state db = Some r \<Longrightarrow> P r \<Longrightarrow> thesis) \<Longrightarrow> thesis"
  by (auto simp: on_row_def split: option.splits)

text \<open>A database with a given row and an empty queue, for the witnesses.\<close>

definition db_of_row :: "spend_row \<Rightarrow> spend_db" where
  "db_of_row r = \<lparr>spend_state = Some r, queue_table = empty_scan_table, sapling_checkpoints = [],
     orchard_checkpoints = [], account_birthdays = []\<rparr>"

definition validated_row :: "i64 \<Rightarrow> spend_row" where
  "validated_row a = initial_row\<lparr>c_spendable := 1, c_rescan_required := 0, c_target := a + 1,
     c_anchor := a, c_validated := a, c_reason := ''OK''\<rparr>"

lemma db_of_row_inv: "wf_row r \<Longrightarrow> spend_inv (db_of_row r)"
  by (simp add: spend_inv_def db_of_row_def on_row_def scan_inv_def empty_scan_table_def)

lemma db_of_row_sel [simp]:
  "spend_state (db_of_row r) = Some r" "active_heights p (queue_table (db_of_row r)) = {}"
  by (simp_all add: db_of_row_def active_heights_def empty_scan_table_def)

text \<open>
  Property C4. The replay an imported key requires cannot be lost: once a replay from a floor
  of at most \<open>F\<close> is owed at an import generation of at least \<open>G\<close>, then after any sequence of
  transitions (validation, finalization, repairs, interruptions, other rescans, truncations,
  further imports) in which no replay from at or below \<open>F\<close> for a generation of at least \<open>G\<close>
  completes, the public status still reads as unspendable with \<open>ERR_RESCAN_REQUIRED\<close>.
\<close>

theorem import_replay_gate:
  assumes "spend_inv db" "on_row (replay_owed G F) db"
    and "list_all op_in_range ops" "list_all (not_discharging G F) ops"
  shows "\<exists>st. load_spendability_status_internal (run_ops spend_step ops db) = Inr st \<and>
     \<not> st_spendable st \<and> st_reason_code st = ''ERR_RESCAN_REQUIRED''"
proof -
  let ?db = "run_ops spend_step ops db"
  obtain r where r: "spend_state ?db = Some r" "replay_owed G F r"
    using replay_gate.inv_run [OF assms(2,4)] by (rule on_rowE)
  show ?thesis
    by (rule status_cases [OF run_inv [OF assms(1,3)] r(1)])
      (use r(2) in \<open>simp add: gates_open_def replay_owed_def\<close>)
qed

theorem import_replay_gate_witness:
  "\<exists>st. load_spendability_status_internal (run_ops spend_step
       [Validated 101 100, CompleteRequired 0 1, SyncFinalizing 120 119, CompleteRequired 1 60]
       (db_of_row ((validated_row 90)\<lparr>c_rescan_required := 1, c_required_from := 50, c_generation := 1\<rparr>)))
     = Inr st \<and> \<not> st_spendable st \<and> st_reason_code st = ''ERR_RESCAN_REQUIRED''"
  by (rule import_replay_gate [of _ 1 50])
    (simp_all add: db_of_row_inv wf_row_def validated_row_def initial_row_def on_row_def replay_owed_def)

text \<open>
  Observation. An interrupted sync keeps the wallet unspendable: while the latch is set, no
  sequence of transitions other than a fresh validation or a new rescan makes the public status
  spendable, whatever the anchor heights are.
\<close>

lemma interruption_latch_holds:
  assumes "spend_inv db" "on_row (\<lambda>r. c_interrupted r = 1) db"
    and "list_all op_in_range ops" "list_all keeps_latch ops"
  shows "\<exists>st. load_spendability_status_internal (run_ops spend_step ops db) = Inr st \<and>
     \<not> st_spendable st \<and> st_reason_code st \<noteq> ''OK''"
proof -
  let ?db = "run_ops spend_step ops db"
  obtain r where r: "spend_state ?db = Some r" "c_interrupted r = 1"
    using latch.inv_run [OF assms(2,4)] by (rule on_rowE)
  show ?thesis
    by (rule status_cases [OF run_inv [OF assms(1,3)] r(1)]) (use r(2) in \<open>simp add: gates_open_def\<close>)
qed

theorem interruption_latch_holds_witness:
  "\<exists>st. load_spendability_status_internal (run_ops spend_step [RecordKnown 120, SyncFinalizing 95 90]
       (mark_sync_interrupted (db_of_row (validated_row 90)))) = Inr st \<and>
     \<not> st_spendable st \<and> st_reason_code st \<noteq> ''OK''"
proof (rule interruption_latch_holds)
  show "spend_inv (mark_sync_interrupted (db_of_row (validated_row 90)))"
    by (intro spend_machine.inv_step [where op = SyncInterrupted, OF db_of_row_inv])
      (simp_all add: wf_row_def validated_row_def initial_row_def)
qed (simp_all add: mark_sync_interrupted_def on_row_def db_of_row_def update_row_def)

text \<open>
  Observation. A spendable status is always backed by a validation: starting from the row the
  schema creates, if after any sequence of transitions the status is spendable, then some
  transition of the sequence validated an anchor at or above the (positive) anchor reported.
\<close>

lemma spendable_only_after_validation:
  assumes "list_all op_in_range ops"
    and "load_spendability_status_internal (run_ops spend_step ops (db_of_row initial_row)) = Inr st"
    and "st_spendable st"
  shows "0 < st_anchor_height st \<and> (\<exists>t a. Validated t a \<in> set ops \<and> st_anchor_height st \<le> a)"
proof -
  let ?db = "run_ops spend_step ops (db_of_row initial_row)" and ?m = "uint (st_anchor_height st) - 1"
  have inv: "spend_inv ?db"
    by (intro run_inv assms(1) db_of_row_inv) (simp add: wf_row_def initial_row_def)
  then obtain r where r: "spend_state ?db = Some r"
    by (auto simp: spend_inv_def elim: on_rowE)
  have anchor: "0 < uint (st_anchor_height st)" and le: "uint (st_anchor_height st) \<le> c_validated r"
    by (rule status_cases [OF inv r]; use assms(2,3) in \<open>simp add: gates_open_def\<close>)+
  have "\<exists>t a. Validated t a \<in> set ops \<and> uint (st_anchor_height st) \<le> uint a"
  proof (rule ccontr)
    assume none: "\<not> ?thesis"
    have "list_all (validates_at_most ?m) ops"
      unfolding list_all_iff
    proof
      fix op assume "op \<in> set ops"
      with none show "validates_at_most ?m op" by (cases op) force+
    qed
    moreover have "on_row (\<lambda>r. c_validated r \<le> ?m) (db_of_row initial_row)"
      using anchor by (simp add: on_row_def initial_row_def)
    ultimately have "on_row (\<lambda>r. c_validated r \<le> ?m) ?db"
      by (intro validated_bound.inv_run)
    with r le show False by (simp add: on_row_def)
  qed
  with anchor show ?thesis by (auto simp: word_less_def word_le_def)
qed

theorem spendable_only_after_validation_witness:
  "\<exists>st. load_spendability_status_internal (run_ops spend_step [Validated 101 100] (db_of_row initial_row)) = Inr st \<and>
     st_spendable st \<and> (\<exists>t a. Validated t a \<in> set [Validated 101 100] \<and> st_anchor_height st \<le> a)"
proof -
  let ?db = "run_ops spend_step [Validated 101 100] (db_of_row initial_row)"
  have inv: "spend_inv ?db"
    by (intro run_inv db_of_row_inv) (simp_all add: wf_row_def initial_row_def)
  obtain r where r: "spend_state ?db = Some r" and "gates_open r (queue_table ?db)"
    by (simp add: exec_op_def mark_validated_def to_sql_i64_def i64_try_from_def update_row_def
        gates_open_def repair_open_def initial_row_def)
  then obtain st where "load_spendability_status_internal ?db = Inr st" "st_spendable st"
    using status_cases [OF inv r] by metis
  with spendable_only_after_validation [of "[Validated 101 100]" st] show ?thesis
    by auto
qed

end
