(* ===== verification/SpendFlow.thy ===== *)
theory SpendFlow
  imports Spendability
begin

text \<open>
  The flows over the spendability row: the status and the gate a spend goes through, the
  life of an imported key's replay obligation, repair requests, anchor selection, and the two
  places of \<open>sync.rs\<close> that drive the row (\<open>check_witnesses_with_db\<close> and the auxiliary update
  of \<open>save_sync_state_with_db\<close>). The scan of the notes themselves
  (\<open>Repository::check_witnesses\<close>) is an argument \<open>check\<close> that returns the repair ranges; the theory
  \<open>WitnessCheck\<close> defines it.
\<close>

section \<open>The witness check of the sync engine\<close>

text \<open>Storage operations in sequence: each keeps the database it leaves, also when it fails.\<close>

definition lift_db :: "spend_db \<Rightarrow> storage_error + spend_db \<Rightarrow> spend_db \<times> (storage_error + unit)" where
  "lift_db db r = (case r of Inl e \<Rightarrow> (db, Inl e) | Inr db' \<Rightarrow> (db', Inr ()))"

definition then_db :: "spend_db \<times> (storage_error + 'a) \<Rightarrow> (spend_db \<Rightarrow> 'a \<Rightarrow> spend_db \<times> (storage_error + 'b))
    \<Rightarrow> spend_db \<times> (storage_error + 'b)" where
  "then_db m k = (case m of (db, Inl e) \<Rightarrow> (db, Inl e) | (db, Inr x) \<Rightarrow> k db x)"

lemma then_db_simps [simp]:
  "then_db (db, Inl e) k = (db, Inl e)"
  "then_db (db, Inr x) k = k db x"
  by (simp_all add: then_db_def)

definition SPENDABILITY_MIN_CONFIRMATIONS :: u32 where "SPENDABILITY_MIN_CONFIRMATIONS = 1"

definition get_wallet_birthday_height :: "i64 \<Rightarrow> spend_db \<Rightarrow> storage_error + u64 option" where
  "get_wallet_birthday_height account db =
     (case map (\<lambda>(_, b). if 0 < b then b else 1) (filter (\<lambda>(a, _). a = account) (account_birthdays db)) of
        [] \<Rightarrow> Inr None
      | b # bs \<Rightarrow> (let m = foldl min b bs in
          bind_res (ok_or (u64_try_from m)
            (SStorage (Msg ''wallet birthday height out of range for account {}: {}'' [account, m])))
            (\<lambda>v. Inr (Some v))))"

definition mark_sync_finalizing_without_scan_extrema :: "spend_db \<Rightarrow> storage_error + spend_db" where
  "mark_sync_finalizing_without_scan_extrema db =
     bind_res (load_state db) (\<lambda>state.
       if required_rescan_from_height state = 0 \<and> \<not> ss_repair_queued state
       then mark_sync_finalizing (ss_target_height state) (ss_anchor_height state) db
       else Inr db)"

text \<open>\<open>let _ = scan_queue.mark_found_note_done_through(h)\<close>: an error is dropped.\<close>

definition retire_through :: "u64 \<Rightarrow> spend_db \<Rightarrow> spend_db" where
  "retire_through h db = (case mark_found_note_done_through h (queue_table db) of
     Inl _ \<Rightarrow> db | Inr (q, _) \<Rightarrow> db\<lparr>queue_table := q\<rparr>)"

record witness_check_outcome =
  repair_range :: "(u64 \<times> u64) option"
  checked :: bool

text \<open>The loop over the repair ranges: the lowest start, the highest end, one request each.\<close>

fun queue_repair_ranges ::
    "u64 \<Rightarrow> u64 \<Rightarrow> u64 \<Rightarrow> (u64 \<times> u64) list \<Rightarrow> spend_db \<Rightarrow> spend_db \<times> (storage_error + u64 \<times> u64)" where
  "queue_repair_ranges birthday lo hi [] db = (db, Inr (lo, hi))"
| "queue_repair_ranges birthday lo hi ((f, e) # rs) db =
     (let from_height = max (max f birthday) 1;
          range_end = max e (saturating_add from_height 1)
      in then_db (queue_repair_range from_height range_end ''ERR_WITNESS_REPAIR_QUEUED'' db)
           (\<lambda>db' _. queue_repair_ranges birthday (min lo from_height) (max hi range_end) rs db'))"

text \<open>The part of the check after the state was read: nothing missing, or repairs to queue.\<close>

definition settle_witness_check ::
    "u64 \<Rightarrow> u64 \<Rightarrow> u64 \<Rightarrow> u64 \<Rightarrow> (u64 \<times> u64) list \<Rightarrow> spend_db
     \<Rightarrow> spend_db \<times> (storage_error + witness_check_outcome)" where
  "settle_witness_check current_height target anchor birthday ranges db =
     (if ranges = [] then
        let done_through_height = max (saturating_add anchor 1) (saturating_add current_height 1);
            db1 = retire_through done_through_height db
        in (case next_found_note_range (queue_table db1) of
              Inl e \<Rightarrow> (db1, Inl e)
            | Inr next \<Rightarrow>
                then_db (lift_db db1 (case next of
                    Some row \<Rightarrow> mark_repair_pending_without_enqueue (max (sr_start row) 1)
                      ''ERR_WITNESS_REPAIR_QUEUED'' db1
                  | None \<Rightarrow> mark_validated target anchor db1))
                  (\<lambda>db2 _. (db2, Inr \<lparr>repair_range = None, checked = True\<rparr>)))
      else
        then_db (queue_repair_ranges birthday (- 1) (saturating_add (max anchor current_height) 1) ranges db)
          (\<lambda>db1 (lo, hi).
             let queued_start = (if lo = - 1 then max birthday 1 else lo)
             in then_db (lift_db db1 (mark_repair_pending_without_enqueue queued_start
                  ''ERR_WITNESS_REPAIR_QUEUED'' db1))
                  (\<lambda>db2 _. (db2, Inr \<lparr>repair_range = Some (queued_start, hi), checked = True\<rparr>))))"

definition check_witnesses_with_db ::
    "(i64 \<Rightarrow> u64 \<Rightarrow> u64 \<Rightarrow> storage_error + (u64 \<times> u64) list) \<Rightarrow> i64 \<Rightarrow> u64 \<Rightarrow> bool \<Rightarrow> spend_db
     \<Rightarrow> spend_db \<times> (storage_error + witness_check_outcome)" where
  "check_witnesses_with_db check account current_height already_checked db =
     then_db (db, get_wallet_birthday_height account db) (\<lambda>db birthday_opt.
       let birthday = max (case birthday_opt of None \<Rightarrow> 1 | Some b \<Rightarrow> b) 1
       in then_db (db, get_target_and_anchor_heights_for_account SPENDABILITY_MIN_CONFIRMATIONS account db)
         (\<lambda>db heights. case heights of
            None \<Rightarrow> then_db (lift_db db (mark_sync_finalizing_without_scan_extrema db))
              (\<lambda>db _. (db, Inr \<lparr>repair_range = None, checked = False\<rparr>))
          | Some (t, a) \<Rightarrow>
              let target = max t 1; anchor = max a 1; state = load_state_or_default db
              in if ss_rescan_required state then (db, Inr \<lparr>repair_range = None, checked = False\<rparr>)
                 else if already_checked \<and> ss_spendable state \<and> \<not> ss_rescan_required state \<and>
                   \<not> ss_repair_queued state \<and> ss_reason_code state = ''OK'' \<and>
                   anchor \<le> ss_validated_anchor_height state
                 then (db, Inr \<lparr>repair_range = None, checked = False\<rparr>)
                 else then_db (db, check account anchor birthday) (\<lambda>db ranges.
                   settle_witness_check current_height target anchor birthday ranges db)))"

text \<open>
  The auxiliary update after a scanned batch (\<open>save_sync_state_with_db\<close> with
  \<open>include_aux_state_update\<close>): record the scanned range, retire repairs, move the row.
\<close>

definition save_sync_aux :: "u32 \<Rightarrow> u64 \<Rightarrow> i64 \<Rightarrow> spend_db \<Rightarrow> spend_db \<times> (storage_error + unit)" where
  "save_sync_aux birthday_height local_height account db =
     (let historic_start = max (u64_from_u32 birthday_height) 1;
          historic_end = saturating_add local_height 1
      in then_db (case record_historic_scanned_range historic_start
            (max historic_end (saturating_add historic_start 1)) (Some ''historic_sync_progress'') (queue_table db) of
              Inl e \<Rightarrow> (db, Inl e) | Inr q \<Rightarrow> (db\<lparr>queue_table := q\<rparr>, Inr ()))
         (\<lambda>db _. let db = retire_through (saturating_add local_height 1) db
           in then_db (db, get_target_and_anchor_heights_for_account SPENDABILITY_MIN_CONFIRMATIONS account db)
             (\<lambda>db heights. case heights of
                None \<Rightarrow> lift_db db (mark_sync_finalizing_without_scan_extrema db)
              | Some (target, anchor) \<Rightarrow>
                  then_db (db, next_found_note_range (queue_table db)) (\<lambda>db next.
                    let state = load_state_or_default db;
                        at_or_past_target = (target \<le> saturating_add local_height 1);
                        validated_for_anchor = (ss_spendable state \<and> anchor \<le> ss_validated_anchor_height state);
                        recently_validated = (ss_spendable state \<and> 0 < ss_validated_anchor_height state \<and>
                          saturating_sub anchor (ss_validated_anchor_height state)
                            \<le> u64_from_u32 SPENDABILITY_MIN_CONFIRMATIONS)
                    in case next of
                         Some row \<Rightarrow> lift_db db (mark_repair_pending_without_enqueue (max (sr_start row) 1)
                           ''ERR_WITNESS_REPAIR_QUEUED'' db)
                       | None \<Rightarrow>
                           if \<not> at_or_past_target \<or> \<not> validated_for_anchor then
                             if \<not> recently_validated then lift_db db (mark_sync_finalizing target anchor db)
                             else (db, Inr ())
                           else (db, Inr ())))))"

section \<open>Anchor selection\<close>

lemma foldl_max_Max: "foldl max x xs = Max (set (x # xs))" for x :: int
  by (simp add: foldl_conv_fold Max.set_eq_fold max.commute del: set_simps)

lemma foldl_min_Min: "foldl min x xs = Min (set (x # xs))" for x :: int
  by (simp add: foldl_conv_fold Min.set_eq_fold min.commute del: set_simps)

lemma uint_max: "uint (max a b) = max (uint a) (uint b)"
  by (simp add: max_def word_le_def)

lemma uint_min: "uint (min a b) = min (uint a) (uint b)"
  by (simp add: min_def word_le_def)

text \<open>The checkpoints of one pool an anchor may snap to.\<close>

definition usable_checkpoints :: "i64 list \<Rightarrow> i64 \<Rightarrow> i64 \<Rightarrow> i64 set" where
  "usable_checkpoints ids lo hi = (if hi < 2 ^ 32 then {i \<in> set ids. lo \<le> i \<and> i \<le> hi} else {})"

lemma finite_usable [simp]: "finite (usable_checkpoints ids lo hi)"
  by (simp add: usable_checkpoints_def)

lemma usable_bounds:
  "i \<in> usable_checkpoints ids lo hi \<Longrightarrow> lo \<le> i \<and> i \<le> hi \<and> i \<in> set ids \<and> hi < 2 ^ 32"
  by (auto simp: usable_checkpoints_def split: if_splits)

lemma u32_of_small: "uint v < 2 ^ 32 \<Longrightarrow> \<exists>w. u32_try_from v = Some w \<and> uint w = uint v"
proof -
  assume small: "uint v < 2 ^ 32"
  then have "unat v < 2 ^ 32" by (simp add: nat_less_iff flip: nat_uint_eq)
  then obtain w where "u32_try_from v = Some w" by (simp add: u32_try_from_def)
  moreover from this have "v = u64_from_u32 w" by (simp add: u32_try_from_Some_iff)
  moreover have "unat (u64_from_u32 w) = unat w" by (rule unat_u64_from_u32)
  ultimately show ?thesis by (metis uint_nat)
qed

lemma within_u32: "0 \<le> a \<Longrightarrow> a \<le> m \<Longrightarrow> m \<le> h \<Longrightarrow> h < 2 ^ 32 \<Longrightarrow> 0 \<le> m \<and> m < 2 ^ 32 \<and> m < 2 ^ 64"
  for a m h :: int
  by simp

lemma Max_usable:
  assumes "usable_checkpoints ids (uint lo) hi \<noteq> {}"
  defines "m \<equiv> Max (usable_checkpoints ids (uint lo) hi)"
  shows "0 \<le> m" "m < 2 ^ 32" "m < 2 ^ 64"
  using within_u32 [OF uint_ge_0 [of lo]] usable_bounds [OF Max_in [OF finite_usable assms(1)]]
  unfolding m_def by blast+

lemma snap_table_eq:
  assumes "uint floor \<le> uint ceiling"
  shows "snap_to_checkpoint_for_table ids ceiling floor =
     (let S = usable_checkpoints ids (uint floor) (uint ceiling)
      in if S = {} then None else Some (word_of_int (Max S)))"
proof (cases "uint ceiling < 2 ^ 32")
  case False
  then have "\<not> unat ceiling < 2 ^ 32" by (simp add: nat_less_iff flip: nat_uint_eq)
  with False show ?thesis
    by (simp add: snap_to_checkpoint_for_table_def u32_try_from_def usable_checkpoints_def)
next
  case True
  with assms have "uint floor < 2 ^ 32" by simp
  from u32_of_small [OF True] u32_of_small [OF this] obtain c f where
    c: "u32_try_from ceiling = Some c" "uint c = uint ceiling" and
    f: "u32_try_from floor = Some f" "uint f = uint floor" by blast
  let ?xs = "filter (\<lambda>i. i \<le> uint ceiling \<and> uint floor \<le> i) ids"
  have S: "usable_checkpoints ids (uint floor) (uint ceiling) = set ?xs"
    using True by (auto simp: usable_checkpoints_def)
  show ?thesis
  proof (cases ?xs)
    case (Cons i rest)
    have "usable_checkpoints ids (uint floor) (uint ceiling) \<noteq> {}"
      unfolding S Cons by simp
    from Max_usable [OF this] have "u64_from_u32 (word_of_int (Max (set ?xs))) = word_of_int (Max (set ?xs))"
      unfolding S by (simp add: u64_from_u32_def word_uint_eq_iff uint_word_of_int unsigned_ucast_eq
          take_bit_int_eq_self)
    then show ?thesis
      by (simp add: snap_to_checkpoint_for_table_def c f S Cons foldl_max_Max Let_def)
  qed (simp add: snap_to_checkpoint_for_table_def c f S Let_def)
qed

text \<open>The height an anchor snaps to: the lower of the pools' best, the ideal when neither has one.\<close>

definition snapped_height :: "i64 \<Rightarrow> i64 \<Rightarrow> spend_db \<Rightarrow> i64" where
  "snapped_height lo ideal db =
     (let S = usable_checkpoints (sapling_checkpoints db) lo ideal;
          R = usable_checkpoints (orchard_checkpoints db) lo ideal
      in min (if S = {} then ideal else Max S) (if R = {} then ideal else Max R))"

lemma best_usable_bounds:
  assumes "lo \<le> ideal"
  shows "lo \<le> (if usable_checkpoints ids lo ideal = {} then ideal else Max (usable_checkpoints ids lo ideal))"
    and "(if usable_checkpoints ids lo ideal = {} then ideal else Max (usable_checkpoints ids lo ideal)) \<le> ideal"
proof -
  have "lo \<le> Max (usable_checkpoints ids lo ideal) \<and> Max (usable_checkpoints ids lo ideal) \<le> ideal"
    if "usable_checkpoints ids lo ideal \<noteq> {}"
    using usable_bounds [OF Max_in [OF finite_usable that]] by simp
  with assms show "lo \<le> (if usable_checkpoints ids lo ideal = {} then ideal else Max (usable_checkpoints ids lo ideal))"
    and "(if usable_checkpoints ids lo ideal = {} then ideal else Max (usable_checkpoints ids lo ideal)) \<le> ideal"
    by simp_all
qed

lemma snapped_height_bounds: "lo \<le> ideal \<Longrightarrow> lo \<le> snapped_height lo ideal db \<and> snapped_height lo ideal db \<le> ideal"
  unfolding snapped_height_def Let_def
  using best_usable_bounds [of lo ideal] by (meson min.bounded_iff min.coboundedI1)

lemma uint_snap:
  assumes "uint floor \<le> uint ideal"
  shows "uint (case snap_to_checkpoint_for_table ids ideal floor of None \<Rightarrow> ideal | Some h \<Rightarrow> h) =
     (let S = usable_checkpoints ids (uint floor) (uint ideal) in if S = {} then uint ideal else Max S)"
proof (cases "usable_checkpoints ids (uint floor) (uint ideal) = {}")
  case False
  with Max_usable [OF False] show ?thesis
    by (simp add: snap_table_eq [OF assms] Let_def uint_word_of_int)
qed (simp add: snap_table_eq [OF assms] Let_def)

lemma snap_both:
  assumes "uint floor \<le> uint ideal"
  shows "(case snap_to_checkpoint ideal floor db of None \<Rightarrow> ideal | Some h \<Rightarrow> h) =
     min (case snap_to_checkpoint_for_table (sapling_checkpoints db) ideal floor of None \<Rightarrow> ideal | Some h \<Rightarrow> h)
         (case snap_to_checkpoint_for_table (orchard_checkpoints db) ideal floor of None \<Rightarrow> ideal | Some h \<Rightarrow> h)"
proof -
  have "(case snap_to_checkpoint_for_table ids ideal floor of None \<Rightarrow> ideal | Some h \<Rightarrow> h) \<le> ideal" for ids
    using best_usable_bounds(2) [OF assms, of ids] uint_snap [OF assms, of ids]
    by (simp add: word_le_def Let_def)
  from this [of "sapling_checkpoints db"] this [of "orchard_checkpoints db"] show ?thesis
    by (auto simp: snap_to_checkpoint_def min_def split: option.splits)
qed

lemma uint_snapped:
  assumes "uint floor \<le> uint ideal"
  shows "uint (case snap_to_checkpoint ideal floor db of None \<Rightarrow> ideal | Some h \<Rightarrow> h) =
     snapped_height (uint floor) (uint ideal) db"
  by (simp add: snap_both [OF assms] uint_min uint_snap [OF assms] snapped_height_def Let_def)

lemma uint_saturating_sub: "uint (saturating_sub a b) = max 0 (uint a - uint b)"
  unfolding uint_nat unat_saturating_sub by linarith

lemma uint_saturating_add: "uint (saturating_add a b) = min (uint a + uint b) (2 ^ LENGTH('a) - 1)"
  for a b :: "'a::len word"
  unfolding uint_nat unat_saturating_add by (simp add: of_nat_min of_nat_diff)

lemma uint_u64_from_u32: "uint (u64_from_u32 w) = uint w"
  unfolding uint_nat unat_u64_from_u32 by simp

lemma uint_max_1: "uint (max w 1) = max (uint w) 1" for w :: "'a::len word"
  by (simp add: uint_max)

abbreviation historic_rows :: "spend_db \<Rightarrow> scan_row set" where
  "historic_rows db \<equiv> {r \<in> set (scan_rows (queue_table db)). row_priority r = SCAN_PRIORITY_HISTORIC}"

lemma min_start_Min: "rs \<noteq> [] \<Longrightarrow> min_start rs = Some (Min (range_start ` set rs))"
  by (cases rs) (simp_all add: min_start_def foldl_min_Min image_image)

lemma max_end_Max: "rs \<noteq> [] \<Longrightarrow> max_end rs = Some (Max (range_end ` set rs))"
  by (cases rs) (simp_all add: max_end_def foldl_max_Max image_image)

lemma historic_bounds:
  assumes "scan_inv (queue_table db)" "historic_rows db \<noteq> {}"
  shows "0 < Min (range_start ` historic_rows db)"
    "Min (range_start ` historic_rows db) < Max (range_end ` historic_rows db)"
    "Max (range_end ` historic_rows db) < 2 ^ 63"
proof -
  have fin: "finite (historic_rows db)" by simp
  show "0 < Min (range_start ` historic_rows db)" "Max (range_end ` historic_rows db) < 2 ^ 63"
    using assms(2) scan_inv_row [OF assms(1)] by auto
  from assms(2) obtain r where r: "r \<in> historic_rows db" by blast
  with fin have "Min (range_start ` historic_rows db) \<le> range_start r"
    "range_end r \<le> Max (range_end ` historic_rows db)" by simp_all
  moreover have "range_start r < range_end r" using r scan_inv_row [OF assms(1)] by simp
  ultimately show "Min (range_start ` historic_rows db) < Max (range_end ` historic_rows db)"
    by linarith
qed

lemma scan_queue_extrema_eq:
  assumes "scan_inv (queue_table db)"
  shows "scan_queue_extrema db = (if historic_rows db = {} then Inr None
     else Inr (Some (word_of_int (Min (range_start ` historic_rows db)),
                     word_of_int (Max (range_end ` historic_rows db) - 1))))"
proof (cases "historic_rows db = {}")
  case True
  then have "filter (\<lambda>r. row_priority r = SCAN_PRIORITY_HISTORIC) (scan_rows (queue_table db)) = []"
    by (auto simp: filter_empty_conv)
  with True show ?thesis by (simp add: scan_queue_extrema_def min_start_def)
next
  case False
  let ?H = "filter (\<lambda>r. row_priority r = SCAN_PRIORITY_HISTORIC) (scan_rows (queue_table db))"
  define s where "s = Min (range_start ` historic_rows db)"
  define e where "e = Max (range_end ` historic_rows db)"
  have ne: "?H \<noteq> []" using False by (auto simp: filter_empty_conv)
  note b = historic_bounds [OF assms False, folded s_def e_def]
  have m: "min_start ?H = Some s" "max_end ?H = Some e"
    using min_start_Min [OF ne] max_end_Max [OF ne] by (simp_all add: s_def e_def)
  have w: "uint (word_of_int x :: u64) = x" if "0 \<le> x" "x < 2 ^ 63" for x
    using that by (simp add: uint_word_of_int)
  have "max (word_of_int s :: u64) 1 = word_of_int s" "(word_of_int s :: u64) < word_of_int e"
    using b by (simp_all add: word_uint_eq_iff uint_max_1 w word_less_def)
  moreover have "saturating_sub (word_of_int e :: u64) 1 = word_of_int (e - 1)"
  proof -
    have "uint (saturating_sub (word_of_int e :: u64) 1) = e - 1"
      using b w [of e] by (simp add: uint_saturating_sub)
    also have "\<dots> = uint (word_of_int (e - 1) :: u64)"
      using b by (intro w [symmetric]) simp_all
    finally show ?thesis by (rule word_uint_eq_iff [THEN iffD2])
  qed
  ultimately have "max (word_of_int s :: u64) 1 = word_of_int s" "(word_of_int s :: u64) < word_of_int e"
    "saturating_sub (word_of_int e :: u64) 1 = word_of_int (e - 1)" by blast+
  with False b show ?thesis
    by (simp add: scan_queue_extrema_def m Let_def u64_try_from_def flip: s_def e_def)
qed

lemma birthday_height_total: "\<exists>b. birthday_height_for_account account db = Inr b"
proof -
  have pos: "0 \<le> foldl min x xs" if "\<forall>y \<in> set (x # xs). 0 \<le> y" for x :: int and xs
    using that by (simp add: foldl_min_Min)
  show ?thesis
    unfolding birthday_height_for_account_def Let_def
    by (auto split: list.split if_splits intro!: pos simp: u64_try_from_def ok_or_def dest!: Cons_eq_map_D)
qed

text \<open>The floor and the ideal anchor both selections start from.\<close>

definition anchor_floor_of :: "u64 \<Rightarrow> spend_db \<Rightarrow> i64" where
  "anchor_floor_of birthday db = max (Min (range_start ` historic_rows db)) (uint birthday)"

definition ideal_anchor_of :: "u32 \<Rightarrow> u64 \<Rightarrow> spend_db \<Rightarrow> i64" where
  "ideal_anchor_of conf birthday db =
     max (Max (range_end ` historic_rows db) - max (uint conf) 1) (anchor_floor_of birthday db)"

lemma word_of_uintI: "uint w = k \<Longrightarrow> w = word_of_int k"
  by auto

lemma target_anchor_words:
  fixes b :: u64 and conf :: u32
  assumes inv: "scan_inv (queue_table db)" and ne: "historic_rows db \<noteq> {}"
  defines "s \<equiv> Min (range_start ` historic_rows db)" and "e \<equiv> Max (range_end ` historic_rows db)"
  defines "target \<equiv> saturating_add (word_of_int (e - 1) :: u64) 1"
  defines "flr \<equiv> max (max (word_of_int s :: u64) 1) (max b 1)"
  defines "ideal \<equiv> max (saturating_sub target (u64_from_u32 (max conf 1))) flr"
  shows "uint target = e" "uint flr = anchor_floor_of b db" "uint ideal = ideal_anchor_of conf b db"
    "uint flr \<le> uint ideal"
proof -
  note bounds = historic_bounds [OF inv ne, folded s_def e_def]
  have ws: "uint (word_of_int s :: u64) = s" and we: "uint (word_of_int (e - 1) :: u64) = e - 1"
    using bounds uint_word_of_int [where 'a = 64] by (simp_all only: uint_word_of_int) simp_all
  show target: "uint target = e"
    unfolding target_def uint_saturating_add we using bounds by simp
  show flr: "uint flr = anchor_floor_of b db"
    unfolding flr_def anchor_floor_of_def uint_max uint_max_1 ws s_def [symmetric]
    using bounds uint_ge_0 [of b] by simp
  have pos: "0 < anchor_floor_of b db"
    using bounds by (simp add: anchor_floor_of_def flip: s_def)
  show "uint ideal = ideal_anchor_of conf b db"
    unfolding ideal_def uint_max uint_saturating_sub target flr uint_u64_from_u32 uint_1
      ideal_anchor_of_def e_def [symmetric] using pos by simp
  show "uint flr \<le> uint ideal"
    by (simp add: ideal_def uint_max)
qed

lemma target_and_anchor_eq:
  assumes inv: "scan_inv (queue_table db)" and b: "birthday_height_for_account account db = Inr b"
  shows "get_target_and_anchor_heights_for_account conf account db = Inr
     (let e = Max (range_end ` historic_rows db); ideal = ideal_anchor_of conf b db
      in if historic_rows db = {} \<or> e < ideal then None
         else Some (word_of_int e, word_of_int (snapped_height (anchor_floor_of b db) ideal db)))"
proof (cases "historic_rows db = {}")
  case True
  then show ?thesis
    by (simp add: get_target_and_anchor_heights_for_account_def Let_def scan_queue_extrema_eq [OF inv]
        get_target_and_anchor_heights_for_account_opt_def)
next
  case False
  define mn where "mn = (word_of_int (Min (range_start ` historic_rows db)) :: u64)"
  define mx where "mx = (word_of_int (Max (range_end ` historic_rows db) - 1) :: u64)"
  define t where "t = saturating_add mx 1"
  define flr where "flr = max (max mn 1) (max b 1)"
  define ideal where "ideal = max (saturating_sub t (u64_from_u32 (max conf 1))) flr"
  define a where "a = (case snap_to_checkpoint ideal flr db of None \<Rightarrow> ideal | Some h \<Rightarrow> h)"
  note w = target_anchor_words(1) [OF inv False, folded mx_def, folded t_def]
    target_anchor_words(2) [OF inv False, where b = b, folded mn_def, folded flr_def]
    target_anchor_words(3,4) [OF inv False, where b = b and conf = conf, folded mn_def mx_def,
      folded t_def flr_def, folded ideal_def]
  have ext: "scan_queue_extrema db = Inr (Some (mn, mx))"
    unfolding scan_queue_extrema_eq [OF inv] mn_def mx_def using False by (simp only: if_False)
  have run: "get_target_and_anchor_heights_for_account conf account db =
      (if t < ideal then Inr None else if t < a then Inr None else Inr (Some (t, a)))"
    unfolding a_def ideal_def flr_def t_def get_target_and_anchor_heights_for_account_def
      get_target_and_anchor_heights_for_account_opt_def Let_def ext
    by (simp only: b bind_res_simps option.case prod.case)
  have a: "uint a = snapped_height (anchor_floor_of b db) (ideal_anchor_of conf b db) db"
    unfolding a_def uint_snapped [OF w(4)] w ..
  have "uint a \<le> uint ideal"
    unfolding a w(3) by (rule snapped_height_bounds [OF w(4) [unfolded w(2,3)], THEN conjunct2])
  then have below: "\<not> t < ideal \<Longrightarrow> \<not> t < a"
    unfolding word_less_def by linarith
  have lt: "t < ideal \<longleftrightarrow> Max (range_end ` historic_rows db) < ideal_anchor_of conf b db"
    unfolding word_less_def w ..
  show ?thesis
    unfolding run Let_def lt [symmetric] word_of_uintI [OF a, symmetric] word_of_uintI [OF w(1), symmetric]
    using below by (cases "t < ideal") (simp_all add: False del: Collect_empty_eq)
qed

section \<open>Properties\<close>

text \<open>
  Property C37. The anchor the wallet spends from: with a historic scanned range recorded, the
  target is the end of the scanned range and the anchor lies between the floor (the scanned
  start or the account's birthday, whichever is higher) and the ideal height (the target less
  the confirmations, at least one); within those bounds it is the lower of the two pools'
  highest checkpoints, and the ideal height itself when neither pool has one. No anchor is
  given exactly when nothing was scanned or the floor is above the target.
\<close>

theorem anchor_selection_correct:
  assumes "scan_inv (queue_table db)"
  shows "\<exists>b. birthday_height_for_account account db = Inr b \<and>
     (let e = Max (range_end ` historic_rows db);
          lo = max (Min (range_start ` historic_rows db)) (uint b);
          ideal = max (e - max (uint conf) 1) lo
      in if historic_rows db = {} \<or> e < lo
         then get_target_and_anchor_heights_for_account conf account db = Inr None
         else \<exists>t a. get_target_and_anchor_heights_for_account conf account db = Inr (Some (t, a)) \<and>
           uint t = e \<and> uint a = snapped_height lo ideal db \<and> lo \<le> uint a \<and> uint a \<le> ideal \<and> ideal \<le> e)"
proof -
  obtain b where b: "birthday_height_for_account account db = Inr b"
    using birthday_height_total by blast
  define e where "e = Max (range_end ` historic_rows db)"
  define lo where "lo = anchor_floor_of b db"
  define ideal where "ideal = ideal_anchor_of conf b db"
  define c where "c = snapped_height lo ideal db"
  have ideal: "ideal = max (e - max (uint conf) 1) lo" and lo: "lo = max (Min (range_start ` historic_rows db)) (uint b)"
    by (simp_all add: ideal_def ideal_anchor_of_def e_def lo_def anchor_floor_of_def)
  have conf: "0 < max (uint conf) 1" by simp
  then have late: "e < ideal \<longleftrightarrow> e < lo" unfolding ideal by linarith
  have bounds: "lo \<le> c" "c \<le> ideal"
    using snapped_height_bounds [of lo ideal db] by (simp_all add: c_def ideal)
  note eq = target_and_anchor_eq [OF assms b, of conf, unfolded Let_def, folded e_def lo_def ideal_def, folded c_def]
  show ?thesis
  proof (cases "historic_rows db = {} \<or> e < lo")
    case True
    then show ?thesis
      by (intro exI [of _ b] conjI b) (simp add: Let_def eq late flip: lo e_def ideal)
  next
    case False
    then have "0 < Min (range_start ` historic_rows db)" "e < 2 ^ 63"
      using historic_bounds [OF assms] by (simp_all add: e_def)
    moreover from this have "0 < lo" unfolding lo by simp
    moreover have "ideal \<le> e" using False conf unfolding ideal by linarith
    ultimately have "uint (word_of_int e :: u64) = e" "uint (word_of_int c :: u64) = c"
      using False bounds by (simp_all add: uint_word_of_int)
    with False \<open>ideal \<le> e\<close> bounds show ?thesis
      by (intro exI [of _ b] conjI b)
        (simp add: Let_def eq late c_def flip: lo e_def ideal)
  qed
qed

lemma snap_within:
  assumes "uint flr \<le> uint ideal"
  shows "(case snap_to_checkpoint ideal flr db of None \<Rightarrow> ideal | Some h \<Rightarrow> h) \<le> ideal"
  using snapped_height_bounds [OF assms, of db] by (simp add: word_le_def uint_snapped [OF assms])

definition example_db :: spend_db where
  "example_db = \<lparr>spend_state = Some (validated_row 90), queue_table = \<lparr>scan_rows =
       [\<lparr>row_id = 1, range_start = 10, range_end = 101, row_priority = 10, row_status = Done, row_reason = None\<rparr>],
       next_row_id = 2\<rparr>,
     sapling_checkpoints = [60, 95, 98], orchard_checkpoints = [97, 120], account_birthdays = [(1, 20), (1, 0), (2, 30)]\<rparr>"

lemma example_db_inv: "spend_inv example_db"
  by (simp add: spend_inv_def example_db_def on_row_def wf_row_def validated_row_def initial_row_def scan_inv_def)

theorem anchor_selection_correct_witness:
  "\<exists>t a. get_target_and_anchor_heights_for_account 1 2 example_db = Inr (Some (t, a)) \<and>
     uint t = 101 \<and> uint a = 97"
proof -
  have "historic_rows example_db = {scan_rows (queue_table example_db) ! 0}"
    by (auto simp: example_db_def SCAN_PRIORITY_HISTORIC_def)
  then have "historic_rows example_db \<noteq> {}" "Max (range_end ` historic_rows example_db) = 101"
    "Min (range_start ` historic_rows example_db) = 10"
    by (simp_all add: example_db_def)
  moreover have "birthday_height_for_account 2 example_db = Inr 30"
    by (simp add: birthday_height_for_account_def example_db_def u64_try_from_def)
  moreover have "usable_checkpoints (sapling_checkpoints example_db) 30 100 = {60, 95, 98}"
    "usable_checkpoints (orchard_checkpoints example_db) 30 100 = {97}"
    by (auto simp: usable_checkpoints_def example_db_def)
  then have "snapped_height 30 100 example_db = 97"
    by (simp add: snapped_height_def)
  moreover have "scan_inv (queue_table example_db)"
    using example_db_inv by (simp add: spend_inv_def)
  ultimately show ?thesis
    using anchor_selection_correct [of example_db 2 1] by (auto simp del: Collect_empty_eq)
qed

text \<open>
  Property C40. The per-pool anchors agree with the single anchor: the conservative height of
  \<open>get_target_and_anchor_heights_by_pool_for_account\<close> and its target are exactly what
  \<open>get_target_and_anchor_heights_for_account\<close> returns, on every database, errors and absent
  heights included.
\<close>

theorem per_pool_anchors_agree:
  "map_sum id (map_option (\<lambda>p. (pp_target_height p, conservative_anchor_height p)))
     (get_target_and_anchor_heights_by_pool_for_account conf account db) =
   get_target_and_anchor_heights_for_account conf account db"
proof (cases "scan_queue_extrema db")
  case (Inl e)
  then show ?thesis
    by (simp add: get_target_and_anchor_heights_by_pool_for_account_def
        get_target_and_anchor_heights_for_account_def get_target_and_anchor_heights_for_account_opt_def)
next
  case (Inr ext)
  obtain b where b: "birthday_height_for_account account db = Inr b"
    using birthday_height_total by blast
  show ?thesis
  proof (cases ext)
    case (Some p)
    obtain mn mx where p: "p = (mn, mx)" by force
    define t where "t = saturating_add mx 1"
    define flr where "flr = max (max mn 1) (max b 1)"
    define ideal where "ideal = max (saturating_sub t (u64_from_u32 (max conf 1))) flr"
    define a where "a = (case snap_to_checkpoint ideal flr db of None \<Rightarrow> ideal | Some h \<Rightarrow> h)"
    have le: "uint flr \<le> uint ideal" by (simp add: ideal_def uint_max)
    have below: "\<not> t < ideal \<Longrightarrow> \<not> t < a"
      using snap_within [OF le, of db] by (simp add: a_def)
    have single: "get_target_and_anchor_heights_for_account conf account db =
        (if t < ideal then Inr None else if t < a then Inr None else Inr (Some (t, a)))"
      unfolding a_def ideal_def flr_def t_def get_target_and_anchor_heights_for_account_def
        get_target_and_anchor_heights_for_account_opt_def Let_def Inr Some p
      by (simp only: b bind_res_simps option.case prod.case)
    have "\<exists>s i. get_target_and_anchor_heights_by_pool_for_account conf account db =
        (if t < ideal then Inr None else Inr (Some \<lparr>pp_target_height = t, sapling_anchor_height = s,
           ironwood_anchor_height = i, conservative_anchor_height = a\<rparr>))"
      unfolding a_def snap_both [OF le] unfolding ideal_def flr_def t_def
        get_target_and_anchor_heights_by_pool_for_account_def Let_def Inr Some p
      by (simp only: b bind_res_simps option.case prod.case) blast
    with single below show ?thesis by auto
  qed (simp add: Inr get_target_and_anchor_heights_by_pool_for_account_def
      get_target_and_anchor_heights_for_account_def get_target_and_anchor_heights_for_account_opt_def)
qed

text \<open>
  Observation. The public status and the spending gate decide the same thing, in a fixed order
  of precedence: a required rescan, then a repair (latched, or still outstanding in the queue),
  then an interruption or an anchor that was never validated; the gate lets a spend through,
  with reason \<open>OK\<close>, exactly when none of them holds.
\<close>

lemma spending_gate_correct:
  assumes "spend_inv db" "spend_state db = Some r"
  shows "\<exists>st. load_spendability_status_internal db = Inr st \<and>
     (st_spendable st \<longleftrightarrow> c_rescan_required r = 0 \<and> c_repair_queued r = 0 \<and>
        active_heights SCAN_PRIORITY_FOUND_NOTE (queue_table db) = {} \<and> c_interrupted r = 0 \<and>
        0 < c_anchor r \<and> c_anchor r \<le> c_validated r) \<and>
     (st_reason_code st = ''OK'' \<longleftrightarrow> st_spendable st) \<and>
     require_spendability_ready db =
       (if c_rescan_required r = 1 then Inl (GateClosed ''ERR_RESCAN_REQUIRED''
          ''Wallet requires a full rescan before spending.'')
        else if c_repair_queued r = 1 \<or> active_heights SCAN_PRIORITY_FOUND_NOTE (queue_table db) \<noteq> {}
        then Inl (GateClosed ''ERR_WITNESS_REPAIR_QUEUED''
          ''Witness repair is queued. Let sync complete and retry.'')
        else if \<not> st_spendable st then Inl (GateClosed ''ERR_SYNC_FINALIZING''
          ''Wallet spend anchor is not available yet. Let sync complete and retry.'')
        else Inr st)"
proof -
  have flags: "c_rescan_required r = 0 \<or> c_rescan_required r = 1" "c_repair_queued r = 0 \<or> c_repair_queued r = 1"
    using assms by (auto simp: spend_inv_def on_row_def wf_row_def)
  show ?thesis
    by (rule status_cases [OF assms], rule exI, intro conjI, assumption)
      (use flags in \<open>auto simp: gates_open_def repair_open_def require_spendability_ready_def\<close>)
qed

theorem spending_gate_correct_witness:
  "\<exists>st. load_spendability_status_internal example_db = Inr st \<and> st_spendable st"
proof -
  have "active_heights SCAN_PRIORITY_FOUND_NOTE (queue_table example_db) = {}"
    by (simp add: active_heights_def example_db_def)
  moreover have "spend_state example_db = Some (validated_row 90)"
    by (simp add: example_db_def)
  ultimately show ?thesis
    using spending_gate_correct [OF example_db_inv] by (auto simp: validated_row_def initial_row_def)
qed

text \<open>
  Observation. Life of an imported key's replay: an import raises the generation and lowers
  the replay floor to the key's birthday if that is earlier, never raising it. Completing a
  replay for a generation and a start height then either succeeds, exactly when the generation
  is the current one and the replay started at or below the floor, and releases the rescan gate,
  or leaves the whole database as it was; so a completion that raced with a newer import is
  refused.
\<close>

lemma import_replay_lifecycle:
  assumes "wf_row r" "spend_state db = Some r" "import_requires_rescan birthday reason db = Inr db1"
    and "complete_required_rescan g h db1 = Inr (db2, completed)"
  shows "\<exists>r1. spend_state db1 = Some r1 \<and> c_rescan_required r1 = 1 \<and> c_generation r1 = c_generation r + 1 \<and>
     c_required_from r1 = (if c_required_from r = 0 then birthday else min (c_required_from r) birthday) \<and>
     (completed \<longleftrightarrow> uint g = c_generation r + 1 \<and> uint h \<le> c_required_from r1) \<and>
     (\<not> completed \<longrightarrow> db2 = db1) \<and>
     (completed \<longrightarrow> (\<exists>r2. spend_state db2 = Some r2 \<and> c_rescan_required r2 = 0 \<and> c_required_from r2 = 0 \<and>
        (c_spendable r2 = 1 \<longleftrightarrow> c_reason r2 = ''OK'')))"
proof -
  have req: "0 \<le> c_required_from r" using assms(1) by (simp add: wf_row_def)
  obtain r1 where r1: "spend_state db1 = Some r1" "c_rescan_required r1 = 1" "c_generation r1 = c_generation r + 1"
    "c_required_from r1 = (if c_required_from r = 0 then birthday else min (c_required_from r) birthday)"
    and pos: "0 < c_required_from r1"
    using assms(2,3) req by (auto simp: import_requires_rescan_def update_row_def split: if_splits)
  have flag: "completed = replay_eligible (uint g) (uint h) r1"
    and db2: "db2 = update_row (\<lambda>r. if replay_eligible (uint g) (uint h) r then discharge_replay r else r) db1"
    using assms(4) r1(1) by (auto simp: complete_required_rescan_def bind_res_Inr_iff to_sql_i64_Inr_iff)
  have same: "\<not> completed \<Longrightarrow> db2 = db1"
    using r1(1) by (simp add: db2 flag update_row_def)
  have rel: "completed \<Longrightarrow> spend_state db2 = Some (discharge_replay r1)"
    using r1(1) by (simp add: db2 flag update_row_def)
  show ?thesis
    using r1 pos same rel by (auto simp: flag replay_eligible_def discharge_replay_def)
qed

theorem import_replay_lifecycle_witness:
  "\<exists>db1 db2. import_requires_rescan 50 ''ERR_RESCAN_REQUIRED'' (db_of_row (validated_row 90)) = Inr db1 \<and>
     complete_required_rescan 1 40 db1 = Inr (db2, True)"
proof -
  obtain db1 where db1: "import_requires_rescan 50 ''ERR_RESCAN_REQUIRED'' (db_of_row (validated_row 90)) = Inr db1"
    by (simp add: import_requires_rescan_def)
  obtain db2 d where db2: "complete_required_rescan 1 40 db1 = Inr (db2, d)"
    by (simp add: complete_required_rescan_def to_sql_i64_def i64_try_from_def)
  have "wf_row (validated_row 90)" by (simp add: wf_row_def validated_row_def initial_row_def)
  from import_replay_lifecycle [OF this _ db1 db2] db1 db2 show ?thesis
    by (auto simp: validated_row_def initial_row_def)
qed

text \<open>
  Observation. What is saved is loaded: whenever \<open>save_state\<close> succeeds on a database with the
  row present, \<open>load_state\<close> returns the saved state, and it fails exactly when a height does
  not fit the signed column.
\<close>

lemma save_state_load_state:
  assumes "spend_state db = Some r"
  shows "if list_all (\<lambda>h. uint h < 2 ^ 63) [ss_target_height st, ss_anchor_height st,
       ss_validated_anchor_height st, repair_from_height st, required_rescan_from_height st, key_import_generation st]
     then \<exists>db'. save_state st db = Inr db' \<and> load_state db' = Inr st
     else \<exists>m. save_state st db = Inl (SStorage m)"
  using assms
  by (auto simp: save_state_def to_sql_i64_def i64_try_from_def load_state_def update_row_def load_row_def
      row_u64_def u64_try_from_def bool_to_int_def)

theorem save_state_load_state_witness:
  "\<exists>db'. save_state default_state (db_of_row initial_row) = Inr db' \<and> load_state db' = Inr default_state"
  using save_state_load_state [of "db_of_row initial_row" initial_row default_state]
  by (simp add: default_state_def)

abbreviation repair_work :: "spend_db \<Rightarrow> int set" where
  "repair_work db \<equiv> active_heights SCAN_PRIORITY_FOUND_NOTE (queue_table db)"

lemma queue_repair_range_Inr:
  assumes "spend_inv db" "queue_repair_range f e reason db = (db', Inr ())"
  defines "s \<equiv> max f 1"
  shows "spend_inv db'" "repair_work db' = repair_work db \<union> {uint s..<uint (max e (saturating_add s 1))}"
    "spend_state db' = map_option (gate_repair (uint s) reason) (spend_state db)"
proof -
  show "spend_inv db'"
    using spend_machine.inv_step [OF assms(1), of "QueueRepairRange f e reason" db'] assms(2) by simp
  obtain q where q: "queue_found_note_range s (max e (saturating_add s 1)) (Some reason) (queue_table db) = Inr q"
    and db': "db' = (update_row (gate_repair (uint s) reason) db)\<lparr>queue_table := q\<rparr>"
    using assms(2) by (auto simp: queue_repair_range_def Let_def to_sql_i64_Inr_iff s_def split: sum.splits)
  have "scan_inv (queue_table db)" using assms(1) by (simp add: spend_inv_def)
  from found_note_queue.enqueue_work [OF this q] db'
  show "repair_work db' = repair_work db \<union> {uint s..<uint (max e (saturating_add s 1))}"
    and "spend_state db' = map_option (gate_repair (uint s) reason) (spend_state db)"
    by (simp_all add: update_row_def)
qed

text \<open>
  Observation. A repair request is durable and covers its range: for a range that fits the
  columns the request succeeds, the queue's outstanding repair heights become the old ones and
  the clamped range, the earliest repair height is kept, an import's replay obligation is kept,
  and the wallet is unspendable.
\<close>

lemma queue_repair_range_correct:
  assumes "spend_inv db" "spend_state db = Some r"
    and "uint (max e (saturating_add (max f 1) 1)) < 2 ^ 63"
  shows "\<exists>db' r'. queue_repair_range f e reason db = (db', Inr ()) \<and> spend_state db' = Some r' \<and>
     repair_work db' = repair_work db \<union> {max (uint f) 1..<max (uint e) (max (uint f) 1 + 1)} \<and>
     c_repair_from r' = (if c_repair_from r = 0 then max (uint f) 1 else min (c_repair_from r) (max (uint f) 1)) \<and>
     c_required_from r' = c_required_from r \<and>
     (\<exists>st. load_spendability_status_internal db' = Inr st \<and> \<not> st_spendable st \<and>
        st_reason_code st = (if 0 < c_required_from r then ''ERR_RESCAN_REQUIRED'' else ''ERR_WITNESS_REPAIR_QUEUED''))"
proof -
  let ?s = "max f 1" and ?e = "max e (saturating_add (max f 1) 1)"
  have inv: "scan_inv (queue_table db)" using assms(1) by (simp add: spend_inv_def)
  have us: "uint ?s = max (uint f) 1" by (rule uint_max_1)
  have ue: "uint ?e = max (uint e) (max (uint f) 1 + 1)"
    using assms(3) by (auto simp: uint_max uint_saturating_add min_def split: if_splits)
  then have "uint ?s < 2 ^ 63" using assms(3) us by simp
  moreover from found_note_queue.clamped_request [OF inv assms(3), of "Some reason"]
  obtain q where "queue_found_note_range ?s ?e (Some reason) (queue_table db) = Inr q" by blast
  ultimately obtain db' where db': "queue_repair_range f e reason db = (db', Inr ())"
    by (simp add: queue_repair_range_def Let_def to_sql_i64_Inr_iff [THEN iffD2])
  note res = queue_repair_range_Inr [OF assms(1) db']
  define r' where "r' = gate_repair (uint ?s) reason r"
  have r': "spend_state db' = Some r'" using res(3) assms(2) by (simp add: r'_def)
  have "0 \<le> c_repair_from r" using assms(1,2) by (auto simp: spend_inv_def on_row_def wf_row_def)
  then have row: "c_repair_from r' = (if c_repair_from r = 0 then max (uint f) 1 else min (c_repair_from r) (max (uint f) 1))"
    "c_required_from r' = c_required_from r" "c_repair_queued r' = 1"
    "c_rescan_required r' = (if 0 < c_required_from r then 1 else 0)"
    unfolding r'_def gate_repair_def us by auto
  obtain st where "load_spendability_status_internal db' = Inr st" "\<not> st_spendable st"
    "st_reason_code st = (if 0 < c_required_from r then ''ERR_RESCAN_REQUIRED'' else ''ERR_WITNESS_REPAIR_QUEUED'')"
    by (rule status_cases [OF res(1) r']) (use row in \<open>simp add: gates_open_def repair_open_def\<close>)
  with db' r' row res(2) show ?thesis
    by (simp add: us ue)
qed

theorem queue_repair_range_correct_witness:
  "\<exists>db'. queue_repair_range 0 40 ''ERR_WITNESS_REPAIR_QUEUED'' example_db = (db', Inr ()) \<and>
     {1..<40} \<subseteq> repair_work db' \<and>
     (\<exists>st. load_spendability_status_internal db' = Inr st \<and> \<not> st_spendable st)"
proof -
  have "spend_state example_db = Some (validated_row 90)" by (simp add: example_db_def)
  moreover have "uint (max 40 (saturating_add (max 0 1) 1 :: u64)) < 2 ^ 63"
    by (simp add: uint_max uint_saturating_add)
  ultimately show ?thesis
    using queue_repair_range_correct [OF example_db_inv, where r = "validated_row 90" and e = 40 and f = 0
        and reason = "''ERR_WITNESS_REPAIR_QUEUED''"] by auto
qed

lemma queue_repair_ranges_Inr:
  assumes "spend_inv db" "queue_repair_ranges birthday lo hi ranges db = (db', Inr res)"
  shows "spend_inv db' \<and> repair_work db \<subseteq> repair_work db' \<and>
     (\<forall>(f, e) \<in> set ranges. {uint (max (max f birthday) 1)..<uint e} \<subseteq> repair_work db')"
  using assms
proof (induction birthday lo hi ranges db rule: queue_repair_ranges.induct)
  case (2 birthday lo hi f e rs db)
  define from_height where "from_height = max (max f birthday) 1"
  define range_end where "range_end = max e (saturating_add from_height 1)"
  obtain db1 where db1: "queue_repair_range from_height range_end ''ERR_WITNESS_REPAIR_QUEUED'' db = (db1, Inr ())"
    and rest: "queue_repair_ranges birthday (min lo from_height) (max hi range_end) rs db1 = (db', Inr res)"
    using 2(3) by (auto simp: Let_def then_db_def range_end_def from_height_def split: prod.splits sum.splits)
  note step = queue_repair_range_Inr [OF 2(2) db1]
  have ih: "spend_inv db' \<and> repair_work db1 \<subseteq> repair_work db' \<and>
     (\<forall>(f, e) \<in> set rs. {uint (max (max f birthday) 1)..<uint e} \<subseteq> repair_work db')"
    by (rule "2.IH" [OF from_height_def range_end_def]) (use step(1) rest in simp_all)
  have one: "max from_height 1 = from_height" by (simp add: from_height_def)
  have "uint e \<le> uint (max range_end (saturating_add from_height 1))"
    by (simp add: range_end_def uint_max)
  then have "{uint from_height..<uint e} \<subseteq> repair_work db1"
    unfolding step(2) one by (intro le_supI2) simp
  with ih step(2) show ?case by (auto simp: from_height_def)
qed simp

lemma retire_through_spend:
  assumes "spend_inv db"
  shows "spend_inv (retire_through h db)" "spend_state (retire_through h db) = spend_state db"
proof -
  show "spend_state (retire_through h db) = spend_state db"
    by (simp add: retire_through_def split: sum.split prod.split)
  have "scan_inv (queue_table (retire_through h db))"
    using assms
    by (auto simp: retire_through_def spend_inv_def mark_through_Inr_iff split: sum.split prod.split
        intro: scan_inv_update)
  then show "spend_inv (retire_through h db)"
    using assms \<open>spend_state (retire_through h db) = spend_state db\<close> by (simp add: spend_inv_def on_row_def)
qed

lemma lift_db_Inr: "lift_db db r = (db', Inr ()) \<longleftrightarrow> r = Inr db'"
  by (cases r) (auto simp: lift_db_def)

lemma then_db_Inr: "then_db m k = (db', Inr y) \<longleftrightarrow> (\<exists>db x. m = (db, Inr x) \<and> k db x = (db', Inr y))"
  by (cases m; cases "snd m") (auto simp: then_db_def)

lemma repair_pending_status:
  assumes "spend_inv db" "mark_repair_pending_without_enqueue f reason db = Inr db'"
  shows "\<exists>st. load_spendability_status_internal db' = Inr st \<and> \<not> st_spendable st"
    and "queue_table db' = queue_table db"
proof -
  have inv: "spend_inv db'"
    by (rule spend_machine.inv_step [OF assms(1), of "RepairPending f reason"]) (simp_all add: assms(2))
  then obtain r' where r': "spend_state db' = Some r'" by (auto simp: spend_inv_def elim: on_rowE)
  then have queued: "c_repair_queued r' = 1"
    using assms(2) by (auto simp: mark_repair_pending_without_enqueue_def bind_res_Inr_iff update_row_def
        gate_repair_def)
  show "\<exists>st. load_spendability_status_internal db' = Inr st \<and> \<not> st_spendable st"
    by (rule status_cases [OF inv r']) (simp add: gates_open_def repair_open_def queued)
  show "queue_table db' = queue_table db"
    using assms(2) by (auto simp: mark_repair_pending_without_enqueue_def bind_res_Inr_iff)
qed

lemma mark_validated_status:
  assumes "spend_inv db" "spend_state db = Some r" "mark_validated t a db = Inr db'" "repair_work db = {}"
  shows "\<exists>st. load_spendability_status_internal db' = Inr st \<and> (st_spendable st \<longleftrightarrow> c_required_from r = 0 \<and> 0 < a) \<and>
     st_anchor_height st = a \<and> st_validated_anchor_height st = a \<and> st_target_height st = t"
proof -
  have inv: "spend_inv db'"
    by (rule spend_machine.inv_step [OF assms(1), of "Validated t a"]) (simp_all add: assms(3))
  obtain r' where r': "spend_state db' = Some r'" and q: "queue_table db' = queue_table db"
    and row: "c_rescan_required r' = (if c_required_from r > 0 then 1 else 0)" "c_repair_queued r' = 0"
      "c_interrupted r' = 0" "c_anchor r' = uint a" "c_validated r' = uint a" "c_target r' = uint t"
    using assms(2,3) by (auto simp: mark_validated_def bind_res_Inr_iff to_sql_i64_Inr_iff update_row_def)
  have "0 \<le> c_required_from r" using assms(1,2) by (auto simp: spend_inv_def on_row_def wf_row_def)
  show ?thesis
    by (rule status_cases [OF inv r'], rule exI, intro conjI, assumption)
      (use row q assms(4) \<open>0 \<le> c_required_from r\<close> in
        \<open>auto simp: gates_open_def repair_open_def word_less_def word_uint_eq_iff\<close>)
qed

text \<open>
  Observation. The witness check settles the wallet soundly: when the check of the notes
  reported no missing witness and no repair stays outstanding after retiring the finished ones,
  the anchor becomes the validated one and the wallet is spendable from it unless an imported
  key still owes a replay; in every other case the wallet is unspendable, and every repair range
  the check reported is outstanding work in the queue.
\<close>

lemma witness_check_settles:
  assumes "spend_inv db" "spend_state db = Some r"
    and "settle_witness_check current target anchor birthday ranges db = (db', Inr out)"
  shows "checked out \<and> (\<exists>st. load_spendability_status_internal db' = Inr st \<and>
     (st_spendable st \<longleftrightarrow> ranges = [] \<and> c_required_from r = 0 \<and> 0 < anchor \<and>
        repair_work (retire_through (max (saturating_add anchor 1) (saturating_add current 1)) db) = {}) \<and>
     (st_spendable st \<longrightarrow> st_anchor_height st = anchor \<and> st_validated_anchor_height st = anchor \<and>
        st_target_height st = target)) \<and>
     (\<forall>(f, e) \<in> set ranges. {uint (max (max f birthday) 1)..<uint e} \<subseteq> repair_work db')"
proof (cases "ranges = []")
  case True
  define db1 where "db1 = retire_through (max (saturating_add anchor 1) (saturating_add current 1)) db"
  have inv1: "spend_inv db1" and row1: "spend_state db1 = Some r"
    using retire_through_spend [OF assms(1)] assms(2) by (simp_all add: db1_def)
  then obtain n where n: "next_found_note_range (queue_table db1) = Inr n" "n = None \<longleftrightarrow> repair_work db1 = {}"
    using next_found_note_total [of "queue_table db1"] by (auto simp: spend_inv_def)
  show ?thesis
  proof (cases n)
    case None
    then have "mark_validated target anchor db1 = Inr db'" and "checked out"
      using assms(3) True n by (auto simp: settle_witness_check_def Let_def then_db_Inr lift_db_Inr simp flip: db1_def)
    with mark_validated_status [OF inv1 row1, of target anchor db'] True None n show ?thesis
      by (auto simp flip: db1_def)
  next
    case (Some row)
    then have "mark_repair_pending_without_enqueue (max (sr_start row) 1) ''ERR_WITNESS_REPAIR_QUEUED'' db1 = Inr db'"
      and "checked out"
      using assms(3) True n by (auto simp: settle_witness_check_def Let_def then_db_Inr lift_db_Inr simp flip: db1_def)
    with repair_pending_status(1) [OF inv1] True Some n show ?thesis
      by (auto simp flip: db1_def)
  qed
next
  case False
  then obtain db1 lo hi queued_start where
    db1: "queue_repair_ranges birthday (- 1) (saturating_add (max anchor current) 1) ranges db = (db1, Inr (lo, hi))"
    and mark: "mark_repair_pending_without_enqueue queued_start ''ERR_WITNESS_REPAIR_QUEUED'' db1 = Inr db'"
    and "checked out"
    using assms(3) by (auto simp: settle_witness_check_def Let_def then_db_Inr lift_db_Inr)
  note loop = queue_repair_ranges_Inr [OF assms(1) db1]
  with repair_pending_status [OF _ mark] False \<open>checked out\<close> show ?thesis by auto
qed

theorem witness_check_settles_witness:
  "\<exists>db' out st. settle_witness_check 100 101 97 20 [] example_db = (db', Inr out) \<and>
     load_spendability_status_internal db' = Inr st \<and> st_spendable st \<and> st_anchor_height st = 97"
proof -
  let ?h = "max (saturating_add 97 1) (saturating_add 100 1) :: u64"
  have "uint ?h < 2 ^ 63" by (simp add: uint_max uint_saturating_add)
  then have retired: "queue_table (retire_through ?h example_db) = queue_table example_db"
    by (simp add: retire_through_def mark_found_note_done_through_def to_sql_i64_def i64_try_from_def
        update_status_def done_through_def example_db_def SCAN_PRIORITY_FOUND_NOTE_def)
  have none: "next_found_note_range (queue_table example_db) = Inr None"
    by (simp add: next_found_note_range_def found_note_work_def example_db_def SCAN_PRIORITY_FOUND_NOTE_def)
  obtain db' where db': "settle_witness_check 100 101 97 20 [] example_db =
      (db', Inr \<lparr>repair_range = None, checked = True\<rparr>)"
    by (simp add: settle_witness_check_def Let_def retired none lift_db_def mark_validated_def
        to_sql_i64_def i64_try_from_def)
  have work: "repair_work (retire_through ?h example_db) = {}"
    unfolding retired by (simp add: active_heights_def example_db_def SCAN_PRIORITY_FOUND_NOTE_def)
  have "spend_state example_db = Some (validated_row 90)" by (simp add: example_db_def)
  from witness_check_settles [OF example_db_inv this db'] work db' show ?thesis
    by (auto simp: validated_row_def initial_row_def)
qed

text \<open>
  Observation. A rescan gate without an import obligation is opened before any anchor was
  validated: a rescan begun on a validated wallet, followed by the ordinary finalizing
  transition at a height the old validation covers, reports the wallet as spendable.
\<close>

lemma rescan_gate_opened_by_finalizing:
  "\<exists>st. load_spendability_status_internal (run_ops spend_step
       [BeginRescan 101 50 ''ERR_RESCAN_REQUIRED'', SyncFinalizing 81 80] (db_of_row (validated_row 100))) = Inr st \<and>
     st_spendable st \<and> st_reason_code st = ''OK'' \<and> st_anchor_height st = 80"
proof -
  let ?db = "run_ops spend_step [BeginRescan 101 50 ''ERR_RESCAN_REQUIRED'', SyncFinalizing 81 80]
    (db_of_row (validated_row 100))"
  have inv: "spend_inv ?db"
    by (intro run_inv db_of_row_inv) (simp_all add: wf_row_def validated_row_def initial_row_def)
  obtain r where r: "spend_state ?db = Some r" and row: "c_rescan_required r = 0" "c_repair_queued r = 0"
      "c_interrupted r = 0" "c_anchor r = 80" "c_validated r = 100"
    and q: "queue_table ?db = queue_table (db_of_row (validated_row 100))"
    by (simp add: exec_op_def begin_rescan_def mark_sync_finalizing_def to_sql_i64_def i64_try_from_def
        update_row_def validated_row_def initial_row_def)
  show ?thesis
    by (rule status_cases [OF inv r], rule exI, intro conjI, assumption)
      (use row q in \<open>auto simp: gates_open_def repair_open_def word_uint_eq_iff\<close>)
qed

text \<open>
  Observation. A truncation that writes the row as unspendable with \<open>ERR_SYNC_FINALIZING\<close> does
  not close the public gate: on a validated wallet the status recomputed right after it is
  spendable, at the truncated anchor.
\<close>

lemma truncation_leaves_gate_open:
  "\<exists>st. load_spendability_status_internal (truncate_spendability 60 (db_of_row (validated_row 100))) = Inr st \<and>
     st_spendable st \<and> st_reason_code st = ''OK'' \<and> st_anchor_height st = 60"
proof -
  let ?db = "truncate_spendability 60 (db_of_row (validated_row 100))"
  have inv: "spend_inv ?db"
    by (rule spend_machine.inv_step [OF db_of_row_inv, of "validated_row 100" "Truncate 60"])
      (simp_all add: wf_row_def validated_row_def initial_row_def sync_to_sql_i64_def i64_try_from_def)
  obtain r where r: "spend_state ?db = Some r" and row: "c_rescan_required r = 0" "c_repair_queued r = 0"
      "c_interrupted r = 0" "c_anchor r = 60" "c_validated r = 60"
    and q: "queue_table ?db = queue_table (db_of_row (validated_row 100))"
    by (simp add: truncate_spendability_def update_row_def validated_row_def initial_row_def)
  show ?thesis
    by (rule status_cases [OF inv r], rule exI, intro conjI, assumption)
      (use row q in \<open>auto simp: gates_open_def repair_open_def word_uint_eq_iff\<close>)
qed

end
