(* ===== verification/SyncState.thy ===== *)
theory SyncState
  imports SpendFlow
begin

text \<open>
  The sync cursor and the canonical block window (\<open>sync_state.rs\<close> of the storage crate), and
  the truncation that undoes everything above a height.

  \<open>chain_blocks\<close> is the table as a list of cells with distinct heights; an upsert of a batch
  works block by block. A statement that finds the database busy is retried
  (\<open>execute_with_retry\<close>): \<open>attempt i\<close> is what the i-th call of the closure returns, \<open>rnd i\<close> the
  random number its backoff draws. Decryption (\<open>MasterKey::decrypt\<close>) and the rewinding of a
  commitment tree (the \<open>shardtree\<close> crate) are arguments of the truncation.
\<close>

section \<open>Retrying on a busy database\<close>

definition MAX_BUSY_RETRIES :: nat where "MAX_BUSY_RETRIES = 5"
definition BASE_BACKOFF_MS :: u64 where "BASE_BACKOFF_MS = 50"
definition MAX_BACKOFF_MS :: u64 where "MAX_BACKOFF_MS = 1000"

definition is_busy_error :: "rusqlite_error \<Rightarrow> bool" where
  "is_busy_error err \<longleftrightarrow> err = DatabaseBusy"

definition calculate_backoff :: "nat \<Rightarrow> u64 \<Rightarrow> u64" where
  "calculate_backoff attempt rnd =
     (let base = BASE_BACKOFF_MS * push_bit (min attempt 6) 1;
          jitter = rnd mod (base div 4 + 1)
      in min (base + jitter) MAX_BACKOFF_MS)"

text \<open>The loop from a number of attempts on, with the milliseconds slept.\<close>

function retry_loop ::
    "(nat \<Rightarrow> storage_error + 'a) \<Rightarrow> (nat \<Rightarrow> u64) \<Rightarrow> nat \<Rightarrow> (storage_error + 'a) \<times> u64 list" where
  "retry_loop attempt rnd attempts =
     (case attempt attempts of
        Inr x \<Rightarrow> (Inr x, [])
      | Inl (Database e) \<Rightarrow>
          if is_busy_error e \<and> attempts < MAX_BUSY_RETRIES
          then let backoff = calculate_backoff (attempts + 1) (rnd attempts);
                   (r, slept) = retry_loop attempt rnd (attempts + 1)
               in (r, backoff # slept)
          else (Inl (Database e), [])
      | Inl e \<Rightarrow> (Inl e, []))"
  by pat_completeness auto
termination
  by (relation "measure (\<lambda>(_, _, n). MAX_BUSY_RETRIES - n)") (auto simp: MAX_BUSY_RETRIES_def)

declare retry_loop.simps [simp del]

definition execute_with_retry ::
    "(nat \<Rightarrow> storage_error + 'a) \<Rightarrow> (nat \<Rightarrow> u64) \<Rightarrow> (storage_error + 'a) \<times> u64 list" where
  "execute_with_retry attempt rnd = retry_loop attempt rnd 0"

section \<open>The cursor and the block window\<close>

record sync_row =
  local_height_col :: i64
  target_height_col :: i64
  last_checkpoint_col :: i64
  ironwood_activation_col :: "i64 option"

record chain_cell =
  cell_height :: i64
  cell_hash :: bytes
  cell_prev_hash :: bytes
  cell_time :: i64

record sync_state_row =
  ssr_local_height :: u64
  ssr_target_height :: u64
  last_checkpoint_height :: u64
  ironwood_activation_height :: "u32 option"

record chain_block_row =
  block_height :: u64
  block_hash :: bytes
  block_prev_hash :: bytes
  block_time :: u32

definition default_sync_state :: sync_state_row where
  "default_sync_state = \<lparr>ssr_local_height = 0, ssr_target_height = 0, last_checkpoint_height = 0,
     ironwood_activation_height = None\<rparr>"

record sync_db =
  sync_state :: "sync_row option"
  chain_blocks :: "chain_cell list"

definition update_sync :: "(sync_row \<Rightarrow> sync_row) \<Rightarrow> sync_db \<Rightarrow> sync_db" where
  "update_sync f db = db\<lparr>sync_state := map_option f (sync_state db)\<rparr>"

definition save_sync_state_tx :: "u64 \<Rightarrow> u64 \<Rightarrow> u64 \<Rightarrow> sync_db \<Rightarrow> storage_error + sync_db" where
  "save_sync_state_tx local_height target_height checkpoint_height db =
     bind_res (sync_to_sql_i64 local_height) (\<lambda>l.
     bind_res (sync_to_sql_i64 target_height) (\<lambda>t.
     bind_res (sync_to_sql_i64 checkpoint_height) (\<lambda>c.
       Inr (update_sync (\<lambda>r. r\<lparr>local_height_col := l, target_height_col := t,
         last_checkpoint_col := c\<rparr>) db))))"

text \<open>\<open>u32::try_from\<close> on a column.\<close>

definition row_u32 :: "nat \<Rightarrow> i64 \<Rightarrow> storage_error + u32" where
  "row_u32 index v =
     (if 0 \<le> v \<and> v < 2 ^ 32 then Inr (word_of_int v) else Inl (Database (IntegralValueOutOfRange index v)))"

definition load_sync_row :: "sync_row \<Rightarrow> storage_error + sync_state_row" where
  "load_sync_row r =
     bind_res (row_u64 0 (local_height_col r)) (\<lambda>l.
     bind_res (row_u64 1 (target_height_col r)) (\<lambda>t.
     bind_res (row_u64 2 (last_checkpoint_col r)) (\<lambda>c.
     bind_res (case ironwood_activation_col r of None \<Rightarrow> Inr None
               | Some h \<Rightarrow> bind_res (row_u32 3 h) (\<lambda>w. Inr (Some w))) (\<lambda>act.
       Inr \<lparr>ssr_local_height = l, ssr_target_height = t, last_checkpoint_height = c,
         ironwood_activation_height = act\<rparr>))))"

definition load_sync_state_once :: "sync_db \<Rightarrow> storage_error + sync_state_row" where
  "load_sync_state_once db = (case sync_state db of None \<Rightarrow> Inr default_sync_state | Some r \<Rightarrow> load_sync_row r)"

definition set_ironwood_activation_once :: "u32 option \<Rightarrow> sync_db \<Rightarrow> storage_error + sync_db" where
  "set_ironwood_activation_once height db =
     Inr (update_sync (\<lambda>r. r\<lparr>ironwood_activation_col := map_option uint height\<rparr>) db)"

definition reset_sync_state_once :: "u64 \<Rightarrow> sync_db \<Rightarrow> storage_error + sync_db" where
  "reset_sync_state_once start_height db = bind_res (sync_to_sql_i64 start_height) (\<lambda>s.
     Inr (update_sync (\<lambda>r. r\<lparr>local_height_col := s, target_height_col := 0, last_checkpoint_col := s\<rparr>) db))"

definition update_local_height_once :: "u64 \<Rightarrow> sync_db \<Rightarrow> storage_error + sync_db" where
  "update_local_height_once h db = bind_res (sync_to_sql_i64 h) (\<lambda>v.
     Inr (update_sync (\<lambda>r. r\<lparr>local_height_col := v\<rparr>) db))"

definition update_target_height_once :: "u64 \<Rightarrow> sync_db \<Rightarrow> storage_error + sync_db" where
  "update_target_height_once h db = bind_res (sync_to_sql_i64 h) (\<lambda>v.
     Inr (update_sync (\<lambda>r. r\<lparr>target_height_col := v\<rparr>) db))"

definition update_checkpoint_height_once :: "u64 \<Rightarrow> sync_db \<Rightarrow> storage_error + sync_db" where
  "update_checkpoint_height_once h db = bind_res (sync_to_sql_i64 h) (\<lambda>v.
     Inr (update_sync (\<lambda>r. r\<lparr>last_checkpoint_col := v\<rparr>) db))"

text \<open>One row of \<open>INSERT ... ON CONFLICT(height) DO UPDATE ... WHERE something differs\<close>.\<close>

definition upsert_cell :: "chain_cell \<Rightarrow> chain_cell list \<Rightarrow> chain_cell list" where
  "upsert_cell c cells =
     (if list_ex (\<lambda>d. cell_height d = cell_height c) cells
      then map (\<lambda>d. if cell_height d = cell_height c \<and>
             (cell_hash d \<noteq> cell_hash c \<or> cell_prev_hash d \<noteq> cell_prev_hash c \<or> cell_time d \<noteq> cell_time c)
           then d\<lparr>cell_hash := cell_hash c, cell_prev_hash := cell_prev_hash c, cell_time := cell_time c\<rparr>
           else d) cells
      else cells @ [c])"

definition CHAIN_BLOCK_UPSERT_ROWS :: nat where "CHAIN_BLOCK_UPSERT_ROWS = 200"

text \<open>\<open>slice::chunks\<close>.\<close>

function chunks :: "nat \<Rightarrow> 'a list \<Rightarrow> 'a list list" where
  "chunks n xs = (if xs = [] \<or> n = 0 then [] else take n xs # chunks n (drop n xs))"
  by pat_completeness auto
termination
  by (relation "measure (\<lambda>(_, xs). length xs)") auto

declare chunks.simps [simp del]

fun chunk_values :: "chain_block_row list \<Rightarrow> storage_error + chain_cell list" where
  "chunk_values [] = Inr []"
| "chunk_values (b # bs) =
     bind_res (sync_to_sql_i64 (block_height b)) (\<lambda>h.
     bind_res (chunk_values bs) (\<lambda>cs.
       Inr (\<lparr>cell_height = h, cell_hash = block_hash b, cell_prev_hash = block_prev_hash b,
             cell_time = uint (block_time b)\<rparr> # cs)))"

fun save_chunks :: "chain_block_row list list \<Rightarrow> sync_db \<Rightarrow> storage_error + sync_db" where
  "save_chunks [] db = Inr db"
| "save_chunks (ch # chs) db =
     bind_res (chunk_values ch) (\<lambda>cells.
       save_chunks chs (db\<lparr>chain_blocks := fold upsert_cell cells (chain_blocks db)\<rparr>))"

definition save_chain_blocks_tx :: "chain_block_row list \<Rightarrow> sync_db \<Rightarrow> storage_error + sync_db" where
  "save_chain_blocks_tx blocks db =
     (if blocks = [] then Inr db else save_chunks (chunks CHAIN_BLOCK_UPSERT_ROWS blocks) db)"

text \<open>The transaction of \<open>save_sync_progress\<close>: an error leaves the database as it was.\<close>

definition save_sync_progress_once ::
    "chain_block_row list \<Rightarrow> u64 \<Rightarrow> u64 \<Rightarrow> u64 \<Rightarrow> u64 \<Rightarrow> sync_db \<Rightarrow> storage_error + sync_db" where
  "save_sync_progress_once blocks local_height target_height checkpoint_height reorg_window db =
     bind_res (save_chain_blocks_tx blocks db) (\<lambda>db1.
     bind_res (save_sync_state_tx local_height target_height checkpoint_height db1) (\<lambda>db2.
       if blocks = [] then Inr db2
       else bind_res (sync_to_sql_i64 (saturating_sub (block_height (last blocks)) reorg_window)) (\<lambda>retain_from.
         Inr (db2\<lparr>chain_blocks := filter (\<lambda>c. \<not> cell_height c < retain_from) (chain_blocks db2)\<rparr>))))"

definition chain_block_from_row :: "chain_cell \<Rightarrow> storage_error + chain_block_row" where
  "chain_block_from_row c =
     bind_res (row_u64 0 (cell_height c)) (\<lambda>h.
     bind_res (row_u32 3 (cell_time c)) (\<lambda>t.
       Inr \<lparr>block_height = h, block_hash = cell_hash c, block_prev_hash = cell_prev_hash c, block_time = t\<rparr>))"

fun collect_rows :: "chain_cell list \<Rightarrow> storage_error + chain_block_row list" where
  "collect_rows [] = Inr []"
| "collect_rows (c # cs) = bind_res (chain_block_from_row c) (\<lambda>b. bind_res (collect_rows cs) (\<lambda>bs. Inr (b # bs)))"

definition load_chain_block_once :: "u64 \<Rightarrow> sync_db \<Rightarrow> storage_error + chain_block_row option" where
  "load_chain_block_once height db = bind_res (sync_to_sql_i64 height) (\<lambda>h.
     case filter (\<lambda>c. cell_height c = h) (chain_blocks db) of
       [] \<Rightarrow> Inr None
     | c # _ \<Rightarrow> bind_res (chain_block_from_row c) (\<lambda>b. Inr (Some b)))"

definition load_chain_blocks_once :: "u64 \<Rightarrow> u64 \<Rightarrow> sync_db \<Rightarrow> storage_error + chain_block_row list" where
  "load_chain_blocks_once start_height end_height db =
     (if end_height < start_height then Inr []
      else bind_res (sync_to_sql_i64 start_height) (\<lambda>s. bind_res (sync_to_sql_i64 end_height) (\<lambda>e.
        collect_rows (sort_key cell_height
          (filter (\<lambda>c. s \<le> cell_height c \<and> cell_height c \<le> e) (chain_blocks db))))))"

definition load_latest_chain_block_once :: "sync_db \<Rightarrow> storage_error + chain_block_row option" where
  "load_latest_chain_block_once db =
     (case sort_key (\<lambda>c. - cell_height c) (chain_blocks db) of
        [] \<Rightarrow> Inr None
      | c # _ \<Rightarrow> bind_res (chain_block_from_row c) (\<lambda>b. Inr (Some b)))"

text \<open>
  A whole operation: each attempt either finds the database busy or runs the statement or
  transaction, which commits or leaves the database unchanged.
\<close>

definition with_retry ::
    "(nat \<Rightarrow> bool) \<Rightarrow> (nat \<Rightarrow> u64) \<Rightarrow> (sync_db \<Rightarrow> storage_error + sync_db) \<Rightarrow> sync_db
     \<Rightarrow> sync_db \<times> (storage_error + unit)" where
  "with_retry busy rnd once db =
     (case fst (execute_with_retry (\<lambda>i. if busy i then Inl (Database DatabaseBusy) else once db) rnd) of
        Inl e \<Rightarrow> (db, Inl e)
      | Inr db' \<Rightarrow> (db', Inr ()))"

definition save_sync_progress ::
    "(nat \<Rightarrow> bool) \<Rightarrow> (nat \<Rightarrow> u64) \<Rightarrow> chain_block_row list \<Rightarrow> u64 \<Rightarrow> u64 \<Rightarrow> u64 \<Rightarrow> u64 \<Rightarrow> sync_db
     \<Rightarrow> sync_db \<times> (storage_error + unit)" where
  "save_sync_progress busy rnd blocks local_height target_height checkpoint_height reorg_window =
     with_retry busy rnd
       (save_sync_progress_once blocks local_height target_height checkpoint_height reorg_window)"

section \<open>Lemmas\<close>

lemma retry_loop_stop:
  "MAX_BUSY_RETRIES \<le> n \<or> attempt n \<noteq> Inl (Database DatabaseBusy) \<Longrightarrow>
   retry_loop attempt rnd n = (attempt n, [])"
  by (subst retry_loop.simps) (auto simp: is_busy_error_def split: sum.split storage_error.split)

lemma retry_loop_busy:
  "n < MAX_BUSY_RETRIES \<Longrightarrow> attempt n = Inl (Database DatabaseBusy) \<Longrightarrow>
   retry_loop attempt rnd n = (fst (retry_loop attempt rnd (n + 1)),
     calculate_backoff (n + 1) (rnd n) # snd (retry_loop attempt rnd (n + 1)))"
  by (subst retry_loop.simps) (simp add: is_busy_error_def Let_def split: prod.split)

lemma retry_loop_spec:
  assumes "n \<le> MAX_BUSY_RETRIES"
  shows "\<exists>k \<ge> n. k \<le> MAX_BUSY_RETRIES \<and> (k = MAX_BUSY_RETRIES \<or> attempt k \<noteq> Inl (Database DatabaseBusy)) \<and>
     (\<forall>i. n \<le> i \<and> i < k \<longrightarrow> attempt i = Inl (Database DatabaseBusy)) \<and>
     retry_loop attempt rnd n = (attempt k, map (\<lambda>i. calculate_backoff (i + 1) (rnd i)) [n..<k])"
  using assms
proof (induction n rule: inc_induct)
  case base
  then show ?case by (auto simp: retry_loop_stop)
next
  case (step n)
  show ?case
  proof (cases "attempt n = Inl (Database DatabaseBusy)")
    case True
    obtain k where k: "Suc n \<le> k" "k \<le> MAX_BUSY_RETRIES" "k = MAX_BUSY_RETRIES \<or> attempt k \<noteq> Inl (Database DatabaseBusy)"
      "\<forall>i. Suc n \<le> i \<and> i < k \<longrightarrow> attempt i = Inl (Database DatabaseBusy)"
      "retry_loop attempt rnd (Suc n) = (attempt k, map (\<lambda>i. calculate_backoff (i + 1) (rnd i)) [Suc n..<k])"
      using step.IH by auto
    have "attempt i = Inl (Database DatabaseBusy)" if "n \<le> i" "i < k" for i
      using that True k(4) by (cases "i = n") auto
    moreover have "retry_loop attempt rnd n = (attempt k, map (\<lambda>i. calculate_backoff (i + 1) (rnd i)) [n..<k])"
      using retry_loop_busy [of n attempt rnd] True step.hyps k(1,5) by (simp add: upt_conv_Cons)
    ultimately show ?thesis
      using k(1,2,3) by (intro exI [of _ k]) simp
  next
    case False
    with step.hyps show ?thesis
      by (intro exI [of _ n]) (auto simp: retry_loop_stop)
  qed
qed

lemma execute_with_retry_spec:
  "\<exists>k \<le> 5. (k = 5 \<or> attempt k \<noteq> Inl (Database DatabaseBusy)) \<and>
     (\<forall>i < k. attempt i = Inl (Database DatabaseBusy)) \<and>
     fst (execute_with_retry attempt rnd) = attempt k \<and>
     snd (execute_with_retry attempt rnd) = map (\<lambda>i. calculate_backoff (i + 1) (rnd i)) [0..<k]"
  using retry_loop_spec [of 0 attempt rnd] by (auto simp: MAX_BUSY_RETRIES_def execute_with_retry_def)

lemma backoff_bounds: "0 < n \<Longrightarrow> n \<le> 5 \<Longrightarrow> 100 \<le> calculate_backoff n r \<and> calculate_backoff n r \<le> 1000"
proof -
  assume n: "0 < n" "n \<le> 5"
  have low: "b \<le> b + r mod (b div 4 + 1)" if "unat b \<le> 3200" for b :: u64
  proof -
    have "unat (b div 4 + 1) = unat b div 4 + 1"
      using that by (simp add: unat_word_ariths unat_div_distrib)
    then have "unat (r mod (b div 4 + 1)) < unat b div 4 + 1"
      by (simp add: unat_mod_distrib)
    with that show ?thesis
      by (simp add: word_le_nat_alt unat_word_ariths)
  qed
  from n consider "n = 1" | "n = 2" | "n = 3" | "n = 4" | "n = 5" by linarith
  then have "100 \<le> BASE_BACKOFF_MS * push_bit (min n 6) 1 \<and> unat (BASE_BACKOFF_MS * push_bit (min n 6) 1) \<le> 3200"
    by cases (simp_all add: BASE_BACKOFF_MS_def push_bit_eq_mult)
  then show ?thesis
    using low [of "BASE_BACKOFF_MS * push_bit (min n 6) 1"]
    by (auto simp: calculate_backoff_def Let_def MAX_BACKOFF_MS_def)
qed

text \<open>The table as a partial function of the height.\<close>

definition cell_at :: "chain_cell list \<Rightarrow> i64 \<Rightarrow> chain_cell option" where
  "cell_at cells h = find (\<lambda>c. cell_height c = h) cells"

definition cell_of :: "chain_block_row \<Rightarrow> chain_cell" where
  "cell_of b = \<lparr>cell_height = uint (block_height b), cell_hash = block_hash b,
     cell_prev_hash = block_prev_hash b, cell_time = uint (block_time b)\<rparr>"

lemma upsert_cell_eq:
  "upsert_cell c cells = (if list_ex (\<lambda>d. cell_height d = cell_height c) cells
     then map (\<lambda>d. if cell_height d = cell_height c then c else d) cells else cells @ [c])"
proof -
  have "(if cell_height d = cell_height c \<and>
        (cell_hash d \<noteq> cell_hash c \<or> cell_prev_hash d \<noteq> cell_prev_hash c \<or> cell_time d \<noteq> cell_time c)
      then d\<lparr>cell_hash := cell_hash c, cell_prev_hash := cell_prev_hash c, cell_time := cell_time c\<rparr>
      else d) = (if cell_height d = cell_height c then c else d)" for d
    by (cases c, cases d) auto
  then show ?thesis by (simp only: upsert_cell_def)
qed

lemma cell_at_upsert:
  "cell_at (upsert_cell c cells) h = (if h = cell_height c then Some c else cell_at cells h)"
proof -
  have "find (\<lambda>d. cell_height d = h) (map (\<lambda>d. if cell_height d = cell_height c then c else d) cells) =
      (if h = cell_height c then Some c else find (\<lambda>d. cell_height d = h) cells)"
    if "list_ex (\<lambda>d. cell_height d = cell_height c) cells \<or> h \<noteq> cell_height c"
    using that by (induction cells) auto
  moreover have "find (\<lambda>d. cell_height d = h) (cells @ [c]) =
      (if h = cell_height c then Some c else find (\<lambda>d. cell_height d = h) cells)"
    if "\<not> list_ex (\<lambda>d. cell_height d = cell_height c) cells"
    using that by (induction cells) auto
  ultimately show ?thesis by (auto simp: upsert_cell_eq cell_at_def)
qed

lemma cell_at_fold_upsert:
  "cell_at (fold upsert_cell cs cells) h =
     (case find (\<lambda>c. cell_height c = h) (rev cs) of Some c \<Rightarrow> Some c | None \<Rightarrow> cell_at cells h)"
  by (induction cs rule: rev_induct) (auto simp: cell_at_upsert)

lemma cell_at_filter_height:
  "cell_at (filter (\<lambda>c. Q (cell_height c)) cells) h = (if Q h then cell_at cells h else None)"
  unfolding cell_at_def by (induction cells) auto

lemma concat_chunks: "0 < n \<Longrightarrow> concat (chunks n xs) = xs"
proof (induction n xs rule: chunks.induct)
  case (1 n xs)
  then show ?case by (subst chunks.simps) auto
qed

lemma chunk_values_append:
  "chunk_values (as @ bs) = bind_res (chunk_values as) (\<lambda>x. bind_res (chunk_values bs) (\<lambda>y. Inr (x @ y)))"
proof (induction as)
  case Nil
  then show ?case by (cases "chunk_values bs") auto
next
  case (Cons a as)
  then show ?case
    by (cases "sync_to_sql_i64 (block_height a)"; cases "chunk_values as"; cases "chunk_values bs") auto
qed

lemma save_chunks_concat:
  "save_chunks chs db = bind_res (chunk_values (concat chs)) (\<lambda>cells.
     Inr (db\<lparr>chain_blocks := fold upsert_cell cells (chain_blocks db)\<rparr>))"
proof (induction chs arbitrary: db)
  case (Cons ch chs)
  then show ?case
    by (cases "chunk_values ch"; cases "chunk_values (concat chs)") (auto simp: chunk_values_append)
qed simp

lemma save_chain_blocks_rowwise:
  "save_chain_blocks_tx blocks db = bind_res (chunk_values blocks) (\<lambda>cells.
     Inr (db\<lparr>chain_blocks := fold upsert_cell cells (chain_blocks db)\<rparr>))"
  by (simp add: save_chain_blocks_tx_def save_chunks_concat concat_chunks CHAIN_BLOCK_UPSERT_ROWS_def)

lemma chunk_values_Inr_iff:
  "chunk_values bs = Inr cs \<longleftrightarrow> (\<forall>b \<in> set bs. uint (block_height b) < 2 ^ 63) \<and> cs = map cell_of bs"
  by (induction bs arbitrary: cs) (auto simp: bind_res_Inr_iff sync_to_sql_i64_Inr_iff cell_of_def)

lemma chain_block_from_cell_of:
  "uint (block_height b) < 2 ^ 63 \<Longrightarrow> chain_block_from_row (cell_of b) = Inr b"
  by (simp add: chain_block_from_row_def cell_of_def row_u64_def u64_try_from_def row_u32_def
      uint_bounded [where 'a = 32, simplified])

lemma load_chain_block_cell:
  "uint h < 2 ^ 63 \<Longrightarrow> load_chain_block_once h db = (case cell_at (chain_blocks db) (uint h) of
     None \<Rightarrow> Inr None | Some c \<Rightarrow> bind_res (chain_block_from_row c) (\<lambda>b. Inr (Some b)))"
proof -
  assume "uint h < 2 ^ 63"
  then have "sync_to_sql_i64 h = Inr (uint h)" by (simp add: sync_to_sql_i64_Inr_iff)
  moreover have "find P xs = (case filter P xs of [] \<Rightarrow> None | x # _ \<Rightarrow> Some x)" for P and xs :: "chain_cell list"
    by (induction xs) auto
  ultimately show ?thesis
    by (simp add: load_chain_block_once_def cell_at_def split: list.split)
qed

lemma find_rev_map_cell_of:
  "find (\<lambda>c. cell_height c = k) (rev (map cell_of bs)) =
   map_option cell_of (find (\<lambda>b. uint (block_height b) = k) (rev bs))"
proof -
  have "find (\<lambda>c. cell_height c = k) (map cell_of xs) = map_option cell_of (find (\<lambda>b. uint (block_height b) = k) xs)" for xs
    by (induction xs) (auto simp: cell_of_def)
  from this [of "rev bs"] show ?thesis by (simp add: rev_map)
qed

section \<open>Properties of the cursor\<close>

text \<open>
  Property C39. The retry loop is total and bounded: it returns what one of at most six attempts
  returned, every earlier attempt having found the database busy; it gives up only when the
  sixth is busy too; and it slept once between attempts, each time between 100 and 1000
  milliseconds.
\<close>

theorem retry_bounded:
  "\<exists>k \<le> 5. fst (execute_with_retry attempt rnd) = attempt k \<and>
     (\<forall>i < k. attempt i = Inl (Database DatabaseBusy)) \<and>
     (attempt k = Inl (Database DatabaseBusy) \<longrightarrow> k = 5) \<and>
     length (snd (execute_with_retry attempt rnd)) = k \<and>
     (\<forall>ms \<in> set (snd (execute_with_retry attempt rnd)). 100 \<le> ms \<and> ms \<le> 1000)"
proof -
  obtain k where "k \<le> 5" "k = 5 \<or> attempt k \<noteq> Inl (Database DatabaseBusy)"
    "\<forall>i < k. attempt i = Inl (Database DatabaseBusy)" "fst (execute_with_retry attempt rnd) = attempt k"
    "snd (execute_with_retry attempt rnd) = map (\<lambda>i. calculate_backoff (i + 1) (rnd i)) [0..<k]"
    using execute_with_retry_spec [of attempt rnd] by blast
  then show ?thesis
    using backoff_bounds by (intro exI [of _ k]) auto
qed

theorem retry_bounded_witness:
  "\<exists>k \<le> 5. fst (execute_with_retry (\<lambda>i. if i < 3 then Inl (Database DatabaseBusy) else Inr i) (\<lambda>_. 7)) =
     (if k < 3 then Inl (Database DatabaseBusy) else Inr k) \<and>
     length (snd (execute_with_retry (\<lambda>i. if i < 3 then Inl (Database DatabaseBusy) else Inr i) (\<lambda>_. 7))) = k"
  using retry_bounded [of "\<lambda>i. if i < 3 then Inl (Database DatabaseBusy) else Inr i" "\<lambda>_. 7"] by blast

text \<open>The heights a batch writes fit the columns.\<close>

definition progress_fits :: "chain_block_row list \<Rightarrow> u64 \<Rightarrow> u64 \<Rightarrow> u64 \<Rightarrow> bool" where
  "progress_fits blocks l t c \<longleftrightarrow> list_all (\<lambda>b. uint (block_height b) < 2 ^ 63) blocks \<and>
     uint l < 2 ^ 63 \<and> uint t < 2 ^ 63 \<and> uint c < 2 ^ 63"

text \<open>The first height the reorg window keeps.\<close>

definition retained_from :: "chain_block_row list \<Rightarrow> u64 \<Rightarrow> i64" where
  "retained_from blocks w = (if blocks = [] then 0 else uint (saturating_sub (block_height (last blocks)) w))"

lemma retained_from_fits:
  "progress_fits blocks l t c \<Longrightarrow> retained_from blocks w < 2 ^ 63"
proof (cases "blocks = []")
  case False
  assume "progress_fits blocks l t c"
  with False have "uint (block_height (last blocks)) < 2 ^ 63"
    by (simp add: progress_fits_def list_all_iff)
  moreover have "uint (saturating_sub (block_height (last blocks)) w) \<le> uint (block_height (last blocks))"
    by (simp add: uint_saturating_sub)
  ultimately show ?thesis using False by (simp add: retained_from_def)
qed (simp add: retained_from_def)

lemma save_progress_once_eq:
  assumes "progress_fits blocks l t c"
  shows "save_sync_progress_once blocks l t c w db =
      Inr \<lparr>sync_state = map_option (\<lambda>r. r\<lparr>local_height_col := uint l, target_height_col := uint t,
                 last_checkpoint_col := uint c\<rparr>) (sync_state db),
             chain_blocks = filter (\<lambda>x. blocks = [] \<or> \<not> cell_height x < retained_from blocks w)
               (fold upsert_cell (map cell_of blocks) (chain_blocks db))\<rparr>"
proof -
  from assms have "chunk_values blocks = Inr (map cell_of blocks)"
    and "sync_to_sql_i64 l = Inr (uint l)" "sync_to_sql_i64 t = Inr (uint t)" "sync_to_sql_i64 c = Inr (uint c)"
    by (auto simp: progress_fits_def list_all_iff chunk_values_Inr_iff sync_to_sql_i64_Inr_iff)
  moreover have "blocks \<noteq> [] \<Longrightarrow> sync_to_sql_i64 (saturating_sub (block_height (last blocks)) w) = Inr (retained_from blocks w)"
    using retained_from_fits [OF assms, of w] by (simp add: retained_from_def sync_to_sql_i64_Inr_iff)
  ultimately show ?thesis
    by (simp add: save_sync_progress_once_def save_chain_blocks_rowwise save_sync_state_tx_def update_sync_def)
qed

lemma save_progress_once_error:
  "\<not> progress_fits blocks l t c \<Longrightarrow> \<exists>m. save_sync_progress_once blocks l t c w db = Inl (SStorage m)"
proof -
  assume no: "\<not> progress_fits blocks l t c"
  have err: "sync_to_sql_i64 v = Inr (uint v) \<and> uint v < 2 ^ 63 \<or> (\<exists>m. sync_to_sql_i64 v = Inl (SStorage m)) \<and> \<not> uint v < 2 ^ 63" for v
    by (auto simp: sync_to_sql_i64_def i64_try_from_def)
  have vals: "(\<exists>m. chunk_values bs = Inl (SStorage m)) \<or> chunk_values bs = Inr (map cell_of bs) \<and> list_all (\<lambda>b. uint (block_height b) < 2 ^ 63) bs" for bs
  proof (induction bs)
    case (Cons b bs)
    then show ?case using err [of "block_height b"] by (auto simp: cell_of_def)
  qed simp
  show ?thesis
    using no vals [of blocks] err [of l] err [of t] err [of c]
    by (auto simp: save_sync_progress_once_def save_chain_blocks_rowwise save_sync_state_tx_def progress_fits_def)
qed

lemma with_retry_eq:
  assumes once: "\<And>e. once db = Inl e \<Longrightarrow> e \<noteq> Database DatabaseBusy"
  shows "with_retry busy rnd once db = (if \<forall>i \<le> 5. busy i then (db, Inl (Database DatabaseBusy))
     else (case once db of Inl e \<Rightarrow> (db, Inl e) | Inr db' \<Rightarrow> (db', Inr ())))"
proof -
  let ?a = "\<lambda>i. if busy i then Inl (Database DatabaseBusy) else once db"
  obtain k where k: "k \<le> 5" "k = 5 \<or> ?a k \<noteq> Inl (Database DatabaseBusy)"
    "\<forall>i < k. ?a i = Inl (Database DatabaseBusy)" "fst (execute_with_retry ?a rnd) = ?a k"
    using execute_with_retry_spec [of ?a rnd] by blast
  have busy: "busy i" if "i < k" for i
    using k(3) that once by (metis (no_types, lifting))
  show ?thesis
  proof (cases "busy k")
    case True
    with k(2) have "k = 5" by simp
    with True busy have "\<forall>i \<le> 5. busy i" by (metis le_neq_implies_less)
    then show ?thesis using True k(4) by (simp add: with_retry_def)
  next
    case False
    with k(1,4) show ?thesis by (auto simp: with_retry_def)
  qed
qed

text \<open>
  Property C35. A batch of synced blocks is saved all or nothing: on an error the database is
  unchanged, and the operation fails exactly when all six attempts find the database busy or a
  height does not fit a column. On success the cursor holds the new heights, and the block window reads as if
  every block of the batch had been written in order (the last one of a height wins, whatever
  the batching of the statement) and then every height below the tip less the reorg window
  dropped; no other height is touched.
\<close>

theorem sync_progress_correct:
  assumes "save_sync_progress busy rnd blocks l t c w db = (db', res)"
  shows "if (\<forall>i \<le> 5. busy i) \<or> \<not> progress_fits blocks l t c then db' = db \<and> (\<exists>e. res = Inl e)
     else res = Inr () \<and>
       sync_state db' = map_option (\<lambda>r. r\<lparr>local_height_col := uint l, target_height_col := uint t,
         last_checkpoint_col := uint c\<rparr>) (sync_state db) \<and>
       (\<forall>h. uint h < 2 ^ 63 \<longrightarrow> load_chain_block_once h db' =
          (if blocks \<noteq> [] \<and> uint h < uint (block_height (last blocks)) - uint w then Inr None
           else case find (\<lambda>b. block_height b = h) (rev blocks) of
             Some b \<Rightarrow> Inr (Some b) | None \<Rightarrow> load_chain_block_once h db))"
proof -
  let ?once = "save_sync_progress_once blocks l t c w db"
  have once: "e \<noteq> Database DatabaseBusy" if "?once = Inl e" for e
    using that save_progress_once_eq [of blocks l t c w db] save_progress_once_error [of blocks l t c w db] by auto
  have run: "(db', res) = (if \<forall>i \<le> 5. busy i then (db, Inl (Database DatabaseBusy))
     else (case ?once of Inl e \<Rightarrow> (db, Inl e) | Inr db' \<Rightarrow> (db', Inr ())))"
    using assms unfolding save_sync_progress_def
    by (subst (asm) with_retry_eq) (use once in auto)
  show ?thesis
  proof (cases "(\<forall>i \<le> 5. busy i) \<or> \<not> progress_fits blocks l t c")
    case True
    with run save_progress_once_error [of blocks l t c w db] show ?thesis by (auto split: if_splits)
  next
    case False
    then have fits: "progress_fits blocks l t c" and contended: "\<not> (\<forall>i \<le> 5. busy i)" by simp_all
    have res: "res = Inr ()" and db': "db' = \<lparr>sync_state = map_option (\<lambda>r. r\<lparr>local_height_col := uint l,
        target_height_col := uint t, last_checkpoint_col := uint c\<rparr>) (sync_state db),
        chain_blocks = filter (\<lambda>x. blocks = [] \<or> \<not> cell_height x < retained_from blocks w)
          (fold upsert_cell (map cell_of blocks) (chain_blocks db))\<rparr>"
      using run unfolding if_not_P [OF contended] save_progress_once_eq [OF fits] by simp_all
    have "load_chain_block_once h db' =
          (if blocks \<noteq> [] \<and> uint h < uint (block_height (last blocks)) - uint w then Inr None
           else case find (\<lambda>b. block_height b = h) (rev blocks) of
             Some b \<Rightarrow> Inr (Some b) | None \<Rightarrow> load_chain_block_once h db)" if h: "uint h < 2 ^ 63" for h
    proof -
      have eq: "(\<lambda>b. uint (block_height b) = uint h) = (\<lambda>b. block_height b = h)"
        by (simp add: word_uint_eq_iff)
      have found: "uint (block_height b) < 2 ^ 63" if "find (\<lambda>b. block_height b = h) (rev blocks) = Some b" for b
        using that h by (auto simp: find_Some_iff)
      have drop: "blocks = [] \<or> \<not> uint h < retained_from blocks w \<longleftrightarrow>
          \<not> (blocks \<noteq> [] \<and> uint h < uint (block_height (last blocks)) - uint w)"
        by (auto simp: retained_from_def uint_saturating_sub less_max_iff_disj
            dest: order.strict_trans1 [OF uint_ge_0])
      have cells: "cell_at (chain_blocks db') (uint h) =
          (if blocks \<noteq> [] \<and> uint h < uint (block_height (last blocks)) - uint w then None
           else case find (\<lambda>b. block_height b = h) (rev blocks) of
             Some b \<Rightarrow> Some (cell_of b) | None \<Rightarrow> cell_at (chain_blocks db) (uint h))"
        using drop unfolding db' by (simp add: cell_at_filter_height [of "\<lambda>k. blocks = [] \<or> \<not> k < retained_from blocks w"]
            cell_at_fold_upsert find_rev_map_cell_of eq split: option.split)
      show ?thesis
        using found by (auto simp: load_chain_block_cell [OF h] cells chain_block_from_cell_of split: option.split)
    qed
    with res False show ?thesis by (simp add: db')
  qed
qed

definition example_block :: "u64 \<Rightarrow> chain_block_row" where
  "example_block h = \<lparr>block_height = h, block_hash = [1], block_prev_hash = [0], block_time = 7\<rparr>"

theorem sync_progress_correct_witness:
  "\<exists>db'. save_sync_progress (\<lambda>i. i < 2) (\<lambda>_. 0) [example_block 9, example_block 10] 10 20 10 100
       \<lparr>sync_state = None, chain_blocks = []\<rparr> = (db', Inr ()) \<and>
     load_chain_block_once 10 db' = Inr (Some (example_block 10))"
proof -
  obtain db' res where run: "save_sync_progress (\<lambda>i. i < 2) (\<lambda>_. 0) [example_block 9, example_block 10] 10 20 10 100
       \<lparr>sync_state = None, chain_blocks = []\<rparr> = (db', res)" by force
  have "\<not> (\<forall>i \<le> 5. i < (2 :: nat))" by (auto intro!: exI [of _ 3])
  moreover have "progress_fits [example_block 9, example_block 10] 10 20 10"
    by (simp add: progress_fits_def example_block_def)
  ultimately have "res = Inr ()" "load_chain_block_once 10 db' = Inr (Some (example_block 10))"
    using sync_progress_correct [OF run] by (simp_all add: example_block_def split: if_splits)
  with run show ?thesis by blast
qed

end
