(* ===== verification/Truncation.thy ===== *)
theory Truncation
  imports SyncState
begin

text \<open>
  Rewinding the wallet to a height (\<open>truncate_above_height\<close> of \<open>sync_state.rs\<close>): notes,
  transactions, memos, block window, checkpoints, repair queue, commitment trees, shard
  metadata, cursor and spendability row, in one immediate transaction, so an error leaves the
  database as it was.

  Note heights and positions are stored encrypted, so the code decrypts each cell instead of
  comparing in SQL; a cell is one of SQLite's value kinds (a \<open>REAL\<close> cell carries the integer
  its \<open>as i64\<close> conversion gives). Code outside the repository is an argument: \<open>decrypt\<close> and
  \<open>encrypt\<close> of the master key, \<open>hex_decode\<close> of the \<open>hex\<close> crate, and \<open>rewind\<close>, what
  \<open>truncate_to_checkpoint\<close> of the \<open>shardtree\<close> crate leaves of a pool's checkpoint ids.
\<close>

section \<open>Tables\<close>

datatype sql_value = SNull | SInteger i64 | SReal i64 | SText string | SBlob bytes

datatype pool = SaplingPool | IronwoodPool

record note_cell =
  n_id :: i64
  n_type :: string
  n_height :: sql_value
  n_position :: sql_value
  n_spent :: bytes
  n_spent_txid :: "bytes option"

record tx_cell =
  t_id :: i64
  t_txid :: string
  t_height :: i64

record memo_cell =
  m_id :: i64
  m_tx_id :: i64

record unlinked_cell =
  u_id :: i64
  u_spending_txid :: bytes

record shard_cell =
  shard_index :: i64
  start_position :: i64
  end_position_exclusive :: i64
  subtree_start_height :: i64
  subtree_end_height :: "i64 option"
  contains_marked :: i64

record wallet_db =
  w_spend :: spend_db
  w_sync :: sync_db
  w_notes :: "note_cell list"
  w_txs :: "tx_cell list"
  w_memos :: "memo_cell list"
  w_unlinked :: "unlinked_cell list"
  w_sapling_shards :: "shard_cell list"
  w_orchard_shards :: "shard_cell list"
  w_checkpoints :: "i64 list"
  w_frontiers :: "i64 list"

section \<open>Reading cells\<close>

text \<open>\<open>str::parse::<i64>\<close>: an optional sign, at least one digit, in range.\<close>

definition is_digit :: "char \<Rightarrow> bool" where
  "is_digit c \<longleftrightarrow> 48 \<le> (of_char c :: nat) \<and> (of_char c :: nat) \<le> 57"

definition digits_value :: "string \<Rightarrow> int" where
  "digits_value ds = foldl (\<lambda>acc c. 10 * acc + (of_char c - 48)) 0 ds"

definition parse_i64 :: "string \<Rightarrow> i64 option" where
  "parse_i64 s =
     (let (neg, ds) = (case s of [] \<Rightarrow> (False, [])
         | c # cs \<Rightarrow> if c = CHR ''-'' then (True, cs) else if c = CHR ''+'' then (False, cs) else (False, s));
          v = (if neg then - digits_value ds else digits_value ds)
      in if ds \<noteq> [] \<and> list_all is_digit ds \<and> - (2 ^ 63) \<le> v \<and> v < 2 ^ 63 then Some v else None)"

definition i64_from_le_bytes :: "bytes \<Rightarrow> i64" where
  "i64_from_le_bytes bs =
     (let u = foldr (\<lambda>b acc. uint b + 256 * acc) bs 0 in if u < 2 ^ 63 then u else u - 2 ^ 64)"

definition read_i64_cell ::
    "(bytes \<Rightarrow> storage_error + bytes) \<Rightarrow> string \<Rightarrow> i64 \<Rightarrow> sql_value \<Rightarrow> storage_error + i64 option" where
  "read_i64_cell decrypt what note_id cell =
     (case cell of
        SInteger v \<Rightarrow> Inr (Some v)
      | SBlob b \<Rightarrow> (case decrypt b of
            Inl _ \<Rightarrow> Inl (Encryption (Msg (''Failed to decrypt note '' @ what @ '' for note id {}: {}'') [note_id]))
          | Inr d \<Rightarrow> Inr (if length d = 8 then Some (i64_from_le_bytes d) else None))
      | SNull \<Rightarrow> Inr None
      | SReal v \<Rightarrow> Inr (Some v)
      | SText t \<Rightarrow> Inr (parse_i64 t))"

definition note_type_of :: "string \<Rightarrow> pool option" where
  "note_type_of s = (if s = ''Sapling'' then Some SaplingPool
     else if s = ''Orchard'' then Some IronwoodPool else None)"

section \<open>Orphaned transactions\<close>

definition txid_hex_candidates :: "(string \<Rightarrow> bytes option) \<Rightarrow> string \<Rightarrow> bytes list" where
  "txid_hex_candidates hex_decode txid_hex =
     (case hex_decode txid_hex of
        None \<Rightarrow> []
      | Some bytes \<Rightarrow> if length bytes \<noteq> 32 then []
          else if bytes = rev bytes then [bytes] else [bytes, rev bytes])"

definition collect_transaction_txids_above_height ::
    "(string \<Rightarrow> bytes option) \<Rightarrow> i64 \<Rightarrow> tx_cell list \<Rightarrow> bytes list" where
  "collect_transaction_txids_above_height hex_decode height txs =
     concat (map (\<lambda>t. txid_hex_candidates hex_decode (t_txid t)) (filter (\<lambda>t. height < t_height t) txs))"

fun reset_notes_loop ::
    "(bytes \<Rightarrow> storage_error + bytes) \<Rightarrow> bytes \<Rightarrow> bytes list \<Rightarrow> note_cell list \<Rightarrow> storage_error + note_cell list" where
  "reset_notes_loop decrypt unspent txids [] = Inr []"
| "reset_notes_loop decrypt unspent txids (n # ns) =
     bind_res (case n_spent_txid n of
         None \<Rightarrow> Inr n
       | Some enc \<Rightarrow> bind_res (decrypt enc) (\<lambda>txid.
           Inr (if length txid = 32 \<and> txid \<in> set txids
                then n\<lparr>n_spent := unspent, n_spent_txid := None\<rparr> else n))) (\<lambda>n'.
     bind_res (reset_notes_loop decrypt unspent txids ns) (\<lambda>ns'. Inr (n' # ns')))"

definition reset_notes_spent_by_txids ::
    "(bytes \<Rightarrow> storage_error + bytes) \<Rightarrow> (bytes \<Rightarrow> storage_error + bytes) \<Rightarrow> bytes list \<Rightarrow> note_cell list
     \<Rightarrow> storage_error + note_cell list" where
  "reset_notes_spent_by_txids decrypt encrypt txids notes =
     (if txids = [] then Inr notes
      else bind_res (encrypt [0]) (\<lambda>unspent. reset_notes_loop decrypt unspent txids notes))"

fun delete_unlinked_loop ::
    "(bytes \<Rightarrow> storage_error + bytes) \<Rightarrow> bytes list \<Rightarrow> unlinked_cell list \<Rightarrow> storage_error + unlinked_cell list" where
  "delete_unlinked_loop decrypt txids [] = Inr []"
| "delete_unlinked_loop decrypt txids (u # us) =
     bind_res (decrypt (u_spending_txid u)) (\<lambda>txid.
     bind_res (delete_unlinked_loop decrypt txids us) (\<lambda>us'.
       Inr (if length txid = 32 \<and> txid \<in> set txids then us' else u # us')))"

definition delete_unlinked_spends_by_txids ::
    "(bytes \<Rightarrow> storage_error + bytes) \<Rightarrow> bytes list \<Rightarrow> unlinked_cell list \<Rightarrow> storage_error + unlinked_cell list" where
  "delete_unlinked_spends_by_txids decrypt txids us =
     (if txids = [] then Inr us else delete_unlinked_loop decrypt txids us)"

section \<open>Pruning notes and rebuilding shards\<close>

text \<open>The ids to delete and the notes that remain for the shard table.\<close>

fun scan_notes ::
    "(bytes \<Rightarrow> storage_error + bytes) \<Rightarrow> i64 \<Rightarrow> note_cell list
     \<Rightarrow> storage_error + i64 list \<times> (pool \<times> i64 option \<times> i64) list" where
  "scan_notes decrypt height [] = Inr ([], [])"
| "scan_notes decrypt height (n # ns) =
     (case note_type_of (n_type n) of
        None \<Rightarrow> scan_notes decrypt height ns
      | Some ty \<Rightarrow>
          bind_res (read_i64_cell decrypt ''height'' (n_id n) (n_height n)) (\<lambda>note_height.
          bind_res (read_i64_cell decrypt ''position'' (n_id n) (n_position n)) (\<lambda>note_position.
          bind_res (scan_notes decrypt height ns) (\<lambda>(ids, kept).
            case note_height of
              None \<Rightarrow> Inr (ids, kept)
            | Some h \<Rightarrow> if height < h then Inr (n_id n # ids, kept)
                else Inr (ids, (ty, note_position, h) # kept)))))"

definition NOTE_SHARD_INDEX_BITS :: nat where "NOTE_SHARD_INDEX_BITS = 16"

text \<open>\<open>v << 16\<close> on an \<open>i64\<close>.\<close>

definition shard_shl :: "i64 \<Rightarrow> i64" where
  "shard_shl v = (let w = (v * 2 ^ NOTE_SHARD_INDEX_BITS) mod 2 ^ 64 in if w < 2 ^ 63 then w else w - 2 ^ 64)"

definition upsert_shard :: "i64 \<Rightarrow> i64 \<Rightarrow> i64 \<Rightarrow> i64 \<Rightarrow> shard_cell list \<Rightarrow> storage_error + shard_cell list" where
  "upsert_shard idx s e h shards =
     (if \<not> (0 \<le> s \<and> s < e) then Inl (Database ConstraintViolation)
      else Inr (if list_ex (\<lambda>c. shard_index c = idx) shards
        then map (\<lambda>c. if shard_index c = idx then c\<lparr>start_position := s, end_position_exclusive := e,
               subtree_start_height := min (subtree_start_height c) h,
               subtree_end_height := (case subtree_end_height c of None \<Rightarrow> Some h | Some k \<Rightarrow> Some (max k h)),
               contains_marked := 1\<rparr> else c) shards
        else shards @ [\<lparr>shard_index = idx, start_position = s, end_position_exclusive = e,
               subtree_start_height = h, subtree_end_height = Some h, contains_marked = 1\<rparr>]))"

fun rebuild_shards ::
    "(pool \<times> i64 option \<times> i64) list \<Rightarrow> shard_cell list \<Rightarrow> shard_cell list
     \<Rightarrow> storage_error + shard_cell list \<times> shard_cell list" where
  "rebuild_shards [] sap orch = Inr (sap, orch)"
| "rebuild_shards ((ty, position_opt, h) # rest) sap orch =
     (if h \<le> 0 then rebuild_shards rest sap orch
      else case position_opt of
        None \<Rightarrow> rebuild_shards rest sap orch
      | Some position \<Rightarrow>
          if position < 0 then rebuild_shards rest sap orch
          else let idx = position div 2 ^ NOTE_SHARD_INDEX_BITS;
                   s = shard_shl idx;
                   e = shard_shl (idx + 1)
               in case ty of
                    SaplingPool \<Rightarrow> bind_res (upsert_shard idx s e h sap) (\<lambda>sap'. rebuild_shards rest sap' orch)
                  | IronwoodPool \<Rightarrow> bind_res (upsert_shard idx s e h orch) (\<lambda>orch'. rebuild_shards rest sap orch'))"

section \<open>The truncation\<close>

definition common_checkpoint :: "i64 \<Rightarrow> i64 list \<Rightarrow> i64 list \<Rightarrow> storage_error + u32 option" where
  "common_checkpoint height sap orch =
     (case filter (\<lambda>i. i \<in> set orch \<and> i \<le> height) sap of
        [] \<Rightarrow> Inr None
      | i # is \<Rightarrow> bind_res (row_u32 0 (foldl max i is)) (\<lambda>c. Inr (Some c)))"

text \<open>The relational deletes.\<close>

definition delete_above :: "i64 \<Rightarrow> i64 \<Rightarrow> i64 list \<Rightarrow> wallet_db \<Rightarrow> wallet_db" where
  "delete_above height queue_end note_ids db =
     (let orphan_ids = map t_id (filter (\<lambda>t. height < t_height t) (w_txs db))
      in db\<lparr>w_notes := filter (\<lambda>n. n_id n \<notin> set note_ids) (w_notes db),
            w_memos := filter (\<lambda>m. m_tx_id m \<notin> set orphan_ids) (w_memos db),
            w_txs := filter (\<lambda>t. \<not> height < t_height t) (w_txs db),
            w_sync := (w_sync db)\<lparr>chain_blocks := filter (\<lambda>c. \<not> height < cell_height c) (chain_blocks (w_sync db))\<rparr>,
            w_checkpoints := filter (\<lambda>c. \<not> height < c) (w_checkpoints db),
            w_frontiers := filter (\<lambda>c. \<not> height < c) (w_frontiers db),
            w_spend := (w_spend db)\<lparr>queue_table :=
              delete_rows (\<lambda>r. queue_end < range_end r) (queue_table (w_spend db))\<rparr>\<rparr>)"

text \<open>Both trees go back to the common checkpoint, or are cleared when there is none.\<close>

definition rewind_trees ::
    "(pool \<Rightarrow> u32 \<Rightarrow> i64 list \<Rightarrow> storage_error + i64 list) \<Rightarrow> u32 option \<Rightarrow> wallet_db \<Rightarrow> storage_error + wallet_db" where
  "rewind_trees rewind cp db =
     (case cp of
        None \<Rightarrow> Inr (db\<lparr>w_spend := (w_spend db)\<lparr>sapling_checkpoints := [], orchard_checkpoints := []\<rparr>\<rparr>)
      | Some c \<Rightarrow>
          bind_res (rewind SaplingPool c (sapling_checkpoints (w_spend db))) (\<lambda>sap.
          bind_res (rewind IronwoodPool c (orchard_checkpoints (w_spend db))) (\<lambda>orch.
            Inr (db\<lparr>w_spend := (w_spend db)\<lparr>sapling_checkpoints := sap, orchard_checkpoints := orch\<rparr>\<rparr>))))"

definition truncate_above_height ::
    "(bytes \<Rightarrow> storage_error + bytes) \<Rightarrow> (bytes \<Rightarrow> storage_error + bytes) \<Rightarrow> (string \<Rightarrow> bytes option)
     \<Rightarrow> (pool \<Rightarrow> u32 \<Rightarrow> i64 list \<Rightarrow> storage_error + i64 list) \<Rightarrow> u64 \<Rightarrow> wallet_db \<Rightarrow> storage_error + wallet_db \<times> u64" where
  "truncate_above_height decrypt encrypt hex_decode rewind requested_height db =
     bind_res (sync_to_sql_i64 requested_height) (\<lambda>height.
     bind_res (sync_to_sql_i64 (saturating_add requested_height 1)) (\<lambda>queue_end.
     bind_res (common_checkpoint height (sapling_checkpoints (w_spend db)) (orchard_checkpoints (w_spend db))) (\<lambda>cp.
     let tree_replay_height = (case cp of None \<Rightarrow> 0 | Some c \<Rightarrow> u64_from_u32 c)
     in bind_res (sync_to_sql_i64 tree_replay_height) (\<lambda>replay.
     let txids = collect_transaction_txids_above_height hex_decode height (w_txs db)
     in bind_res (reset_notes_spent_by_txids decrypt encrypt txids (w_notes db)) (\<lambda>notes.
     bind_res (delete_unlinked_spends_by_txids decrypt txids (w_unlinked db)) (\<lambda>unlinked.
     bind_res (scan_notes decrypt height notes) (\<lambda>(note_ids, kept).
     let db1 = delete_above height queue_end note_ids (db\<lparr>w_notes := notes, w_unlinked := unlinked\<rparr>)
     in bind_res (rewind_trees rewind cp db1) (\<lambda>db2.
     bind_res (rebuild_shards kept [] []) (\<lambda>(sap, orch).
       Inr (db2\<lparr>w_sapling_shards := sap, w_orchard_shards := orch,
         w_sync := update_sync (\<lambda>r. r\<lparr>local_height_col := replay, last_checkpoint_col := replay\<rparr>) (w_sync db2),
         w_spend := truncate_spendability height (w_spend db2)\<rparr>, tree_replay_height))))))))))"

section \<open>Lemmas\<close>

text \<open>A note the truncation removes: of a known pool, with a readable height above the limit.\<close>

definition note_above :: "(bytes \<Rightarrow> storage_error + bytes) \<Rightarrow> i64 \<Rightarrow> note_cell \<Rightarrow> bool" where
  "note_above decrypt height n \<longleftrightarrow> note_type_of (n_type n) \<noteq> None \<and>
     (case read_i64_cell decrypt ''height'' (n_id n) (n_height n) of Inr (Some h) \<Rightarrow> height < h | _ \<Rightarrow> False)"

lemma note_above_reset [simp]:
  "note_above decrypt height (n\<lparr>n_spent := u, n_spent_txid := v\<rparr>) = note_above decrypt height n"
  by (simp add: note_above_def)

lemma scan_notes_ids:
  "scan_notes decrypt height ns = Inr (ids, kept) \<Longrightarrow> ids = map n_id (filter (note_above decrypt height) ns)"
  by (induction ns arbitrary: ids kept)
    (auto simp: bind_res_Inr_iff note_above_def split: option.splits if_splits)

lemma scan_notes_kept:
  "scan_notes decrypt height ns = Inr (ids, kept) \<Longrightarrow> (ty, p, h) \<in> set kept \<longleftrightarrow>
     (\<exists>n \<in> set ns. note_type_of (n_type n) = Some ty \<and>
        read_i64_cell decrypt ''height'' (n_id n) (n_height n) = Inr (Some h) \<and>
        read_i64_cell decrypt ''position'' (n_id n) (n_position n) = Inr p \<and> h \<le> height)"
proof (induction ns arbitrary: ids kept)
  case (Cons n ns)
  show ?case
  proof (cases "note_type_of (n_type n)")
    case (Some t)
    with Cons.prems obtain nh np ids' kept' where
      reads: "read_i64_cell decrypt ''height'' (n_id n) (n_height n) = Inr nh"
        "read_i64_cell decrypt ''position'' (n_id n) (n_position n) = Inr np"
      and rest: "scan_notes decrypt height ns = Inr (ids', kept')"
      by (auto simp: bind_res_Inr_iff)
    have "kept = (case nh of None \<Rightarrow> kept' | Some k \<Rightarrow> if height < k then kept' else (t, np, k) # kept')"
      using Cons.prems Some reads rest by (auto split: option.splits if_splits)
    with Cons.IH [OF rest] Some reads show ?thesis by (cases nh) auto
  qed (use Cons in simp)
qed simp

lemma reset_loop_spec:
  "reset_notes_loop decrypt unspent txids ns = Inr ns' \<Longrightarrow>
   list_all2 (\<lambda>n n'. n' = n \<and> (\<forall>enc txid. n_spent_txid n = Some enc \<and> decrypt enc = Inr txid \<and> length txid = 32
       \<longrightarrow> txid \<notin> set txids) \<or> n' = n\<lparr>n_spent := unspent, n_spent_txid := None\<rparr>) ns ns'"
  by (induction ns arbitrary: ns') (auto simp: bind_res_Inr_iff split: option.splits if_splits)

lemma reset_notes_spec:
  assumes "reset_notes_spent_by_txids decrypt encrypt txids ns = Inr ns'"
  obtains unspent where "list_all2 (\<lambda>n n'. n' = n \<and> (\<forall>enc txid. n_spent_txid n = Some enc \<and>
      decrypt enc = Inr txid \<and> length txid = 32 \<longrightarrow> txid \<notin> set txids) \<or>
      n' = n\<lparr>n_spent := unspent, n_spent_txid := None\<rparr>) ns ns'"
proof (cases "txids = []")
  case True
  with assms that [of "[]"] show ?thesis
    by (auto simp: reset_notes_spent_by_txids_def intro: list_all2_refl)
next
  case False
  with assms that show ?thesis
    by (auto simp: reset_notes_spent_by_txids_def bind_res_Inr_iff dest: reset_loop_spec)
qed

lemma delete_unlinked_spec:
  "delete_unlinked_loop decrypt txids us = Inr us' \<Longrightarrow> u \<in> set us' \<longleftrightarrow> u \<in> set us \<and>
     (\<forall>txid. decrypt (u_spending_txid u) = Inr txid \<and> length txid = 32 \<longrightarrow> txid \<notin> set txids)"
  by (induction us arbitrary: us') (auto simp: bind_res_Inr_iff split: if_splits)

lemma txid_candidates_length: "t \<in> set (collect_transaction_txids_above_height hex_decode h txs) \<Longrightarrow> length t = 32"
  by (auto simp: collect_transaction_txids_above_height_def txid_hex_candidates_def split: option.splits if_splits)

lemma common_checkpoint_spec:
  assumes "common_checkpoint height sap orch = Inr cp"
  shows "case cp of None \<Rightarrow> \<not> (\<exists>i \<in> set sap \<inter> set orch. i \<le> height)
     | Some c \<Rightarrow> uint c = Max {i \<in> set sap \<inter> set orch. i \<le> height} \<and> uint c \<in> set sap \<inter> set orch \<and> uint c \<le> height"
proof (cases "filter (\<lambda>i. i \<in> set orch \<and> i \<le> height) sap")
  case Nil
  with assms show ?thesis by (auto simp: common_checkpoint_def filter_empty_conv)
next
  case (Cons i rest)
  let ?S = "{i \<in> set sap \<inter> set orch. i \<le> height}"
  have S: "set (i # rest) = ?S" unfolding Cons [symmetric] by auto
  obtain c where c: "row_u32 0 (foldl max i rest) = Inr c" "cp = Some c"
    using assms Cons by (auto simp: common_checkpoint_def bind_res_Inr_iff)
  have m: "foldl max i rest = Max ?S" unfolding foldl_max_Max S ..
  have "Max ?S \<in> ?S" using S by (intro Max_in) auto
  moreover have "uint c = Max ?S"
    using c(1) by (auto simp: row_u32_def m uint_word_of_int split: if_splits)
  ultimately show ?thesis using c(2) by simp
qed

text \<open>All steps of a truncation that succeeded.\<close>

lemma truncate_steps:
  assumes "truncate_above_height decrypt encrypt hex_decode rewind h db = Inr (db', k)"
  obtains cp ns us note_ids kept db2 sap orch where
    "uint (saturating_add h 1) < 2 ^ 63" "uint h < 2 ^ 63"
    "common_checkpoint (uint h) (sapling_checkpoints (w_spend db)) (orchard_checkpoints (w_spend db)) = Inr cp"
    "k = (case cp of None \<Rightarrow> 0 | Some c \<Rightarrow> u64_from_u32 c)"
    "reset_notes_spent_by_txids decrypt encrypt
       (collect_transaction_txids_above_height hex_decode (uint h) (w_txs db)) (w_notes db) = Inr ns"
    "delete_unlinked_spends_by_txids decrypt
       (collect_transaction_txids_above_height hex_decode (uint h) (w_txs db)) (w_unlinked db) = Inr us"
    "scan_notes decrypt (uint h) ns = Inr (note_ids, kept)"
    "rewind_trees rewind cp (delete_above (uint h) (uint (saturating_add h 1)) note_ids
       (db\<lparr>w_notes := ns, w_unlinked := us\<rparr>)) = Inr db2"
    "rebuild_shards kept [] [] = Inr (sap, orch)"
    "db' = db2\<lparr>w_sapling_shards := sap, w_orchard_shards := orch,
       w_sync := update_sync (\<lambda>r. r\<lparr>local_height_col := uint k, last_checkpoint_col := uint k\<rparr>) (w_sync db2),
       w_spend := truncate_spendability (uint h) (w_spend db2)\<rparr>"
  using assms unfolding truncate_above_height_def Let_def
  by (auto simp: bind_res_Inr_iff sync_to_sql_i64_Inr_iff split: prod.splits)

subsection \<open>Shard metadata\<close>

text \<open>What a shard table says of a set of (shard, height) pairs.\<close>

definition shards_of :: "(i64 \<times> i64) set \<Rightarrow> shard_cell list \<Rightarrow> bool" where
  "shards_of E shards \<longleftrightarrow> distinct (map shard_index shards) \<and> shard_index ` set shards = fst ` E \<and>
     (\<forall>c \<in> set shards. subtree_start_height c = Min {h. (shard_index c, h) \<in> E} \<and>
        subtree_end_height c = Some (Max {h. (shard_index c, h) \<in> E}) \<and> contains_marked c = 1)"

definition shard_entries :: "pool \<Rightarrow> (pool \<times> i64 option \<times> i64) list \<Rightarrow> (i64 \<times> i64) set" where
  "shard_entries ty kept = {(position div 65536, h) | position h. (ty, Some position, h) \<in> set kept \<and> 0 < h \<and> 0 \<le> position}"

lemma finite_shard_entries: "finite (shard_entries ty kept)"
proof -
  have "shard_entries ty kept \<subseteq> (\<lambda>(t, p, h). (the p div 65536, h)) ` set kept"
    by (force simp: shard_entries_def)
  then show ?thesis by (rule finite_subset) simp
qed

lemma shards_of_insert:
  assumes "shards_of E shards" "finite E" "upsert_shard idx s e h shards = Inr shards'"
  shows "shards_of (insert (idx, h) E) shards'"
proof -
  have fin: "finite {k. (i, k) \<in> E}" for i
    by (rule finite_subset [OF _ finite_imageI [OF assms(2), of snd]]) force
  have heights: "{k. (i, k) \<in> insert (idx, h) E} = (if i = idx then insert h {k. (i, k) \<in> E} else {k. (i, k) \<in> E})" for i
    by auto
  show ?thesis
  proof (cases "list_ex (\<lambda>c. shard_index c = idx) shards")
    case True
    define f :: "shard_cell \<Rightarrow> shard_cell" where "f = (\<lambda>c. if shard_index c = idx then c\<lparr>start_position := s, end_position_exclusive := e,
        subtree_start_height := min (subtree_start_height c) h,
        subtree_end_height := (case subtree_end_height c of None \<Rightarrow> Some h | Some k \<Rightarrow> Some (max k h)),
        contains_marked := 1\<rparr> else c)"
    have s': "shards' = map f shards" using assms(3) True by (simp add: upsert_shard_def f_def split: if_splits)
    have idx: "shard_index (f c) = shard_index c" for c by (simp add: f_def)
    have mem: "idx \<in> fst ` E" using True assms(1) by (auto simp: shards_of_def list_ex_iff)
    then have ne: "{k. (idx, k) \<in> E} \<noteq> {}" by auto
    have vals: "subtree_start_height (f c) = Min {k. (shard_index c, k) \<in> insert (idx, h) E} \<and>
        subtree_end_height (f c) = Some (Max {k. (shard_index c, k) \<in> insert (idx, h) E}) \<and> contains_marked (f c) = 1"
      if "c \<in> set shards" for c
      using assms(1) that ne fin [of idx] unfolding shards_of_def heights f_def
      by (auto simp: Min_insert min.commute Max_insert max.commute)
    have "map shard_index shards' = map shard_index shards" by (simp add: s' idx)
    moreover have "shard_index ` set shards' = fst ` insert (idx, h) E"
      using assms(1) mem by (simp add: s' idx image_image shards_of_def insert_absorb)
    ultimately show ?thesis
      using assms(1) vals unfolding shards_of_def by (auto simp: s' idx simp del: map_map)
  next
    case False
    then have "idx \<notin> shard_index ` set shards" by (auto simp: list_ex_iff)
    then have new: "idx \<notin> fst ` E" using assms(1) by (simp add: shards_of_def)
    then have empty: "{k. (idx, k) \<in> E} = {}" by force
    have s': "shards' = shards @ [\<lparr>shard_index = idx, start_position = s, end_position_exclusive = e,
        subtree_start_height = h, subtree_end_height = Some h, contains_marked = 1\<rparr>]"
      using assms(3) False by (simp add: upsert_shard_def split: if_splits)
    have "idx \<notin> shard_index ` set shards" using assms(1) new by (simp add: shards_of_def)
    then show ?thesis
      using assms(1) empty unfolding shards_of_def heights s' by auto
  qed
qed

lemma shard_entries_Cons:
  "shard_entries t ((ty, position_opt, h) # kept) =
      (if t = ty \<and> 0 < h \<and> (\<exists>p. position_opt = Some p \<and> 0 \<le> p)
       then insert (the position_opt div 65536, h) (shard_entries t kept) else shard_entries t kept)"
  by (auto simp: shard_entries_def)

lemma rebuild_shards_spec:
  assumes "rebuild_shards kept sap orch = Inr (sap', orch')"
    and "shards_of E sap" "finite E" "shards_of F orch" "finite F"
  shows "shards_of (E \<union> shard_entries SaplingPool kept) sap' \<and> shards_of (F \<union> shard_entries IronwoodPool kept) orch'"
  using assms
proof (induction kept arbitrary: sap orch E F)
  case Nil
  then show ?case by (simp add: shard_entries_def)
next
  case (Cons entry kept)
  obtain ty position_opt h where entry: "entry = (ty, position_opt, h)" by (cases entry) auto
  show ?case
  proof (cases "0 < h \<and> (\<exists>p. position_opt = Some p \<and> 0 \<le> p)")
    case False
    then have "rebuild_shards kept sap orch = Inr (sap', orch')"
      using Cons.prems(1) by (auto simp: entry split: option.splits if_splits)
    from Cons.IH [OF this Cons.prems(2-5)] False show ?thesis
      by (auto simp: entry shard_entries_Cons)
  next
    case True
    then obtain p where p: "position_opt = Some p" "0 \<le> p" "0 < h" by blast
    let ?i = "p div 2 ^ NOTE_SHARD_INDEX_BITS"
    have bits: "p div 65536 = ?i" by (simp add: NOTE_SHARD_INDEX_BITS_def)
    show ?thesis
    proof (cases ty)
      case SaplingPool
      with p Cons.prems(1) obtain sap1 where up: "upsert_shard ?i (shard_shl ?i) (shard_shl (?i + 1)) h sap = Inr sap1"
        and rest: "rebuild_shards kept sap1 orch = Inr (sap', orch')"
        by (auto simp: entry Let_def bind_res_Inr_iff)
      have "shards_of (insert (?i, h) E) sap1" by (rule shards_of_insert [OF Cons.prems(2,3) up])
      from Cons.IH [OF rest this _ Cons.prems(4,5)] Cons.prems(3) p SaplingPool show ?thesis
        by (simp add: entry shard_entries_Cons bits)
    next
      case IronwoodPool
      with p Cons.prems(1) obtain orch1 where up: "upsert_shard ?i (shard_shl ?i) (shard_shl (?i + 1)) h orch = Inr orch1"
        and rest: "rebuild_shards kept sap orch1 = Inr (sap', orch')"
        by (auto simp: entry Let_def bind_res_Inr_iff)
      have "shards_of (insert (?i, h) F) orch1" by (rule shards_of_insert [OF Cons.prems(4,5) up])
      from Cons.IH [OF rest Cons.prems(2,3) this] Cons.prems(5) p IronwoodPool show ?thesis
        by (simp add: entry shard_entries_Cons bits)
    qed
  qed
qed

section \<open>Properties\<close>

lemma list_all2_right: "list_all2 P xs ys \<Longrightarrow> y \<in> set ys \<Longrightarrow> \<exists>x \<in> set xs. P x y"
  by (induction rule: list_all2_induct) auto

lemma reset_same_ids:
  assumes "list_all2 (\<lambda>n n'. n' = n \<and> Q n \<or> n' = n\<lparr>n_spent := u, n_spent_txid := None\<rparr>) ns ns'"
  shows "map n_id ns' = map n_id ns \<and>
     map n_id (filter (\<lambda>n. \<not> note_above decrypt height n) ns') = map n_id (filter (\<lambda>n. \<not> note_above decrypt height n) ns)"
  using assms by (induction rule: list_all2_induct) auto

lemma filter_by_id:
  assumes "distinct (map n_id ns)"
  shows "filter (\<lambda>n. n_id n \<notin> set (map n_id (filter P ns))) ns = filter (\<lambda>n. \<not> P n) ns"
proof (rule filter_cong [OF refl])
  fix n assume "n \<in> set ns"
  with assms show "(n_id n \<notin> set (map n_id (filter P ns))) = (\<not> P n)"
    by (auto simp: distinct_map dest: inj_onD)
qed

lemma truncated_row:
  "spend_state (truncate_spendability h sdb) = Some r \<Longrightarrow> c_spendable r = 0 \<and> c_anchor r \<le> h \<and> c_validated r \<le> h"
  by (cases "spend_state sdb") (simp_all add: truncate_spendability_def update_row_def, force)

lemma rewind_trees_keeps:
  assumes "rewind_trees rewind cp db = Inr db2"
  shows "w_notes db2 = w_notes db" "w_txs db2 = w_txs db" "w_memos db2 = w_memos db"
    "w_sync db2 = w_sync db" "w_unlinked db2 = w_unlinked db"
    "w_checkpoints db2 = w_checkpoints db" "w_frontiers db2 = w_frontiers db"
    "queue_table (w_spend db2) = queue_table (w_spend db)" "spend_state (w_spend db2) = spend_state (w_spend db)"
  using assms by (auto simp: rewind_trees_def bind_res_Inr_iff split: option.splits)


text \<open>
  Observation. The shard metadata is rebuilt from the notes that remain: for each pool the
  table has one row per shard that holds a remaining note with a position and a positive height,
  marked, and its height range is exactly from the lowest to the highest such note; every
  recorded height is at most the truncation height.
\<close>

lemma shard_metadata_rebuilt:
  assumes "truncate_above_height decrypt encrypt hex_decode rewind h db = Inr (db', k)"
    and "distinct (map n_id (w_notes db))"
  shows "let entries = (\<lambda>ty. {(position div 65536, height) | position height. 0 < height \<and> 0 \<le> position \<and> height \<le> uint h \<and>
      (\<exists>n \<in> set (w_notes db'). note_type_of (n_type n) = Some ty \<and>
         read_i64_cell decrypt ''height'' (n_id n) (n_height n) = Inr (Some height) \<and>
         read_i64_cell decrypt ''position'' (n_id n) (n_position n) = Inr (Some position))})
    in shards_of (entries SaplingPool) (w_sapling_shards db') \<and> shards_of (entries IronwoodPool) (w_orchard_shards db')"
proof -
  obtain cp ns us note_ids kept db2 sap orch where st:
    "reset_notes_spent_by_txids decrypt encrypt
       (collect_transaction_txids_above_height hex_decode (uint h) (w_txs db)) (w_notes db) = Inr ns"
    "scan_notes decrypt (uint h) ns = Inr (note_ids, kept)"
    "rewind_trees rewind cp (delete_above (uint h) (uint (saturating_add h 1)) note_ids
       (db\<lparr>w_notes := ns, w_unlinked := us\<rparr>)) = Inr db2"
    "rebuild_shards kept [] [] = Inr (sap, orch)"
    "db' = db2\<lparr>w_sapling_shards := sap, w_orchard_shards := orch,
       w_sync := update_sync (\<lambda>r. r\<lparr>local_height_col := uint k, last_checkpoint_col := uint k\<rparr>) (w_sync db2),
       w_spend := truncate_spendability (uint h) (w_spend db2)\<rparr>"
    by (rule truncate_steps [OF assms(1)])
  have "map n_id ns = map n_id (w_notes db)"
    using st(1) by (rule reset_notes_spec) (erule reset_same_ids [THEN conjunct1])
  with assms(2) have "distinct (map n_id ns)" by simp
  then have remaining: "w_notes db' = filter (\<lambda>n. \<not> note_above decrypt (uint h) n) ns"
    using filter_by_id [of ns "note_above decrypt (uint h)"]
    by (simp add: st(5) rewind_trees_keeps [OF st(3)] delete_above_def Let_def scan_notes_ids [OF st(2)])
  have entries: "shard_entries ty kept = {(position div 65536, height) | position height. 0 < height \<and> 0 \<le> position \<and>
      height \<le> uint h \<and> (\<exists>n \<in> set (w_notes db'). note_type_of (n_type n) = Some ty \<and>
         read_i64_cell decrypt ''height'' (n_id n) (n_height n) = Inr (Some height) \<and>
         read_i64_cell decrypt ''position'' (n_id n) (n_position n) = Inr (Some position))}" for ty
    unfolding shard_entries_def remaining scan_notes_kept [OF st(2)] by (fastforce simp: note_above_def)
  have "shards_of {} []" by (simp add: shards_of_def)
  from rebuild_shards_spec [OF st(4) this _ this]
  have "shards_of (shard_entries SaplingPool kept) sap \<and> shards_of (shard_entries IronwoodPool kept) orch"
    by simp
  then have "shards_of (shard_entries SaplingPool kept) (w_sapling_shards db') \<and>
      shards_of (shard_entries IronwoodPool kept) (w_orchard_shards db')"
    by (simp add: st(5))
  then show ?thesis unfolding entries Let_def .
qed

text \<open>A small wallet with cleartext cells, a tree that keeps the checkpoints up to its target.\<close>

definition example_rewind :: "pool \<Rightarrow> u32 \<Rightarrow> i64 list \<Rightarrow> storage_error + i64 list" where
  "example_rewind p c ids = Inr (filter (\<lambda>i. i \<le> uint c) ids)"

definition example_wallet :: wallet_db where
  "example_wallet = \<lparr>w_spend = example_db,
     w_sync = \<lparr>sync_state = Some \<lparr>local_height_col = 100, target_height_col = 100, last_checkpoint_col = 100,
       ironwood_activation_col = None\<rparr>, chain_blocks = []\<rparr>,
     w_notes = [\<lparr>n_id = 1, n_type = ''Sapling'', n_height = SInteger 50, n_position = SInteger 70000,
         n_spent = [1], n_spent_txid = None\<rparr>,
       \<lparr>n_id = 2, n_type = ''Orchard'', n_height = SInteger 99, n_position = SNull, n_spent = [0],
         n_spent_txid = None\<rparr>],
     w_txs = [\<lparr>t_id = 1, t_txid = ''aa'', t_height = 50\<rparr>, \<lparr>t_id = 2, t_txid = ''bb'', t_height = 99\<rparr>],
     w_memos = [\<lparr>m_id = 1, m_tx_id = 1\<rparr>, \<lparr>m_id = 2, m_tx_id = 2\<rparr>], w_unlinked = [],
     w_sapling_shards = [], w_orchard_shards = [], w_checkpoints = [90, 99], w_frontiers = []\<rparr>"

lemma example_truncation:
  "\<exists>db' k. truncate_above_height Inr Inr (\<lambda>_. None) example_rewind 97 example_wallet = Inr (db', k)"
  by (simp add: truncate_above_height_def sync_to_sql_i64_def i64_try_from_def saturating_add_def Let_def
      common_checkpoint_def example_wallet_def example_db_def row_u32_def collect_transaction_txids_above_height_def
      txid_hex_candidates_def reset_notes_spent_by_txids_def delete_unlinked_spends_by_txids_def note_type_of_def
      read_i64_cell_def delete_above_def rewind_trees_def upsert_shard_def shard_shl_def NOTE_SHARD_INDEX_BITS_def)


theorem shard_metadata_rebuilt_witness:
  "\<exists>db' k. truncate_above_height Inr Inr (\<lambda>_. None) example_rewind 97 example_wallet = Inr (db', k) \<and>
     (\<exists>E. shards_of E (w_sapling_shards db'))"
proof -
  obtain db' k where run: "truncate_above_height Inr Inr (\<lambda>_. None) example_rewind 97 example_wallet = Inr (db', k)"
    using example_truncation by blast
  have "distinct (map n_id (w_notes example_wallet))" by (simp add: example_wallet_def)
  from shard_metadata_rebuilt [OF run this] run show ?thesis
    unfolding Let_def by blast
qed

end
