(* ===== verification/Diversifier.thy ===== *)
theory Diversifier
  imports Errors
begin

text \<open>
  Address rotation (\<open>diversifier.rs\<close> of the core crate): which diversifier index a wallet hands
  out next. The two atomic counters are fields (the service is only mutated through one handle
  or by one fetch-and-add at a time); the timestamps of a usage entry are left out, no decision
  reads them. \<open>next_fresh_index\<close> loops until it finds an index that is not to be avoided; it is
  a \<open>partial_function\<close>, so running forever is \<open>None\<close>, and it is shown to return whenever some
  index is free.
\<close>

section \<open>Indices and usage\<close>

definition MAX_DIVERSIFIER_INDEX :: u32 where "MAX_DIVERSIFIER_INDEX = - 1"
definition DEFAULT_GAP_LIMIT :: u32 where "DEFAULT_GAP_LIMIT = 20"

definition next_index :: "u32 \<Rightarrow> u32" where "next_index i = saturating_add i 1"
definition prev_index :: "u32 \<Rightarrow> u32" where "prev_index i = saturating_sub i 1"
definition increment_index :: "u32 \<Rightarrow> u32 \<Rightarrow> u32" where "increment_index i amount = saturating_add i amount"
definition is_max_index :: "u32 \<Rightarrow> bool" where "is_max_index i \<longleftrightarrow> i = MAX_DIVERSIFIER_INDEX"

record address_usage =
  usage_index :: u32
  share_count :: u32
  has_received :: bool
  has_spent :: bool
  usage_label :: "string option"

definition new_usage :: "u32 \<Rightarrow> address_usage" where
  "new_usage i = \<lparr>usage_index = i, share_count = 0, has_received = False, has_spent = False, usage_label = None\<rparr>"

definition usage_mark_shared :: "address_usage \<Rightarrow> address_usage" where
  "usage_mark_shared u = u\<lparr>share_count := share_count u + 1\<rparr>"

definition usage_mark_received :: "address_usage \<Rightarrow> address_usage" where
  "usage_mark_received u = (if \<not> has_received u then u\<lparr>has_received := True\<rparr> else u)"

definition usage_mark_spent :: "address_usage \<Rightarrow> address_usage" where
  "usage_mark_spent u = u\<lparr>has_spent := True\<rparr>"

definition should_avoid :: "address_usage \<Rightarrow> bool" where
  "should_avoid u \<longleftrightarrow> has_received u \<or> has_spent u \<or> 1 < share_count u"

definition is_virgin :: "address_usage \<Rightarrow> bool" where
  "is_virgin u \<longleftrightarrow> share_count u = 0 \<and> \<not> has_received u \<and> \<not> has_spent u"

datatype rotation_policy = AlwaysFresh | ReuseUntilReceived | ReuseUntilShared u32 | Manual

section \<open>The service\<close>

record rotation_service =
  current_index :: u32
  highest_used :: u32
  used_indices :: "u32 list"
  usage :: "u32 \<Rightarrow> address_usage option"
  policy :: rotation_policy
  gap_limit :: u32

definition new_service :: "rotation_policy \<Rightarrow> rotation_service" where
  "new_service p = \<lparr>current_index = 0, highest_used = 0, used_indices = [], usage = Map.empty, policy = p,
     gap_limit = DEFAULT_GAP_LIMIT\<rparr>"

definition with_gap_limit :: "u32 \<Rightarrow> rotation_service \<Rightarrow> rotation_service" where
  "with_gap_limit g s = s\<lparr>gap_limit := g\<rparr>"

definition restore :: "u32 \<Rightarrow> u32 \<Rightarrow> u32 list \<Rightarrow> rotation_policy \<Rightarrow> rotation_service" where
  "restore current highest used p = (new_service p)\<lparr>current_index := current, highest_used := highest,
     used_indices := remdups used\<rparr>"

definition avoided :: "rotation_service \<Rightarrow> u32 \<Rightarrow> bool" where
  "avoided s i = (case usage s i of None \<Rightarrow> False | Some u \<Rightarrow> should_avoid u)"

partial_function (option) next_fresh_index :: "rotation_service \<Rightarrow> (u32 \<times> rotation_service) option" where
  "next_fresh_index s =
     (let current = current_index s; s1 = s\<lparr>current_index := current + 1\<rparr>
      in if avoided s1 current then next_fresh_index s1
         else Some (current, s1\<lparr>highest_used := max (highest_used s1) current\<rparr>))"

text \<open>\<open>entry(index).or_insert_with(new)\<close> followed by an update of the entry.\<close>

definition update_usage :: "u32 \<Rightarrow> (address_usage \<Rightarrow> address_usage) \<Rightarrow> rotation_service \<Rightarrow> rotation_service" where
  "update_usage i f s = s\<lparr>usage := (usage s)(i \<mapsto> f (case usage s i of None \<Rightarrow> new_usage i | Some u \<Rightarrow> u))\<rparr>"

definition mark_shared :: "u32 \<Rightarrow> rotation_service \<Rightarrow> rotation_service" where
  "mark_shared i s = update_usage i usage_mark_shared (s\<lparr>used_indices := List.insert i (used_indices s)\<rparr>)"

definition mark_received :: "u32 \<Rightarrow> rotation_service \<Rightarrow> rotation_service" where
  "mark_received i s = update_usage i usage_mark_received (s\<lparr>used_indices := List.insert i (used_indices s)\<rparr>)"

definition mark_spent :: "u32 \<Rightarrow> rotation_service \<Rightarrow> rotation_service" where
  "mark_spent i s = update_usage i usage_mark_spent (s\<lparr>used_indices := List.insert i (used_indices s)\<rparr>)"

definition set_label :: "u32 \<Rightarrow> string \<Rightarrow> rotation_service \<Rightarrow> rotation_service" where
  "set_label i l s = update_usage i (\<lambda>u. u\<lparr>usage_label := Some l\<rparr>) s"

definition get_label :: "u32 \<Rightarrow> rotation_service \<Rightarrow> string option" where
  "get_label i s = Option.bind (usage s i) usage_label"

definition advance_to :: "u32 \<Rightarrow> rotation_service \<Rightarrow> rotation_service" where
  "advance_to i s = s\<lparr>current_index := i, highest_used := max (highest_used s) i\<rparr>"

definition reset_service :: "rotation_service \<Rightarrow> rotation_service" where
  "reset_service s = s\<lparr>current_index := 0, highest_used := 0, used_indices := [], usage := Map.empty\<rparr>"

definition current_gap :: "rotation_service \<Rightarrow> u32" where
  "current_gap s = saturating_sub (current_index s) (highest_used s)"

definition is_gap_exceeded :: "rotation_service \<Rightarrow> bool" where
  "is_gap_exceeded s \<longleftrightarrow> gap_limit s < current_gap s"

definition set_policy :: "rotation_policy \<Rightarrow> rotation_service \<Rightarrow> rotation_service" where
  "set_policy p s = s\<lparr>policy := p\<rparr>"

text \<open>The index a request hands out, before it is marked as shared.\<close>

definition choose_index :: "rotation_service \<Rightarrow> (u32 \<times> rotation_service) option" where
  "choose_index s =
     (case policy s of
        AlwaysFresh \<Rightarrow> next_fresh_index s
      | ReuseUntilReceived \<Rightarrow>
          (case usage s (current_index s) of
             Some u \<Rightarrow> if has_received u then next_fresh_index s else Some (current_index s, s)
           | None \<Rightarrow> Some (current_index s, s))
      | ReuseUntilShared max_shares \<Rightarrow>
          (case usage s (current_index s) of
             Some u \<Rightarrow> if max_shares \<le> share_count u \<or> has_received u then next_fresh_index s
               else Some (current_index s, s)
           | None \<Rightarrow> Some (current_index s, s))
      | Manual \<Rightarrow> Some (current_index s, s))"

definition request_address :: "rotation_service \<Rightarrow> (u32 \<times> rotation_service) option" where
  "request_address s = map_option (\<lambda>(i, s'). (i, mark_shared i s')) (choose_index s)"

record diversifier_state =
  ds_current_index :: u32
  ds_highest_used :: u32
  ds_used_indices :: "u32 list"
  ds_policy :: rotation_policy

definition get_state :: "rotation_service \<Rightarrow> diversifier_state" where
  "get_state s = \<lparr>ds_current_index = current_index s, ds_highest_used = highest_used s,
     ds_used_indices = used_indices s, ds_policy = policy s\<rparr>"

section \<open>The search for a fresh index\<close>

lemma next_fresh_step:
  "avoided s (current_index s) \<Longrightarrow> next_fresh_index s = next_fresh_index (s\<lparr>current_index := current_index s + 1\<rparr>)"
  "\<not> avoided s (current_index s) \<Longrightarrow> next_fresh_index s = Some (current_index s,
     s\<lparr>current_index := current_index s + 1, highest_used := max (highest_used s) (current_index s)\<rparr>)"
  by (subst next_fresh_index.simps; simp add: Let_def avoided_def)+

lemma next_fresh_after:
  assumes "\<And>m. m < n \<Longrightarrow> avoided s (current_index s + of_nat m)" "\<not> avoided s (current_index s + of_nat n)"
  shows "next_fresh_index s = Some (current_index s + of_nat n,
     s\<lparr>current_index := current_index s + of_nat n + 1,
       highest_used := max (highest_used s) (current_index s + of_nat n)\<rparr>)"
  using assms
proof (induction n arbitrary: s)
  case 0
  then show ?case by (simp add: next_fresh_step(2))
next
  case (Suc n)
  let ?s = "s\<lparr>current_index := current_index s + 1\<rparr>"
  have shift: "current_index s + 1 + of_nat m = current_index s + of_nat (Suc m)" for m
    by (simp add: algebra_simps)
  have same: "avoided ?s = avoided s" by (simp add: avoided_def fun_eq_iff)
  have "next_fresh_index ?s = Some (current_index ?s + of_nat n,
      ?s\<lparr>current_index := current_index ?s + of_nat n + 1,
        highest_used := max (highest_used ?s) (current_index ?s + of_nat n)\<rparr>)"
    using Suc.prems by (intro Suc.IH) (simp_all add: shift same del: of_nat_Suc)
  moreover have "avoided s (current_index s)" using Suc.prems(1) [of 0] by simp
  ultimately show ?case
    using shift [of n] by (simp add: next_fresh_step(1))
qed

lemma next_fresh_exists:
  assumes "\<not> avoided s i"
  obtains n where "n < 2 ^ 32" "\<And>m. m < n \<Longrightarrow> avoided s (current_index s + of_nat m)"
    "\<not> avoided s (current_index s + of_nat n)"
proof -
  let ?P = "\<lambda>n. \<not> avoided s (current_index s + of_nat n)"
  have "?P (unat (i - current_index s))" using assms by simp
  then have "?P (LEAST n. ?P n)" "(LEAST n. ?P n) \<le> unat (i - current_index s)"
    by (rule LeastI, rule Least_le)
  moreover have "\<And>m. m < (LEAST n. ?P n) \<Longrightarrow> avoided s (current_index s + of_nat m)"
    using not_less_Least [of _ ?P] by blast
  ultimately show ?thesis
    using that [of "LEAST n. ?P n"] unat_u32_bound [of "i - current_index s"] by simp
qed

section \<open>Properties\<close>

text \<open>
  Observation. The search for a fresh index ends whenever any of the \<open>2^32\<close> indices is free,
  and it returns the first index at or after the current one, counting modulo \<open>2^32\<close>, that is
  not to be avoided, moves the current index just past it, and raises the highest used index.
\<close>

lemma next_fresh_index_returns:
  assumes "\<not> avoided s i"
  shows "\<exists>n < 2 ^ 32. (\<forall>m < n. avoided s (current_index s + of_nat m)) \<and>
     \<not> avoided s (current_index s + of_nat n) \<and>
     next_fresh_index s = Some (current_index s + of_nat n,
       s\<lparr>current_index := current_index s + of_nat n + 1,
         highest_used := max (highest_used s) (current_index s + of_nat n)\<rparr>)"
  using next_fresh_exists [OF assms] next_fresh_after [of _ s] by metis

theorem next_fresh_index_returns_witness:
  "\<exists>n < 2 ^ 32. next_fresh_index (mark_received 0 (new_service AlwaysFresh)) = Some (of_nat n,
      (mark_received 0 (new_service AlwaysFresh))\<lparr>current_index := of_nat n + 1, highest_used := max 0 (of_nat n)\<rparr>)"
proof -
  have "\<not> avoided (mark_received 0 (new_service AlwaysFresh)) 1"
    by (simp add: avoided_def mark_received_def update_usage_def new_service_def)
  from next_fresh_index_returns [OF this] show ?thesis
    by (auto simp: mark_received_def update_usage_def new_service_def)
qed

subsection \<open>Fresh addresses are never handed out twice\<close>

datatype rotation_op = Request | Received u32 | Spent u32 | Label u32 string

text \<open>A history of the service: the indices it handed out, in order, and its last state.\<close>

fun rotation_run :: "rotation_op list \<Rightarrow> rotation_service \<Rightarrow> (u32 list \<times> rotation_service) option" where
  "rotation_run [] s = Some ([], s)"
| "rotation_run (Request # ops) s =
     Option.bind (request_address s) (\<lambda>(i, s'). map_option (\<lambda>(is, t). (i # is, t)) (rotation_run ops s'))"
| "rotation_run (Received i # ops) s = rotation_run ops (mark_received i s)"
| "rotation_run (Spent i # ops) s = rotation_run ops (mark_spent i s)"
| "rotation_run (Label i l # ops) s = rotation_run ops (set_label i l s)"

definition flagged :: "rotation_service \<Rightarrow> u32 set" where
  "flagged s = {i. case usage s i of None \<Rightarrow> False | Some u \<Rightarrow> has_received u \<or> has_spent u}"

text \<open>
  After \<open>h\<close> requests: an index is shared at most once, one at or above the counter never, and
  the counter is past \<open>h\<close> handed-out indices and some skipped ones, all of them flagged.
\<close>

definition fresh_inv :: "nat \<Rightarrow> rotation_service \<Rightarrow> bool" where
  "fresh_inv h s \<longleftrightarrow> policy s = AlwaysFresh \<and>
     (\<forall>i u. usage s i = Some u \<longrightarrow> share_count u \<le> 1 \<and> (current_index s \<le> i \<longrightarrow> share_count u = 0)) \<and>
     (\<exists>sk. sk \<subseteq> unat ` flagged s \<inter> {..<unat (current_index s)} \<and> unat (current_index s) = h + card sk)"

lemma avoided_flagged: "fresh_inv h s \<Longrightarrow> avoided s i \<Longrightarrow> i \<in> flagged s"
  by (force simp: fresh_inv_def avoided_def flagged_def should_avoid_def split: option.splits)

lemma card_unat_image: "card (unat ` A) = card A" for A :: "u32 set"
  by (intro card_image inj_onI) (rule unat_eqI)

lemma mark_inv:
  assumes "fresh_inv h s" "\<And>u. share_count (f u) = share_count u"
    and "\<And>u. (has_received u \<or> has_spent u) \<Longrightarrow> has_received (f u) \<or> has_spent (f u)"
  shows "fresh_inv h (update_usage i f s)" "flagged s \<subseteq> flagged (update_usage i f s)"
    "flagged (update_usage i f s) \<subseteq> insert i (flagged s)"
proof -
  show sub: "flagged s \<subseteq> flagged (update_usage i f s)"
    using assms(3) by (auto simp: flagged_def update_usage_def split: option.splits)
  show "flagged (update_usage i f s) \<subseteq> insert i (flagged s)"
    by (auto simp: flagged_def update_usage_def split: if_splits)
  have fields: "current_index (update_usage i f s) = current_index s" "policy (update_usage i f s) = policy s"
    by (simp_all add: update_usage_def)
  have shares: "share_count u \<le> 1 \<and> (current_index s \<le> j \<longrightarrow> share_count u = 0)"
    if "usage (update_usage i f s) j = Some u" for j u
    using that assms(1,2) by (auto simp: update_usage_def fresh_inv_def new_usage_def split: if_splits option.splits)
  obtain sk where "sk \<subseteq> unat ` flagged s \<inter> {..<unat (current_index s)}" "unat (current_index s) = h + card sk"
    using assms(1) by (auto simp: fresh_inv_def)
  then have "\<exists>sk. sk \<subseteq> unat ` flagged (update_usage i f s) \<inter> {..<unat (current_index s)} \<and>
      unat (current_index s) = h + card sk"
    using image_mono [OF sub, of unat] by (intro exI [of _ sk]) auto
  moreover have "policy s = AlwaysFresh" using assms(1) by (simp add: fresh_inv_def)
  ultimately show "fresh_inv h (update_usage i f s)"
    unfolding fresh_inv_def fields using shares by simp
qed

lemma request_fresh:
  assumes inv: "fresh_inv h s" and room: "h + 1 + card (flagged s) < 2 ^ 32"
  obtains i s' where "request_address s = Some (i, s')" "fresh_inv (h + 1) s'" "flagged s' = flagged s"
    "current_index s \<le> i" "i < current_index s'"
proof -
  define c where "c = current_index s"
  from inv obtain sk where sk: "sk \<subseteq> unat ` flagged s \<inter> {..<unat c}" "unat c = h + card sk"
    by (auto simp: fresh_inv_def c_def)
  have "card (flagged s) < CARD(u32)" using room by (simp add: card_word)
  then obtain j where "\<not> avoided s j"
    using avoided_flagged [OF inv] by (metis UNIV_eq_I less_irrefl)
  then obtain n where n: "n < 2 ^ 32" "\<And>m. m < n \<Longrightarrow> avoided s (c + of_nat m)" "\<not> avoided s (c + of_nat n)"
    using next_fresh_exists [of s j] unfolding c_def by blast
  define K where "K = min n (2 ^ 32 - unat c)"
  have at: "unat (c + of_nat m) = unat c + m" if "unat c + m < 2 ^ 32" for m
    using that by (simp add: unat_word_ariths unat_of_nat)
  let ?A = "{unat c..<unat c + K}"
  have "x \<in> unat ` flagged s" if "x \<in> ?A" for x
  proof -
    have "x - unat c < n" "unat c + (x - unat c) < 2 ^ 32" using that by (auto simp: K_def)
    then have "c + of_nat (x - unat c) \<in> flagged s" "unat (c + of_nat (x - unat c)) = unat c + (x - unat c)"
      using avoided_flagged [OF inv n(2)] at by blast+
    moreover have "unat c + (x - unat c) = x" using that by simp
    ultimately show ?thesis by (metis imageI)
  qed
  then have sub: "sk \<union> ?A \<subseteq> unat ` flagged s" using sk(1) by auto
  have fin: "finite sk" using sk(1) by (auto intro: finite_subset)
  have card_new: "card (sk \<union> ?A) = card sk + K"
    using sk(1) fin by (subst card_Un_disjoint) auto
  have "card (sk \<union> ?A) \<le> card (flagged s)"
    using card_mono [OF _ sub] by (simp add: card_unat_image)
  then have le: "unat c + K \<le> h + card (flagged s)" using sk(2) card_new by linarith
  then have "unat c + K + 1 < 2 ^ 32" using room by linarith
  then have Kn: "K = n" "unat c + n + 1 < 2 ^ 32" by (auto simp: K_def min_def split: if_splits)
  define i where "i = c + of_nat n"
  have ui: "unat i = unat c + n" and ui1: "unat (i + 1) = unat c + n + 1"
    using at [of n] at [of "n + 1"] Kn(2) by (auto simp: i_def algebra_simps)
  define s1 where "s1 = s\<lparr>current_index := i + 1, highest_used := max (highest_used s) i\<rparr>"
  have fresh: "next_fresh_index s = Some (i, s1)"
    using next_fresh_after [of n s] n(2,3) by (simp add: s1_def i_def c_def)
  have req: "request_address s = Some (i, mark_shared i s1)"
    using inv fresh by (simp add: request_address_def choose_index_def fresh_inv_def)
  have flag: "flagged (mark_shared i s1) = flagged s"
    by (auto simp: flagged_def mark_shared_def update_usage_def s1_def usage_mark_shared_def new_usage_def
        split: option.splits)
  have ge: "c \<le> i" and lt: "i < i + 1"
    using ui ui1 by (auto simp: word_le_nat_alt word_less_nat_alt)
  have shares: "share_count u \<le> 1 \<and> (i + 1 \<le> j \<longrightarrow> share_count u = 0)"
    if "usage (mark_shared i s1) j = Some u" for j u
  proof (cases "j = i")
    case True
    have "share_count v = 0" if "usage s i = Some v" for v
      using inv that ge by (auto simp: fresh_inv_def c_def)
    with \<open>usage (mark_shared i s1) j = Some u\<close> True lt show ?thesis
      by (auto simp: mark_shared_def update_usage_def s1_def usage_mark_shared_def new_usage_def split: option.splits)
  next
    case False
    with that have "usage s j = Some u" by (auto simp: mark_shared_def update_usage_def s1_def)
    moreover have "c \<le> j" if "i + 1 \<le> j" using that ge lt by (meson order.strict_implies_order order_trans)
    ultimately show ?thesis using inv by (auto simp: fresh_inv_def c_def)
  qed
  have "sk \<union> ?A \<subseteq> unat ` flagged s \<inter> {..<unat (i + 1)}" "unat (i + 1) = (h + 1) + card (sk \<union> ?A)"
    using sub sk Kn(1) ui1 card_new by auto
  then have skipped: "\<exists>sk. sk \<subseteq> unat ` flagged s \<inter> {..<unat (i + 1)} \<and> unat (i + 1) = (h + 1) + card sk"
    by blast
  have fields: "current_index (mark_shared i s1) = i + 1" "policy (mark_shared i s1) = policy s"
    by (simp_all add: mark_shared_def update_usage_def s1_def)
  have pol: "policy s = AlwaysFresh" using inv by (simp add: fresh_inv_def)
  have "fresh_inv (h + 1) (mark_shared i s1)"
    unfolding fresh_inv_def flag fields
    using skipped shares pol by simp
  with req flag ge lt fields(1) that show ?thesis by (simp add: c_def)
qed

lemma rotation_run_fresh:
  assumes "fresh_inv h s" "h + card (flagged s) + length ops < 2 ^ 32"
  shows "\<exists>is s'. rotation_run ops s = Some (is, s') \<and> sorted_wrt (<) is \<and> (\<forall>i \<in> set is. current_index s \<le> i)"
  using assms
proof (induction ops arbitrary: h s)
  case (Cons op ops)
  have mark: "\<exists>is s'. rotation_run ops (update_usage i f t) = Some (is, s') \<and> sorted_wrt (<) is \<and>
      (\<forall>i \<in> set is. current_index s \<le> i)"
    if f: "\<And>u. share_count (f u) = share_count u" "\<And>u. (has_received u \<or> has_spent u) \<Longrightarrow> has_received (f u) \<or> has_spent (f u)"
      and t: "fresh_inv h t" "flagged t = flagged s" "current_index t = current_index s" for i f t
  proof -
    note m = mark_inv [OF t(1) f, of i]
    have "card (flagged (update_usage i f t)) \<le> card (insert i (flagged s))"
      using m(3) t(2) by (intro card_mono) simp_all
    also have "\<dots> \<le> card (flagged s) + 1" by (simp add: card_insert_if)
    finally have "h + card (flagged (update_usage i f t)) + length ops < 2 ^ 32"
      using Cons.prems(2) by simp
    from Cons.IH [OF m(1) this] t(3) show ?thesis by (simp add: update_usage_def)
  qed
  have same: "fresh_inv h (s\<lparr>used_indices := l\<rparr>)" "flagged (s\<lparr>used_indices := l\<rparr>) = flagged s"
    "current_index (s\<lparr>used_indices := l\<rparr>) = current_index s" for l
    using Cons.prems(1) by (simp_all add: fresh_inv_def flagged_def)
  show ?case
  proof (cases op)
    case Request
    obtain i s1 where r: "request_address s = Some (i, s1)" "fresh_inv (h + 1) s1" "flagged s1 = flagged s"
      "current_index s \<le> i" "i < current_index s1"
      using request_fresh [OF Cons.prems(1)] Cons.prems(2) by auto
    obtain "is" s' where "rotation_run ops s1 = Some (is, s')" "sorted_wrt (<) is" "\<forall>j \<in> set is. current_index s1 \<le> j"
      using Cons.IH [OF r(2)] Cons.prems(2) r(3) by auto
    with r Request show ?thesis by fastforce
  next
    case (Received i)
    show ?thesis unfolding Received rotation_run.simps mark_received_def
      by (rule mark [OF _ _ same]) (auto simp: usage_mark_received_def)
  next
    case (Spent i)
    show ?thesis unfolding Spent rotation_run.simps mark_spent_def
      by (rule mark [OF _ _ same]) (auto simp: usage_mark_spent_def)
  next
    case (Label i l)
    show ?thesis unfolding Label rotation_run.simps set_label_def
      by (rule mark [OF _ _ Cons.prems(1) refl refl]) auto
  qed
qed simp



text \<open>
  Observation. The reuse policies do not reuse or rotate as their comments say: after an address
  has received funds, two requests in a row under \<open>ReuseUntilReceived\<close> hand out two different
  addresses although the first of them received nothing; and under \<open>ReuseUntilShared 1\<close> the first
  address is handed out twice.
\<close>

lemma reuse_policies_miscount:
  "map_option fst (rotation_run [Request, Received 0, Request, Request] (new_service ReuseUntilReceived)) = Some [0, 1, 2] \<and>
   map_option fst (rotation_run [Request, Request] (new_service (ReuseUntilShared 1))) = Some [0, 0]"
proof -
  note defs = request_address_def choose_index_def mark_shared_def mark_received_def update_usage_def new_service_def
    usage_mark_shared_def usage_mark_received_def new_usage_def
  have "map_option fst (rotation_run [Request, Received 0, Request, Request] (new_service ReuseUntilReceived)) = Some [0, 1, 2]"
    by (simp add: defs next_fresh_step avoided_def should_avoid_def)
  moreover have "map_option fst (rotation_run [Request, Request] (new_service (ReuseUntilShared 1))) = Some [0, 0]"
    by (simp add: defs next_fresh_step avoided_def should_avoid_def)
  ultimately show ?thesis by blast
qed

end
