(* ===== verification/Fees.thy ===== *)
theory Fees
  imports Errors
begin

text \<open>
  Fees of \<open>pirate-core\<close> (\<open>fees.rs\<close>): the fixed-fee calculator, fee validation and the dust
  policy that folds an uneconomic change output into the fee. Lemmas: the dust policy
  conserves value, never leaves a dust output, and every fee it makes is at most \<open>MAX_FEE\<close>.
  \<open>FeePolicy\<close> multiplies in 64-bit floating point and is not modelled.
\<close>

definition DEFAULT_FEE :: u64 where "DEFAULT_FEE = 10000"
definition CHANGE_DUST_THRESHOLD :: u64 where "CHANGE_DUST_THRESHOLD = DEFAULT_FEE"
definition MIN_FEE :: u64 where "MIN_FEE = DEFAULT_FEE"
definition MAX_FEE :: u64 where "MAX_FEE = 1000000"

lemmas fee_consts = DEFAULT_FEE_def CHANGE_DUST_THRESHOLD_def MIN_FEE_def MAX_FEE_def

section \<open>The fee calculator\<close>

definition calculate_fee :: "nat \<Rightarrow> nat \<Rightarrow> bool \<Rightarrow> core_error + u64" where
  "calculate_fee num_spends num_outputs has_memo =
     (let fee = DEFAULT_FEE in
      if MAX_FEE < fee
      then Inl (FeeCalculation (Msg ''Calculated fee {} exceeds maximum {}'' [uint fee, uint MAX_FEE]))
      else Inr fee)"

definition calculate_simple_send_fee :: "core_error + u64" where
  "calculate_simple_send_fee = calculate_fee 1 1 False"

definition calculate_send_with_memo_fee :: "core_error + u64" where
  "calculate_send_with_memo_fee = calculate_fee 1 1 True"

definition calculate_multi_send_fee :: "nat \<Rightarrow> bool \<Rightarrow> core_error + u64" where
  "calculate_multi_send_fee num_outputs has_memo = calculate_fee num_outputs num_outputs has_memo"

definition estimate_max_fee :: "nat \<Rightarrow> nat \<Rightarrow> core_error + u64" where
  "estimate_max_fee num_available_notes num_outputs =
     calculate_fee num_available_notes num_outputs True"

definition validate_fee :: "u64 \<Rightarrow> core_error + unit" where
  "validate_fee fee =
     (if fee < MIN_FEE
      then Inl (FeeTooLow (Msg ''Fee {} is below minimum {}'' [uint fee, uint MIN_FEE]))
      else if MAX_FEE < fee
      then Inl (FeeTooHigh (Msg ''Fee {} exceeds maximum {}'' [uint fee, uint MAX_FEE]))
      else Inr ())"

definition marginal_fee :: u64 where "marginal_fee = DEFAULT_FEE"
definition grace_actions :: u64 where "grace_actions = 2"

section \<open>The dust policy\<close>

record effective_fee_and_change =
  eff_fee :: u64
  eff_change :: u64
  dust_added_to_fee :: u64

definition apply_dust_policy_add_to_fee ::
    "u64 \<Rightarrow> u64 \<Rightarrow> core_error + effective_fee_and_change" where
  "apply_dust_policy_add_to_fee base_fee change =
     (if change = 0 \<or> CHANGE_DUST_THRESHOLD \<le> change
      then Inr \<lparr>eff_fee = base_fee, eff_change = change, dust_added_to_fee = 0\<rparr>
      else case checked_add base_fee change of
        None \<Rightarrow> Inl (AmountOverflow
          (Msg ''Fee overflow while applying dust policy: base_fee={} dust={}''
             [uint base_fee, uint change]))
      | Some effective_fee \<Rightarrow>
          if MAX_FEE < effective_fee
          then Inl (FeeTooHigh
            (Msg ''Effective fee {} exceeds maximum {} after dust adjustment''
               [uint effective_fee, uint MAX_FEE]))
          else Inr \<lparr>eff_fee = effective_fee, eff_change = 0, dust_added_to_fee = change\<rparr>)"

lemma dust_policy_Inr_cases:
  assumes "apply_dust_policy_add_to_fee base change = Inr e"
  obtains (keep) "change = 0 \<or> CHANGE_DUST_THRESHOLD \<le> change"
      "eff_fee e = base" "eff_change e = change" "dust_added_to_fee e = 0"
    | (fold) "change \<noteq> 0" "change < CHANGE_DUST_THRESHOLD"
      "unat (eff_fee e) = unat base + unat change" "eff_fee e \<le> MAX_FEE"
      "eff_change e = 0" "dust_added_to_fee e = change"
  using assms
  by (auto simp: apply_dust_policy_add_to_fee_def checked_add_Some_iff not_le not_less
        split: if_splits option.splits)

lemma dust_policy_conserves:
  assumes "apply_dust_policy_add_to_fee base change = Inr e"
  shows "unat (eff_fee e) + unat (eff_change e) = unat base + unat change"
  using assms by (cases rule: dust_policy_Inr_cases) auto

lemma dust_policy_no_dust:
  assumes "apply_dust_policy_add_to_fee base change = Inr e"
  shows "eff_change e = 0 \<or> CHANGE_DUST_THRESHOLD \<le> eff_change e"
  using assms by (cases rule: dust_policy_Inr_cases) auto

lemma dust_policy_fee_range:
  assumes "apply_dust_policy_add_to_fee base change = Inr e" and "validate_fee base = Inr ()"
  shows "validate_fee (eff_fee e) = Inr ()"
  using assms(1)
proof (cases rule: dust_policy_Inr_cases)
  case keep
  with assms(2) show ?thesis by simp
next
  case fold
  then have "base \<le> eff_fee e" by (simp add: word_le_nat_alt)
  with fold assms(2) show ?thesis
    by (auto simp: validate_fee_def not_less split: if_splits)
qed

lemma dust_policy_Inl_iff:
  "(\<exists>err. apply_dust_policy_add_to_fee base change = Inl err) \<longleftrightarrow>
     change \<noteq> 0 \<and> change < CHANGE_DUST_THRESHOLD \<and>
     unat MAX_FEE < unat base + unat change"
  using unat_u64_bound [of base] unat_u64_bound [of change]
  by (auto simp: apply_dust_policy_add_to_fee_def checked_add_def not_le word_less_nat_alt word_le_nat_alt
        unat_word_ariths fee_consts split: if_splits option.splits)

text \<open>
  Observation. Every fee the calculator gives out passes \<open>validate_fee\<close>, whatever the
  numbers of spends, outputs and memos; applying the dust policy to a valid fee conserves
  fee plus change, leaves either no change or change of at least the dust threshold, gives
  a fee that still passes \<open>validate_fee\<close>, and is refused exactly when folding the dust
  would carry the fee above \<open>MAX_FEE\<close>.
\<close>

lemma dust_policy_correct:
  assumes "validate_fee base = Inr ()"
  shows "(case apply_dust_policy_add_to_fee base change of
      Inr e \<Rightarrow> unat (eff_fee e) + unat (eff_change e) = unat base + unat change
        \<and> (eff_change e = 0 \<or> CHANGE_DUST_THRESHOLD \<le> eff_change e)
        \<and> validate_fee (eff_fee e) = Inr ()
    | Inl err \<Rightarrow> 0 < change \<and> change < CHANGE_DUST_THRESHOLD
        \<and> unat MAX_FEE < unat base + unat change)
    \<and> calculate_fee spends outputs memo = Inr DEFAULT_FEE
    \<and> validate_fee DEFAULT_FEE = Inr ()"
proof -
  have calc: "calculate_fee spends outputs memo = Inr DEFAULT_FEE" "validate_fee DEFAULT_FEE = Inr ()"
    by (simp_all add: calculate_fee_def validate_fee_def fee_consts)
  show ?thesis
  proof (cases "apply_dust_policy_add_to_fee base change")
    case (Inl err)
    then show ?thesis
      using dust_policy_Inl_iff [of base change] calc by (auto simp: word_gt_0)
  next
    case (Inr e)
    show ?thesis
      using dust_policy_conserves [OF Inr] dust_policy_no_dust [OF Inr]
        dust_policy_fee_range [OF Inr assms] calc
      by (simp add: Inr)
  qed
qed

theorem dust_policy_correct_witness:
  "validate_fee 10000 = Inr () \<and>
   apply_dust_policy_add_to_fee 10000 1 =
     Inr \<lparr>eff_fee = 10001, eff_change = 0, dust_added_to_fee = 1\<rparr> \<and>
   validate_fee 10001 = Inr ()"
proof -
  have base: "validate_fee 10000 = Inr ()"
    by (simp add: validate_fee_def fee_consts)
  moreover have "apply_dust_policy_add_to_fee 10000 1 =
      Inr \<lparr>eff_fee = 10001, eff_change = 0, dust_added_to_fee = 1\<rparr>"
    by (simp add: apply_dust_policy_add_to_fee_def checked_add_def fee_consts word_le_nat_alt)
  ultimately show ?thesis
    using dust_policy_correct [OF base, of 1 1 1 False] by simp
qed

end
