(* ===== verification/Selection.thy ===== *)
theory Selection
  imports Fees "HOL-Library.Multiset"
begin

text \<open>
  Note selection of \<open>pirate-core\<close> (\<open>selection.rs\<close>): the notes a wallet can spend, the four
  sorting strategies, \<open>select_notes\<close> and \<open>select_notes_with_consolidation\<close>. The locale
  \<open>note_selection\<close> is the contract a transaction builder relies on (value conservation,
  selection from the offered notes only, success whenever the notes suffice); both selectors
  interpret it. Lemmas: a selection is the shortest sufficient prefix of the sorted notes,
  largest-first uses the least number of notes possible, consolidation adds only eligible
  notes up to its limit.
\<close>

section \<open>Notes\<close>

datatype note_type = Sapling | Ironwood

text \<open>Values of the sapling and orchard crates that a note carries along.\<close>

typedecl sapling_merkle_path
typedecl sapling_diversifier
typedecl sapling_note
typedecl orchard_anchor
typedecl orchard_note
typedecl orchard_merkle_path

record selectable_note =
  note_type :: note_type
  note_value :: u64
  commitment :: bytes
  nullifier :: "bytes option"
  note_height :: u64
  note_txid :: bytes
  output_index :: u32
  key_id :: "i64 option"
  auto_consolidation_eligible :: bool
  merkle_path :: "sapling_merkle_path option"
  sapling_position :: "u64 option"
  diversifier :: "sapling_diversifier option"
  the_note :: "sapling_note option"
  ironwood_anchor :: "orchard_anchor option"
  ironwood_position :: "u64 option"
  ironwood_note :: "orchard_note option"
  ironwood_merkle_path :: "orchard_merkle_path option"

definition new_note :: "u64 \<Rightarrow> bytes \<Rightarrow> u64 \<Rightarrow> bytes \<Rightarrow> u32 \<Rightarrow> selectable_note" where
  "new_note v cm height txid out = \<lparr>note_type = Sapling, note_value = v, commitment = cm,
     nullifier = None, note_height = height, note_txid = txid, output_index = out,
     key_id = None, auto_consolidation_eligible = False, merkle_path = None,
     sapling_position = None, diversifier = None, the_note = None, ironwood_anchor = None,
     ironwood_position = None, ironwood_note = None, ironwood_merkle_path = None\<rparr>"

definition new_ironwood :: "u64 \<Rightarrow> bytes \<Rightarrow> u64 \<Rightarrow> bytes \<Rightarrow> u32 \<Rightarrow> selectable_note" where
  "new_ironwood v cm height txid out = \<lparr>note_type = Ironwood, note_value = v, commitment = cm,
     nullifier = None, note_height = height, note_txid = txid, output_index = out,
     key_id = None, auto_consolidation_eligible = False, merkle_path = None,
     sapling_position = None, diversifier = None, the_note = None, ironwood_anchor = None,
     ironwood_position = None, ironwood_note = None, ironwood_merkle_path = None\<rparr>"

definition with_nullifier :: "bytes \<Rightarrow> selectable_note \<Rightarrow> selectable_note" where
  "with_nullifier nf n = n\<lparr>nullifier := Some nf\<rparr>"

definition with_key_id :: "i64 option \<Rightarrow> selectable_note \<Rightarrow> selectable_note" where
  "with_key_id k n = n\<lparr>key_id := k\<rparr>"

definition with_auto_consolidation_eligible :: "bool \<Rightarrow> selectable_note \<Rightarrow> selectable_note" where
  "with_auto_consolidation_eligible eligible n = n\<lparr>auto_consolidation_eligible := eligible\<rparr>"

definition with_witness ::
    "sapling_merkle_path \<Rightarrow> sapling_diversifier \<Rightarrow> sapling_note \<Rightarrow> selectable_note \<Rightarrow> selectable_note"
  where "with_witness path d nt n =
    n\<lparr>merkle_path := Some path, diversifier := Some d, the_note := Some nt\<rparr>"

definition with_sapling_position :: "u64 \<Rightarrow> selectable_note \<Rightarrow> selectable_note" where
  "with_sapling_position pos n = n\<lparr>sapling_position := Some pos\<rparr>"

definition with_ironwood_witness ::
    "orchard_anchor \<Rightarrow> u64 \<Rightarrow> orchard_merkle_path \<Rightarrow> orchard_note \<Rightarrow> selectable_note \<Rightarrow> selectable_note"
  where "with_ironwood_witness anchor pos path nt n =
    n\<lparr>ironwood_anchor := Some anchor, ironwood_position := Some pos,
      ironwood_merkle_path := Some path, ironwood_note := Some nt\<rparr>"

section \<open>Selection\<close>

datatype selection_strategy = FirstFit | SmallestFirst | LargestFirst | OldestFirst

record selection_result =
  sel_notes :: "selectable_note list"
  total_value :: u64
  sel_change :: u64

text \<open>\<open>sort_by\<close> is stable; the reversed comparison of largest-first sorts by the negated value.\<close>

fun sort_notes :: "selection_strategy \<Rightarrow> selectable_note list \<Rightarrow> selectable_note list" where
  "sort_notes FirstFit notes = notes"
| "sort_notes SmallestFirst notes = sort_key note_value notes"
| "sort_notes LargestFirst notes = sort_key (\<lambda>n. - uint (note_value n)) notes"
| "sort_notes OldestFirst notes = sort_key note_height notes"

text \<open>The \<open>for\<close> loop of \<open>select_notes\<close>, with the notes chosen so far and their total.\<close>

fun select_loop ::
    "u64 \<Rightarrow> selectable_note list \<Rightarrow> selectable_note list \<Rightarrow> u64
      \<Rightarrow> core_error + selectable_note list \<times> u64" where
  "select_loop required [] selected tot = Inr (selected, tot)"
| "select_loop required (n # ns) selected tot =
     (if required \<le> tot then Inr (selected, tot)
      else case checked_add tot (note_value n) of
        None \<Rightarrow> Inl (InsufficientFunds (Msg ''Value overflow'' []))
      | Some tot' \<Rightarrow> select_loop required ns (selected @ [n]) tot')"

text \<open>The check after the loop, shared by both selectors.\<close>

definition finish_selection ::
    "u64 \<Rightarrow> selectable_note list \<times> u64 \<Rightarrow> core_error + selection_result" where
  "finish_selection required st =
     (case st of (selected, tot) \<Rightarrow>
        if tot < required
        then Inl (InsufficientFunds (Msg ''Required {} arrrtoshis, have {} arrrtoshis''
               [uint required, uint tot]))
        else Inr \<lparr>sel_notes = selected, total_value = tot, sel_change = tot - required\<rparr>)"

definition select_notes ::
    "selection_strategy \<Rightarrow> selectable_note list \<Rightarrow> u64 \<Rightarrow> u64 \<Rightarrow> core_error + selection_result" where
  "select_notes strategy available target fee =
     bind_res (ok_or (checked_add target fee) (InsufficientFunds (Msg ''Amount overflow'' [])))
       (\<lambda>required. bind_res (select_loop required (sort_notes strategy available) [] 0)
         (finish_selection required))"

text \<open>The loop of the consolidating selector: eligible notes are added past the target.\<close>

fun consolidate_loop ::
    "u64 \<Rightarrow> nat \<Rightarrow> selectable_note list \<Rightarrow> selectable_note list \<Rightarrow> u64 \<Rightarrow> nat
      \<Rightarrow> core_error + selectable_note list \<times> u64" where
  "consolidate_loop required limit [] selected tot extra = Inr (selected, tot)"
| "consolidate_loop required limit (n # ns) selected tot extra =
     (if tot < required then
        (case checked_add tot (note_value n) of
           None \<Rightarrow> Inl (InsufficientFunds (Msg ''Value overflow'' []))
         | Some tot' \<Rightarrow> consolidate_loop required limit ns (selected @ [n]) tot' extra)
      else if limit = 0 \<or> limit \<le> extra then Inr (selected, tot)
      else if auto_consolidation_eligible n then
        (case checked_add tot (note_value n) of
           None \<Rightarrow> Inl (InsufficientFunds (Msg ''Value overflow'' []))
         | Some tot' \<Rightarrow> consolidate_loop required limit ns (selected @ [n]) tot' (Suc extra))
      else consolidate_loop required limit ns selected tot extra)"

definition select_notes_with_consolidation ::
    "selection_strategy \<Rightarrow> nat \<Rightarrow> selectable_note list \<Rightarrow> u64 \<Rightarrow> u64
      \<Rightarrow> core_error + selection_result" where
  "select_notes_with_consolidation strategy limit available target fee =
     bind_res (ok_or (checked_add target fee) (InsufficientFunds (Msg ''Amount overflow'' [])))
       (\<lambda>required. bind_res (consolidate_loop required limit (sort_notes strategy available) [] 0 0)
         (finish_selection required))"

text \<open>\<open>Iterator::sum\<close> on \<open>u64\<close> wraps in release builds.\<close>

definition total_available :: "selectable_note list \<Rightarrow> u64" where
  "total_available notes = sum_list (map note_value notes)"

definition check_sufficient :: "selectable_note list \<Rightarrow> u64 \<Rightarrow> bool" where
  "check_sufficient notes required \<longleftrightarrow> required \<le> total_available notes"

definition optimize_selection ::
    "selectable_note list \<Rightarrow> u64 \<Rightarrow> u64 \<Rightarrow> core_error + selection_result" where
  "optimize_selection available target fee = select_notes SmallestFirst available target fee"

definition default_selector :: selection_strategy where
  "default_selector = SmallestFirst"

section \<open>The loops\<close>

definition value_sum :: "selectable_note list \<Rightarrow> nat" where
  "value_sum ns = sum_list (map (\<lambda>n. unat (note_value n)) ns)"

lemma value_sum_simps [simp]:
  "value_sum [] = 0"
  "value_sum (n # ns) = unat (note_value n) + value_sum ns"
  "value_sum (xs @ ys) = value_sum xs + value_sum ys"
  by (simp_all add: value_sum_def)

lemma value_sum_mset: "value_sum ns = (\<Sum>n\<in>#mset ns. unat (note_value n))"
  unfolding value_sum_def by (metis mset_map sum_mset_sum_list)

lemma mset_sort_notes [simp]: "mset (sort_notes strategy ns) = mset ns"
  by (cases strategy) auto

lemma value_sum_sort_notes [simp]: "value_sum (sort_notes strategy ns) = value_sum ns"
  by (simp add: value_sum_mset)

lemma select_loop_Inr:
  assumes "select_loop req ns sel t = Inr (sel', t')"
  shows "\<exists>k \<le> length ns. sel' = sel @ take k ns \<and> unat t' = unat t + value_sum (take k ns) \<and>
    (k = length ns \<or> req \<le> t') \<and> (\<forall>j<k. unat t + value_sum (take j ns) < unat req)"
  using assms
proof (induction req ns sel t rule: select_loop.induct)
  case (2 req n ns sel t)
  show ?case
  proof (cases "req \<le> t")
    case True
    with 2 show ?thesis by (intro exI [of _ 0]) simp
  next
    case False
    then obtain u where u: "checked_add t (note_value n) = Some u"
      using "2.prems" by (auto split: option.splits)
    with 2 False obtain k where k: "k \<le> length ns" "sel' = (sel @ [n]) @ take k ns"
      "unat t' = unat u + value_sum (take k ns)" "k = length ns \<or> req \<le> t'"
      "\<forall>j<k. unat u + value_sum (take j ns) < unat req" by auto
    have "unat u = unat t + unat (note_value n)"
      using u by (simp add: checked_add_Some_iff)
    with k False show ?thesis
      by (intro exI [of _ "Suc k"]) (auto simp: less_Suc_eq_0_disj word_le_nat_alt)
  qed
qed simp

lemma select_loop_Inl:
  "select_loop req ns sel t = Inl e \<Longrightarrow>
     e = InsufficientFunds (Msg ''Value overflow'' []) \<and> 2 ^ 64 \<le> unat t + value_sum ns"
proof (induction req ns sel t rule: select_loop.induct)
  case (2 req n ns sel t)
  show ?case
  proof (cases "checked_add t (note_value n)")
    case None
    then have "2 ^ 64 \<le> unat t + unat (note_value n)" by (simp add: checked_add_None_iff)
    with 2 None show ?thesis by (auto split: if_splits)
  next
    case (Some u)
    then have "unat u = unat t + unat (note_value n)" by (simp add: checked_add_Some_iff)
    with 2 Some show ?thesis by (auto split: if_splits)
  qed
qed simp

text \<open>The consolidating loop: a shortest sufficient prefix, then eligible notes up to the limit.\<close>

lemma consolidate_loop_extras:
  assumes "consolidate_loop req limit ns sel t extra = Inr (sel', t')" and "req \<le> t"
  shows "\<exists>xs. sel' = sel @ xs \<and> mset xs \<subseteq># mset ns \<and> list_all auto_consolidation_eligible xs
    \<and> length xs \<le> limit - extra \<and> unat t' = unat t + value_sum xs \<and> req \<le> t'"
  using assms
proof (induction ns arbitrary: sel t extra)
  case (Cons n ns)
  from Cons.prems(2) have past: "\<not> t < req" by (simp add: not_less)
  consider (stop) "limit = 0 \<or> limit \<le> extra"
    | (skip) "extra < limit" "\<not> auto_consolidation_eligible n"
    | (add) "extra < limit" "auto_consolidation_eligible n" by linarith
  then show ?case
  proof cases
    case stop
    with Cons.prems past show ?thesis by (intro exI [of _ "[]"]) auto
  next
    case skip
    with Cons.IH [of sel t extra] Cons.prems past obtain xs where "sel' = sel @ xs" "mset xs \<subseteq># mset ns"
      "list_all auto_consolidation_eligible xs" "length xs \<le> limit - extra"
      "unat t' = unat t + value_sum xs" "req \<le> t'" by auto
    moreover have "mset ns \<subseteq># mset (n # ns)" by simp
    ultimately show ?thesis
      by (intro exI [of _ xs]) (auto intro: subset_mset.order_trans)
  next
    case add
    then obtain u where u: "checked_add t (note_value n) = Some u"
      using Cons.prems past by (auto split: option.splits)
    then have eq: "unat u = unat t + unat (note_value n)" by (simp add: checked_add_Some_iff)
    with Cons.prems(2) have "req \<le> u" by (simp add: word_le_nat_alt)
    with Cons.IH [of "sel @ [n]" u "Suc extra"] Cons.prems(1) past add u
    obtain xs where "sel' = (sel @ [n]) @ xs" "mset xs \<subseteq># mset ns"
      "list_all auto_consolidation_eligible xs" "length xs \<le> limit - Suc extra"
      "unat t' = unat u + value_sum xs" "req \<le> t'" by auto
    with add eq show ?thesis by (intro exI [of _ "n # xs"]) auto
  qed
qed simp

lemma consolidate_loop_Inr:
  assumes "consolidate_loop req limit ns sel t 0 = Inr (sel', t')"
  shows "\<exists>k xs. k \<le> length ns \<and> sel' = sel @ take k ns @ xs \<and> mset xs \<subseteq># mset (drop k ns) \<and>
    list_all auto_consolidation_eligible xs \<and> length xs \<le> limit \<and>
    unat t' = unat t + value_sum (take k ns) + value_sum xs \<and> (k = length ns \<or> req \<le> t') \<and>
    (\<forall>j<k. unat t + value_sum (take j ns) < unat req)"
  using assms
proof (induction ns arbitrary: sel t)
  case Nil
  then show ?case by (intro exI [of _ 0] exI [of _ "[]"]) simp
next
  case (Cons n ns)
  show ?case
  proof (cases "t < req")
    case False
    with Cons.prems consolidate_loop_extras [of req limit "n # ns" sel t 0 sel' t']
    obtain xs where "sel' = sel @ xs" "mset xs \<subseteq># mset (n # ns)"
      "list_all auto_consolidation_eligible xs" "length xs \<le> limit"
      "unat t' = unat t + value_sum xs" "req \<le> t'" by (auto simp: not_less)
    then show ?thesis by (intro exI [of _ 0] exI [of _ xs]) simp
  next
    case True
    then obtain u where u: "checked_add t (note_value n) = Some u"
      using Cons.prems by (auto split: option.splits)
    then have eq: "unat u = unat t + unat (note_value n)" by (simp add: checked_add_Some_iff)
    from Cons.IH [of "sel @ [n]" u] Cons.prems True u
    obtain k xs where "k \<le> length ns" "sel' = (sel @ [n]) @ take k ns @ xs"
      "mset xs \<subseteq># mset (drop k ns)" "list_all auto_consolidation_eligible xs" "length xs \<le> limit"
      "unat t' = unat u + value_sum (take k ns) + value_sum xs" "k = length ns \<or> req \<le> t'"
      "\<forall>j<k. unat u + value_sum (take j ns) < unat req" by auto
    with True eq show ?thesis
      by (intro exI [of _ "Suc k"] exI [of _ xs]) (auto simp: less_Suc_eq_0_disj word_less_nat_alt)
  qed
qed

lemma consolidate_loop_Inl:
  "consolidate_loop req limit ns sel t extra = Inl e \<Longrightarrow>
     e = InsufficientFunds (Msg ''Value overflow'' []) \<and> 2 ^ 64 \<le> unat t + value_sum ns"
proof (induction ns arbitrary: sel t extra)
  case (Cons n ns)
  show ?case
  proof (cases "checked_add t (note_value n)")
    case None
    then have "2 ^ 64 \<le> unat t + unat (note_value n)" by (simp add: checked_add_None_iff)
    with Cons None show ?thesis by (auto split: if_splits)
  next
    case (Some u)
    then have "unat u = unat t + unat (note_value n)" by (simp add: checked_add_Some_iff)
    with Cons Some show ?thesis by (fastforce split: if_splits)
  qed
qed simp

section \<open>What a selection is\<close>

lemma finish_selection_Inr:
  assumes "finish_selection req (sel, t) = Inr r"
  shows "sel_notes r = sel" and "total_value r = t"
    and "unat t = unat req + unat (sel_change r)"
  using assms
  by (auto simp: finish_selection_def word_less_nat_alt unat_sub_if_size split: if_splits)

lemma finish_selection_Inl:
  "finish_selection req (sel, t) = Inl e \<Longrightarrow>
     unat t < unat req \<and> (\<exists>m. e = InsufficientFunds m)"
  by (auto simp: finish_selection_def word_less_nat_alt split: if_splits)

lemma required_Inr:
  "ok_or (checked_add target fee) e = Inr (req::u64) \<longleftrightarrow>
     unat target + unat fee < 2 ^ 64 \<and> unat req = unat target + unat fee"
  by (simp add: checked_add_Some_iff)

lemma select_notes_Inr:
  assumes "select_notes strategy ns target fee = Inr r"
  shows "\<exists>k \<le> length ns. sel_notes r = take k (sort_notes strategy ns) \<and>
    unat (total_value r) = value_sum (sel_notes r) \<and>
    unat (total_value r) = unat target + unat fee + unat (sel_change r) \<and>
    (\<forall>j<k. value_sum (take j (sort_notes strategy ns)) < unat target + unat fee)"
proof -
  obtain req sel t where req: "unat req = unat target + unat fee"
    and loop: "select_loop req (sort_notes strategy ns) [] 0 = Inr (sel, t)"
    and fin: "finish_selection req (sel, t) = Inr r"
    using assms by (auto simp: select_notes_def bind_res_Inr_iff required_Inr simp del: ok_or_Inr_iff)
  from select_loop_Inr [OF loop] finish_selection_Inr [OF fin] req show ?thesis
    by (auto simp flip: size_mset)
qed

lemma consolidation_Inr:
  assumes "select_notes_with_consolidation strategy limit ns target fee = Inr r"
  shows "\<exists>k xs. k \<le> length ns \<and> sel_notes r = take k (sort_notes strategy ns) @ xs \<and>
    mset xs \<subseteq># mset (drop k (sort_notes strategy ns)) \<and>
    list_all auto_consolidation_eligible xs \<and> length xs \<le> limit \<and>
    unat (total_value r) = value_sum (sel_notes r) \<and>
    unat (total_value r) = unat target + unat fee + unat (sel_change r) \<and>
    (\<forall>j<k. value_sum (take j (sort_notes strategy ns)) < unat target + unat fee)"
proof -
  obtain req sel t where req: "unat req = unat target + unat fee"
    and loop: "consolidate_loop req limit (sort_notes strategy ns) [] 0 0 = Inr (sel, t)"
    and fin: "finish_selection req (sel, t) = Inr r"
    using assms
    by (auto simp: select_notes_with_consolidation_def bind_res_Inr_iff required_Inr simp del: ok_or_Inr_iff)
  from consolidate_loop_Inr [OF loop] obtain k xs where
    "k \<le> length (sort_notes strategy ns)" "sel = take k (sort_notes strategy ns) @ xs"
    "mset xs \<subseteq># mset (drop k (sort_notes strategy ns))" "list_all auto_consolidation_eligible xs"
    "length xs \<le> limit" "unat t = value_sum (take k (sort_notes strategy ns)) + value_sum xs"
    "\<forall>j<k. value_sum (take j (sort_notes strategy ns)) < unat req" by auto
  moreover have "length (sort_notes strategy ns) = length ns" by (metis mset_sort_notes size_mset)
  ultimately show ?thesis
    using finish_selection_Inr [OF fin] req by (intro exI [of _ k] exI [of _ xs]) auto
qed

text \<open>Running out of notes: the total of every note is what the loop ends with.\<close>

lemma select_notes_complete:
  assumes "unat target + unat fee \<le> value_sum ns" and "value_sum ns < 2 ^ 64"
  shows "\<exists>r. select_notes strategy ns target fee = Inr r"
proof -
  obtain req where req: "ok_or (checked_add target fee) (InsufficientFunds (Msg ''Amount overflow'' [])) = Inr req"
    and u: "unat req = unat target + unat fee"
    using assms by (auto simp: checked_add_def unat_word_ariths)
  obtain sel t where loop: "select_loop req (sort_notes strategy ns) [] 0 = Inr (sel, t)"
    using select_loop_Inl [of req "sort_notes strategy ns" "[]" 0] assms(2)
    by (cases "select_loop req (sort_notes strategy ns) [] 0") force+
  have "req \<le> t"
    using select_loop_Inr [OF loop] assms(1) u by (auto simp: word_le_nat_alt)
  with req loop show ?thesis
    by (auto simp: select_notes_def finish_selection_def simp del: ok_or_Inr_iff)
qed

lemma consolidation_complete:
  assumes "unat target + unat fee \<le> value_sum ns" and "value_sum ns < 2 ^ 64"
  shows "\<exists>r. select_notes_with_consolidation strategy limit ns target fee = Inr r"
proof -
  obtain req where req: "ok_or (checked_add target fee) (InsufficientFunds (Msg ''Amount overflow'' [])) = Inr req"
    and u: "unat req = unat target + unat fee"
    using assms by (auto simp: checked_add_def unat_word_ariths)
  obtain sel t where loop: "consolidate_loop req limit (sort_notes strategy ns) [] 0 0 = Inr (sel, t)"
    using consolidate_loop_Inl [of req limit "sort_notes strategy ns" "[]" 0 0] assms(2)
    by (cases "consolidate_loop req limit (sort_notes strategy ns) [] 0 0") force+
  have "req \<le> t"
    using consolidate_loop_Inr [OF loop] assms(1) u by (auto simp: word_le_nat_alt)
  with req loop show ?thesis
    by (auto simp: select_notes_with_consolidation_def finish_selection_def simp del: ok_or_Inr_iff)
qed

section \<open>The contract of a note selector\<close>

locale note_selection =
  fixes select :: "selectable_note list \<Rightarrow> u64 \<Rightarrow> u64 \<Rightarrow> core_error + selection_result"
  assumes select_from: "select ns target fee = Inr r \<Longrightarrow> mset (sel_notes r) \<subseteq># mset ns"
    and select_total: "select ns target fee = Inr r \<Longrightarrow> unat (total_value r) = value_sum (sel_notes r)"
    and select_change: "select ns target fee = Inr r \<Longrightarrow>
      unat (total_value r) = unat target + unat fee + unat (sel_change r)"
    and select_complete: "unat target + unat fee \<le> value_sum ns \<Longrightarrow> value_sum ns < 2 ^ 64 \<Longrightarrow>
      \<exists>r. select ns target fee = Inr r"
    and select_error: "select ns target fee = Inl e \<Longrightarrow> \<exists>m. e = InsufficientFunds m"
begin

lemma value_sum_mono: "mset xs \<subseteq># mset ys \<Longrightarrow> value_sum xs \<le> value_sum ys"
  by (metis value_sum_mset mset_subset_eq_exists_conv image_mset_union sum_mset.union le_add1)

lemma select_succeeds_iff:
  assumes "value_sum ns < 2 ^ 64"
  shows "(\<exists>r. select ns target fee = Inr r) \<longleftrightarrow> unat target + unat fee \<le> value_sum ns"
proof
  assume "\<exists>r. select ns target fee = Inr r"
  then obtain r where "select ns target fee = Inr r" ..
  with select_from [of ns target fee r] select_total [of ns target fee r] select_change [of ns target fee r]
  show "unat target + unat fee \<le> value_sum ns"
    using value_sum_mono [of "sel_notes r" ns] by simp
qed (use assms in \<open>auto intro: select_complete\<close>)

text \<open>Selecting and then applying the dust policy spends exactly what was selected.\<close>

lemma select_dust_conserves:
  assumes "select ns target fee = Inr r"
    and "apply_dust_policy_add_to_fee fee (sel_change r) = Inr e"
  shows "value_sum (sel_notes r) = unat target + unat (eff_fee e) + unat (eff_change e)"
  using select_total [OF assms(1)] select_change [OF assms(1)] dust_policy_conserves [OF assms(2)]
  by simp

end

lemma mset_take_subseteq: "mset (take k xs) \<subseteq># mset xs"
  by (metis append_take_drop_id mset_append mset_subset_eq_add_left)

lemma mset_take_append_subseteq:
  assumes "mset ys \<subseteq># mset (drop k xs)"
  shows "mset (take k xs @ ys) \<subseteq># mset xs"
proof -
  have "mset (take k xs) + mset ys \<subseteq># mset (take k xs) + mset (drop k xs)"
    using assms by (rule subset_mset.add_left_mono)
  then show ?thesis by (metis append_take_drop_id mset_append)
qed

interpretation plain_sel: note_selection "select_notes strategy" for strategy
proof
  fix ns target fee r e
  show "mset (sel_notes r) \<subseteq># mset ns" if "select_notes strategy ns target fee = Inr r"
    using select_notes_Inr [OF that] by (metis mset_take_subseteq mset_sort_notes)
  show "\<exists>m. e = InsufficientFunds m" if "select_notes strategy ns target fee = Inl e"
    using that
    by (auto simp: select_notes_def bind_res_def ok_or_def split: option.splits sum.splits prod.splits
        dest: select_loop_Inl finish_selection_Inl)
qed (use select_notes_Inr in \<open>blast intro: select_notes_complete\<close>)+

interpretation cons_sel: note_selection "select_notes_with_consolidation strategy limit"
  for strategy limit
proof
  fix ns target fee r e
  show "mset (sel_notes r) \<subseteq># mset ns"
    if "select_notes_with_consolidation strategy limit ns target fee = Inr r"
    using consolidation_Inr [OF that] by (metis mset_take_append_subseteq mset_sort_notes)
  show "\<exists>m. e = InsufficientFunds m"
    if "select_notes_with_consolidation strategy limit ns target fee = Inl e"
    using that
    by (auto simp: select_notes_with_consolidation_def bind_res_def ok_or_def
        split: option.splits sum.splits prod.splits
        dest: consolidate_loop_Inl finish_selection_Inl)
qed (use consolidation_Inr in \<open>blast intro: consolidation_complete\<close>)+

section \<open>Largest first\<close>

lemma subseteq_add_mset_notin:
  assumes "M \<subseteq># add_mset y N" and "y \<notin># M"
  shows "M \<subseteq># N"
proof (rule mset_subset_eqI)
  fix a
  show "count M a \<le> count N a"
    using assms(2) mset_subset_eq_count [OF assms(1), of a]
    by (cases "a = y") (auto simp: not_in_iff)
qed

lemma top_values_bound:
  assumes "sorted_wrt (\<lambda>a b. f b \<le> f a) ys" and "M \<subseteq># mset ys"
  shows "(\<Sum>x\<in>#M. f x) \<le> sum_list (map f (take (size M) ys) :: nat list)"
  using assms
proof (induction ys arbitrary: M)
  case (Cons y ys)
  show ?case
  proof (cases "M = {#}")
    case False
    obtain x N where x: "M = add_mset x N" "f x \<le> f y" "N \<subseteq># mset ys"
    proof (cases "y \<in># M")
      case True
      then obtain N where "M = add_mset y N" by (metis insert_DiffM)
      with Cons.prems(2) that [of y N] show ?thesis by simp
    next
      case out: False
      from False obtain x N where M: "M = add_mset x N" by (metis multiset_cases)
      have "add_mset x N \<subseteq># mset ys"
        using subseteq_add_mset_notin [OF _ out] Cons.prems(2) M by simp
      then have "x \<in> set ys" "N \<subseteq># mset ys"
        by (auto dest: mset_subset_eq_insertD subset_mset.less_imp_le)
      with Cons.prems(1) M that [of x N] show ?thesis by simp
    qed
    with Cons.IH [of N] Cons.prems(1) show ?thesis by simp
  qed simp
qed simp

lemma sort_largest_first_descending:
  "sorted_wrt (\<lambda>a b. unat (note_value b) \<le> unat (note_value a)) (sort_notes LargestFirst ns)"
proof -
  have "sorted (map (\<lambda>n. - uint (note_value n)) (sort_notes LargestFirst ns))"
    by (simp del: sorted_map)
  then show ?thesis
    unfolding sorted_map by (rule sorted_wrt_mono_rel [rotated]) (simp flip: word_le_nat_alt add: word_le_def)
qed

section \<open>Properties\<close>

text \<open>
  Property C7. A successful \<open>select_notes\<close> returns the shortest prefix of the sorted notes
  that covers target plus fee, with the exact total and change; when the notes' values add
  up within 64 bits it succeeds exactly when they cover target plus fee, and every failure
  is \<open>InsufficientFunds\<close>.
\<close>

theorem select_notes_correct:
  assumes "value_sum ns < 2 ^ 64"
  shows "case select_notes strategy ns target fee of
      Inr r \<Rightarrow> unat target + unat fee \<le> value_sum ns
        \<and> (\<exists>k. sel_notes r = take k (sort_notes strategy ns)
             \<and> unat target + unat fee \<le> value_sum (take k (sort_notes strategy ns))
             \<and> (\<forall>j<k. value_sum (take j (sort_notes strategy ns)) < unat target + unat fee))
        \<and> unat (total_value r) = value_sum (sel_notes r)
        \<and> unat (sel_change r) = value_sum (sel_notes r) - (unat target + unat fee)
    | Inl e \<Rightarrow> value_sum ns < unat target + unat fee \<and> (\<exists>m. e = InsufficientFunds m)"
proof (cases "select_notes strategy ns target fee")
  case (Inl e)
  then show ?thesis
    using plain_sel.select_succeeds_iff [OF assms, of strategy target fee]
      plain_sel.select_error [OF Inl] by (simp add: not_le)
next
  case (Inr r)
  then have "unat target + unat fee \<le> value_sum ns"
    using plain_sel.select_succeeds_iff [OF assms, of strategy target fee] by simp
  moreover obtain k where "sel_notes r = take k (sort_notes strategy ns)"
    "unat (total_value r) = value_sum (sel_notes r)"
    "unat (total_value r) = unat target + unat fee + unat (sel_change r)"
    "\<forall>j<k. value_sum (take j (sort_notes strategy ns)) < unat target + unat fee"
    using select_notes_Inr [OF Inr] by blast
  ultimately show ?thesis using Inr by auto
qed

abbreviation sample_notes :: "selectable_note list" where
  "sample_notes \<equiv> [new_note 100000 [1] 1000 [1] 0, new_note 500000 [2] 1001 [2] 0,
     new_note 250000 [3] 1002 [3] 0, new_note 1000000 [4] 1003 [4] 0]"

theorem select_notes_correct_witness:
  "value_sum sample_notes < 2 ^ 64 \<and>
   (\<exists>r. select_notes SmallestFirst sample_notes 300000 10000 = Inr r \<and>
      sel_notes r = [new_note 100000 [1] 1000 [1] 0, new_note 250000 [3] 1002 [3] 0] \<and>
      unat (sel_change r) = 40000)"
proof -
  have bound: "value_sum sample_notes < 2 ^ 64"
    by (simp add: new_note_def)
  have sel: "select_notes SmallestFirst sample_notes 300000 10000 =
      Inr \<lparr>sel_notes = [new_note 100000 [1] 1000 [1] 0, new_note 250000 [3] 1002 [3] 0],
        total_value = 350000, sel_change = 40000\<rparr>"
    by (simp add: select_notes_def new_note_def checked_add_def finish_selection_def)
  show ?thesis
    using bound sel select_notes_correct [OF bound, where strategy = SmallestFirst and target = 300000 and fee = 10000]
    by simp
qed

text \<open>
  Observation. Largest-first spends as few notes as possible: no choice of fewer of the
  offered notes covers target plus fee.
\<close>

lemma largest_first_fewest_notes:
  assumes "select_notes LargestFirst ns target fee = Inr r"
    and "M \<subseteq># mset ns" and "unat target + unat fee \<le> (\<Sum>n\<in>#M. unat (note_value n))"
  shows "length (sel_notes r) \<le> size M"
proof (rule ccontr)
  assume "\<not> length (sel_notes r) \<le> size M"
  moreover obtain k where "sel_notes r = take k (sort_notes LargestFirst ns)"
    and min: "\<forall>j<k. value_sum (take j (sort_notes LargestFirst ns)) < unat target + unat fee"
    using select_notes_Inr [OF assms(1)] by blast
  ultimately have "size M < k" by simp
  with min have "value_sum (take (size M) (sort_notes LargestFirst ns)) < unat target + unat fee"
    by blast
  moreover have "(\<Sum>n\<in>#M. unat (note_value n)) \<le>
      value_sum (take (size M) (sort_notes LargestFirst ns))"
    using top_values_bound [OF sort_largest_first_descending, of M ns] assms(2)
    by (simp add: value_sum_def)
  ultimately show False using assms(3) by simp
qed

theorem largest_first_fewest_notes_witness:
  "\<exists>r. select_notes LargestFirst sample_notes 300000 10000 = Inr r \<and>
     {# new_note 500000 [2] 1001 [2] 0 #} \<subseteq># mset sample_notes \<and> length (sel_notes r) \<le> 1"
proof -
  have sel: "select_notes LargestFirst sample_notes 300000 10000 =
      Inr \<lparr>sel_notes = [new_note 1000000 [4] 1003 [4] 0], total_value = 1000000, sel_change = 690000\<rparr>"
    by (simp add: select_notes_def new_note_def checked_add_def finish_selection_def)
  have sub: "{# new_note 500000 [2] 1001 [2] 0 #} \<subseteq># mset sample_notes"
    by simp
  show ?thesis
    using sel sub largest_first_fewest_notes [OF sel sub] by (simp add: new_note_def)
qed

text \<open>
  Observation. Consolidation spends the shortest sufficient prefix of the sorted notes plus
  at most \<open>extra_limit\<close> further notes, each marked eligible and taken from the remaining
  ones; target, fee and change still add up to the value of the notes spent.
\<close>

lemma consolidation_correct:
  assumes "select_notes_with_consolidation strategy limit ns target fee = Inr r"
  shows "\<exists>k xs. sel_notes r = take k (sort_notes strategy ns) @ xs
      \<and> mset xs \<subseteq># mset (drop k (sort_notes strategy ns))
      \<and> list_all auto_consolidation_eligible xs \<and> length xs \<le> limit
      \<and> (\<forall>j<k. value_sum (take j (sort_notes strategy ns)) < unat target + unat fee)
      \<and> value_sum (sel_notes r) = unat target + unat fee + unat (sel_change r)"
  using consolidation_Inr [OF assms] by metis

theorem consolidation_correct_witness:
  "\<exists>r. select_notes_with_consolidation SmallestFirst 1
     [new_note 100 [1] 1 [1] 0, with_auto_consolidation_eligible True (new_note 200 [2] 1 [2] 0),
      new_note 300 [3] 1 [3] 0] 50 10 = Inr r \<and> length (sel_notes r) = 2 \<and>
     value_sum (sel_notes r) = 60 + unat (sel_change r)"
proof -
  let ?ns = "[new_note 100 [1] 1 [1] 0, with_auto_consolidation_eligible True (new_note 200 [2] 1 [2] 0),
      new_note 300 [3] 1 [3] 0]"
  have sel: "select_notes_with_consolidation SmallestFirst 1 ?ns 50 10 =
      Inr \<lparr>sel_notes = take 2 ?ns, total_value = 300, sel_change = 240\<rparr>"
    by (simp add: select_notes_with_consolidation_def new_note_def checked_add_def
        finish_selection_def with_auto_consolidation_eligible_def)
  show ?thesis using sel consolidation_correct [OF sel] by auto
qed

text \<open>
  Observation. Smallest-first does not minimise change, as its comment says: with notes of
  50000 and 100000 arrrtoshis and 100000 to cover it spends both and makes 50000 change,
  while the larger note alone would leave none.
\<close>

lemma smallest_first_not_minimal_change:
  "\<exists>r. select_notes SmallestFirst [new_note 50000 [1] 1 [1] 0, new_note 100000 [2] 2 [2] 0] 90000 10000
       = Inr r \<and> sel_change r = 50000 \<and>
     (\<exists>r'. select_notes LargestFirst [new_note 50000 [1] 1 [1] 0, new_note 100000 [2] 2 [2] 0] 90000 10000
       = Inr r' \<and> sel_change r' = 0)"
  by (simp add: select_notes_def new_note_def checked_add_def finish_selection_def)

end
