(* ===== verification/Utf8.thy ===== *)
theory Utf8
  imports Prelude
begin

text \<open>
  Strings of the standard library. A Rust \<open>String\<close> is a list of Unicode scalar values (\<open>str\<close>);
  \<open>as_bytes\<close> is its UTF-8 encoding (\<open>utf8\<close>), \<open>String::from_utf8\<close> the strict decoder (no
  overlong form, no surrogate, nothing above \<open>0x10FFFF\<close>). The two are inverse to each other
  on scalar values and on accepted bytes.
\<close>

section \<open>Text and UTF-8\<close>

type_synonym str = "nat list"

definition scalar :: "nat \<Rightarrow> bool" where
  "scalar c \<longleftrightarrow> c < 0xD800 \<or> 0xE000 \<le> c \<and> c < 0x110000"

definition encode_char :: "nat \<Rightarrow> bytes" where
  "encode_char c = map of_nat
     (if c < 0x80 then [c]
      else if c < 0x800 then [0xC0 + c div 64, 0x80 + c mod 64]
      else if c < 0x10000 then [0xE0 + c div 4096, 0x80 + c div 64 mod 64, 0x80 + c mod 64]
      else [0xF0 + c div 262144, 0x80 + c div 4096 mod 64, 0x80 + c div 64 mod 64, 0x80 + c mod 64])"

definition utf8 :: "str \<Rightarrow> bytes" where
  "utf8 t = concat (map encode_char t)"

definition len_utf8 :: "nat \<Rightarrow> nat" where
  "len_utf8 c = (if c < 0x80 then 1 else if c < 0x800 then 2 else if c < 0x10000 then 3 else 4)"

text \<open>\<open>str::len\<close>.\<close>

definition str_len :: "str \<Rightarrow> nat" where
  "str_len t = length (utf8 t)"

text \<open>The payload bits of a continuation byte.\<close>

definition continuation :: "u8 \<Rightarrow> nat option" where
  "continuation b = (if 0x80 \<le> unat b \<and> unat b < 0xC0 then Some (unat b - 0x80) else None)"

fun continuations :: "nat \<Rightarrow> nat \<Rightarrow> bytes \<Rightarrow> (nat \<times> bytes) option" where
  "continuations 0 acc bs = Some (acc, bs)"
| "continuations (Suc n) acc [] = None"
| "continuations (Suc n) acc (b # bs) =
     (case continuation b of None \<Rightarrow> None | Some v \<Rightarrow> continuations n (acc * 64 + v) bs)"

definition decode_char :: "u8 \<Rightarrow> bytes \<Rightarrow> (nat \<times> bytes) option" where
  "decode_char b bs =
     (let checked = (\<lambda>n first least. case continuations n first bs of None \<Rightarrow> None
            | Some (c, rest) \<Rightarrow> if least \<le> c \<and> scalar c then Some (c, rest) else None)
      in if unat b < 0x80 then Some (unat b, bs)
         else if unat b < 0xC0 then None
         else if unat b < 0xE0 then checked 1 (unat b - 0xC0) 0x80
         else if unat b < 0xF0 then checked 2 (unat b - 0xE0) 0x800
         else if unat b < 0xF8 then checked 3 (unat b - 0xF0) 0x10000
         else None)"

lemma continuations_length: "continuations n acc bs = Some (c, rest) \<Longrightarrow> length rest \<le> length bs"
  by (induction n acc bs rule: continuations.induct) (auto split: option.splits)

lemma decode_char_length: "decode_char b bs = Some (c, rest) \<Longrightarrow> length rest \<le> length bs"
  by (auto simp: decode_char_def Let_def split: if_splits option.splits dest: continuations_length)

function from_utf8 :: "bytes \<Rightarrow> str option" where
  "from_utf8 [] = Some []"
| "from_utf8 (b # bs) =
     (case decode_char b bs of None \<Rightarrow> None | Some (c, rest) \<Rightarrow> map_option ((#) c) (from_utf8 rest))"
  by pat_completeness auto
termination
  by (relation "measure length") (auto dest!: decode_char_length)


section \<open>Decoding inverts encoding\<close>

lemma unat_of_nat_u8: "n < 256 \<Longrightarrow> unat (of_nat n :: u8) = n"
  by (simp add: unat_of_nat)

lemma unat_u8_bound: "unat (b :: u8) < 256"
  using unsigned_less [of b] by simp

lemma continuation_of_nat: "v < 64 \<Longrightarrow> continuation (of_nat (0x80 + v)) = Some v"
  by (simp add: continuation_def unat_of_nat_u8 del: of_nat_add)

lemma continuation_SomeD: "continuation b = Some v \<Longrightarrow> v < 64 \<and> b = of_nat (0x80 + v)"
  by (auto simp: continuation_def split: if_splits intro!: unat_eqI simp: unat_of_nat_u8 simp del: of_nat_add)

lemma split_base64:
  "((c div 4096) * 64 + c div 64 mod 64) * 64 + c mod 64 = c"
  "(((c div 262144) * 64 + c div 4096 mod 64) * 64 + c div 64 mod 64) * 64 + c mod 64 = c" for c :: nat
proof -
  have low: "c div 4096 * 64 + c div 64 mod 64 = c div 64"
    using div_mult2_eq [of c 64 64] by (simp add: div_mult_mod_eq)
  then show "((c div 4096) * 64 + c div 64 mod 64) * 64 + c mod 64 = c" by simp
  have "c div 262144 * 64 + c div 4096 mod 64 = c div 4096"
    using div_mult2_eq [of c 4096 64] by (simp add: div_mult_mod_eq)
  with low show "(((c div 262144) * 64 + c div 4096 mod 64) * 64 + c div 64 mod 64) * 64 + c mod 64 = c" by simp
qed

lemma decode_encode_char:
  assumes "scalar c"
  obtains b bs where "encode_char c = b # bs" "\<And>rest. decode_char b (bs @ rest) = Some (c, rest)"
proof -
  have top: "c < 0x110000" using assms by (auto simp: scalar_def)
  consider "c < 0x80" | "0x80 \<le> c" "c < 0x800" | "0x800 \<le> c" "c < 0x10000" | "0x10000 \<le> c" by linarith
  then show ?thesis
  proof cases
    case 1
    then show ?thesis using that [of "of_nat c" "[]"] by (simp add: encode_char_def decode_char_def unat_of_nat_u8)
  next
    case 2
    then have "c div 64 < 32" "2 \<le> c div 64" by auto
    with 2 assms show ?thesis
      using that [of "of_nat (0xC0 + c div 64)" "[of_nat (0x80 + c mod 64)]"]
      by (simp add: encode_char_def decode_char_def unat_of_nat_u8 continuation_of_nat numeral_2_eq_2 del: of_nat_add)
  next
    case 3
    then have "c div 4096 < 16" by auto
    with 3 assms show ?thesis
      using that [of "of_nat (0xE0 + c div 4096)" "[of_nat (0x80 + c div 64 mod 64), of_nat (0x80 + c mod 64)]"]
      by (simp add: encode_char_def decode_char_def unat_of_nat_u8 continuation_of_nat split_base64
          numeral_2_eq_2 numeral_3_eq_3 del: of_nat_add add_mult_distrib add_mult_distrib2 distrib_right_numeral)
  next
    case 4
    then have "c div 262144 < 8" using top by auto
    with 4 assms show ?thesis
      using that [of "of_nat (0xF0 + c div 262144)"
          "[of_nat (0x80 + c div 4096 mod 64), of_nat (0x80 + c div 64 mod 64), of_nat (0x80 + c mod 64)]"]
      by (simp add: encode_char_def decode_char_def unat_of_nat_u8 continuation_of_nat split_base64
          numeral_2_eq_2 numeral_3_eq_3 del: of_nat_add add_mult_distrib add_mult_distrib2 distrib_right_numeral)
  qed
qed

lemma from_utf8_append: "scalar c \<Longrightarrow> from_utf8 (encode_char c @ bs) = map_option ((#) c) (from_utf8 bs)"
  by (rule decode_encode_char [of c]) auto

lemma from_utf8_utf8: "list_all scalar t \<Longrightarrow> from_utf8 (utf8 t) = Some t"
  by (induction t) (auto simp: utf8_def from_utf8_append)

lemma continuations_SomeD:
  assumes "continuations n first bs = Some (c, rest)"
  obtains vs where "length vs = n" "list_all (\<lambda>v. v < 64) vs" "bs = map (\<lambda>v. of_nat (0x80 + v)) vs @ rest"
    "c = foldl (\<lambda>acc v. acc * 64 + v) first vs"
  using assms
proof (induction n first bs arbitrary: thesis rule: continuations.induct)
  case (3 n acc b bs)
  from 3(3) obtain v where v: "continuation b = Some v" "continuations n (acc * 64 + v) bs = Some (c, rest)"
    by (auto split: option.splits)
  from 3(1) [OF v(1) _ v(2)] obtain vs where "length vs = n" "list_all (\<lambda>v. v < 64) vs"
    "bs = map (\<lambda>v. of_nat (0x80 + v)) vs @ rest" "c = foldl (\<lambda>acc v. acc * 64 + v) (acc * 64 + v) vs"
    by blast
  with continuation_SomeD [OF v(1)] show ?case by (intro 3(2) [of "v # vs"]) auto
qed auto

lemma leading_byte: "k \<le> unat b \<Longrightarrow> of_nat (k + (unat b - k)) = (b :: u8)"
  by simp

lemma divmod_64:
  fixes a v :: nat
  assumes "v < 64"
  shows "(a * 64 + v) div 64 = a" "(a * 64 + v) mod 64 = v"
  using assms by simp_all

lemma encode_decode_char:
  assumes "decode_char b bs = Some (c, rest)"
  shows "scalar c" "encode_char c @ rest = b # bs"
proof -
  have one: "scalar c \<and> encode_char c @ rest = b # bs" if "unat b < 0x80"
    using assms that by (auto simp: decode_char_def scalar_def encode_char_def)
  have two: "scalar c \<and> encode_char c @ rest = b # bs" if r: "0xC0 \<le> unat b" "unat b < 0xE0"
  proof -
    from assms r have d: "continuations 1 (unat b - 0xC0) bs = Some (c, rest)" "0x80 \<le> c" "scalar c"
      by (auto simp: decode_char_def split: option.splits if_splits)
    from d(1) obtain vs where vs: "length vs = 1" "list_all (\<lambda>v. v < 64) vs"
      "bs = map (\<lambda>v. of_nat (0x80 + v)) vs @ rest" "c = foldl (\<lambda>acc v. acc * 64 + v) (unat b - 0xC0) vs"
      by (rule continuations_SomeD)
    then obtain v where [simp]: "vs = [v]" and v: "v < 64" by (auto simp: length_Suc_conv)
    define u where "u = unat b - 0xC0"
    have c: "c = u * 64 + v" and u: "u < 32" using vs(4) r by (simp_all add: u_def)
    have "c div 64 = u" "c mod 64 = v" "c < 0x800" using c u v by simp_all
    with d(2,3) vs(3) r show ?thesis by (simp add: encode_char_def u_def)
  qed
  have three: "scalar c \<and> encode_char c @ rest = b # bs" if r: "0xE0 \<le> unat b" "unat b < 0xF0"
  proof -
    from assms r have d: "continuations 2 (unat b - 0xE0) bs = Some (c, rest)" "0x800 \<le> c" "scalar c"
      by (auto simp: decode_char_def split: option.splits if_splits)
    from d(1) obtain vs where vs: "length vs = 2" "list_all (\<lambda>v. v < 64) vs"
      "bs = map (\<lambda>v. of_nat (0x80 + v)) vs @ rest" "c = foldl (\<lambda>acc v. acc * 64 + v) (unat b - 0xE0) vs"
      by (rule continuations_SomeD)
    then obtain v w where [simp]: "vs = [v, w]" and v: "v < 64" "w < 64" by (auto simp: numeral_2_eq_2 length_Suc_conv)
    define u where "u = unat b - 0xE0"
    have c: "c = (u * 64 + v) * 64 + w" and u: "u < 16" using vs(4) r by (simp_all add: u_def)
    have m: "c div 64 = u * 64 + v" "c mod 64 = w" unfolding c by (rule divmod_64 [OF v(2)])+
    have "c < 0x10000" using c u v by simp
    moreover
    have "c div 4096 = u" "c div 64 mod 64 = v"
      using div_mult2_eq [of c 64 64] divmod_64 [OF v(1), of u] unfolding m(1) by simp_all
    ultimately show ?thesis using m d(2,3) vs(3) r by (simp add: encode_char_def u_def)
  qed
  have four: "scalar c \<and> encode_char c @ rest = b # bs" if r: "0xF0 \<le> unat b"
  proof -
    from assms r have d: "continuations 3 (unat b - 0xF0) bs = Some (c, rest)" "0x10000 \<le> c" "scalar c"
      by (auto simp: decode_char_def split: option.splits if_splits)
    from d(1) obtain vs where vs: "length vs = 3" "list_all (\<lambda>v. v < 64) vs"
      "bs = map (\<lambda>v. of_nat (0x80 + v)) vs @ rest" "c = foldl (\<lambda>acc v. acc * 64 + v) (unat b - 0xF0) vs"
      by (rule continuations_SomeD)
    then obtain v w x where [simp]: "vs = [v, w, x]" and v: "v < 64" "w < 64" "x < 64"
      by (auto simp: numeral_3_eq_3 length_Suc_conv)
    define u where "u = unat b - 0xF0"
    have c: "c = ((u * 64 + v) * 64 + w) * 64 + x" using vs(4) by (simp add: u_def)
    have m: "c div 64 = (u * 64 + v) * 64 + w" "c mod 64 = x" unfolding c by (rule divmod_64 [OF v(3)])+
    have n: "c div 4096 = u * 64 + v" "c div 64 mod 64 = w" 
      using div_mult2_eq [of c 64 64] divmod_64 [OF v(2), of "u * 64 + v"] unfolding m(1) by simp_all
    have "c div 262144 = u" "c div 4096 mod 64 = v" 
      using div_mult2_eq [of c 4096 64] divmod_64 [OF v(1), of u] unfolding n(1) by simp_all
    with m n d(2,3) vs(3) r show ?thesis by (simp add: encode_char_def u_def)
  qed
  have "\<not> (0x80 \<le> unat b \<and> unat b < 0xC0)" using assms by (auto simp: decode_char_def)
  then have "scalar c \<and> encode_char c @ rest = b # bs" using one two three four by linarith
  then show "scalar c" "encode_char c @ rest = b # bs" by simp_all
qed

lemma utf8_from_utf8: "from_utf8 bs = Some t \<Longrightarrow> list_all scalar t \<and> utf8 t = bs"
proof (induction bs arbitrary: t rule: from_utf8.induct)
  case (2 b bs)
  then obtain c rest t' where "decode_char b bs = Some (c, rest)" "from_utf8 rest = Some t'" "t = c # t'"
    by (auto split: option.splits)
  with 2 encode_decode_char [OF this(1)] show ?case by (auto simp: utf8_def)
qed (simp add: utf8_def)

lemma length_encode_char: "length (encode_char c) = len_utf8 c"
  by (simp add: encode_char_def len_utf8_def)

lemma str_len_simps [simp]: "str_len [] = 0" "str_len (c # cs) = len_utf8 c + str_len cs"
  by (simp_all add: str_len_def utf8_def length_encode_char)

lemma str_len_append [simp]: "str_len (s @ t) = str_len s + str_len t"
  by (induction s) simp_all

lemma len_utf8_pos: "0 < len_utf8 c"
  by (simp add: len_utf8_def)

lemma str_len_eq_0 [simp]: "str_len t = 0 \<longleftrightarrow> t = []"
  using len_utf8_pos by (cases t) auto

lemma str_len_filter: "str_len (filter P t) \<le> str_len t"
  by (induction t) auto

end
