(* ===== verification/Memo.thy ===== *)
theory Memo
  imports Errors Utf8
begin

text \<open>
  Memos of shielded outputs (\<open>pirate-core/src/memo.rs\<close>): validation of text, truncation,
  the padded 512-byte encoding and its decoding.

  Strings and their UTF-8 encoding come from \<open>Utf8\<close>. \<open>MemoBytes\<close> of \<open>zcash_protocol\<close> is an
  argument of \<open>to_memo_bytes\<close>.
\<close>

section \<open>Memos\<close>

definition MAX_MEMO_LENGTH :: nat where "MAX_MEMO_LENGTH = 512"
definition MEMO_WARNING_LENGTH :: nat where "MEMO_WARNING_LENGTH = 400"

datatype memo = MemoEmpty | MemoText str | MemoArbitrary bytes

definition trim_padding :: "bytes \<Rightarrow> bytes" where
  "trim_padding bs = take (case rposition (\<lambda>b. b \<noteq> 0) bs of None \<Rightarrow> 0 | Some idx \<Rightarrow> idx + 1) bs"

text \<open>\<open>char::is_control\<close>: the Unicode category Cc.\<close>

definition is_control :: "nat \<Rightarrow> bool" where
  "is_control c \<longleftrightarrow> c < 0x20 \<or> 0x7F \<le> c \<and> c < 0xA0"

text \<open>The predicate of \<open>is_valid_memo_text\<close> and of the filter: newline, tab and return, or no control.\<close>

definition memo_char :: "nat \<Rightarrow> bool" where
  "memo_char c \<longleftrightarrow> c = 10 \<or> c = 9 \<or> c = 13 \<or> \<not> is_control c"

definition is_valid_memo_text :: "str \<Rightarrow> bool" where
  "is_valid_memo_text t = list_all memo_char t"

definition from_text :: "str \<Rightarrow> core_error + memo" where
  "from_text t =
     (if t = [] then Inr MemoEmpty
      else if \<not> is_valid_memo_text t
      then Inl (InvalidMemo (Msg ''Memo contains invalid characters (control characters not allowed)'' []))
      else if MAX_MEMO_LENGTH < str_len t
      then Inl (MemoTooLong (Msg ''Memo is {} bytes, maximum is {} bytes'' [int (str_len t), int MAX_MEMO_LENGTH]))
      else Inr (MemoText t))"

text \<open>The loop of \<open>truncate_to_bytes\<close>; the second argument is the byte length of the result so far.\<close>

fun truncate_loop :: "nat \<Rightarrow> nat \<Rightarrow> str \<Rightarrow> str" where
  "truncate_loop max_bytes len [] = []"
| "truncate_loop max_bytes len (c # cs) =
     (if max_bytes < len + len_utf8 c then [] else c # truncate_loop max_bytes (len + len_utf8 c) cs)"

definition truncate_to_bytes :: "str \<Rightarrow> nat \<Rightarrow> str" where
  "truncate_to_bytes s max_bytes = (if str_len s \<le> max_bytes then s else truncate_loop max_bytes 0 s)"

definition from_text_truncated :: "str \<Rightarrow> memo" where
  "from_text_truncated t =
     (if t = [] then MemoEmpty
      else let truncated = truncate_to_bytes t MAX_MEMO_LENGTH;
               filtered = filter memo_char truncated
           in if filtered = [] then MemoEmpty else MemoText filtered)"

fun byte_len :: "memo \<Rightarrow> nat" where
  "byte_len MemoEmpty = 0"
| "byte_len (MemoText t) = str_len t"
| "byte_len (MemoArbitrary bs) = length bs"

text \<open>\<open>saturating_sub\<close> on \<open>usize\<close> is subtraction on the natural numbers.\<close>

definition remaining_bytes :: "memo \<Rightarrow> nat" where
  "remaining_bytes m = MAX_MEMO_LENGTH - byte_len m"

definition is_near_limit :: "memo \<Rightarrow> bool" where
  "is_near_limit m \<longleftrightarrow> MEMO_WARNING_LENGTH < byte_len m"

definition memo_from_bytes :: "bytes \<Rightarrow> core_error + memo" where
  "memo_from_bytes bs =
     (if bs = [] then Inr MemoEmpty
      else if MAX_MEMO_LENGTH < length bs
      then Inl (MemoTooLong (Msg ''Memo length {} exceeds maximum {}'' [int (length bs), int MAX_MEMO_LENGTH]))
      else Inr (MemoArbitrary bs))"

fun memo_content :: "memo \<Rightarrow> bytes" where
  "memo_content MemoEmpty = []"
| "memo_content (MemoText t) = utf8 t"
| "memo_content (MemoArbitrary bs) = bs"

text \<open>\<open>Vec::resize\<close>: cut or pad with zeros.\<close>

definition resize_bytes :: "nat \<Rightarrow> bytes \<Rightarrow> bytes" where
  "resize_bytes n bs = take n bs @ replicate (n - length bs) 0"

definition encode_memo :: "memo \<Rightarrow> bytes" where
  "encode_memo m = resize_bytes MAX_MEMO_LENGTH (memo_content m)"

definition decode_memo :: "bytes \<Rightarrow> core_error + memo" where
  "decode_memo bs =
     (if length bs \<noteq> MAX_MEMO_LENGTH
      then Inl (InvalidMemo (Msg ''Memo must be exactly {} bytes'' [int MAX_MEMO_LENGTH]))
      else let data = trim_padding bs
           in if data = [] then Inr MemoEmpty
              else case from_utf8 data of
                Some t \<Rightarrow> if is_valid_memo_text t then Inr (MemoText t) else Inr (MemoArbitrary data)
              | None \<Rightarrow> Inr (MemoArbitrary data))"

definition decode_display_text :: "bytes \<Rightarrow> str option" where
  "decode_display_text bs =
     (let data = (if MAX_MEMO_LENGTH < length bs then take MAX_MEMO_LENGTH bs else bs);
          trimmed = trim_padding data
      in if trimmed = [] then None
         else case from_utf8 trimmed of
           None \<Rightarrow> None
         | Some t \<Rightarrow> if is_valid_memo_text t then Some t else None)"

definition memo_is_empty :: "memo \<Rightarrow> bool" where
  "memo_is_empty m \<longleftrightarrow> m = MemoEmpty"

fun as_str :: "memo \<Rightarrow> str option" where
  "as_str (MemoText t) = Some t"
| "as_str _ = None"

definition validate_memo :: "memo \<Rightarrow> core_error + unit" where
  "validate_memo m =
     (if MAX_MEMO_LENGTH < byte_len m
      then Inl (MemoTooLong (Msg ''Memo length {} exceeds maximum {}'' [int (byte_len m), int MAX_MEMO_LENGTH]))
      else Inr ())"

text \<open>\<open>MemoBytes::empty\<close> and \<open>MemoBytes::from_bytes\<close> are the first two arguments.\<close>

definition to_memo_bytes :: "'mb \<Rightarrow> (bytes \<Rightarrow> 'e + 'mb) \<Rightarrow> memo \<Rightarrow> core_error + 'mb" where
  "to_memo_bytes empty_bytes memo_bytes_from m =
     (case m of
        MemoEmpty \<Rightarrow> Inr empty_bytes
      | MemoText t \<Rightarrow> (case memo_bytes_from (utf8 t) of
            Inl _ \<Rightarrow> Inl (InvalidMemo (Msg ''Invalid memo: {:?}'' [])) | Inr b \<Rightarrow> Inr b)
      | MemoArbitrary bs \<Rightarrow> (case memo_bytes_from bs of
            Inl _ \<Rightarrow> Inl (InvalidMemo (Msg ''Invalid memo bytes: {:?}'' [])) | Inr b \<Rightarrow> Inr b))"

text \<open>The two \<open>From\<close> conversions: a text that is refused becomes the empty memo.\<close>

definition memo_of_text :: "str \<Rightarrow> memo" where
  "memo_of_text t = (case from_text t of Inl _ \<Rightarrow> MemoEmpty | Inr m \<Rightarrow> m)"

section \<open>Padding\<close>

lemma trim_padding_empty_iff: "trim_padding bs = [] \<longleftrightarrow> (\<forall>b \<in> set bs. b = 0)"
proof (cases "rposition (\<lambda>b. b \<noteq> 0) bs")
  case None
  then show ?thesis using rposition_None_iff [of "\<lambda>b. b \<noteq> 0" bs] by (simp add: trim_padding_def)
next
  case (Some i)
  with rposition_SomeD [OF Some] show ?thesis by (auto simp: trim_padding_def dest: nth_mem)
qed

lemma trim_padding_pad: "trim_padding bs @ replicate (length bs - length (trim_padding bs)) 0 = bs"
proof (cases "rposition (\<lambda>b. b \<noteq> 0) bs")
  case None
  then have "\<forall>b \<in> set bs. b = 0" using rposition_None_iff [of "\<lambda>b. b \<noteq> 0" bs] by simp
  then have "trim_padding bs = []" "\<forall>b \<in> set bs. b = 0" by (simp_all add: trim_padding_empty_iff)
  then show ?thesis by (simp add: replicate_length_same)
next
  case (Some i)
  note i = rposition_SomeD [OF Some]
  have trim: "trim_padding bs = take (Suc i) bs" using Some by (simp add: trim_padding_def)
  have "drop (Suc i) bs = replicate (length bs - Suc i) 0"
    using i by (intro nth_equalityI) auto
  moreover have "length (take (Suc i) bs) = Suc i" using i by simp
  ultimately show ?thesis unfolding trim by (metis append_take_drop_id)
qed

lemma trim_padding_append_zeros:
  assumes "bs = [] \<or> last bs \<noteq> 0"
  shows "trim_padding (bs @ replicate n 0) = bs"
proof (cases "rposition (\<lambda>b. b \<noteq> 0) (bs @ replicate n 0)")
  case None
  with assms have "bs = []" by (auto simp: rposition_None_iff)
  then show ?thesis by (simp add: trim_padding_empty_iff)
next
  case (Some i)
  let ?zs = "bs @ replicate n 0"
  note i = rposition_SomeD [OF Some]
  have "i < length bs" using i by (cases "i < length bs") (auto simp: nth_append)
  moreover have "\<not> i < length bs - 1"
  proof
    assume "i < length bs - 1"
    then have "?zs ! (length bs - 1) = 0" using i by auto
    then have "last bs = 0" using \<open>i < length bs - 1\<close> by (cases bs) (auto simp: nth_append last_conv_nth)
    with assms \<open>i < length bs\<close> show False by auto
  qed
  ultimately have "Suc i = length bs" by linarith
  with Some show ?thesis by (simp add: trim_padding_def)
qed

lemma length_encode_memo [simp]: "length (encode_memo m) = MAX_MEMO_LENGTH"
  by (simp add: encode_memo_def resize_bytes_def)

lemma encode_memo_small:
  "length (memo_content m) \<le> MAX_MEMO_LENGTH \<Longrightarrow>
     encode_memo m = memo_content m @ replicate (MAX_MEMO_LENGTH - length (memo_content m)) 0"
  by (simp add: encode_memo_def resize_bytes_def)

section \<open>Well-formed memos\<close>

text \<open>What every constructor of the module guarantees of a memo.\<close>

fun memo_wf :: "memo \<Rightarrow> bool" where
  "memo_wf MemoEmpty = True"
| "memo_wf (MemoText t) \<longleftrightarrow> t \<noteq> [] \<and> list_all scalar t \<and> list_all memo_char t \<and> str_len t \<le> MAX_MEMO_LENGTH"
| "memo_wf (MemoArbitrary bs) \<longleftrightarrow> bs \<noteq> [] \<and> length bs \<le> MAX_MEMO_LENGTH"

lemma last_encode_char:
  assumes "scalar c" "memo_char c"
  shows "last (encode_char c) \<noteq> 0"
proof -
  have "c \<noteq> 0" using assms(2) by (auto simp: memo_char_def is_control_def)
  then have "0 < unat (last (encode_char c))"
    by (auto simp: encode_char_def unat_of_nat_u8 simp del: of_nat_add)
  then show ?thesis by auto
qed

lemma utf8_last:
  assumes "list_all scalar t" "list_all memo_char t" "t \<noteq> []"
  shows "last (utf8 t) \<noteq> 0"
proof -
  obtain t' c where t: "t = t' @ [c]" using assms(3) by (meson rev_exhaust)
  have "encode_char c \<noteq> []" by (simp add: encode_char_def)
  then have "last (utf8 t) = last (encode_char c)" by (simp add: t utf8_def)
  with last_encode_char [of c] assms(1,2) show ?thesis by (simp add: t)
qed

lemma decode_encode_text: "memo_wf (MemoText t) \<Longrightarrow> decode_memo (encode_memo (MemoText t)) = Inr (MemoText t)"
  using utf8_last [of t] encode_memo_small [of "MemoText t"] from_utf8_utf8 [of t] str_len_eq_0 [of t]
  by (auto simp: decode_memo_def str_len_def trim_padding_append_zeros is_valid_memo_text_def)

lemma decode_memo_Inr:
  assumes "length bs = MAX_MEMO_LENGTH"
  obtains m where "decode_memo bs = Inr m" "encode_memo m = bs" "memo_wf m"
proof -
  let ?d = "trim_padding bs"
  have len: "length ?d \<le> MAX_MEMO_LENGTH" using assms by (simp add: trim_padding_def min_def)
  have enc: "encode_memo m = bs" if "memo_content m = ?d" for m
    using that len trim_padding_pad [of bs] assms by (simp add: encode_memo_small)
  show ?thesis
  proof (cases "\<exists>t. ?d \<noteq> [] \<and> from_utf8 ?d = Some t \<and> is_valid_memo_text t")
    case True
    then obtain t where t: "?d \<noteq> []" "from_utf8 ?d = Some t" "is_valid_memo_text t" by blast
    note u = utf8_from_utf8 [OF t(2)]
    have "memo_wf (MemoText t)"
      using u t len by (auto simp: is_valid_memo_text_def str_len_def utf8_def)
    with t u assms show ?thesis
      by (intro that [of "MemoText t"] enc) (auto simp: decode_memo_def)
  next
    case False
    then have "decode_memo bs = Inr (if ?d = [] then MemoEmpty else MemoArbitrary ?d)"
      using assms by (auto simp: decode_memo_def Let_def split: option.splits)
    then show ?thesis by (rule that) (use len in \<open>auto intro!: enc\<close>)
  qed
qed

lemma decode_memo_cases: "decode_memo bs = Inr m \<longleftrightarrow> length bs = MAX_MEMO_LENGTH \<and> projr (decode_memo bs) = m"
  by (cases "length bs = MAX_MEMO_LENGTH") (auto simp: decode_memo_def elim!: decode_memo_Inr [of bs])

lemma from_text_Inr_iff:
  "from_text t = Inr m \<longleftrightarrow> m = (if t = [] then MemoEmpty else MemoText t) \<and>
     list_all memo_char t \<and> str_len t \<le> MAX_MEMO_LENGTH"
  by (auto simp: from_text_def is_valid_memo_text_def)

lemma truncate_loop_take:
  "len \<le> max_bytes \<Longrightarrow> \<exists>n \<le> length t. truncate_loop max_bytes len t = take n t \<and> len + str_len (take n t) \<le> max_bytes \<and>
     (n < length t \<longrightarrow> max_bytes < len + str_len (take (Suc n) t))"
proof (induction t arbitrary: len)
  case (Cons c cs)
  show ?case
  proof (cases "max_bytes < len + len_utf8 c")
    case True
    with Cons.prems show ?thesis by (intro exI [of _ 0]) simp
  next
    case False
    with Cons.IH [of "len + len_utf8 c"] obtain n where "n \<le> length cs"
      "truncate_loop max_bytes (len + len_utf8 c) cs = take n cs" "len + len_utf8 c + str_len (take n cs) \<le> max_bytes"
      "n < length cs \<longrightarrow> max_bytes < len + len_utf8 c + str_len (take (Suc n) cs)"
      by auto
    with False show ?thesis by (intro exI [of _ "Suc n"]) (simp add: add.assoc)
  qed
qed simp

lemma truncate_to_bytes_take:
  "\<exists>n \<le> length t. truncate_to_bytes t max_bytes = take n t \<and> str_len (take n t) \<le> max_bytes \<and>
     (n < length t \<longrightarrow> max_bytes < str_len (take (Suc n) t))"
  using truncate_loop_take [of 0 max_bytes t] by (auto simp: truncate_to_bytes_def)

lemma from_text_truncated_def2:
  "from_text_truncated t = (let u = filter memo_char (truncate_to_bytes t MAX_MEMO_LENGTH)
     in if u = [] then MemoEmpty else MemoText u)"
  by (auto simp: from_text_truncated_def truncate_to_bytes_def Let_def)

lemma from_text_truncated_wf: "list_all scalar t \<Longrightarrow> memo_wf (from_text_truncated t)"
proof -
  assume scalar: "list_all scalar t"
  obtain n where n: "truncate_to_bytes t MAX_MEMO_LENGTH = take n t" "str_len (take n t) \<le> MAX_MEMO_LENGTH"
    using truncate_to_bytes_take by blast
  have "str_len (filter memo_char (take n t)) \<le> MAX_MEMO_LENGTH" using n(2) str_len_filter le_trans by blast
  with scalar n(1) show ?thesis
    by (auto simp: from_text_truncated_def2 Let_def list_all_iff dest: in_set_takeD)
qed

section \<open>Properties\<close>

text \<open>
  Property C30. The 512-byte memo field is lossless in both directions: a memo made from a text
  decodes from its padded encoding to itself, and every field of 512 bytes decodes to a memo
  whose encoding is that field again; a field of any other length is refused.
\<close>

theorem memo_roundtrip:
  assumes "list_all scalar t"
  shows "(from_text t = Inr m \<longrightarrow> decode_memo (encode_memo m) = Inr m) \<and>
     (length bs = MAX_MEMO_LENGTH \<longrightarrow> (\<exists>m'. decode_memo bs = Inr m' \<and> encode_memo m' = bs \<and> memo_wf m')) \<and>
     (length bs \<noteq> MAX_MEMO_LENGTH \<longrightarrow> decode_memo bs = Inl (InvalidMemo (Msg ''Memo must be exactly {} bytes'' [512])))"
proof (intro conjI impI)
  show "decode_memo (encode_memo m) = Inr m" if "from_text t = Inr m"
  proof (cases "t = []")
    case True
    with that show ?thesis
      by (auto simp: from_text_def decode_memo_def encode_memo_def resize_bytes_def trim_padding_empty_iff)
  next
    case False
    with that assms have "m = MemoText t" "memo_wf m" by (auto simp: from_text_Inr_iff)
    then show ?thesis using decode_encode_text by simp
  qed
qed (auto simp: decode_memo_def MAX_MEMO_LENGTH_def elim: decode_memo_Inr [unfolded MAX_MEMO_LENGTH_def])

theorem memo_roundtrip_witness:
  "from_text [0x48, 0xE9, 0x1F3F4] = Inr (MemoText [0x48, 0xE9, 0x1F3F4]) \<and>
   decode_memo (encode_memo (MemoText [0x48, 0xE9, 0x1F3F4])) = Inr (MemoText [0x48, 0xE9, 0x1F3F4])"
proof -
  have t: "list_all scalar [0x48, 0xE9, 0x1F3F4]" by (simp add: scalar_def)
  have f: "from_text [0x48, 0xE9, 0x1F3F4] = Inr (MemoText [0x48, 0xE9, 0x1F3F4])"
    by (simp add: from_text_def is_valid_memo_text_def memo_char_def is_control_def len_utf8_def MAX_MEMO_LENGTH_def)
  with memo_roundtrip [OF t, of "MemoText [0x48, 0xE9, 0x1F3F4]" "[]"] show ?thesis by simp
qed



text \<open>
  Observation. Refusal of a text memo is exact: a control character is reported first, then a
  length above 512 bytes, and nothing else is refused. The truncating constructor keeps the
  longest prefix that fits and drops its control characters; it agrees with \<open>from_text\<close>
  wherever that accepts.
\<close>

lemma memo_text_errors:
  "(from_text t = Inl e \<longleftrightarrow>
      (\<not> list_all memo_char t \<and>
         e = InvalidMemo (Msg ''Memo contains invalid characters (control characters not allowed)'' [])) \<or>
      (list_all memo_char t \<and> MAX_MEMO_LENGTH < str_len t \<and>
         e = MemoTooLong (Msg ''Memo is {} bytes, maximum is {} bytes'' [int (str_len t), int MAX_MEMO_LENGTH]))) \<and>
   (\<exists>n \<le> length t. memo_content (from_text_truncated t) = utf8 (filter memo_char (take n t)) \<and>
      str_len (take n t) \<le> MAX_MEMO_LENGTH \<and> (n = length t \<or> MAX_MEMO_LENGTH < str_len (take (Suc n) t))) \<and>
   (case from_text t of Inl _ \<Rightarrow> memo_of_text t = MemoEmpty | Inr m \<Rightarrow> from_text_truncated t = m \<and> memo_of_text t = m)"
proof (intro conjI)
  show "from_text t = Inl e \<longleftrightarrow>
      (\<not> list_all memo_char t \<and>
         e = InvalidMemo (Msg ''Memo contains invalid characters (control characters not allowed)'' [])) \<or>
      (list_all memo_char t \<and> MAX_MEMO_LENGTH < str_len t \<and>
         e = MemoTooLong (Msg ''Memo is {} bytes, maximum is {} bytes'' [int (str_len t), int MAX_MEMO_LENGTH]))"
    by (auto simp: from_text_def is_valid_memo_text_def)
  obtain n where n: "n \<le> length t" "truncate_to_bytes t MAX_MEMO_LENGTH = take n t" "str_len (take n t) \<le> MAX_MEMO_LENGTH"
      "n < length t \<longrightarrow> MAX_MEMO_LENGTH < str_len (take (Suc n) t)"
    using truncate_to_bytes_take by blast
  then show "\<exists>n \<le> length t. memo_content (from_text_truncated t) = utf8 (filter memo_char (take n t)) \<and>
      str_len (take n t) \<le> MAX_MEMO_LENGTH \<and> (n = length t \<or> MAX_MEMO_LENGTH < str_len (take (Suc n) t))"
    by (intro exI [of _ n]) (auto simp: from_text_truncated_def2 Let_def utf8_def)
  show "case from_text t of Inl _ \<Rightarrow> memo_of_text t = MemoEmpty | Inr m \<Rightarrow> from_text_truncated t = m \<and> memo_of_text t = m"
  proof (cases "from_text t")
    case (Inr m)
    then have "list_all memo_char t" "str_len t \<le> MAX_MEMO_LENGTH" "m = (if t = [] then MemoEmpty else MemoText t)"
      by (simp_all add: from_text_Inr_iff)
    then show ?thesis
      by (simp add: Inr memo_of_text_def from_text_truncated_def2 truncate_to_bytes_def filter_id_conv list_all_iff)
  qed (simp add: memo_of_text_def)
qed

lemma decode_display_text_decode:
  "length bs = MAX_MEMO_LENGTH \<Longrightarrow> decode_memo bs = Inr m \<Longrightarrow> decode_display_text bs = as_str m"
  by (auto simp: decode_display_text_def decode_memo_def Let_def split: if_splits option.splits)

end
