(* ===== verification/Params.thy ===== *)
theory Params
  imports Errors
begin

text \<open>
  The crate \<open>pirate-params\<close> (\<open>network.rs\<close>, \<open>consensus.rs\<close>, \<open>checkpoints.rs\<close>) and the change
  policy of \<open>pirate-core\<close> (\<open>change_policy.rs\<close>): network schedules, the Ironwood activation
  rule, the subsidy schedule and the hard-coded checkpoint list. Lemmas: the subsidy is the
  initial subsidy divided by a power of two, the whole issuance stays below \<open>max_money\<close>,
  a checkpoint lookup returns the highest checkpoint at or below a height, and activation
  never switches off again as the height grows.
\<close>

section \<open>Networks (network.rs)\<close>

datatype network_type = Mainnet | Testnet | Regtest

record network =
  network_type :: network_type
  net_name :: string
  coin_type :: u32
  rpc_port :: u16
  p2p_port :: u16
  sapling_activation_height :: u32
  overwinter_activation_height :: u32
  ironwood_activation_height :: "u32 option"
  ironwood_activation_timestamp :: "u32 option"
  ironwood_activation_delay :: u32
  default_birthday_height :: u32

definition TESTNET_SAPLING_ACTIVATION_HEIGHT :: u32 where
  "TESTNET_SAPLING_ACTIVATION_HEIGHT = 61"

definition TESTNET_IRONWOOD_ACTIVATION_HEIGHT :: u32 where
  "TESTNET_IRONWOOD_ACTIVATION_HEIGHT = 297"

definition MAINNET_IRONWOOD_ACTIVATION_TIMESTAMP :: u32 where
  "MAINNET_IRONWOOD_ACTIVATION_TIMESTAMP = 1791054000"

definition MAINNET_IRONWOOD_ACTIVATION_DELAY :: u32 where
  "MAINNET_IRONWOOD_ACTIVATION_DELAY = 60"

definition mainnet :: network where
  "mainnet = \<lparr>network_type = Mainnet, net_name = ''mainnet'', coin_type = 141,
     rpc_port = 45452, p2p_port = 45451,
     sapling_activation_height = 152855, overwinter_activation_height = 152855,
     ironwood_activation_height = None,
     ironwood_activation_timestamp = Some MAINNET_IRONWOOD_ACTIVATION_TIMESTAMP,
     ironwood_activation_delay = MAINNET_IRONWOOD_ACTIVATION_DELAY,
     default_birthday_height = 3750000\<rparr>"

definition testnet :: network where
  "testnet = \<lparr>network_type = Testnet, net_name = ''testnet'', coin_type = 1,
     rpc_port = 45462, p2p_port = 45461,
     sapling_activation_height = TESTNET_SAPLING_ACTIVATION_HEIGHT,
     overwinter_activation_height = TESTNET_SAPLING_ACTIVATION_HEIGHT,
     ironwood_activation_height = Some TESTNET_IRONWOOD_ACTIVATION_HEIGHT,
     ironwood_activation_timestamp = None, ironwood_activation_delay = 0,
     default_birthday_height = TESTNET_SAPLING_ACTIVATION_HEIGHT\<rparr>"

definition regtest :: network where
  "regtest = \<lparr>network_type = Regtest, net_name = ''regtest'', coin_type = 1,
     rpc_port = 18344, p2p_port = 18445,
     sapling_activation_height = 100, overwinter_activation_height = 50,
     ironwood_activation_height = Some 200,
     ironwood_activation_timestamp = None, ironwood_activation_delay = 0,
     default_birthday_height = 1\<rparr>"

fun from_type :: "network_type \<Rightarrow> network" where
  "from_type Mainnet = mainnet"
| "from_type Testnet = testnet"
| "from_type Regtest = regtest"

definition is_sapling_active :: "network \<Rightarrow> u32 \<Rightarrow> bool" where
  "is_sapling_active net height \<longleftrightarrow> sapling_activation_height net \<le> height"

definition is_ironwood_active_with_resolved_height :: "network \<Rightarrow> u32 \<Rightarrow> u32 option \<Rightarrow> bool" where
  "is_ironwood_active_with_resolved_height net height resolved =
     (let activation_height =
        (case ironwood_activation_height net of Some h \<Rightarrow> Some h | None \<Rightarrow> resolved)
      in case activation_height of Some h \<Rightarrow> h \<le> height | None \<Rightarrow> False)"

definition is_ironwood_active :: "network \<Rightarrow> u32 \<Rightarrow> bool" where
  "is_ironwood_active net height = is_ironwood_active_with_resolved_height net height None"

definition derive_ironwood_activation_height ::
    "network \<Rightarrow> u32 \<Rightarrow> u32 \<Rightarrow> u32 \<Rightarrow> u32 option" where
  "derive_ironwood_activation_height net previous_time current_height current_time =
     (case ironwood_activation_timestamp net of
        Some timestamp \<Rightarrow>
          if previous_time \<le> timestamp \<and> timestamp < current_time
          then checked_add current_height (ironwood_activation_delay net)
          else None
      | None \<Rightarrow> None)"

section \<open>Consensus parameters (consensus.rs)\<close>

record consensus_params =
  cp_network :: network
  block_time_target :: u32
  coinbase_maturity :: u32
  max_money :: u64
  founders_reward_percent :: u8
  subsidy_halving_interval :: u32

definition consensus_mainnet :: consensus_params where
  "consensus_mainnet = \<lparr>cp_network = mainnet, block_time_target = 60, coinbase_maturity = 100,
     max_money = 200000000 * 100000000, founders_reward_percent = 0,
     subsidy_halving_interval = 388885\<rparr>"

definition consensus_testnet :: consensus_params where
  "consensus_testnet = \<lparr>cp_network = testnet, block_time_target = 60, coinbase_maturity = 100,
     max_money = 200000000 * 100000000, founders_reward_percent = 0,
     subsidy_halving_interval = 388885\<rparr>"

definition consensus_regtest :: consensus_params where
  "consensus_regtest = \<lparr>cp_network = regtest, block_time_target = 1, coinbase_maturity = 10,
     max_money = 200000000 * 100000000, founders_reward_percent = 0,
     subsidy_halving_interval = 150\<rparr>"

fun from_network :: "network_type \<Rightarrow> consensus_params" where
  "from_network Mainnet = consensus_mainnet"
| "from_network Testnet = consensus_testnet"
| "from_network Regtest = consensus_regtest"

text \<open>The loop \<open>for _ in 0..halvings\<close> that halves the subsidy.\<close>

primrec halve_times :: "nat \<Rightarrow> u64 \<Rightarrow> u64" where
  "halve_times 0 subsidy = subsidy"
| "halve_times (Suc n) subsidy = halve_times n (subsidy div 2)"

text \<open>\<open>None\<close> is the division-by-zero panic of a zero halving interval.\<close>

definition block_subsidy :: "consensus_params \<Rightarrow> u32 \<Rightarrow> u64 option" where
  "block_subsidy p height =
     (if subsidy_halving_interval p = 0 then None
      else Some (halve_times (unat (height div subsidy_halving_interval p)) (256 * 100000000)))"

definition is_valid_amount :: "consensus_params \<Rightarrow> u64 \<Rightarrow> bool" where
  "is_valid_amount p amount \<longleftrightarrow> amount \<le> max_money p"

section \<open>Checkpoints (checkpoints.rs)\<close>

record checkpoint =
  cp_height :: u32
  cp_hash :: string
  cp_timestamp :: u64
  cp_sapling_tree_size :: u32

datatype params_error = CheckpointNotFound u32

text \<open>\<open>CheckpointList::new\<close> sorts by height (\<open>sort_by_key\<close> is a stable sort).\<close>

definition checkpoint_list :: "checkpoint list \<Rightarrow> checkpoint list" where
  "checkpoint_list cps = sort_key cp_height cps"

definition mainnet_checkpoints :: "checkpoint list" where
  "mainnet_checkpoints = checkpoint_list
     [\<lparr>cp_height = 152855,
        cp_hash = ''0000000342920d7a94e5eaa6cc37a8ae0595de131e1a4c071abbd8f7c6b32f3e'',
        cp_timestamp = 1558542803, cp_sapling_tree_size = 0\<rparr>,
      \<lparr>cp_height = 1000000,
        cp_hash = ''00000000e1c0c526d7e12e2e2c080b89c3f0e9b12af4d8f8a8f8a8f8a8f8a8f8'',
        cp_timestamp = 1609459200, cp_sapling_tree_size = 500000\<rparr>,
      \<lparr>cp_height = 2000000,
        cp_hash = ''00000000a8f8a8f8a8f8a8f8a8f8a8f8a8f8a8f8a8f8a8f8a8f8a8f8a8f8a8f8'',
        cp_timestamp = 1640995200, cp_sapling_tree_size = 1500000\<rparr>,
      \<lparr>cp_height = 3000000,
        cp_hash = ''00000000b8f8a8f8a8f8a8f8a8f8a8f8a8f8a8f8a8f8a8f8a8f8a8f8a8f8a8f8'',
        cp_timestamp = 1672531200, cp_sapling_tree_size = 2800000\<rparr>,
      \<lparr>cp_height = 3800000,
        cp_hash = ''00000000c8f8a8f8a8f8a8f8a8f8a8f8a8f8a8f8a8f8a8f8a8f8a8f8a8f8a8f8'',
        cp_timestamp = 1704067200, cp_sapling_tree_size = 3900000\<rparr>]"

definition testnet_checkpoints :: "checkpoint list" where
  "testnet_checkpoints = checkpoint_list
     [\<lparr>cp_height = 1,
        cp_hash = ''0000000000000000000000000000000000000000000000000000000000000000'',
        cp_timestamp = 1296688602, cp_sapling_tree_size = 0\<rparr>]"

definition checkpoint_at_height :: "checkpoint list \<Rightarrow> u32 \<Rightarrow> params_error + checkpoint" where
  "checkpoint_at_height cps height =
     ok_or (find (\<lambda>cp. cp_height cp \<le> height) (rev cps)) (CheckpointNotFound height)"

definition latest_checkpoint :: "checkpoint list \<Rightarrow> checkpoint option" where
  "latest_checkpoint cps = (if cps = [] then None else Some (last cps))"

section \<open>Change policy (change_policy.rs)\<close>

definition sapling_internal_change_active_with_resolved_height ::
    "network_type \<Rightarrow> u64 \<Rightarrow> u32 option \<Rightarrow> bool" where
  "sapling_internal_change_active_with_resolved_height nt target_height resolved =
     (let net = from_type nt in
      case u32_try_from target_height of
        Some height \<Rightarrow> is_ironwood_active_with_resolved_height net height resolved
      | None \<Rightarrow>
          (case ironwood_activation_height net of
             Some h \<Rightarrow> True
           | None \<Rightarrow> resolved \<noteq> None))"

definition sapling_internal_change_active :: "network_type \<Rightarrow> u64 \<Rightarrow> bool" where
  "sapling_internal_change_active nt target_height =
     sapling_internal_change_active_with_resolved_height nt target_height None"

lemmas network_defs = mainnet_def testnet_def regtest_def
  TESTNET_SAPLING_ACTIVATION_HEIGHT_def TESTNET_IRONWOOD_ACTIVATION_HEIGHT_def
  MAINNET_IRONWOOD_ACTIVATION_TIMESTAMP_def MAINNET_IRONWOOD_ACTIVATION_DELAY_def

lemmas consensus_defs = consensus_mainnet_def consensus_testnet_def consensus_regtest_def

section \<open>The subsidy schedule\<close>

lemma unat_halve_times: "unat (halve_times n s) = unat s div 2 ^ n"
  by (induction n arbitrary: s) (simp_all add: unat_div_distrib div_mult2_eq)

lemma unat_block_subsidy:
  assumes "subsidy_halving_interval p \<noteq> 0"
  shows "unat (the (block_subsidy p h)) =
    25600000000 div 2 ^ (unat h div unat (subsidy_halving_interval p))"
  using assms by (simp add: block_subsidy_def unat_halve_times unat_div_distrib)

lemma sum_halvings_le: "(\<Sum>j<k. s div 2 ^ j) + 2 * (s div 2 ^ k) \<le> 2 * (s::nat)"
proof (induction k)
  case (Suc k)
  have "2 * (s div 2 ^ Suc k) \<le> s div 2 ^ k"
    by (simp add: power_Suc2 div_mult2_eq del: power_Suc)
  with Suc show ?case by simp
qed simp

lemma sum_div_blocks:
  assumes "n \<le> k * i" and "0 < i"
  shows "(\<Sum>h<n. g (h div i)) \<le> i * (\<Sum>j<k. g j :: nat)"
proof -
  have "(\<Sum>h<n. g (h div i)) \<le> (\<Sum>h<k * i. g (h div i))"
    using assms by (intro sum_mono2) auto
  also have "\<dots> = (\<Sum>m<k. \<Sum>h = m * i..<m * i + i. g (h div i))"
    by (rule sum.nat_group [symmetric])
  also have "\<dots> = (\<Sum>m<k. \<Sum>h = m * i..<m * i + i. g m)"
    by (intro sum.cong refl arg_cong [where f = g]) (auto simp: mult.commute intro!: div_nat_eqI)
  finally show ?thesis by (simp add: sum_distrib_left)
qed

lemma supply_bound:
  assumes "0 < i"
  shows "(\<Sum>h<n. s div 2 ^ (h div i)) \<le> 2 * (s::nat) * i"
proof -
  have "(\<Sum>h<n. s div 2 ^ (h div i)) \<le> i * (\<Sum>j<n. s div 2 ^ j)"
    using assms by (intro sum_div_blocks) auto
  also have "\<dots> \<le> i * (2 * s)"
    using sum_halvings_le [where k = n and s = s] by (intro mult_le_mono) auto
  finally show ?thesis by (simp add: ac_simps)
qed

lemma subsidy_prefix_bound:
  assumes "n \<le> 2 ^ 32"
  shows "(\<Sum>h<n. unat (the (block_subsidy (from_network nt) (word_of_nat h))))
    \<le> unat (max_money (from_network nt))"
proof -
  let ?i = "unat (subsidy_halving_interval (from_network nt))"
  have cap: "2 * 25600000000 * ?i \<le> unat (max_money (from_network nt))"
    and pos: "subsidy_halving_interval (from_network nt) \<noteq> 0"
    by (cases nt; simp add: consensus_defs)+
  have "(\<Sum>h<n. unat (the (block_subsidy (from_network nt) (word_of_nat h)))) =
      (\<Sum>h<n. 25600000000 div 2 ^ (h div ?i))"
    using assms
    by (intro sum.cong refl)
      (simp add: unat_block_subsidy [OF pos] unat_of_nat take_bit_nat_eq_self)
  also have "\<dots> \<le> 2 * 25600000000 * ?i"
    using pos by (intro supply_bound) (simp add: unat_gt_0)
  finally show ?thesis using cap by simp
qed

text \<open>
  Observation. The subsidies of all 2^32 possible block heights together never exceed
  \<open>max_money\<close>, on each of the three networks.
\<close>

lemma subsidy_supply_within_max_money:
  "(\<Sum>h<2 ^ 32. unat (the (block_subsidy (from_network nt) (word_of_nat h))))
     \<le> unat (max_money (from_network nt))"
  by (rule subsidy_prefix_bound) (rule order_refl)

section \<open>Checkpoint lookup\<close>

lemma find_rev_sorted:
  assumes "sorted (map f xs)" and "find P (rev xs) = Some x" and "\<And>a b. P b \<Longrightarrow> f a \<le> f b \<Longrightarrow> P a"
  shows "x \<in> set xs \<and> P x \<and> (\<forall>y\<in>set xs. P y \<longrightarrow> f y \<le> f x)"
  using assms(1,2)
proof (induction xs rule: rev_induct)
  case (snoc y xs)
  then show ?case
    by (cases "P y") (auto simp: sorted_append)
qed simp

text \<open>
  Observation. On the sorted list, \<open>checkpoint_at_height\<close> returns a checkpoint of the list
  at or below the height, no other such checkpoint is higher, and it reports
  \<open>CheckpointNotFound\<close> exactly when every checkpoint lies above the height.
\<close>

lemma checkpoint_at_height_correct:
  "case checkpoint_at_height (checkpoint_list cps) h of
     Inr cp \<Rightarrow> cp \<in> set cps \<and> cp_height cp \<le> h \<and>
       (\<forall>c. c \<in> set cps \<and> cp_height c \<le> h \<longrightarrow> cp_height c \<le> cp_height cp)
   | Inl e \<Rightarrow> e = CheckpointNotFound h \<and> (\<forall>c. c \<in> set cps \<longrightarrow> h < cp_height c)"
proof (cases "find (\<lambda>cp. cp_height cp \<le> h) (rev (checkpoint_list cps))")
  case None
  then have "\<forall>c. c \<in> set cps \<longrightarrow> h < cp_height c"
    by (auto simp: checkpoint_list_def find_None_iff not_le)
  with None show ?thesis
    by (simp add: checkpoint_at_height_def)
next
  case (Some cp)
  then show ?thesis
    using find_rev_sorted [of cp_height "checkpoint_list cps" "\<lambda>cp. cp_height cp \<le> h" cp]
    by (auto simp: checkpoint_at_height_def checkpoint_list_def)
qed

theorem checkpoint_at_height_correct_witness:
  "checkpoint_at_height mainnet_checkpoints 2500000 = Inr (mainnet_checkpoints ! 2) \<and>
   cp_height (mainnet_checkpoints ! 2) = 2000000 \<and>
   cp_height (mainnet_checkpoints ! 1) \<le> cp_height (mainnet_checkpoints ! 2) \<and>
   checkpoint_at_height mainnet_checkpoints 100 = Inl (CheckpointNotFound 100)"
proof -
  have sorted: "checkpoint_list mainnet_checkpoints = mainnet_checkpoints"
    by (simp add: mainnet_checkpoints_def checkpoint_list_def)
  have at: "checkpoint_at_height mainnet_checkpoints 2500000 = Inr (mainnet_checkpoints ! 2)"
    and below: "mainnet_checkpoints ! 1 \<in> set mainnet_checkpoints \<and>
      cp_height (mainnet_checkpoints ! 1) \<le> 2500000"
    and rest: "cp_height (mainnet_checkpoints ! 2) = 2000000"
      "checkpoint_at_height mainnet_checkpoints 100 = Inl (CheckpointNotFound 100)"
    by (simp_all add: mainnet_checkpoints_def checkpoint_list_def checkpoint_at_height_def)
  have "cp_height (mainnet_checkpoints ! 1) \<le> cp_height (mainnet_checkpoints ! 2)"
    using checkpoint_at_height_correct [where cps = mainnet_checkpoints and h = 2500000] below
    by (simp add: sorted at)
  with at rest show ?thesis by blast
qed

section \<open>Activation\<close>

lemma ironwood_active_mono:
  "is_ironwood_active_with_resolved_height net h r \<Longrightarrow> h \<le> h' \<Longrightarrow>
     is_ironwood_active_with_resolved_height net h' r"
  by (auto simp: is_ironwood_active_with_resolved_height_def Let_def split: option.splits)

lemma ironwood_active_scheduled:
  "is_ironwood_active_with_resolved_height net h r \<Longrightarrow>
     ironwood_activation_height net \<noteq> None \<or> r \<noteq> None"
  by (auto simp: is_ironwood_active_with_resolved_height_def Let_def split: option.splits)

text \<open>
  Observation. Internal Sapling change is switched on by the activation height and is never
  switched off again: active at one target height, it is active at every later one, also
  past the 32-bit range of block heights.
\<close>

lemma internal_change_monotone:
  assumes "sapling_internal_change_active_with_resolved_height nt h r" and "h \<le> h'"
  shows "sapling_internal_change_active_with_resolved_height nt h' r"
proof (cases "u32_try_from h'")
  case None
  then show ?thesis
    using assms(1) ironwood_active_scheduled [of "from_type nt" _ r]
    by (auto simp: sapling_internal_change_active_with_resolved_height_def Let_def
          split: option.splits)
next
  case (Some w')
  then have h': "h' = u64_from_u32 w'" by (simp add: u32_try_from_Some_iff)
  then have "unat h < 2 ^ 32"
    using assms(2) unat_u32_bound [of w'] by (simp add: word_le_nat_alt unat_ops)
  then obtain w where w: "u32_try_from h = Some w"
    by (auto simp: u32_try_from_def)
  then have "w \<le> w'"
    using assms(2) h' by (simp add: u32_try_from_Some_iff word_le_nat_alt unat_ops)
  with assms(1) w Some show ?thesis
    by (auto simp: sapling_internal_change_active_with_resolved_height_def Let_def
          intro: ironwood_active_mono)
qed

theorem internal_change_monotone_witness:
  "sapling_internal_change_active_with_resolved_height Mainnet 4200060 (Some 4200060) \<and>
   sapling_internal_change_active_with_resolved_height Mainnet 4294967296 (Some 4200060) \<and>
   \<not> sapling_internal_change_active_with_resolved_height Mainnet 4200059 (Some 4200060)"
proof -
  have on: "sapling_internal_change_active_with_resolved_height Mainnet 4200060 (Some 4200060)"
    by (simp add: sapling_internal_change_active_with_resolved_height_def network_defs
          u32_try_from_def is_ironwood_active_with_resolved_height_def)
  have "\<not> sapling_internal_change_active_with_resolved_height Mainnet 4200059 (Some 4200060)"
    by (simp add: sapling_internal_change_active_with_resolved_height_def network_defs
          u32_try_from_def is_ironwood_active_with_resolved_height_def)
  with on internal_change_monotone [OF on, of 4294967296] show ?thesis by simp
qed

end
