(* ===== verification/OrderedStream.thy ===== *)
theory OrderedStream
  imports Errors
begin

text \<open>
  The ordered block assembler (\<open>ordered_stream.rs\<close> of the sync crate): it accepts the blocks
  of one range one by one, checks order, hash lengths and hash links, and cuts them into chunks
  bounded by encoded bytes and by block count. The transactions of a block are a type variable,
  the assembler never looks at them.

  \<open>assembled\<close> is the specification: the chunks handed out and the buffered rest are, joined,
  exactly the blocks accepted, contiguous from the start of the range and hash-linked.
\<close>

section \<open>The assembler\<close>

record 'tx compact_block_data =
  proto_version :: u32
  cb_height :: u64
  cb_hash :: bytes
  cb_prev_hash :: bytes
  cb_time :: u32
  cb_header :: bytes
  cb_transactions :: "'tx list"

record 'tx ordered_block_chunk =
  ch_blocks :: "'tx compact_block_data list"
  ch_encoded_block_bytes :: "u64 list"
  ch_encoded_bytes :: u64

record 'tx ordered_block_assembler =
  requested_end_exclusive :: u64
  next_height :: u64
  max_encoded_bytes :: u64
  max_blocks :: u64
  buffer :: "'tx compact_block_data list"
  encoded_block_bytes :: "u64 list"
  encoded_bytes :: u64
  previous_hash :: "bytes option"

definition with_limits :: "u64 \<Rightarrow> u64 \<Rightarrow> u64 \<Rightarrow> u64 \<Rightarrow> sync_error + 'tx ordered_block_assembler" where
  "with_limits start end_exclusive max_bytes max_blks =
     (if end_exclusive < start
      then Inl (YSync (Msg ''invalid ordered stream range {}..{}'' [uint start, uint end_exclusive]))
      else Inr \<lparr>requested_end_exclusive = end_exclusive, next_height = start,
        max_encoded_bytes = max max_bytes 1, max_blocks = max max_blks 1, buffer = [],
        encoded_block_bytes = [], encoded_bytes = 0, previous_hash = None\<rparr>)"

definition is_complete :: "'tx ordered_block_assembler \<Rightarrow> bool" where
  "is_complete a \<longleftrightarrow> next_height a = requested_end_exclusive a"

definition set_next_chunk_max_blocks :: "u64 \<Rightarrow> 'tx ordered_block_assembler \<Rightarrow> 'tx ordered_block_assembler" where
  "set_next_chunk_max_blocks m a = (if buffer a = [] then a\<lparr>max_blocks := max m 1\<rparr> else a)"

definition take_partial ::
    "'tx ordered_block_assembler \<Rightarrow> 'tx ordered_block_assembler \<times> 'tx ordered_block_chunk option" where
  "take_partial a =
     (if buffer a = [] then (a, None)
      else (a\<lparr>buffer := [], encoded_block_bytes := [], encoded_bytes := 0\<rparr>,
        Some \<lparr>ch_blocks = buffer a, ch_encoded_block_bytes = encoded_block_bytes a,
          ch_encoded_bytes = encoded_bytes a\<rparr>))"

definition push ::
    "'tx compact_block_data \<Rightarrow> u64 \<Rightarrow> 'tx ordered_block_assembler
     \<Rightarrow> sync_error + 'tx ordered_block_assembler \<times> 'tx ordered_block_chunk option" where
  "push block enc a =
     (if cb_height block \<noteq> next_height a
      then Inl (YSync (Msg ''compact block stream expected height {}, received {}''
             [uint (next_height a), uint (cb_height block)]))
      else if requested_end_exclusive a \<le> cb_height block
      then Inl (YSync (Msg ''compact block stream returned height {} outside requested end {}''
             [uint (cb_height block), uint (requested_end_exclusive a)]))
      else if length (cb_hash block) \<noteq> 32 \<or> length (cb_prev_hash block) \<noteq> 32
      then Inl (YSync (Msg ''compact block {} has malformed hash lengths hash={} prev_hash={}''
             [uint (cb_height block), int (length (cb_hash block)), int (length (cb_prev_hash block))]))
      else if (case previous_hash a of None \<Rightarrow> False | Some p \<Rightarrow> cb_prev_hash block \<noteq> p)
      then Inl (YSync (Msg ''compact block stream disconnected at height {}'' [uint (cb_height block)]))
      else
        let enc = max enc 1;
            (a1, completed) = (if buffer a \<noteq> [] \<and> max_encoded_bytes a < saturating_add (encoded_bytes a) enc
              then take_partial a else (a, None));
            a2 = a1\<lparr>previous_hash := Some (cb_hash block), next_height := saturating_add (next_height a1) 1,
              encoded_bytes := saturating_add (encoded_bytes a1) enc,
              encoded_block_bytes := encoded_block_bytes a1 @ [enc], buffer := buffer a1 @ [block]\<rparr>
        in if completed \<noteq> None then Inr (a2, completed)
           else if max_blocks a2 \<le> of_nat (length (buffer a2)) \<or> max_encoded_bytes a2 \<le> encoded_bytes a2
           then Inr (take_partial a2)
           else Inr (a2, None))"

definition finish :: "'tx ordered_block_assembler \<Rightarrow> sync_error + 'tx ordered_block_chunk option" where
  "finish a =
     (if \<not> is_complete a
      then Inl (YSync (Msg ''compact block stream ended at {}, expected {}''
             [uint (next_height a), uint (requested_end_exclusive a)]))
      else Inr (snd (take_partial a)))"

section \<open>Feeding a stream\<close>

text \<open>The operations a consumer uses between creating and finishing an assembler.\<close>

datatype 'tx stream_op = Push "'tx compact_block_data" u64 | TakePartial | SetMaxBlocks u64

fun stream_step ::
    "'tx stream_op \<Rightarrow> 'tx ordered_block_assembler \<times> 'tx ordered_block_chunk list
     \<Rightarrow> sync_error + 'tx ordered_block_assembler \<times> 'tx ordered_block_chunk list" where
  "stream_step (Push b n) (a, out) = bind_res (push b n a) (\<lambda>(a', c). Inr (a', out @ (case c of None \<Rightarrow> [] | Some ch \<Rightarrow> [ch])))"
| "stream_step TakePartial (a, out) = (let (a', c) = take_partial a in Inr (a', out @ (case c of None \<Rightarrow> [] | Some ch \<Rightarrow> [ch])))"
| "stream_step (SetMaxBlocks m) (a, out) = Inr (set_next_chunk_max_blocks m a, out)"

text \<open>Blocks in order: heights count up from a start, each block names its predecessor's hash.\<close>

fun linked :: "u64 \<Rightarrow> 'tx compact_block_data list \<Rightarrow> bool" where
  "linked h [] = True"
| "linked h (b # bs) = (cb_height b = h \<and> length (cb_hash b) = 32 \<and> length (cb_prev_hash b) = 32 \<and>
     (case bs of [] \<Rightarrow> True | c # _ \<Rightarrow> cb_prev_hash c = cb_hash b) \<and> linked (h + 1) bs)"

definition chunk_ok :: "u64 \<Rightarrow> 'tx ordered_block_chunk \<Rightarrow> bool" where
  "chunk_ok limit c \<longleftrightarrow> ch_blocks c \<noteq> [] \<and> length (ch_encoded_block_bytes c) = length (ch_blocks c) \<and>
     ch_encoded_bytes c = fold (\<lambda>n s. saturating_add s n) (ch_encoded_block_bytes c) 0 \<and>
     (ch_encoded_bytes c \<le> limit \<or> length (ch_blocks c) = 1)"

section \<open>Invariant\<close>

abbreviation byte_sum :: "u64 list \<Rightarrow> u64" where
  "byte_sum ns \<equiv> fold (\<lambda>n s. saturating_add s n) ns 0"

definition accepted :: "'tx ordered_block_assembler \<times> 'tx ordered_block_chunk list \<Rightarrow> 'tx compact_block_data list" where
  "accepted st = concat (map ch_blocks (snd st)) @ buffer (fst st)"

text \<open>The buffer: bytes counted, below the block ceiling, within the byte limit unless single.\<close>

definition buffer_ok :: "'tx ordered_block_assembler \<Rightarrow> bool" where
  "buffer_ok a \<longleftrightarrow> length (encoded_block_bytes a) = length (buffer a) \<and>
     encoded_bytes a = byte_sum (encoded_block_bytes a) \<and>
     (encoded_bytes a \<le> max_encoded_bytes a \<or> length (buffer a) = 1) \<and>
     length (buffer a) < unat (max_blocks a)"

definition assembled :: "u64 \<Rightarrow> u64 \<Rightarrow> u64 \<Rightarrow> 'tx ordered_block_assembler \<times> 'tx ordered_block_chunk list \<Rightarrow> bool" where
  "assembled start fin limit st \<longleftrightarrow> (let a = fst st; bs = accepted st in
     requested_end_exclusive a = fin \<and> max_encoded_bytes a = limit \<and> buffer_ok a \<and>
     unat (next_height a) = unat start + length bs \<and> next_height a \<le> fin \<and> linked start bs \<and>
     previous_hash a = (if bs = [] then None else Some (cb_hash (last bs))) \<and>
     list_all (chunk_ok limit) (snd st))"

lemma linked_snoc:
  "linked h (bs @ [b]) \<longleftrightarrow> linked h bs \<and> cb_height b = h + of_nat (length bs) \<and> length (cb_hash b) = 32 \<and>
     length (cb_prev_hash b) = 32 \<and> (bs \<noteq> [] \<longrightarrow> cb_prev_hash b = cb_hash (last bs))"
proof (induction bs arbitrary: h)
  case (Cons c bs)
  show ?case
    using Cons.IH [of "h + 1"] by (cases bs) (auto simp: algebra_simps)
qed auto

lemma linked_heights:
  "linked h bs \<Longrightarrow> unat h + length bs < 2 ^ 64 \<Longrightarrow> map (\<lambda>b. unat (cb_height b)) bs = [unat h..<unat h + length bs]"
proof (induction bs arbitrary: h)
  case (Cons b bs)
  then have "unat (h + 1) = unat h + 1" by (simp add: unat_word_ariths)
  with Cons.IH [of "h + 1"] Cons.prems show ?case
    by (simp add: upt_conv_Cons del: upt_Suc)
qed simp

lemma take_partial_ok:
  assumes "buffer_ok a" "take_partial a = (a', c)"
  shows "buffer_ok a'" "buffer a' = []" "next_height a' = next_height a" "previous_hash a' = previous_hash a"
    "requested_end_exclusive a' = requested_end_exclusive a" "max_encoded_bytes a' = max_encoded_bytes a"
    "max_blocks a' = max_blocks a"
    "case c of None \<Rightarrow> buffer a = [] | Some ch \<Rightarrow> chunk_ok (max_encoded_bytes a) ch \<and> ch_blocks ch = buffer a \<and>
       length (ch_blocks ch) < unat (max_blocks a)"
  using assms by (auto simp: take_partial_def buffer_ok_def chunk_ok_def split: if_splits)

text \<open>What an accepted block does to the assembler.\<close>

lemma push_effect:
  assumes "push b n a = Inr (a', c)" "buffer_ok a" "length (buffer a) + 1 < 2 ^ 64"
  shows "cb_height b = next_height a \<and> cb_height b < requested_end_exclusive a \<and>
     length (cb_hash b) = 32 \<and> length (cb_prev_hash b) = 32 \<and>
     (\<forall>p. previous_hash a = Some p \<longrightarrow> cb_prev_hash b = p) \<and> buffer_ok a' \<and>
     next_height a' = next_height a + 1 \<and> previous_hash a' = Some (cb_hash b) \<and>
     requested_end_exclusive a' = requested_end_exclusive a \<and> max_encoded_bytes a' = max_encoded_bytes a \<and>
     max_blocks a' = max_blocks a \<and>
     (case c of None \<Rightarrow> buffer a' = buffer a @ [b]
        | Some ch \<Rightarrow> chunk_ok (max_encoded_bytes a) ch \<and> length (ch_blocks ch) \<le> unat (max_blocks a) \<and>
            ch_blocks ch @ buffer a' = buffer a @ [b])"
proof -
  define enc where "enc = max n 1"
  have checks: "cb_height b = next_height a" "cb_height b < requested_end_exclusive a"
    "length (cb_hash b) = 32" "length (cb_prev_hash b) = 32" "\<forall>p. previous_hash a = Some p \<longrightarrow> cb_prev_hash b = p"
    using assms(1) by (auto simp: push_def not_le split: if_splits option.splits)
  have succ: "saturating_add (next_height a) 1 = next_height a + 1"
  proof -
    have "unat (next_height a) + 1 < 2 ^ 64"
      using checks(1,2) unat_u64_bound [of "requested_end_exclusive a"] by (simp add: word_less_nat_alt)
    then show ?thesis by (simp add: saturating_add_def)
  qed
  let ?grow = "\<lambda>a1. a1\<lparr>previous_hash := Some (cb_hash b), next_height := saturating_add (next_height a1) 1,
      encoded_bytes := saturating_add (encoded_bytes a1) enc,
      encoded_block_bytes := encoded_block_bytes a1 @ [enc], buffer := buffer a1 @ [b]\<rparr>"
  show ?thesis
  proof (cases "buffer a \<noteq> [] \<and> max_encoded_bytes a < saturating_add (encoded_bytes a) enc")
    case True
    then obtain a1 ch where tp: "take_partial a = (a1, Some ch)" by (simp add: take_partial_def)
    note t = take_partial_ok [OF assms(2) tp]
    have res: "a' = ?grow a1" "c = Some ch"
      using assms(1) checks True tp by (auto simp: push_def enc_def [symmetric] Let_def split: if_splits option.splits)
    have "0 < length (buffer a)" using True by simp
    moreover have "length (buffer a) < unat (max_blocks a)" using assms(2) by (simp add: buffer_ok_def)
    ultimately have "1 < unat (max_blocks a)" by linarith
    then have "buffer_ok a'"
      using t(1,2,7) by (simp add: res buffer_ok_def)
    moreover have "length (buffer a) \<le> unat (max_blocks a)" using t(8) by auto
    ultimately show ?thesis using checks t succ by (simp add: res)
  next
    case False
    define a2 where "a2 = ?grow a"
    have res: "(a', c) = (if max_blocks a2 \<le> of_nat (length (buffer a2)) \<or> max_encoded_bytes a2 \<le> encoded_bytes a2
        then take_partial a2 else (a2, None))"
      using assms(1) checks False
      by (auto simp: push_def enc_def [symmetric] a2_def Let_def split: if_splits option.splits)
    have bytes: "encoded_bytes a2 \<le> max_encoded_bytes a2 \<or> length (buffer a2) = 1"
      using False by (auto simp: a2_def not_less)
    have "length (buffer a2) < 2 ^ 64" using assms(3) by (simp add: a2_def)
    then have "unat (of_nat (length (buffer a2)) :: u64) = length (buffer a2)"
      by (simp add: unat_of_nat)
    then have len: "max_blocks a2 \<le> of_nat (length (buffer a2)) \<longleftrightarrow> unat (max_blocks a) \<le> length (buffer a2)"
      by (simp add: word_le_nat_alt a2_def)
    have len2: "length (buffer a2) \<le> unat (max_blocks a)" and book: "length (encoded_block_bytes a2) = length (buffer a2)"
      "encoded_bytes a2 = byte_sum (encoded_block_bytes a2)"
      using assms(2) by (auto simp: a2_def buffer_ok_def)
    have mb: "0 < unat (max_blocks a)" using assms(2) by (auto simp: buffer_ok_def)
    have same: "next_height a2 = next_height a + 1" "previous_hash a2 = Some (cb_hash b)"
      "requested_end_exclusive a2 = requested_end_exclusive a" "max_encoded_bytes a2 = max_encoded_bytes a"
      "max_blocks a2 = max_blocks a" "buffer a2 = buffer a @ [b]"
      by (simp_all add: a2_def succ)
    show ?thesis
    proof (cases "max_blocks a2 \<le> of_nat (length (buffer a2)) \<or> max_encoded_bytes a2 \<le> encoded_bytes a2")
      case True
      with res same have out: "a' = a2\<lparr>buffer := [], encoded_block_bytes := [], encoded_bytes := 0\<rparr>"
        "c = Some \<lparr>ch_blocks = buffer a2, ch_encoded_block_bytes = encoded_block_bytes a2, ch_encoded_bytes = encoded_bytes a2\<rparr>"
        by (auto simp: take_partial_def split: if_splits)
      have "chunk_ok (max_encoded_bytes a) \<lparr>ch_blocks = buffer a2, ch_encoded_block_bytes = encoded_block_bytes a2,
          ch_encoded_bytes = encoded_bytes a2\<rparr>"
        using bytes book same by (auto simp: chunk_ok_def)
      moreover have "buffer_ok a'" using mb same by (simp add: out buffer_ok_def)
      ultimately show ?thesis using checks same len2 by (simp add: out)
    next
      case no: False
      with res have out: "a' = a2" "c = None" by auto
      have "buffer_ok a2"
        using bytes book no len len2 same by (auto simp: buffer_ok_def)
      then show ?thesis using checks same by (simp add: out)
    qed
  qed
qed

lemma assembled_step:
  assumes "assembled start fin limit st" "stream_step op st = Inr st'"
  shows "assembled start fin limit st'"
proof -
  obtain a out where st: "st = (a, out)" by (cases st)
  from assms(1) have inv: "requested_end_exclusive a = fin" "max_encoded_bytes a = limit" "buffer_ok a"
    "unat (next_height a) = unat start + length (accepted st)" "next_height a \<le> fin" "linked start (accepted st)"
    "previous_hash a = (if accepted st = [] then None else Some (cb_hash (last (accepted st))))"
    "list_all (chunk_ok limit) out"
    by (auto simp: assembled_def Let_def st)
  show ?thesis
  proof (cases op)
    case (Push b n)
    with assms(2) st obtain a' c where p: "push b n a = Inr (a', c)"
      and st': "st' = (a', out @ (case c of None \<Rightarrow> [] | Some ch \<Rightarrow> [ch]))"
      by (auto simp: bind_res_Inr_iff)
    have "length (buffer a) \<le> length (accepted st)" by (simp add: accepted_def st)
    moreover have small: "cb_height b = next_height a \<and> cb_height b < requested_end_exclusive a"
      using p by (auto simp: push_def not_le split: if_splits option.splits)
    then have lt: "unat (next_height a) + 1 < 2 ^ 64"
      using unat_u64_bound [of "requested_end_exclusive a"] by (auto simp: word_less_nat_alt)
    ultimately have "length (buffer a) + 1 < 2 ^ 64" using inv(4) by linarith
    note eff = push_effect [OF p inv(3) this]
    have acc: "accepted st' = accepted st @ [b]"
      using eff by (auto simp: accepted_def st' st split: option.splits)
    have nh: "unat (next_height a + 1) = unat (next_height a) + 1"
      using lt by (simp add: unat_word_ariths)
    then have "next_height a + 1 \<le> fin"
      using small inv(1) by (auto simp: word_le_nat_alt word_less_nat_alt)
    moreover have "cb_height b = start + of_nat (length (accepted st))"
      using small inv(4) lt by (intro unat_eqI) (simp add: unat_word_ariths unat_of_nat)
    then have "linked start (accepted st')"
      using eff inv(6,7) by (auto simp: acc linked_snoc)
    ultimately show ?thesis
      using eff inv nh unfolding assembled_def Let_def acc
      by (auto simp: st' split: option.splits)
  next
    case TakePartial
    obtain a' c where p: "take_partial a = (a', c)" by force
    with assms(2) st TakePartial have st': "st' = (a', out @ (case c of None \<Rightarrow> [] | Some ch \<Rightarrow> [ch]))"
      by simp
    note t = take_partial_ok [OF inv(3) p]
    have "accepted st' = accepted st"
      using t by (auto simp: accepted_def st' st split: option.splits)
    then show ?thesis
      using t inv unfolding assembled_def Let_def by (auto simp: st' split: option.splits)
  next
    case (SetMaxBlocks m)
    with assms(2) st have st': "st' = (set_next_chunk_max_blocks m a, out)" by simp
    have "0 < unat (max m 1)" by (simp add: unat_ops)
    then have "buffer_ok (set_next_chunk_max_blocks m a)"
      using inv(3) by (auto simp: set_next_chunk_max_blocks_def buffer_ok_def)
    moreover have "accepted st' = accepted st"
      by (simp add: accepted_def st' st set_next_chunk_max_blocks_def)
    ultimately show ?thesis
      using inv unfolding assembled_def Let_def by (auto simp: st' set_next_chunk_max_blocks_def)
  qed
qed

interpretation stream_machine: invariant_machine stream_step "\<lambda>_. True" "assembled start fin limit"
  for start fin limit
  by unfold_locales (rule assembled_step)

lemma assembled_new:
  "with_limits start fin bytes blks = Inr a \<Longrightarrow> assembled start fin (max bytes 1) (a, [])"
  by (auto simp: with_limits_def assembled_def accepted_def buffer_ok_def Let_def unat_ops not_less
      word_le_nat_alt split: if_splits)

section \<open>Properties\<close>


definition example_stream_block :: "u64 \<Rightarrow> u8 \<Rightarrow> u8 \<Rightarrow> nat compact_block_data" where
  "example_stream_block h me prev = \<lparr>proto_version = 1, cb_height = h, cb_hash = replicate 32 me, cb_prev_hash = replicate 32 prev,
     cb_time = 0, cb_header = [], cb_transactions = []\<rparr>"


text \<open>
  Observation. Finishing succeeds exactly when the stream reached the end of its range, and then
  the chunks handed out before with the final one are the blocks of the whole range, each height
  once and in order: nothing is lost, repeated or reordered.
\<close>

lemma finish_delivers_range:
  assumes "with_limits start fin bytes blks = Inr a" "run_ops stream_step ops (a, []) = (a', out)"
  shows "if next_height a' = fin
    then \<exists>c. finish a' = Inr c \<and>
      map (\<lambda>b. unat (cb_height b)) (concat (map ch_blocks (out @ (case c of None \<Rightarrow> [] | Some ch \<Rightarrow> [ch])))) =
      [unat start..<unat fin]
    else \<exists>e. finish a' = Inl e"
proof -
  have inv: "assembled start fin (max bytes 1) (a', out)"
    using stream_machine.inv_run [OF assembled_new [OF assms(1)], of ops] assms(2) by (simp add: list_all_iff)
  then have fin: "requested_end_exclusive a' = fin" and link: "linked start (accepted (a', out))"
    and nxt: "unat (next_height a') = unat start + length (accepted (a', out))"
    by (auto simp: assembled_def Let_def)
  show ?thesis
  proof (cases "next_height a' = fin")
    case True
    have "concat (map ch_blocks (out @ (case snd (take_partial a') of None \<Rightarrow> [] | Some ch \<Rightarrow> [ch]))) = accepted (a', out)"
      by (simp add: take_partial_def accepted_def)
    moreover have "map (\<lambda>b. unat (cb_height b)) (accepted (a', out)) = [unat start..<unat fin]"
      using linked_heights [OF link] nxt True unat_u64_bound [of "next_height a'"] by simp
    ultimately have "map (\<lambda>b. unat (cb_height b)) (concat (map ch_blocks (out @
        (case snd (take_partial a') of None \<Rightarrow> [] | Some ch \<Rightarrow> [ch])))) = [unat start..<unat fin]"
      by (simp only:)
    with True fin show ?thesis by (auto simp: finish_def is_complete_def)
  qed (simp add: finish_def is_complete_def fin)
qed

theorem finish_delivers_range_witness:
  "\<exists>a c. with_limits 5 7 100 10 = Inr (a :: nat ordered_block_assembler) \<and>
     finish (fst (run_ops stream_step [Push (example_stream_block 5 1 0) 60, Push (example_stream_block 6 2 1) 70] (a, [])))
       = Inr c"
proof -
  obtain a :: "nat ordered_block_assembler" where a: "with_limits 5 7 100 10 = Inr a"
    by (simp add: with_limits_def)
  obtain a' out where run: "run_ops stream_step [Push (example_stream_block 5 1 0) 60,
      Push (example_stream_block 6 2 1) 70] (a, []) = (a', out)" by force
  have "next_height a' = 7"
    using a run by (auto simp: with_limits_def push_def example_stream_block_def exec_op_def take_partial_def
        saturating_add_def max_def word_le_nat_alt word_less_nat_alt Let_def)
  with finish_delivers_range [OF a run] a run show ?thesis by auto
qed

end
