(* ===== verification/Activation.thy ===== *)
theory Activation
  imports Params OrderedStream Utf8
begin

text \<open>
  Consensus compatibility of a server (\<open>consensus.rs\<close>) and resolution of the Ironwood activation
  height from block times (\<open>activation.rs\<close>) of the sync crate, with the network parameters of
  \<open>pirate-core/src/transaction.rs\<close> they use.

  The server is an argument: \<open>get_block\<close> and \<open>get_range\<close> answer block requests, and nothing is
  assumed of them in the definitions. \<open>BranchId::for_height\<close> and the Ironwood branch number
  come from \<open>zcash_protocol\<close> and are arguments too, as is the clock. \<open>honest\<close> says that the
  server answers from one chain. A string argument of a message is given by its code points.
\<close>

section \<open>Network parameters with a resolved height (transaction.rs)\<close>

record pirate_network =
  pn_network :: network
  pn_ironwood_activation_height :: "u32 option"

definition pirate_network_new :: "network_type \<Rightarrow> pirate_network" where
  "pirate_network_new ty =
     \<lparr>pn_network = from_type ty, pn_ironwood_activation_height = ironwood_activation_height (from_type ty)\<rparr>"

definition with_ironwood_activation_height :: "network_type \<Rightarrow> u32 option \<Rightarrow> pirate_network" where
  "with_ironwood_activation_height ty resolved =
     \<lparr>pn_network = from_type ty,
      pn_ironwood_activation_height =
        (case ironwood_activation_height (from_type ty) of Some h \<Rightarrow> Some h | None \<Rightarrow> resolved)\<rparr>"

definition pirate_is_ironwood_active :: "pirate_network \<Rightarrow> u32 \<Rightarrow> bool" where
  "pirate_is_ironwood_active net height =
     (case pn_ironwood_activation_height net of None \<Rightarrow> False | Some a \<Rightarrow> a \<le> height)"

datatype network_upgrade = OverwinterUpgrade | SaplingUpgrade | Nu6_3 | OtherUpgrade

fun activation_height :: "pirate_network \<Rightarrow> network_upgrade \<Rightarrow> u32 option" where
  "activation_height net OverwinterUpgrade = Some (overwinter_activation_height (pn_network net))"
| "activation_height net SaplingUpgrade = Some (sapling_activation_height (pn_network net))"
| "activation_height net Nu6_3 = pn_ironwood_activation_height net"
| "activation_height net OtherUpgrade = None"

section \<open>Branch identifiers (consensus.rs)\<close>

text \<open>\<open>char::is_whitespace\<close> and \<open>str::trim\<close>.\<close>

definition is_whitespace :: "nat \<Rightarrow> bool" where
  "is_whitespace c \<longleftrightarrow> 9 \<le> c \<and> c \<le> 13 \<or> c = 0x20 \<or> c = 0x85 \<or> c = 0xA0 \<or> c = 0x1680 \<or>
     0x2000 \<le> c \<and> c \<le> 0x200A \<or> c = 0x2028 \<or> c = 0x2029 \<or> c = 0x202F \<or> c = 0x205F \<or> c = 0x3000"

definition trim :: "str \<Rightarrow> str" where
  "trim s = rev (dropWhile is_whitespace (rev (dropWhile is_whitespace s)))"

definition hex_digit :: "nat \<Rightarrow> nat option" where
  "hex_digit c =
     (if 0x30 \<le> c \<and> c \<le> 0x39 then Some (c - 0x30)
      else if 0x61 \<le> c \<and> c \<le> 0x66 then Some (c - 0x61 + 10)
      else if 0x41 \<le> c \<and> c \<le> 0x46 then Some (c - 0x41 + 10)
      else None)"

fun radix16 :: "nat \<Rightarrow> str \<Rightarrow> u32 option" where
  "radix16 acc [] = Some (of_nat acc)"
| "radix16 acc (c # cs) =
     (case hex_digit c of None \<Rightarrow> None
      | Some d \<Rightarrow> if acc * 16 + d < 2 ^ 32 then radix16 (acc * 16 + d) cs else None)"

text \<open>\<open>u32::from_str_radix(s, 16)\<close>: one leading plus sign is allowed, the empty string is not.\<close>

definition from_str_radix16 :: "str \<Rightarrow> u32 option" where
  "from_str_radix16 s =
     (case s of [] \<Rightarrow> None
      | c # cs \<Rightarrow> if c = 0x2B then if cs = [] then None else radix16 0 cs else radix16 0 s)"

fun strip_prefix :: "str \<Rightarrow> str \<Rightarrow> str option" where
  "strip_prefix [] s = Some s"
| "strip_prefix (p # ps) [] = None"
| "strip_prefix (p # ps) (c # cs) = (if p = c then strip_prefix ps cs else None)"

definition parse_branch_id :: "str \<Rightarrow> u32 option" where
  "parse_branch_id s =
     (let trimmed = trim s;
          normalized = (case strip_prefix [0x30, 0x78] trimmed of Some r \<Rightarrow> r
            | None \<Rightarrow> (case strip_prefix [0x30, 0x58] trimmed of Some r \<Rightarrow> r | None \<Rightarrow> trimmed))
      in from_str_radix16 normalized)"

definition hex_char :: "nat \<Rightarrow> nat" where
  "hex_char d = (if d < 10 then 0x30 + d else 0x61 + (d - 10))"

text \<open>\<open>{:08x}\<close>: a \<open>u32\<close> never needs more than eight digits.\<close>

definition format_branch_id :: "u32 \<Rightarrow> str" where
  "format_branch_id v = map (\<lambda>k. hex_char (unat v div 16 ^ k mod 16)) [7, 6, 5, 4, 3, 2, 1, 0]"

record consensus_branch_check =
  check_height :: u32
  sdk_branch_id :: str
  server_branch_id :: "str option"

definition check_is_valid :: "consensus_branch_check \<Rightarrow> bool" where
  "check_is_valid chk \<longleftrightarrow> server_branch_id chk = Some (sdk_branch_id chk)"

definition require_match :: "consensus_branch_check \<Rightarrow> sync_error + unit" where
  "require_match chk =
     (if check_is_valid chk then Inr ()
      else Inl (YNetwork (Msg
        ''Incompatible consensus branch at height {}: SDK expects {}, server reports {}. Update the wallet or switch to a compatible server.''
        (uint (check_height chk) # map int (sdk_branch_id chk) @
          (case server_branch_id chk of Some s \<Rightarrow> map int s | None \<Rightarrow> map (int \<circ> of_char) ''unrecognized'')))))"

definition check_consensus_branch_with_activation_height ::
    "(pirate_network \<Rightarrow> u32 \<Rightarrow> u32) \<Rightarrow> network_type \<Rightarrow> u64 \<Rightarrow> str \<Rightarrow> u32 option
     \<Rightarrow> sync_error + consensus_branch_check" where
  "check_consensus_branch_with_activation_height for_height ty server_height server_branch activation =
     bind_res (ok_or (u32_try_from server_height) (YNetwork (Msg ''Server height out of range: {}'' [uint server_height])))
       (\<lambda>height. Inr
         \<lparr>check_height = height,
          sdk_branch_id = format_branch_id (for_height (with_ironwood_activation_height ty activation) height),
          server_branch_id = map_option format_branch_id (parse_branch_id server_branch)\<rparr>)"

definition check_consensus_branch ::
    "(pirate_network \<Rightarrow> u32 \<Rightarrow> u32) \<Rightarrow> network_type \<Rightarrow> u64 \<Rightarrow> str \<Rightarrow> sync_error + consensus_branch_check" where
  "check_consensus_branch for_height ty server_height server_branch =
     check_consensus_branch_with_activation_height for_height ty server_height server_branch None"

section \<open>Resolution of the activation height (activation.rs)\<close>

definition FULL_NODE_LOOKBACK_BLOCKS :: u32 where "FULL_NODE_LOOKBACK_BLOCKS = 30"
definition FULL_NODE_SEARCH_WINDOW_SECONDS :: u32 where "FULL_NODE_SEARCH_WINDOW_SECONDS = 24 * 60 * 60"
definition SEARCH_CHUNK_BLOCKS :: u32 where "SEARCH_CHUNK_BLOCKS = 2048"

definition get_block_at ::
    "(u32 \<Rightarrow> sync_error + 'tx compact_block_data) \<Rightarrow> u32 \<Rightarrow> sync_error + 'tx compact_block_data" where
  "get_block_at get_block height = bind_res (get_block height) (\<lambda>block.
     if cb_height block \<noteq> u64_from_u32 height
     then Inl (YNetwork (Msg ''Timestamp activation search requested height {}, server returned {}''
            [uint height, uint (cb_height block)]))
     else Inr block)"

text \<open>The loop of \<open>validate_contiguous_segment\<close>; the first argument is \<open>start + offset\<close>.\<close>

fun segment_heights :: "u64 \<Rightarrow> 'tx compact_block_data list \<Rightarrow> sync_error + unit" where
  "segment_heights expected [] = Inr ()"
| "segment_heights expected (b # bs) =
     (if cb_height b \<noteq> expected
      then Inl (YNetwork (Msg ''Timestamp activation search returned height {}, expected {}''
             [uint (cb_height b), uint expected]))
      else segment_heights (expected + 1) bs)"

definition validate_contiguous_segment ::
    "u32 \<Rightarrow> u32 \<Rightarrow> 'tx compact_block_data list \<Rightarrow> sync_error + unit" where
  "validate_contiguous_segment start end_exclusive blocks =
     (let expected_len = unat (saturating_sub end_exclusive start)
      in if length blocks \<noteq> expected_len
         then Inl (YNetwork (Msg ''Timestamp activation search returned {} blocks for {}..{}, expected {}''
                [int (length blocks), uint start, uint end_exclusive, int expected_len]))
         else segment_heights (u64_from_u32 start) blocks)"

fun derive_activation_from_blocks :: "network \<Rightarrow> 'tx compact_block_data list \<Rightarrow> sync_error + u32 option" where
  "derive_activation_from_blocks net (previous # current # blocks) =
     (if cb_height previous + 1 \<noteq> cb_height current
      then Inl (YNetwork (Msg ''Non-contiguous timestamp transition at heights {} and {}''
             [uint (cb_height previous), uint (cb_height current)]))
      else case u32_try_from (cb_height current) of
        None \<Rightarrow> Inl (YNetwork (Msg ''Block height out of range: {}'' [uint (cb_height current)]))
      | Some current_height \<Rightarrow>
          (case derive_ironwood_activation_height net (cb_time previous) current_height (cb_time current) of
             Some h \<Rightarrow> Inr (Some h)
           | None \<Rightarrow> derive_activation_from_blocks net (current # blocks)))"
| "derive_activation_from_blocks net _ = Inr None"

lemma window_start_less:
  assumes "sapling < cursor"
  shows "unat (max (saturating_sub cursor SEARCH_CHUNK_BLOCKS) sapling) < unat cursor"
  using assms by (auto simp: unat_ops word_less_nat_alt SEARCH_CHUNK_BLOCKS_def)

text \<open>The loop of \<open>load_transition_window\<close>: segments are collected from the top down.\<close>

function window_loop ::
    "(u32 \<Rightarrow> u32 \<Rightarrow> sync_error + 'tx compact_block_data list) \<Rightarrow> u32 \<Rightarrow> u32 \<Rightarrow> u32
     \<Rightarrow> 'tx compact_block_data list list \<Rightarrow> sync_error + 'tx compact_block_data list list" where
  "window_loop get_range sapling cutoff cursor segments =
     (if sapling < cursor then
        let start = max (saturating_sub cursor SEARCH_CHUNK_BLOCKS) sapling
        in bind_res (get_range start cursor) (\<lambda>segment.
           bind_res (validate_contiguous_segment start cursor segment) (\<lambda>_.
             case rposition (\<lambda>b. cb_time b < cutoff) segment of
               Some stop_index \<Rightarrow> Inr (segments @ [drop stop_index segment])
             | None \<Rightarrow> if start = sapling then Inr (segments @ [segment])
                 else window_loop get_range sapling cutoff start (segments @ [segment])))
      else Inr segments)"
  by pat_completeness auto

termination
  by (relation "measure (\<lambda>(_, _, _, cursor, _). unat cursor)") (auto simp: window_start_less)

definition load_transition_window ::
    "(u32 \<Rightarrow> u32 \<Rightarrow> sync_error + 'tx compact_block_data list) \<Rightarrow> network \<Rightarrow> u32 \<Rightarrow> u32
     \<Rightarrow> sync_error + 'tx compact_block_data list" where
  "load_transition_window get_range net end_exclusive timestamp =
     (let cutoff = saturating_sub timestamp FULL_NODE_SEARCH_WINDOW_SECONDS
      in bind_res (window_loop get_range (sapling_activation_height net) cutoff end_exclusive [])
           (\<lambda>segments. Inr (concat (rev segments))))"

lemma unat_midpoint:
  fixes low high :: u32
  assumes "low < high"
  shows "unat (low + (high - low) div 2) = unat low + (unat high - unat low) div 2"
proof -
  have "unat ((high - low) div 2) = (unat high - unat low) div 2"
    using assms by (simp add: unat_div unat_sub word_less_nat_alt word_le_nat_alt)
  moreover have "unat low + (unat high - unat low) div 2 < 2 ^ 32"
    using assms unat_u32_bound [of high] by (simp add: word_less_nat_alt)
  ultimately show ?thesis by (simp add: unat_word_ariths)
qed

lemma midpoint_less:
  fixes low high :: u32
  assumes "low < high"
  shows "unat low \<le> unat (low + (high - low) div 2)" "unat (low + (high - low) div 2) < unat high"
  using assms by (simp_all add: unat_midpoint word_less_nat_alt)

text \<open>The binary search of \<open>discover_mainnet_activation_height\<close>.\<close>

function bisect ::
    "(u32 \<Rightarrow> sync_error + 'tx compact_block_data) \<Rightarrow> u32 \<Rightarrow> u32 \<Rightarrow> u32 \<Rightarrow> sync_error + u32" where
  "bisect get_block timestamp low high =
     (if low < high then
        let midpoint = low + (high - low) div 2
        in bind_res (get_block_at get_block midpoint) (\<lambda>b.
             if timestamp < cb_time b then bisect get_block timestamp low midpoint
             else bisect get_block timestamp (saturating_add midpoint 1) high)
      else Inr low)"
  by pat_completeness auto

termination
proof (relation "measure (\<lambda>(_, _, low, high). unat high - unat low)", goal_cases)
  case (2 get_block timestamp low high m b)
  then show ?case using midpoint_less [of low high] by (simp add: word_less_nat_alt)
next
  case (3 get_block timestamp low high m b)
  then have "unat (saturating_add m 1) = unat m + 1"
    using midpoint_less(2) [of low high] unat_u32_bound [of high] by (simp add: unat_ops)
  with 3 show ?case using midpoint_less [of low high] by (simp add: word_less_nat_alt)
qed simp

declare window_loop.simps [simp del] bisect.simps [simp del]

definition discover_mainnet_activation_height ::
    "(u32 \<Rightarrow> sync_error + 'tx compact_block_data) \<Rightarrow> (u32 \<Rightarrow> u32 \<Rightarrow> sync_error + 'tx compact_block_data list)
     \<Rightarrow> u32 \<Rightarrow> network \<Rightarrow> sync_error + u32 option" where
  "discover_mainnet_activation_height get_block get_range tip_height net =
     (case ironwood_activation_timestamp net of
        None \<Rightarrow> Inr (ironwood_activation_height net)
      | Some timestamp \<Rightarrow>
          if tip_height \<le> FULL_NODE_LOOKBACK_BLOCKS then Inr None
          else let stable_height = tip_height - FULL_NODE_LOOKBACK_BLOCKS
          in bind_res (get_block_at get_block stable_height) (\<lambda>stable_block.
             if cb_time stable_block \<le> timestamp then Inr None
             else bind_res (bisect get_block timestamp (sapling_activation_height net) stable_height) (\<lambda>low.
               bind_res (get_block_at get_block low) (\<lambda>crossing.
               if cb_time crossing \<le> timestamp then Inr None
               else bind_res (load_transition_window get_range net low timestamp) (\<lambda>blocks.
                 if blocks = [] \<or> cb_height (last blocks) + 1 \<noteq> cb_height crossing
                 then Inl (YNetwork (Msg ''Timestamp activation search returned a non-contiguous boundary'' []))
                 else derive_activation_from_blocks net (blocks @ [crossing]))))))"

definition known_activation_is_canonical ::
    "(u32 \<Rightarrow> u32 \<Rightarrow> sync_error + 'tx compact_block_data list) \<Rightarrow> u32 \<Rightarrow> network \<Rightarrow> u32 \<Rightarrow> sync_error + bool" where
  "known_activation_is_canonical get_range tip_height net activation =
     (case ironwood_activation_timestamp net of
        None \<Rightarrow> Inr (ironwood_activation_height net = Some activation)
      | Some timestamp \<Rightarrow>
          (case checked_sub activation (ironwood_activation_delay net) of
             None \<Rightarrow> Inr False
           | Some crossing_height \<Rightarrow>
               if tip_height < crossing_height then Inr True
               else bind_res (ok_or (checked_add crossing_height 1)
                      (YNetwork (Msg ''Ironwood crossing height overflow'' []))) (\<lambda>end_exclusive.
                    bind_res (load_transition_window get_range net end_exclusive timestamp) (\<lambda>blocks.
                    bind_res (derive_activation_from_blocks net blocks) (\<lambda>derived.
                      Inr (derived = Some activation))))))"

definition branch_matches ::
    "(pirate_network \<Rightarrow> u32 \<Rightarrow> u32) \<Rightarrow> network_type \<Rightarrow> u32 \<Rightarrow> str \<Rightarrow> u32 option \<Rightarrow> bool" where
  "branch_matches for_height ty height server_branch activation \<longleftrightarrow>
     parse_branch_id server_branch = Some (for_height (with_ironwood_activation_height ty activation) height)"

definition resolve_ironwood_activation_height ::
    "(u32 \<Rightarrow> sync_error + 'tx compact_block_data) \<Rightarrow> (u32 \<Rightarrow> u32 \<Rightarrow> sync_error + 'tx compact_block_data list)
     \<Rightarrow> (pirate_network \<Rightarrow> u32 \<Rightarrow> u32) \<Rightarrow> u32 \<Rightarrow> u64
     \<Rightarrow> network_type \<Rightarrow> u64 \<Rightarrow> str \<Rightarrow> u32 option \<Rightarrow> sync_error + u32 option" where
  "resolve_ironwood_activation_height get_block get_range for_height ironwood_branch now ty tip server_branch known =
     (let net = from_type ty
      in if ironwood_activation_height net \<noteq> None then Inr (ironwood_activation_height net)
         else case ironwood_activation_timestamp net of
           None \<Rightarrow> Inr known
         | Some timestamp \<Rightarrow>
             bind_res (ok_or (u32_try_from tip) (YNetwork (Msg ''Server height out of range: {}'' [uint tip]))) (\<lambda>tip_height.
             bind_res (case known of
                 None \<Rightarrow> Inr False
               | Some k \<Rightarrow> if branch_matches for_height ty tip_height server_branch (Some k)
                   then known_activation_is_canonical get_range tip_height net k else Inr False) (\<lambda>keep.
             if keep then Inr known
             else let server_is_ironwood = (parse_branch_id server_branch = Some ironwood_branch);
                      probe_window = u64_from_u32 (saturating_sub timestamp FULL_NODE_SEARCH_WINDOW_SECONDS)
                  in if \<not> server_is_ironwood \<and> now < probe_window then Inr None
                     else bind_res (discover_mainnet_activation_height get_block get_range tip_height net) (\<lambda>resolved.
                       if server_is_ironwood \<and> resolved = None
                       then Inl (YNetwork (Msg
                         ''Server reports Ironwood at height {}, but the mainnet timestamp transition could not be resolved''
                         [uint tip_height]))
                       else Inr resolved))))"

section \<open>Branch identifiers survive printing and parsing\<close>

lemma hex_digit_hex_char: "d < 16 \<Longrightarrow> hex_digit (hex_char d) = Some d"
  by (auto simp: hex_digit_def hex_char_def)

lemma hex_char_plain:
  assumes "d < 16"
  shows "\<not> is_whitespace (hex_char d)" "hex_char d \<noteq> 0x78" "hex_char d \<noteq> 0x58" "hex_char d \<noteq> 0x2B"
  using assms by (auto simp: is_whitespace_def hex_char_def)

lemma radix16_step:
  "n < 2 ^ 32 \<Longrightarrow> radix16 (n div 16 ^ Suc k) (hex_char (n div 16 ^ k mod 16) # cs) = radix16 (n div 16 ^ k) cs"
proof -
  assume n: "n < 2 ^ 32"
  have eq: "n div 16 ^ Suc k * 16 + n div 16 ^ k mod 16 = n div 16 ^ k"
    using div_mult2_eq [of n "16 ^ k" 16] by (simp add: mult.commute)
  have "n div 16 ^ k < 2 ^ 32" using n by (meson div_le_dividend le_less_trans)
  with eq show ?thesis by (simp add: hex_digit_hex_char del: power_Suc)
qed

lemma radix16_format: "radix16 0 (format_branch_id v) = Some v"
proof -
  let ?n = "unat v"
  have step: "radix16 (?n div 16 ^ j) (hex_char (?n div 16 ^ k mod 16) # cs) = radix16 (?n div 16 ^ k) cs"
    if "j = Suc k" for j k cs
    unfolding that using unat_u32_bound [of v] by (rule radix16_step)
  have "radix16 (?n div 16 ^ 8) (format_branch_id v) = radix16 (?n div 16 ^ 0) []"
    unfolding format_branch_id_def list.map
    by (subst step, simp, subst step, simp, subst step, simp, subst step, simp, subst step, simp,
        subst step, simp, subst step, simp, subst step, simp, rule refl)
  moreover have "?n div 16 ^ 8 = 0" using unat_u32_bound [of v] by simp
  ultimately show ?thesis by simp
qed

lemma trim_id: "\<not> is_whitespace (hd s) \<Longrightarrow> \<not> is_whitespace (last s) \<Longrightarrow> trim s = s"
proof -
  assume "\<not> is_whitespace (hd s)" "\<not> is_whitespace (last s)"
  then have "dropWhile is_whitespace s = s" "dropWhile is_whitespace (rev s) = rev s"
    by (simp_all add: dropWhile_eq_self_iff hd_rev)
  then show ?thesis by (simp add: trim_def)
qed

lemma parse_format_branch_id: "parse_branch_id (format_branch_id v) = Some v"
proof -
  have "trim (format_branch_id v) = format_branch_id v"
    by (rule trim_id) (simp_all add: format_branch_id_def hex_char_plain)
  moreover obtain a b r where f: "format_branch_id v = a # b # r" "a \<noteq> 0x2B" "b \<noteq> 0x78" "b \<noteq> 0x58"
    by (simp add: format_branch_id_def hex_char_plain)
  moreover from f radix16_format [of v] have "from_str_radix16 (a # b # r) = Some v"
    by (simp add: from_str_radix16_def del: radix16.simps)
  ultimately show ?thesis by (auto simp: parse_branch_id_def)
qed

lemma format_branch_id_inject: "format_branch_id v = format_branch_id w \<longleftrightarrow> v = w"
  using parse_format_branch_id by (metis option.inject)

section \<open>What a segment that passes validation holds\<close>

lemma segment_heights_Inr_iff:
  "segment_heights e bs = Inr () \<longleftrightarrow> (\<forall>i < length bs. cb_height (bs ! i) = e + of_nat i)"
proof (induction bs arbitrary: e)
  case (Cons b bs)
  show ?case by (simp add: Cons.IH All_less_Suc2 algebra_simps)
qed simp

lemma u64_from_u32_of_nat: "u64_from_u32 w = of_nat (unat w)"
  by (simp add: u64_from_u32_def)

section \<open>A server that answers from one chain\<close>

definition honest ::
    "(u32 \<Rightarrow> sync_error + 'tx compact_block_data) \<Rightarrow> (u32 \<Rightarrow> u32 \<Rightarrow> sync_error + 'tx compact_block_data list)
     \<Rightarrow> (nat \<Rightarrow> 'tx compact_block_data) \<Rightarrow> u32 \<Rightarrow> bool" where
  "honest get_block get_range chain tip \<longleftrightarrow>
     (\<forall>h. cb_height (chain h) = of_nat h) \<and>
     (\<forall>h. h \<le> tip \<longrightarrow> get_block h = Inr (chain (unat h))) \<and>
     (\<forall>s e. s \<le> e \<longrightarrow> unat e \<le> unat tip + 1 \<longrightarrow> get_range s e = Inr (map chain [unat s..<unat e]))"

lemma honest_block_at: "honest gb gr chain tip \<Longrightarrow> h \<le> tip \<Longrightarrow> get_block_at gb h = Inr (chain (unat h))"
  by (simp add: honest_def get_block_at_def u64_from_u32_of_nat)

lemma honest_segment:
  assumes "honest gb gr chain tip" "s \<le> e"
  shows "validate_contiguous_segment s e (map chain [unat s..<unat e]) = Inr ()"
proof -
  have "segment_heights (u64_from_u32 s) (map chain [unat s..<unat e]) = Inr ()"
    using assms(1) by (simp add: segment_heights_Inr_iff honest_def u64_from_u32_of_nat)
  with assms(2) show ?thesis
    by (simp add: validate_contiguous_segment_def unat_ops word_le_nat_alt)
qed

lemma window_loop_honest:
  assumes "honest gb gr chain tip" "sapling \<le> cursor" "unat cursor \<le> unat tip + 1"
  shows "\<exists>s segs'. window_loop gr sapling cutoff cursor segs = Inr segs' \<and>
     concat (rev segs') = map chain [s..<unat cursor] @ concat (rev segs) \<and>
     unat sapling \<le> s \<and> s \<le> unat cursor \<and> (s = unat sapling \<or> s < unat cursor \<and> cb_time (chain s) < cutoff)"
  using assms
proof (induction gr sapling cutoff cursor segs rule: window_loop.induct)
  case (1 gr sapling cutoff cursor segs)
  note simps = window_loop.simps [of gr sapling cutoff cursor segs]
  show ?case
  proof (cases "sapling < cursor")
    case False
    with 1(3) have "sapling = cursor" by simp
    with simps show ?thesis by (intro exI [of _ "unat cursor"] exI [of _ segs]) simp
  next
    case True
    define start where "start = max (saturating_sub cursor SEARCH_CHUNK_BLOCKS) sapling"
    have less: "unat start < unat cursor" using window_start_less [OF True] by (simp add: start_def)
    have le: "start \<le> cursor" using less by (simp add: word_le_nat_alt)
    have le2: "sapling \<le> start" by (simp add: start_def)
    have gr: "gr start cursor = Inr (map chain [unat start..<unat cursor])"
      using 1(2,4) le by (simp add: honest_def)
    have ok: "validate_contiguous_segment start cursor (map chain [unat start..<unat cursor]) = Inr ()"
      using 1(2) le by (rule honest_segment)
    let ?seg = "map chain [unat start..<unat cursor]"
    show ?thesis
    proof (cases "rposition (\<lambda>b. cb_time b < cutoff) ?seg")
      case (Some i)
      then have i: "i < unat cursor - unat start" "cb_time (chain (unat start + i)) < cutoff"
        using rposition_SomeD [OF Some] by auto
      have "window_loop gr sapling cutoff cursor segs = Inr (segs @ [drop i ?seg])"
        using True Some by (simp add: simps start_def [symmetric] gr ok)
      moreover have "drop i ?seg = map chain [unat start + i..<unat cursor]" by (simp add: drop_map)
      ultimately show ?thesis using i less le2
        by (intro exI [of _ "unat start + i"] exI [of _ "segs @ [drop i ?seg]"]) (auto simp: word_le_nat_alt)
    next
      case None
      show ?thesis
      proof (cases "start = sapling")
        case True': True
        have "window_loop gr sapling cutoff cursor segs = Inr (segs @ [?seg])"
          using True None gr ok by (simp add: simps start_def [symmetric] True')
        then show ?thesis using less True'
          by (intro exI [of _ "unat start"] exI [of _ "segs @ [?seg]"]) auto
      next
        case False
        have "window_loop gr sapling cutoff cursor segs = window_loop gr sapling cutoff start (segs @ [?seg])"
          using True False None by (simp add: simps start_def [symmetric] gr ok)
        moreover obtain s segs' where s: "window_loop gr sapling cutoff start (segs @ [?seg]) = Inr segs'"
            "concat (rev segs') = map chain [s..<unat start] @ concat (rev (segs @ [?seg]))"
            "unat sapling \<le> s" "s \<le> unat start" "s = unat sapling \<or> s < unat start \<and> cb_time (chain s) < cutoff"
          using 1(1) [OF True start_def, of ?seg] None False 1(2-4) le le2 less by auto
        moreover have "map chain [s..<unat start] @ ?seg = map chain [s..<unat cursor]"
          using upt_add_eq_append [OF s(4), of "unat cursor - unat start"] less by (simp flip: map_append)
        then have "concat (rev segs') = map chain [s..<unat cursor] @ concat (rev segs)" using s(2) by simp
        ultimately show ?thesis using less s by (intro exI [of _ s] exI [of _ segs']) auto
      qed
    qed
  qed
qed

lemma load_window_honest:
  assumes "honest gb gr chain tip" "sapling_activation_height net \<le> cursor" "unat cursor \<le> unat tip + 1"
  obtains s where "load_transition_window gr net cursor ts = Inr (map chain [s..<unat cursor])"
    "unat (sapling_activation_height net) \<le> s" "s \<le> unat cursor"
    "s = unat (sapling_activation_height net) \<or>
     s < unat cursor \<and> cb_time (chain s) < saturating_sub ts FULL_NODE_SEARCH_WINDOW_SECONDS"
  using window_loop_honest [OF assms, of "saturating_sub ts FULL_NODE_SEARCH_WINDOW_SECONDS" "[]"]
  by (auto simp: load_transition_window_def)

lemma bisect_honest:
  assumes "honest gb gr chain tip" "low \<le> high" "high \<le> tip" "ts < cb_time (chain (unat high))"
  shows "\<exists>l. bisect gb ts low high = Inr l \<and> low \<le> l \<and> l \<le> high \<and> ts < cb_time (chain (unat l))"
  using assms
proof (induction gb ts low high rule: bisect.induct)
  case (1 gb ts low high)
  note simps = bisect.simps [of gb ts low high]
  show ?case
  proof (cases "low < high")
    case False
    with 1(4) have "low = high" by simp
    with 1(6) simps show ?thesis by simp
  next
    case True
    define m where "m = low + (high - low) div 2"
    have m: "unat low \<le> unat m" "unat m < unat high" using midpoint_less [OF True] by (simp_all add: m_def)
    have m1: "unat (saturating_add m 1) = unat m + 1" using m unat_u32_bound [of high] by (simp add: unat_ops)
    have le: "low \<le> m" "m \<le> high" "m \<le> tip" "saturating_add m 1 \<le> high"
      using m m1 1(5) by (auto simp: word_le_nat_alt)
    have b: "get_block_at gb m = Inr (chain (unat m))" using 1(3) le(3) by (rule honest_block_at)
    show ?thesis
    proof (cases "ts < cb_time (chain (unat m))")
      case up: True
      have "bisect gb ts low high = bisect gb ts low m"
        using True up b by (simp add: simps m_def [symmetric])
      moreover obtain l where "bisect gb ts low m = Inr l" "low \<le> l" "l \<le> m" "ts < cb_time (chain (unat l))"
        using 1(1) [OF True m_def up] 1(3) le up by auto
      ultimately show ?thesis using le(2) by (intro exI [of _ l]) auto
    next
      case down: False
      have "bisect gb ts low high = bisect gb ts (saturating_add m 1) high"
        using True down b by (simp add: simps m_def [symmetric])
      moreover obtain l where "bisect gb ts (saturating_add m 1) high = Inr l" "saturating_add m 1 \<le> l" "l \<le> high"
          "ts < cb_time (chain (unat l))"
        using 1(2) [OF True m_def down] 1(3-6) le by auto
      ultimately show ?thesis using m m1 by (intro exI [of _ l]) (auto simp: word_le_nat_alt)
    qed
  qed
qed

lemma chain_pair:
  assumes "\<And>h. cb_height (chain h) = of_nat h" "Suc n < 2 ^ 32" "ironwood_activation_timestamp net = Some ts"
  shows "derive_activation_from_blocks net (chain n # chain (Suc n) # bs) =
     (case (if cb_time (chain n) \<le> ts \<and> ts < cb_time (chain (Suc n))
            then checked_add (of_nat (Suc n)) (ironwood_activation_delay net) else None) of
        Some h \<Rightarrow> Inr (Some h) | None \<Rightarrow> derive_activation_from_blocks net (chain (Suc n) # bs))"
proof -
  have "of_nat (Suc n) = u64_from_u32 (of_nat (Suc n))"
    using assms(2) by (simp add: u64_from_u32_of_nat unat_of_nat del: of_nat_Suc)
  then have "u32_try_from (of_nat (Suc n)) = Some (of_nat (Suc n))" by (simp only: u32_try_from_Some_iff)
  with assms show ?thesis
    by (simp add: derive_ironwood_activation_height_def add.commute)
qed

lemma derive_chain_none:
  assumes "\<And>h. cb_height (chain h) = of_nat h" "ironwood_activation_timestamp net = Some ts" "e \<le> 2 ^ 32"
    and "\<And>i. s < i \<Longrightarrow> i < e \<Longrightarrow> cb_time (chain i) \<le> ts"
  shows "derive_activation_from_blocks net (map chain [s..<e]) = Inr None"
  using assms(4)
proof (induction "e - s" arbitrary: s)
  case (Suc k)
  show ?case
  proof (cases "Suc s < e")
    case True
    then have split: "map chain [s..<e] = chain s # chain (Suc s) # map chain [Suc (Suc s)..<e]"
      by (simp add: upt_conv_Cons)
    have "\<not> ts < cb_time (chain (Suc s))" using Suc.prems [of "Suc s"] True by simp
    then have "derive_activation_from_blocks net (map chain [s..<e]) = derive_activation_from_blocks net (map chain [Suc s..<e])"
      unfolding split using True assms(3)
      by (subst chain_pair [OF assms(1) _ assms(2)]) (simp_all add: upt_conv_Cons del: derive_activation_from_blocks.simps)
    with Suc True show ?thesis by simp
  next
    case False
    with Suc have "[s..<e] = [s]" by (simp add: upt_conv_Cons)
    then show ?thesis by simp
  qed
qed simp

lemma derive_chain_first:
  assumes "\<And>h. cb_height (chain h) = of_nat h" "ironwood_activation_timestamp net = Some ts" "e \<le> 2 ^ 32"
    and "s < h" "h < e" "\<And>i. s \<le> i \<Longrightarrow> i < h \<Longrightarrow> cb_time (chain i) \<le> ts" "ts < cb_time (chain h)"
    and "h + unat (ironwood_activation_delay net) < 2 ^ 32"
  shows "derive_activation_from_blocks net (map chain [s..<e]) = Inr (Some (of_nat h + ironwood_activation_delay net))"
  using assms(4,6)
proof (induction "h - s" arbitrary: s)
  case (Suc k)
  have split: "map chain [s..<e] = chain s # chain (Suc s) # map chain [Suc (Suc s)..<e]"
    using Suc.prems(1) assms(5) by (simp add: upt_conv_Cons)
  have s: "Suc s < 2 ^ 32" using Suc.prems(1) assms(3,5) by linarith
  show ?case
  proof (cases "Suc s = h")
    case True
    have h: "unat (of_nat h :: u32) = h" using assms(8) by (simp add: unat_of_nat)
    have "checked_add (of_nat (Suc s)) (ironwood_activation_delay net) = Some (of_nat h + ironwood_activation_delay net)"
      unfolding True using h assms(8) by (simp add: checked_add_def)
    moreover have "cb_time (chain s) \<le> ts" using Suc.prems True by simp
    ultimately show ?thesis unfolding split chain_pair [OF assms(1) s assms(2)] using assms(7) True by (simp del: derive_activation_from_blocks.simps)
  next
    case False
    then have "derive_activation_from_blocks net (map chain [s..<e]) = derive_activation_from_blocks net (map chain [Suc s..<e])"
      unfolding split chain_pair [OF assms(1) s assms(2)]
      using Suc.prems(1) Suc.prems(2) [of "Suc s"] assms(5)
      by (simp add: upt_conv_Cons not_less [symmetric] del: derive_activation_from_blocks.simps)
    with Suc False show ?thesis by simp
  qed
qed simp

text \<open>
  The first block dated after the timestamp, and that no later block is dated before the search
  window (24 hours before the timestamp).
\<close>

definition first_crossing :: "(nat \<Rightarrow> 'tx compact_block_data) \<Rightarrow> nat \<Rightarrow> u32 \<Rightarrow> nat \<Rightarrow> bool" where
  "first_crossing chain sapling ts h \<longleftrightarrow>
     sapling < h \<and> ts < cb_time (chain h) \<and> (\<forall>i. sapling \<le> i \<and> i < h \<longrightarrow> cb_time (chain i) \<le> ts)"

definition settled_after :: "(nat \<Rightarrow> 'tx compact_block_data) \<Rightarrow> u32 \<Rightarrow> nat \<Rightarrow> nat \<Rightarrow> bool" where
  "settled_after chain ts h tip \<longleftrightarrow>
     (\<forall>j. h \<le> j \<and> j \<le> tip \<longrightarrow> saturating_sub ts FULL_NODE_SEARCH_WINDOW_SECONDS \<le> cb_time (chain j))"

lemma window_start_before_crossing:
  assumes "first_crossing chain sapling ts h" "settled_after chain ts h tip" "e \<le> tip + 1"
    and "s = sapling \<or> s < e \<and> cb_time (chain s) < saturating_sub ts FULL_NODE_SEARCH_WINDOW_SECONDS"
  shows "s < h"
  using assms by (auto simp: first_crossing_def settled_after_def) (metis Suc_leI leI le_trans not_less_eq_eq Suc_eq_plus1 not_less)

lemma discover_honest:
  assumes honest: "honest gb gr chain tip" and ts: "ironwood_activation_timestamp net = Some ts"
    and first: "first_crossing chain (unat (sapling_activation_height net)) ts h"
    and settled: "settled_after chain ts h (unat tip)"
    and stable: "h + 30 \<le> unat tip" "ts < cb_time (chain (unat tip - 30))"
    and room: "unat tip + unat (ironwood_activation_delay net) < 2 ^ 32"
  shows "discover_mainnet_activation_height gb gr tip net = Inr (Some (of_nat h + ironwood_activation_delay net))"
proof -
  let ?sap = "sapling_activation_height net"
  define st where "st = tip - FULL_NODE_LOOKBACK_BLOCKS"
  have st: "unat st = unat tip - 30" "\<not> tip \<le> FULL_NODE_LOOKBACK_BLOCKS" "st \<le> tip"
    using stable(1) first by (auto simp: st_def FULL_NODE_LOOKBACK_BLOCKS_def unat_sub word_le_nat_alt first_crossing_def)
  have heights: "\<And>h. cb_height (chain h) = of_nat h" using honest by (simp add: honest_def)
  have "unat ?sap < h" using first by (simp add: first_crossing_def)
  then have sap: "?sap \<le> st" using stable(1) st(1) unfolding word_le_nat_alt by linarith
  obtain low where low: "bisect gb ts ?sap st = Inr low" "?sap \<le> low" "low \<le> st" "ts < cb_time (chain (unat low))"
    using bisect_honest [OF honest sap st(3)] stable(2) st(1) by auto
  have low_tip: "low \<le> tip" "unat low \<le> unat tip" using low(3) st(3) by (auto simp: word_le_nat_alt)
  have h: "h \<le> unat low"
    using first low(2,4) by (metis first_crossing_def leD leI word_le_nat_alt)
  obtain s where s: "load_transition_window gr net low ts = Inr (map chain [s..<unat low])"
      "unat ?sap \<le> s" "s = unat ?sap \<or> s < unat low \<and> cb_time (chain s) < saturating_sub ts FULL_NODE_SEARCH_WINDOW_SECONDS"
    using load_window_honest [OF honest low(2)] low_tip by (metis le_SucI Suc_eq_plus1)
  have sh: "s < h" using first settled _ s(3) by (rule window_start_before_crossing) (use low_tip in simp)
  have blocks: "map chain [s..<unat low] @ [chain (unat low)] = map chain [s..<Suc (unat low)]"
    using sh h by simp
  have last: "[s..<unat low] \<noteq> []" "last [s..<unat low] = unat low - 1"
    using sh h by auto
  have "Suc (unat low - 1) = unat low" using sh h by simp
  then have "of_nat (unat low - 1) + 1 = (of_nat (unat low) :: u64)" by (metis of_nat_Suc add.commute)
  then have adj: "cb_height (last (map chain [s..<unat low])) + 1 = cb_height (chain (unat low))"
    by (simp only: last_map [OF last(1)] last(2) heights)
  have "derive_activation_from_blocks net (map chain [s..<Suc (unat low)]) =
      Inr (Some (of_nat h + ironwood_activation_delay net))"
    using first s(2) h sh room low_tip
    by (intro derive_chain_first [OF heights ts]) (auto simp: first_crossing_def)
  then show ?thesis
    using st(2) ts honest_block_at [OF honest st(3)] honest_block_at [OF honest low_tip(1)] stable(2) low(1,4) st(1) s(1) last(1) adj
    by (simp add: discover_mainnet_activation_height_def st_def [symmetric] blocks not_less [symmetric] del: upt_Suc)
qed

lemma known_honest:
  assumes honest: "honest gb gr chain tip" and ts: "ironwood_activation_timestamp net = Some ts"
    and first: "first_crossing chain (unat (sapling_activation_height net)) ts h"
    and settled: "settled_after chain ts h (unat tip)"
    and h: "h + 30 \<le> unat tip"
    and room: "unat tip + unat (ironwood_activation_delay net) < 2 ^ 32" "0 < ironwood_activation_delay net"
    and reached: "unat k \<le> unat tip + unat (ironwood_activation_delay net)"
  shows "known_activation_is_canonical gr tip net k = Inr (k = of_nat h + ironwood_activation_delay net)"
proof (cases "checked_sub k (ironwood_activation_delay net)")
  case None
  have "unat (of_nat h + ironwood_activation_delay net) = h + unat (ironwood_activation_delay net)"
    using h room(1) by (simp add: unat_word_ariths unat_of_nat)
  with None have "k \<noteq> of_nat h + ironwood_activation_delay net"
    by (auto simp: checked_sub_def word_le_nat_alt split: if_splits)
  with None ts show ?thesis by (simp add: known_activation_is_canonical_def)
next
  case (Some c)
  let ?sap = "sapling_activation_height net" and ?d = "ironwood_activation_delay net"
  from Some have c: "unat ?d \<le> unat k" "unat c = unat k - unat ?d" by (simp_all add: checked_sub_Some_iff)
  have ctip: "unat c \<le> unat tip" using c reached by simp
  have d: "0 < unat ?d" using room(2) by (simp add: word_less_nat_alt)
  have c1: "checked_add c 1 = Some (c + 1)" "unat (c + 1) = unat c + 1"
    using ctip room(1) d by (auto simp: checked_add_def unat_word_ariths)
  have hd: "unat (of_nat h + ?d) = h + unat ?d" using h room(1) by (simp add: unat_word_ariths unat_of_nat)
  have eq: "k = of_nat h + ?d \<longleftrightarrow> unat c = h"
    using c hd by (auto simp: word_unat_eq_iff)
  have heights: "\<And>h. cb_height (chain h) = of_nat h" using honest by (simp add: honest_def)
  have "\<exists>bs. load_transition_window gr net (c + 1) ts = Inr bs \<and>
      derive_activation_from_blocks net bs = Inr (if h \<le> unat c then Some (of_nat h + ?d) else None)"
  proof (cases "?sap \<le> c + 1")
    case False
    then have "\<not> ?sap < c + 1" by simp
    then have "load_transition_window gr net (c + 1) ts = Inr []"
      by (simp add: load_transition_window_def window_loop.simps [of gr "sapling_activation_height net"])
    moreover have "\<not> h \<le> unat c" using False first c1(2) by (simp add: first_crossing_def word_le_nat_alt)
    ultimately show ?thesis by simp
  next
    case True
    obtain s where s: "load_transition_window gr net (c + 1) ts = Inr (map chain [s..<unat (c + 1)])"
        "unat ?sap \<le> s" "s = unat ?sap \<or> s < unat (c + 1) \<and> cb_time (chain s) < saturating_sub ts FULL_NODE_SEARCH_WINDOW_SECONDS"
      using load_window_honest [OF honest True] c1(2) ctip by (metis add_le_mono1)
    have sh: "s < h" using first settled _ s(3) by (rule window_start_before_crossing) (use ctip c1(2) in simp)
    have e: "unat (c + 1) \<le> 2 ^ 32" using unat_u32_bound [of "c + 1"] by simp
    have "derive_activation_from_blocks net (map chain [s..<unat (c + 1)]) =
        Inr (if h \<le> unat c then Some (of_nat h + ?d) else None)"
    proof (cases "h \<le> unat c")
      case True
      then have "derive_activation_from_blocks net (map chain [s..<unat (c + 1)]) = Inr (Some (of_nat h + ?d))"
        using first s(2) sh c1(2) h room(1)
        by (intro derive_chain_first [OF heights ts e]) (auto simp: first_crossing_def)
      with True show ?thesis by simp
    next
      case False
      then have "derive_activation_from_blocks net (map chain [s..<unat (c + 1)]) = Inr None"
        using first s(2) c1(2) by (intro derive_chain_none [OF heights ts e]) (auto simp: first_crossing_def)
      with False show ?thesis by simp
    qed
    with s(1) show ?thesis by blast
  qed
  then obtain bs where bs: "load_transition_window gr net (c + 1) ts = Inr bs"
      "derive_activation_from_blocks net bs = Inr (if h \<le> unat c then Some (of_nat h + ?d) else None)" by blast
  have "(if h \<le> unat c then Some (of_nat h + ?d) else None) = Some k \<longleftrightarrow> k = of_nat h + ?d"
    using eq by auto
  moreover have "\<not> tip < c" using ctip by (simp add: word_less_nat_alt)
  ultimately show ?thesis
    using ts Some c1(1) bs by (simp add: known_activation_is_canonical_def)
qed

section \<open>What any server can make the wallet accept\<close>

text \<open>The blocks a server has served in answer to some request.\<close>

definition served ::
    "(u32 \<Rightarrow> sync_error + 'tx compact_block_data) \<Rightarrow> (u32 \<Rightarrow> u32 \<Rightarrow> sync_error + 'tx compact_block_data list)
     \<Rightarrow> 'tx compact_block_data \<Rightarrow> bool" where
  "served get_block get_range b \<longleftrightarrow>
     (\<exists>h. get_block h = Inr b) \<or> (\<exists>s e bs. get_range s e = Inr bs \<and> b \<in> set bs)"

text \<open>Two consecutive blocks between which the timestamp is crossed, and the height they imply.\<close>

definition crossing_pair ::
    "network \<Rightarrow> u32 \<Rightarrow> 'tx compact_block_data \<Rightarrow> 'tx compact_block_data \<Rightarrow> u32 \<Rightarrow> bool" where
  "crossing_pair net ts p c a \<longleftrightarrow>
     cb_height c = cb_height p + 1 \<and> cb_time p \<le> ts \<and> ts < cb_time c \<and>
     (\<exists>h. cb_height c = u64_from_u32 h \<and> checked_add h (ironwood_activation_delay net) = Some a)"

lemma derive_activation_sound:
  assumes "ironwood_activation_timestamp net = Some ts" "derive_activation_from_blocks net bs = Inr (Some a)"
  obtains p c where "p \<in> set bs" "c \<in> set bs" "crossing_pair net ts p c a"
  using assms
proof (induction net bs arbitrary: thesis rule: derive_activation_from_blocks.induct)
  case (1 net previous current blocks)
  from 1(4) obtain h where h: "cb_height current = cb_height previous + 1" "u32_try_from (cb_height current) = Some h"
    by (auto split: if_splits option.splits)
  show ?case
  proof (cases "derive_ironwood_activation_height net (cb_time previous) h (cb_time current)")
    case None
    with 1(4) h have "derive_activation_from_blocks net (current # blocks) = Inr (Some a)" by simp
    with 1(1) [OF _ h(2) None _ 1(3)] h(1) obtain p c where "p \<in> set (current # blocks)" "c \<in> set (current # blocks)"
      "crossing_pair net ts p c a" by metis
    then show ?thesis using 1(2) by auto
  next
    case (Some a')
    with 1(4) h have "a' = a" by simp
    with Some h 1(3) have "crossing_pair net ts previous current a"
      by (auto simp: crossing_pair_def derive_ironwood_activation_height_def u32_try_from_Some_iff split: if_splits)
    then show ?thesis using 1(2) [of previous current] by simp
  qed
qed simp_all

lemma window_loop_served:
  assumes "window_loop gr sapling cutoff cursor segs = Inr segs'" "\<forall>b \<in> set (concat segs). served gb gr b"
  shows "\<forall>b \<in> set (concat segs'). served gb gr b"
  using assms
proof (induction gr sapling cutoff cursor segs rule: window_loop.induct)
  case (1 gr sapling cutoff cursor segs)
  note run = 1(2) [unfolded window_loop.simps [of gr sapling cutoff cursor segs]]
  show ?case
  proof (cases "sapling < cursor")
    case False
    with run 1(3) show ?thesis by simp
  next
    case True
    define start where "start = max (saturating_sub cursor SEARCH_CHUNK_BLOCKS) sapling"
    from run True obtain seg where seg: "gr start cursor = Inr seg" "validate_contiguous_segment start cursor seg = Inr ()"
      by (auto simp: start_def [symmetric] bind_res_Inr_iff)
    have new: "\<forall>b \<in> set (concat (segs @ [seg])). served gb gr b"
      using 1(3) seg(1) by (auto simp: served_def)
    show ?thesis
    proof (cases "rposition (\<lambda>b. cb_time b < cutoff) seg")
      case (Some i)
      with run True seg have "segs' = segs @ [drop i seg]" by (simp add: start_def [symmetric])
      with new show ?thesis by (auto dest: in_set_dropD)
    next
      case None
      show ?thesis
      proof (cases "start = sapling")
        case same: True
        with run True seg None have "segs' = segs @ [seg]" by (simp add: start_def [symmetric])
        with new show ?thesis by simp
      next
        case False
        with run True seg None have "window_loop gr sapling cutoff start (segs @ [seg]) = Inr segs'"
          by (simp add: start_def [symmetric])
        then show ?thesis using 1(1) [OF True start_def None False] new by blast
      qed
    qed
  qed
qed

lemma load_window_served:
  assumes "load_transition_window gr net e ts = Inr bs" "b \<in> set bs"
  shows "served gb gr b"
proof -
  from assms(1) obtain segs where run: "window_loop gr (sapling_activation_height net)
      (saturating_sub ts FULL_NODE_SEARCH_WINDOW_SECONDS) e [] = Inr segs" and bs: "bs = concat (rev segs)"
    by (auto simp: load_transition_window_def bind_res_Inr_iff Let_def)
  have "\<forall>b \<in> set (concat segs). served gb gr b" using run by (rule window_loop_served) simp
  with assms(2) bs show ?thesis by auto
qed

lemma discover_sound:
  assumes "ironwood_activation_timestamp net = Some ts" "discover_mainnet_activation_height gb gr tip net = Inr (Some a)"
  obtains p c where "served gb gr p" "served gb gr c" "crossing_pair net ts p c a"
proof -
  from assms obtain low crossing bs where d: "get_block_at gb low = Inr crossing"
      "load_transition_window gr net low ts = Inr bs" "derive_activation_from_blocks net (bs @ [crossing]) = Inr (Some a)"
    by (auto simp: discover_mainnet_activation_height_def bind_res_Inr_iff Let_def split: if_splits)
  have "served gb gr b" if "b \<in> set (bs @ [crossing])" for b
    using that d(1) load_window_served [OF d(2)]
    by (auto simp: served_def get_block_at_def bind_res_Inr_iff split: if_splits)
  with derive_activation_sound [OF assms(1) d(3)] that show ?thesis by metis
qed

section \<open>Properties\<close>

lemma mainnet_activation [simp]:
  "ironwood_activation_height mainnet = None"
  "ironwood_activation_timestamp mainnet = Some MAINNET_IRONWOOD_ACTIVATION_TIMESTAMP"
  "ironwood_activation_delay mainnet = 60" "sapling_activation_height mainnet = 152855"
  by (simp_all add: mainnet_def MAINNET_IRONWOOD_ACTIVATION_DELAY_def)

text \<open>
  Observation. A server is accepted exactly when the branch identifier it reports, read as a
  hexadecimal number with or without prefix and white space, is the one the wallet's schedule
  has at that height; printing and reading identifiers loses nothing, and a height above the
  32-bit range is refused.
\<close>

lemma consensus_check_exact:
  "(\<forall>h. u32_try_from height = Some h \<longrightarrow>
     (\<exists>chk. check_consensus_branch_with_activation_height for_height ty height branch activation = Inr chk \<and>
       (require_match chk = Inr () \<longleftrightarrow>
          parse_branch_id branch = Some (for_height (with_ironwood_activation_height ty activation) h)))) \<and>
   (u32_try_from height = None \<longrightarrow>
     check_consensus_branch_with_activation_height for_height ty height branch activation =
       Inl (YNetwork (Msg ''Server height out of range: {}'' [uint height]))) \<and>
   parse_branch_id (format_branch_id v) = Some v"
  by (auto simp: check_consensus_branch_with_activation_height_def require_match_def check_is_valid_def
      format_branch_id_inject parse_format_branch_id)

theorem consensus_check_exact_witness:
  "\<exists>chk. check_consensus_branch_with_activation_height (\<lambda>_ _. 0x2BB40E60) Mainnet 4000000 (format_branch_id 0x2BB40E60) None = Inr chk \<and>
     require_match chk = Inr ()"
  using consensus_check_exact [where height = 4000000 and for_height = "\<lambda>_ _. 0x2BB40E60" and ty = Mainnet
      and branch = "format_branch_id 0x2BB40E60" and activation = None and v = "0x2BB40E60"]
  by (auto simp: u32_try_from_def)


definition example_chain :: "nat \<Rightarrow> unit compact_block_data" where
  "example_chain h = \<lparr>proto_version = 1, cb_height = of_nat h, cb_hash = [], cb_prev_hash = [],
     cb_time = (if h < 200000 then MAINNET_IRONWOOD_ACTIVATION_TIMESTAMP - 7 else MAINNET_IRONWOOD_ACTIVATION_TIMESTAMP + 7),
     cb_header = [], cb_transactions = []\<rparr>"


text \<open>
  Observation. No server, honest or not, can make the wallet invent an activation height: with
  nothing cached, a resolved mainnet height is 60 past the second of two blocks the server
  served, consecutive in height and on either side of the timestamp; and a server that reports
  Ironwood gets either such a height or an error, never silence.
\<close>

lemma activation_never_invented:
  assumes "resolve_ironwood_activation_height gb gr for_height ironwood now Mainnet tip branch None = Inr r"
  shows "(\<forall>a. r = Some a \<longrightarrow> (\<exists>p c. served gb gr p \<and> served gb gr c \<and>
      crossing_pair mainnet MAINNET_IRONWOOD_ACTIVATION_TIMESTAMP p c a)) \<and>
    (parse_branch_id branch = Some ironwood \<longrightarrow> r \<noteq> None)"
proof -
  from assms obtain t where t: "r = None \<and> parse_branch_id branch \<noteq> Some ironwood \<or>
      discover_mainnet_activation_height gb gr t mainnet = Inr r \<and> \<not> (parse_branch_id branch = Some ironwood \<and> r = None)"
    by (auto simp: resolve_ironwood_activation_height_def Let_def bind_res_Inr_iff split: if_splits)
  have "\<exists>p c. served gb gr p \<and> served gb gr c \<and> crossing_pair mainnet MAINNET_IRONWOOD_ACTIVATION_TIMESTAMP p c a"
    if "r = Some a" for a
    using t that by (auto elim!: discover_sound [OF mainnet_activation(2)])
  with t show ?thesis by auto
qed

theorem activation_never_invented_witness:
  "\<exists>p c. served (\<lambda>h. Inr (example_chain (unat h))) (\<lambda>s e. Inr (map example_chain [unat s..<unat e])) p \<and>
     served (\<lambda>h. Inr (example_chain (unat h))) (\<lambda>s e. Inr (map example_chain [unat s..<unat e])) c \<and>
     crossing_pair mainnet MAINNET_IRONWOOD_ACTIVATION_TIMESTAMP p c 200060"
proof -
  have "resolve_ironwood_activation_height (\<lambda>h. Inr (example_chain (unat h))) (\<lambda>s e. Inr (map example_chain [unat s..<unat e]))
     (\<lambda>_ _. 7) 5 0 Mainnet (u64_from_u32 200100) (format_branch_id 5) None = Inr (Some 200060)"
    using discover_honest [of "\<lambda>h. Inr (example_chain (unat h))" "\<lambda>s e. Inr (map example_chain [unat s..<unat e])"
        example_chain 200100 mainnet _ 200000] u32_try_from_Some_iff [of "u64_from_u32 200100" 200100]
    by (simp add: honest_def first_crossing_def settled_after_def example_chain_def MAINNET_IRONWOOD_ACTIVATION_TIMESTAMP_def
        saturating_sub_def FULL_NODE_SEARCH_WINDOW_SECONDS_def resolve_ironwood_activation_height_def parse_format_branch_id)
  from activation_never_invented [OF this] show ?thesis by simp
qed

end
