(* ===== verification/Builder.thy ===== *)
theory Builder
  imports Selection Memo Activation
begin

text \<open>
  Transaction construction of \<open>pirate-core\<close>: the shielded builder (\<open>shielded_builder.rs\<close>) and
  the older Sapling-only builder (\<open>transaction.rs\<close>): choice of fee, note selection, change and
  dust, the anchors the selected notes agree on, the key that signs each spend, the outputs
  and where the change goes.

  Keys, addresses, notes, paths, anchors and memo bytes are values of the Zcash crates and are
  opaque types here; the operations of those crates the builders call are the fields of the
  record \<open>tx_lib\<close>. The state of the crate's own transaction builder is the list of calls it
  has accepted (\<open>builder_call\<close>), so that what a built transaction spends and pays can be read
  off the calls: a plan (\<open>build_plan\<close>) is everything handed to the crate before it proves and
  serialises. \<open>iter().sum()\<close> wraps around at 64 bits, as it does in a release build.
\<close>

section \<open>What the Zcash crates provide\<close>

typedecl sapling_spending_key
typedecl sapling_extsk
typedecl sapling_fvk
typedecl sapling_ovk
typedecl sapling_address
typedecl sapling_anchor
typedecl ironwood_spending_key
typedecl orchard_fvk
typedecl orchard_ovk
typedecl orchard_address
typedecl spend_authorizing_key
typedecl memo_bytes

record build_config =
  cfg_network :: pirate_network
  cfg_height :: u32
  cfg_sapling_anchor :: "sapling_anchor option"
  cfg_ironwood_anchor :: "orchard_anchor option"

datatype builder_call =
    AddSaplingSpend sapling_fvk sapling_note sapling_merkle_path
  | AddIronwoodSpend orchard_fvk orchard_note orchard_merkle_path
  | AddSaplingOutput "sapling_ovk option" sapling_address u64 memo_bytes
  | AddIronwoodOutput "orchard_ovk option" orchard_address u64 memo_bytes

record tx_lib =
  sapling_fvk_of :: "sapling_spending_key \<Rightarrow> sapling_fvk"
  sapling_ovk_of :: "sapling_spending_key \<Rightarrow> sapling_ovk"
  address_from_diversifier :: "sapling_spending_key \<Rightarrow> sapling_diversifier \<Rightarrow> sapling_address option"
  derive_internal :: "sapling_spending_key \<Rightarrow> sapling_spending_key"
  sapling_internal_address :: "sapling_spending_key \<Rightarrow> u32 \<Rightarrow> sapling_address"
  sapling_inner :: "sapling_spending_key \<Rightarrow> sapling_extsk"
  note_recipient :: "sapling_note \<Rightarrow> sapling_address"
  note_root :: "sapling_note \<Rightarrow> sapling_merkle_path \<Rightarrow> sapling_anchor"
  empty_tree_anchor :: sapling_anchor
  ironwood_fvk_of :: "ironwood_spending_key \<Rightarrow> orchard_fvk"
  ironwood_ovk_of :: "ironwood_spending_key \<Rightarrow> orchard_ovk"
  ironwood_internal_address :: "ironwood_spending_key \<Rightarrow> u32 \<Rightarrow> orchard_address"
  spend_auth_of :: "ironwood_spending_key \<Rightarrow> spend_authorizing_key"
  empty_memo_bytes :: memo_bytes
  memo_bytes_from :: "bytes \<Rightarrow> unit + memo_bytes"
  amount_ok :: "u64 \<Rightarrow> bool"
  sapling_prover :: "core_error + unit"
  accepts :: "build_config \<Rightarrow> builder_call list \<Rightarrow> builder_call \<Rightarrow> bool"
  build_tx :: "build_config \<Rightarrow> builder_call list \<Rightarrow> sapling_extsk list \<Rightarrow> spend_authorizing_key list \<Rightarrow> u64
    \<Rightarrow> (bytes \<times> bytes) option"

section \<open>Outputs and the builder's state (shielded_builder.rs)\<close>

datatype shielded_output =
    SaplingOut sapling_address u64 "memo option"
  | IronwoodOut orchard_address u64 "memo option"

fun out_amount :: "shielded_output \<Rightarrow> u64" where
  "out_amount (SaplingOut _ amount _) = amount"
| "out_amount (IronwoodOut _ amount _) = amount"

fun out_memo :: "shielded_output \<Rightarrow> memo option" where
  "out_memo (SaplingOut _ _ memo) = memo"
| "out_memo (IronwoodOut _ _ memo) = memo"

fun is_ironwood_out :: "shielded_output \<Rightarrow> bool" where
  "is_ironwood_out (SaplingOut _ _ _) = False"
| "is_ironwood_out (IronwoodOut _ _ _) = True"

record shielded_builder =
  sb_outputs :: "shielded_output list"
  fee_override :: "u64 option"
  sb_network :: pirate_network
  auto_consolidation_extra_limit :: nat

definition with_network_and_ironwood_activation_height :: "network_type \<Rightarrow> u32 option \<Rightarrow> shielded_builder" where
  "with_network_and_ironwood_activation_height ty activation =
     \<lparr>sb_outputs = [], fee_override = None, sb_network = with_ironwood_activation_height ty activation,
      auto_consolidation_extra_limit = 0\<rparr>"

definition shielded_builder_new :: shielded_builder where
  "shielded_builder_new = \<lparr>sb_outputs = [], fee_override = None, sb_network = pirate_network_new Mainnet,
     auto_consolidation_extra_limit = 0\<rparr>"

definition with_auto_consolidation_extra_limit :: "nat \<Rightarrow> shielded_builder \<Rightarrow> shielded_builder" where
  "with_auto_consolidation_extra_limit n b = b\<lparr>auto_consolidation_extra_limit := n\<rparr>"

definition with_fee_per_action :: "u64 \<Rightarrow> shielded_builder \<Rightarrow> shielded_builder" where
  "with_fee_per_action fee b = b\<lparr>fee_override := Some fee\<rparr>"

text \<open>The checks both \<open>add_*_output\<close> functions make.\<close>

definition check_output :: "u64 \<Rightarrow> memo option \<Rightarrow> core_error + unit" where
  "check_output amount memo =
     (if amount = 0 then Inl (InvalidAmount (Msg ''Amount cannot be zero'' []))
      else case memo of None \<Rightarrow> Inr () | Some m \<Rightarrow> validate_memo m)"

definition add_sapling_output ::
    "sapling_address \<Rightarrow> u64 \<Rightarrow> memo option \<Rightarrow> shielded_builder \<Rightarrow> core_error + shielded_builder" where
  "add_sapling_output address amount memo b =
     bind_res (check_output amount memo) (\<lambda>_. Inr (b\<lparr>sb_outputs := sb_outputs b @ [SaplingOut address amount memo]\<rparr>))"

definition add_ironwood_output ::
    "orchard_address \<Rightarrow> u64 \<Rightarrow> memo option \<Rightarrow> shielded_builder \<Rightarrow> core_error + shielded_builder" where
  "add_ironwood_output address amount memo b =
     bind_res (check_output amount memo) (\<lambda>_. Inr (b\<lparr>sb_outputs := sb_outputs b @ [IronwoodOut address amount memo]\<rparr>))"

section \<open>Amounts: fee, selection, change\<close>

definition sum_u64 :: "u64 list \<Rightarrow> u64" where
  "sum_u64 xs = foldl (+) 0 xs"

text \<open>The fee the notes are selected for, and the fee once the number of inputs is known.\<close>

definition estimated_fee :: "u64 option \<Rightarrow> nat \<Rightarrow> bool \<Rightarrow> core_error + u64" where
  "estimated_fee over num_outputs has_memo =
     (case over of
        Some fee \<Rightarrow> bind_res (validate_fee fee) (\<lambda>_. Inr fee)
      | None \<Rightarrow> calculate_fee 2 num_outputs has_memo)"

definition actual_fee :: "u64 option \<Rightarrow> nat \<Rightarrow> nat \<Rightarrow> bool \<Rightarrow> core_error + u64" where
  "actual_fee over num_inputs num_outputs has_memo =
     (case over of Some fee \<Rightarrow> Inr fee | None \<Rightarrow> calculate_fee num_inputs num_outputs has_memo)"

definition change_and_fee :: "u64 \<Rightarrow> u64 \<Rightarrow> u64 \<Rightarrow> core_error + effective_fee_and_change" where
  "change_and_fee total_input output_sum fee =
     bind_res (ok_or (checked_add output_sum fee) (AmountOverflow (Msg ''Output + fee overflow'' []))) (\<lambda>total_output.
     bind_res (ok_or (checked_sub total_input total_output)
       (InsufficientFunds (Msg ''Need {} but have {}'' [uint total_output, uint total_input]))) (\<lambda>change.
       apply_dust_policy_add_to_fee fee change))"

text \<open>
  The common course of both builders up to the change: select for the estimated fee, then
  compute fee and change from what was selected.
\<close>

definition plan_amounts ::
    "(u64 \<Rightarrow> u64 \<Rightarrow> core_error + selection_result) \<Rightarrow> u64 option \<Rightarrow> u64 list \<Rightarrow> bool
     \<Rightarrow> core_error + selection_result \<times> effective_fee_and_change" where
  "plan_amounts select over amounts has_memo =
     bind_res (estimated_fee over (length amounts) has_memo) (\<lambda>est.
     bind_res (select (sum_u64 amounts) est) (\<lambda>selection.
     bind_res (actual_fee over (length (sel_notes selection)) (length amounts) has_memo) (\<lambda>fee.
     bind_res (change_and_fee (total_value selection) (sum_u64 amounts) fee) (\<lambda>eff.
       Inr (selection, eff)))))"

section \<open>The Sapling-only builder (transaction.rs)\<close>

record transaction_output =
  to_address :: sapling_address
  to_amount :: u64
  to_memo :: "memo option"

record transaction_builder =
  tb_outputs :: "transaction_output list"
  tb_fee_override :: "u64 option"
  tb_network :: pirate_network

definition add_output ::
    "sapling_address \<Rightarrow> u64 \<Rightarrow> memo option \<Rightarrow> transaction_builder \<Rightarrow> core_error + transaction_builder" where
  "add_output address amount memo b =
     bind_res (check_output amount memo) (\<lambda>_.
       Inr (b\<lparr>tb_outputs := tb_outputs b @ [\<lparr>to_address = address, to_amount = amount, to_memo = memo\<rparr>]\<rparr>))"

text \<open>A pending transaction without its random identifier.\<close>

record pending_transaction =
  pt_outputs :: "transaction_output list"
  input_value :: u64
  output_value :: u64
  pt_fee :: u64
  pt_change :: u64

definition build_pending :: "transaction_builder \<Rightarrow> selectable_note list \<Rightarrow> core_error + pending_transaction" where
  "build_pending b available =
     bind_res (plan_amounts (select_notes SmallestFirst available) (tb_fee_override b) (map to_amount (tb_outputs b))
       (list_ex (\<lambda>o'. to_memo o' \<noteq> None) (tb_outputs b))) (\<lambda>(selection, eff).
       Inr \<lparr>pt_outputs = tb_outputs b, input_value = total_value selection,
         output_value = sum_u64 (map to_amount (tb_outputs b)), pt_fee = eff_fee eff, pt_change = eff_change eff\<rparr>)"

section \<open>Anchors\<close>

fun selected_sapling_anchor ::
    "tx_lib \<Rightarrow> selectable_note list \<Rightarrow> sapling_anchor option \<Rightarrow> core_error + sapling_anchor option" where
  "selected_sapling_anchor lib [] acc = Inr acc"
| "selected_sapling_anchor lib (n # ns) acc =
     (if note_type n \<noteq> Sapling then selected_sapling_anchor lib ns acc
      else bind_res (ok_or (the_note n)
             (TransactionBuild (Msg ''Missing Sapling note data for selected Sapling spend note'' []))) (\<lambda>nt.
           bind_res (ok_or (merkle_path n)
             (TransactionBuild (Msg ''Missing Sapling witness path for selected Sapling spend note'' []))) (\<lambda>path.
           let note_anchor = note_root lib nt path
           in case acc of
             Some existing \<Rightarrow>
               if existing \<noteq> note_anchor
               then Inl (TransactionBuild (Msg ''Selected Sapling spend notes are not anchored to a single root'' []))
               else selected_sapling_anchor lib ns acc
           | None \<Rightarrow> selected_sapling_anchor lib ns (Some note_anchor))))"

fun selected_ironwood_anchor :: "selectable_note list \<Rightarrow> orchard_anchor option \<Rightarrow> core_error + orchard_anchor option" where
  "selected_ironwood_anchor [] acc = Inr acc"
| "selected_ironwood_anchor (n # ns) acc =
     (if note_type n \<noteq> Ironwood then selected_ironwood_anchor ns acc
      else bind_res (ok_or (ironwood_anchor n)
             (TransactionBuild (Msg ''Missing Ironwood anchor for selected Ironwood spend note'' []))) (\<lambda>note_anchor.
           case acc of
             Some existing \<Rightarrow>
               if existing \<noteq> note_anchor
               then Inl (TransactionBuild (Msg ''Selected Ironwood spend notes are not anchored to a single root'' []))
               else selected_ironwood_anchor ns acc
           | None \<Rightarrow> selected_ironwood_anchor ns (Some note_anchor)))"

definition effective_sapling_anchor ::
    "tx_lib \<Rightarrow> selectable_note list \<Rightarrow> bool \<Rightarrow> core_error + sapling_anchor option" where
  "effective_sapling_anchor lib notes has_sapling_outputs =
     (if list_ex (\<lambda>n. note_type n = Sapling) notes
      then bind_res (selected_sapling_anchor lib notes None) (\<lambda>a.
           bind_res (ok_or a (TransactionBuild (Msg ''Missing Sapling anchor for selected Sapling spend set'' []))) (\<lambda>x.
             Inr (Some x)))
      else if has_sapling_outputs then Inr (Some (empty_tree_anchor lib))
      else Inr None)"

definition effective_ironwood_anchor ::
    "selectable_note list \<Rightarrow> bool \<Rightarrow> orchard_anchor option \<Rightarrow> core_error + orchard_anchor option" where
  "effective_ironwood_anchor notes has_orchard_outputs provided =
     (if list_ex (\<lambda>n. note_type n = Ironwood) notes
      then bind_res (selected_ironwood_anchor notes None) (\<lambda>a.
           bind_res (ok_or a (TransactionBuild (Msg ''Missing Ironwood anchor for selected Ironwood spend set'' []))) (\<lambda>selected.
             if provided \<noteq> None \<and> provided \<noteq> Some selected
             then Inl (TransactionBuild (Msg ''Provided Ironwood anchor does not match selected spend-note anchor'' []))
             else Inr (Some selected)))
      else if has_orchard_outputs then Inr provided
      else Inr None)"

section \<open>Spends\<close>

record multi_inputs =
  default_sapling_key :: sapling_spending_key
  default_ironwood_key :: "ironwood_spending_key option"
  sapling_keys_by_id :: "i64 \<rightharpoonup> sapling_spending_key"
  ironwood_keys_by_id :: "i64 \<rightharpoonup> ironwood_spending_key"
  available_notes :: "selectable_note list"
  target_height :: u32
  provided_ironwood_anchor :: "orchard_anchor option"
  change_diversifier_index :: u32

record spend_state =
  st_calls :: "builder_call list"
  st_extsks :: "sapling_extsk list"
  st_saks :: "spend_authorizing_key list"
  st_legacy_change :: "(sapling_ovk \<times> sapling_address) option"

definition add_call ::
    "tx_lib \<Rightarrow> build_config \<Rightarrow> string \<Rightarrow> builder_call \<Rightarrow> spend_state \<Rightarrow> core_error + spend_state" where
  "add_call lib cfg what call st =
     (if accepts lib cfg (st_calls st) call then Inr (st\<lparr>st_calls := st_calls st @ [call]\<rparr>)
      else Inl (TransactionBuild (Msg what [])))"

definition base_sapling_key :: "multi_inputs \<Rightarrow> selectable_note \<Rightarrow> sapling_spending_key" where
  "base_sapling_key inp n =
     (case Option.bind (key_id n) (sapling_keys_by_id inp) of Some k \<Rightarrow> k | None \<Rightarrow> default_sapling_key inp)"

text \<open>The external key unless only the internal one owns the note's address.\<close>

definition sapling_key_for ::
    "tx_lib \<Rightarrow> sapling_spending_key \<Rightarrow> sapling_diversifier \<Rightarrow> sapling_address \<Rightarrow> sapling_spending_key" where
  "sapling_key_for lib base d recipient =
     (if address_from_diversifier lib base d = Some recipient then base
      else if address_from_diversifier lib (derive_internal lib base) d = Some recipient then derive_internal lib base
      else base)"

definition ironwood_key_for :: "multi_inputs \<Rightarrow> selectable_note \<Rightarrow> ironwood_spending_key option" where
  "ironwood_key_for inp n =
     (case Option.bind (key_id n) (ironwood_keys_by_id inp) of Some k \<Rightarrow> Some k | None \<Rightarrow> default_ironwood_key inp)"

definition add_sapling_note ::
    "tx_lib \<Rightarrow> build_config \<Rightarrow> multi_inputs \<Rightarrow> selectable_note \<Rightarrow> spend_state \<Rightarrow> core_error + spend_state" where
  "add_sapling_note lib cfg inp n st =
     bind_res (ok_or (diversifier n) (TransactionBuild (Msg ''Missing diversifier for note'' []))) (\<lambda>d.
     bind_res (ok_or (the_note n) (TransactionBuild (Msg ''Missing Sapling note data'' []))) (\<lambda>nt.
     bind_res (ok_or (merkle_path n) (TransactionBuild (Msg ''Missing Sapling witness path'' []))) (\<lambda>path.
     let base = base_sapling_key inp n;
         st1 = (if st_legacy_change st = None
           then st\<lparr>st_legacy_change := Some (sapling_ovk_of lib base, note_recipient lib nt)\<rparr> else st);
         key = sapling_key_for lib base d (note_recipient lib nt)
     in bind_res (add_call lib cfg ''Failed to add Sapling spend: {:?}'' (AddSaplingSpend (sapling_fvk_of lib key) nt path) st1)
          (\<lambda>st2. Inr (st2\<lparr>st_extsks := st_extsks st2 @ [sapling_inner lib key]\<rparr>)))))"

definition add_ironwood_note ::
    "tx_lib \<Rightarrow> build_config \<Rightarrow> multi_inputs \<Rightarrow> selectable_note \<Rightarrow> spend_state \<Rightarrow> core_error + spend_state" where
  "add_ironwood_note lib cfg inp n st =
     bind_res (ok_or (ironwood_note n) (TransactionBuild (Msg ''Missing Ironwood note data'' []))) (\<lambda>nt.
     bind_res (ok_or (ironwood_merkle_path n) (TransactionBuild (Msg ''Missing Ironwood merkle path'' []))) (\<lambda>path.
     bind_res (ok_or (ironwood_key_for inp n)
       (TransactionBuild (Msg ''Ironwood spending key required for Ironwood spends'' []))) (\<lambda>key.
     bind_res (add_call lib cfg ''Failed to add Ironwood spend: {:?}'' (AddIronwoodSpend (ironwood_fvk_of lib key) nt path) st)
       (\<lambda>st1. Inr (st1\<lparr>st_saks := st_saks st1 @ [spend_auth_of lib key]\<rparr>)))))"

fun add_spends ::
    "tx_lib \<Rightarrow> build_config \<Rightarrow> multi_inputs \<Rightarrow> selectable_note list \<Rightarrow> spend_state \<Rightarrow> core_error + spend_state" where
  "add_spends lib cfg inp [] st = Inr st"
| "add_spends lib cfg inp (n # ns) st =
     bind_res (case note_type n of Sapling \<Rightarrow> add_sapling_note lib cfg inp n st
               | Ironwood \<Rightarrow> add_ironwood_note lib cfg inp n st)
       (add_spends lib cfg inp ns)"

section \<open>Outputs and change\<close>

definition output_memo :: "tx_lib \<Rightarrow> memo option \<Rightarrow> core_error + memo_bytes" where
  "output_memo lib m =
     (case m of Some m' \<Rightarrow> to_memo_bytes (empty_memo_bytes lib) (memo_bytes_from lib) m' | None \<Rightarrow> Inr (empty_memo_bytes lib))"

definition check_amount :: "tx_lib \<Rightarrow> string \<Rightarrow> u64 \<Rightarrow> core_error + u64" where
  "check_amount lib what amount = (if amount_ok lib amount then Inr amount else Inl (InvalidAmount (Msg what [])))"

fun add_outputs ::
    "tx_lib \<Rightarrow> build_config \<Rightarrow> multi_inputs \<Rightarrow> shielded_output list \<Rightarrow> spend_state \<Rightarrow> core_error + spend_state" where
  "add_outputs lib cfg inp [] st = Inr st"
| "add_outputs lib cfg inp (SaplingOut address amount memo # os) st =
     bind_res (output_memo lib memo) (\<lambda>mb.
     bind_res (check_amount lib ''Amount out of range'' amount) (\<lambda>a.
     bind_res (add_call lib cfg ''Failed to add Sapling output: {:?}''
       (AddSaplingOutput (Some (sapling_ovk_of lib (default_sapling_key inp))) address a mb) st)
       (add_outputs lib cfg inp os)))"
| "add_outputs lib cfg inp (IronwoodOut address amount memo # os) st =
     bind_res (output_memo lib memo) (\<lambda>mb.
     bind_res (check_amount lib ''Amount out of range'' amount) (\<lambda>a.
     bind_res (add_call lib cfg ''Failed to add Ironwood output: {:?}''
       (AddIronwoodOutput (map_option (ironwood_ovk_of lib) (default_ironwood_key inp)) address a mb) st)
       (add_outputs lib cfg inp os)))"

definition add_change ::
    "tx_lib \<Rightarrow> build_config \<Rightarrow> multi_inputs \<Rightarrow> bool \<Rightarrow> bool \<Rightarrow> u64 \<Rightarrow> spend_state \<Rightarrow> core_error + spend_state" where
  "add_change lib cfg inp use_orchard_change use_sapling_internal_change change st =
     (if change < CHANGE_DUST_THRESHOLD then Inr st
      else if use_orchard_change then
        bind_res (ok_or (default_ironwood_key inp)
          (TransactionBuild (Msg ''Ironwood spending key required for Ironwood change'' []))) (\<lambda>key.
        bind_res (check_amount lib ''Change amount out of range'' change) (\<lambda>a.
        add_call lib cfg ''Failed to add Ironwood change output: {:?}''
          (AddIronwoodOutput (map_option (ironwood_ovk_of lib) (default_ironwood_key inp))
            (ironwood_internal_address lib key (change_diversifier_index inp)) a (empty_memo_bytes lib)) st))
      else if use_sapling_internal_change then
        bind_res (check_amount lib ''Change amount out of range'' change) (\<lambda>a.
        add_call lib cfg ''Failed to add Sapling change output: {:?}''
          (AddSaplingOutput (Some (sapling_ovk_of lib (default_sapling_key inp)))
            (sapling_internal_address lib (default_sapling_key inp) (change_diversifier_index inp)) a
            (empty_memo_bytes lib)) st)
      else
        bind_res (ok_or (st_legacy_change st)
          (TransactionBuild (Msg ''Sapling legacy change requires a selected Sapling spend'' []))) (\<lambda>(ovk, address).
        bind_res (check_amount lib ''Change amount out of range'' change) (\<lambda>a.
        add_call lib cfg ''Failed to add legacy Sapling change output: {:?}''
          (AddSaplingOutput (Some ovk) address a (empty_memo_bytes lib)) st)))"

section \<open>build\_and\_sign\_multi\<close>

record spent_note_ref =
  ref_note_type :: note_type
  ref_txid :: bytes
  ref_output_index :: u32
  ref_key_id :: "i64 option"
  ref_nullifier :: "bytes option"

definition spent_ref :: "selectable_note \<Rightarrow> spent_note_ref" where
  "spent_ref n = \<lparr>ref_note_type = note_type n, ref_txid = note_txid n, ref_output_index = output_index n,
     ref_key_id = key_id n, ref_nullifier = nullifier n\<rparr>"

record build_plan =
  plan_config :: build_config
  plan_state :: spend_state
  plan_fee :: u64
  plan_notes :: "selectable_note list"

definition plan_transaction :: "tx_lib \<Rightarrow> shielded_builder \<Rightarrow> multi_inputs \<Rightarrow> core_error + build_plan" where
  "plan_transaction lib b inp =
     (let outputs = sb_outputs b;
          select = (if 0 < auto_consolidation_extra_limit b
            then (\<lambda>target fee. select_notes_with_consolidation SmallestFirst (auto_consolidation_extra_limit b)
                    (available_notes inp) target fee)
            else select_notes SmallestFirst (available_notes inp));
          has_orchard_outputs = list_ex is_ironwood_out outputs;
          has_sapling_outputs = list_ex (\<lambda>o'. \<not> is_ironwood_out o') outputs
      in bind_res (plan_amounts select (fee_override b) (map out_amount outputs) (list_ex (\<lambda>o'. out_memo o' \<noteq> None) outputs))
           (\<lambda>(selection, eff).
         let notes = sel_notes selection;
             use_orchard_change = (has_orchard_outputs \<or> list_ex (\<lambda>n. note_type n = Ironwood) notes);
             use_sapling_internal_change = pirate_is_ironwood_active (sb_network b) (target_height inp)
         in bind_res (effective_sapling_anchor lib notes has_sapling_outputs) (\<lambda>sapling.
            bind_res (effective_ironwood_anchor notes has_orchard_outputs (provided_ironwood_anchor inp)) (\<lambda>ironwood.
            bind_res (sapling_prover lib) (\<lambda>_.
            let cfg = \<lparr>cfg_network = sb_network b, cfg_height = target_height inp,
                  cfg_sapling_anchor = sapling, cfg_ironwood_anchor = ironwood\<rparr>;
                st0 = \<lparr>st_calls = [], st_extsks = [], st_saks = [], st_legacy_change = None\<rparr>
            in bind_res (add_spends lib cfg inp notes st0) (\<lambda>st1.
               bind_res (add_outputs lib cfg inp outputs st1) (\<lambda>st2.
               bind_res (add_change lib cfg inp use_orchard_change use_sapling_internal_change (eff_change eff) st2) (\<lambda>st3.
               bind_res (check_amount lib ''Fee amount out of range'' (eff_fee eff)) (\<lambda>fee.
                 Inr \<lparr>plan_config = cfg, plan_state = st3, plan_fee = fee, plan_notes = notes\<rparr>)))))))))"

record signed_shielded_transaction =
  tx_txid :: bytes
  tx_raw :: bytes
  tx_size :: nat
  spent_notes :: "spent_note_ref list"

definition build_and_sign_multi ::
    "tx_lib \<Rightarrow> shielded_builder \<Rightarrow> multi_inputs \<Rightarrow> core_error + signed_shielded_transaction" where
  "build_and_sign_multi lib b inp =
     bind_res (plan_transaction lib b inp) (\<lambda>p.
       case build_tx lib (plan_config p) (st_calls (plan_state p)) (st_extsks (plan_state p)) (st_saks (plan_state p)) (plan_fee p) of
         None \<Rightarrow> Inl (TransactionBuild (Msg ''Failed to build transaction: {:?}'' []))
       | Some (txid, raw) \<Rightarrow> Inr \<lparr>tx_txid = txid, tx_raw = raw, tx_size = length raw,
           spent_notes = map spent_ref (plan_notes p)\<rparr>)"

definition build_and_sign ::
    "tx_lib \<Rightarrow> shielded_builder \<Rightarrow> sapling_spending_key \<Rightarrow> ironwood_spending_key option \<Rightarrow> selectable_note list
     \<Rightarrow> u32 \<Rightarrow> orchard_anchor option \<Rightarrow> u32 \<Rightarrow> core_error + signed_shielded_transaction" where
  "build_and_sign lib b skey ikey notes height anchor change_index =
     build_and_sign_multi lib b
       \<lparr>default_sapling_key = skey, default_ironwood_key = ikey, sapling_keys_by_id = Map.empty,
        ironwood_keys_by_id = Map.empty, available_notes = notes, target_height = height,
        provided_ironwood_anchor = anchor, change_diversifier_index = change_index\<rparr>"

section \<open>Amounts\<close>

lemma foldl_plus_u64:
  "unat a + sum_list (map unat xs) < 2 ^ 64 \<Longrightarrow> unat (foldl (+) a xs) = unat a + sum_list (map unat xs)" for a :: u64
proof (induction xs arbitrary: a)
  case (Cons x xs)
  then have "unat (a + x) = unat a + unat x" by (simp add: unat_word_ariths)
  with Cons show ?case by simp
qed simp

lemma unat_sum_u64: "sum_list (map unat xs) < 2 ^ 64 \<Longrightarrow> unat (sum_u64 xs) = sum_list (map unat xs)"
  using foldl_plus_u64 [of 0 xs] by (simp add: sum_u64_def)

lemma calculate_fee_default: "calculate_fee spends outputs memo = Inr DEFAULT_FEE" "validate_fee DEFAULT_FEE = Inr ()"
  by (simp_all add: calculate_fee_def validate_fee_def fee_consts)

lemma fees_agree: "estimated_fee over n memo = Inr fee \<Longrightarrow> actual_fee over k n memo = Inr fee \<and> validate_fee fee = Inr ()"
  by (auto simp: estimated_fee_def actual_fee_def calculate_fee_default bind_res_Inr_iff split: option.splits)

text \<open>What a builder gets from any selector that keeps the selection contract.\<close>

context note_selection
begin

lemma plan_amounts_balanced:
  assumes "plan_amounts (select ns) over amounts memo = Inr (sel, eff)"
  shows "mset (sel_notes sel) \<subseteq># mset ns"
    and "value_sum (sel_notes sel) = unat (sum_u64 amounts) + unat (eff_fee eff) + unat (eff_change eff)"
    and "eff_change eff = 0 \<or> CHANGE_DUST_THRESHOLD \<le> eff_change eff"
    and "validate_fee (eff_fee eff) = Inr ()"
proof -
  from assms obtain est fee where est: "estimated_fee over (length amounts) memo = Inr est"
      "select ns (sum_u64 amounts) est = Inr sel"
      "actual_fee over (length (sel_notes sel)) (length amounts) memo = Inr fee"
      "change_and_fee (total_value sel) (sum_u64 amounts) fee = Inr eff"
    by (auto simp: plan_amounts_def bind_res_Inr_iff)
  have fee: "est = fee" "validate_fee fee = Inr ()" using fees_agree [OF est(1)] est(3) by auto
  from est(4) obtain total change where c: "checked_add (sum_u64 amounts) fee = Some total"
      "checked_sub (total_value sel) total = Some change" "apply_dust_policy_add_to_fee fee change = Inr eff"
    by (auto simp: change_and_fee_def bind_res_Inr_iff)
  show "mset (sel_notes sel) \<subseteq># mset ns" using est(2) by (rule select_from)
  show "value_sum (sel_notes sel) = unat (sum_u64 amounts) + unat (eff_fee eff) + unat (eff_change eff)"
    using select_total [OF est(2)] c(1,2) dust_policy_conserves [OF c(3)]
    unfolding checked_add_Some_iff checked_sub_Some_iff by linarith
  show "eff_change eff = 0 \<or> CHANGE_DUST_THRESHOLD \<le> eff_change eff" using c(3) by (rule dust_policy_no_dust)
  show "validate_fee (eff_fee eff) = Inr ()" using c(3) fee(2) by (rule dust_policy_fee_range)
qed

lemma plan_amounts_exists:
  assumes "unat (sum_u64 amounts) + unat DEFAULT_FEE \<le> value_sum ns" "value_sum ns < 2 ^ 64"
  shows "\<exists>sel eff. plan_amounts (select ns) None amounts memo = Inr (sel, eff)"
proof -
  obtain sel where sel: "select ns (sum_u64 amounts) DEFAULT_FEE = Inr sel"
    using select_complete [OF assms] by blast
  have "unat (total_value sel) = unat (sum_u64 amounts) + unat DEFAULT_FEE + unat (sel_change sel)"
    using sel by (rule select_change)
  then obtain tot change where "checked_add (sum_u64 amounts) DEFAULT_FEE = Some tot"
      "checked_sub (total_value sel) tot = Some change"
    using assms unat_u64_bound [of "total_value sel"]
    by (auto simp: checked_add_def checked_sub_def word_le_nat_alt unat_word_ariths)
  moreover have "\<exists>eff. apply_dust_policy_add_to_fee DEFAULT_FEE change = Inr eff"
    using dust_policy_Inl_iff [of DEFAULT_FEE change]
    by (cases "apply_dust_policy_add_to_fee DEFAULT_FEE change") (auto simp: fee_consts word_less_nat_alt)
  ultimately show ?thesis
    using sel by (auto simp: plan_amounts_def estimated_fee_def actual_fee_def calculate_fee_default change_and_fee_def)
qed

end

section \<open>Anchors\<close>

lemma selected_sapling_anchor_Inr:
  assumes "selected_sapling_anchor lib ns acc = Inr r"
  shows "(acc \<noteq> None \<longrightarrow> r = acc) \<and> (\<forall>n \<in> set ns. note_type n = Sapling \<longrightarrow>
     (\<exists>nt path. the_note n = Some nt \<and> merkle_path n = Some path \<and> r = Some (note_root lib nt path)))"
  using assms
proof (induction ns arbitrary: acc)
  case (Cons n ns)
  show ?case
  proof (cases "note_type n = Sapling")
    case False
    with Cons.prems have "selected_sapling_anchor lib ns acc = Inr r" by simp
    from Cons.IH [OF this] False show ?thesis by auto
  next
    case True
    with Cons.prems obtain nt path where np: "the_note n = Some nt" "merkle_path n = Some path"
      by (auto simp: bind_res_Inr_iff)
    with Cons.prems True have "selected_sapling_anchor lib ns (Some (note_root lib nt path)) = Inr r"
        "acc = None \<or> acc = Some (note_root lib nt path)"
      by (auto simp: Let_def split: option.splits if_splits)
    with Cons.IH [of "Some (note_root lib nt path)"] np show ?thesis by auto
  qed
qed simp

lemma selected_ironwood_anchor_Inr:
  assumes "selected_ironwood_anchor ns acc = Inr r"
  shows "(acc \<noteq> None \<longrightarrow> r = acc) \<and> (\<forall>n \<in> set ns. note_type n = Ironwood \<longrightarrow> ironwood_anchor n \<noteq> None \<and> r = ironwood_anchor n)"
  using assms
proof (induction ns arbitrary: acc)
  case (Cons n ns)
  show ?case
  proof (cases "note_type n = Ironwood")
    case False
    with Cons.prems have "selected_ironwood_anchor ns acc = Inr r" by simp
    from Cons.IH [OF this] False show ?thesis by auto
  next
    case True
    with Cons.prems obtain a where a: "ironwood_anchor n = Some a" by (auto simp: bind_res_Inr_iff)
    with Cons.prems True have "selected_ironwood_anchor ns (Some a) = Inr r" "acc = None \<or> acc = Some a"
      by (auto split: option.splits if_splits)
    with Cons.IH [of "Some a"] a show ?thesis by auto
  qed
qed simp

lemma effective_sapling_anchor_Inr:
  assumes "effective_sapling_anchor lib ns outs = Inr a" "n \<in> set ns" "note_type n = Sapling"
  shows "a = Some (note_root lib (the (the_note n)) (the (merkle_path n)))"
proof -
  have "list_ex (\<lambda>n. note_type n = Sapling) ns" using assms(2,3) by (auto simp: list_ex_iff)
  with assms(1) have "selected_sapling_anchor lib ns None = Inr a"
    by (auto simp: effective_sapling_anchor_def bind_res_Inr_iff)
  from selected_sapling_anchor_Inr [OF this] assms(2,3) show ?thesis by fastforce
qed

lemma effective_ironwood_anchor_Inr:
  assumes "effective_ironwood_anchor ns outs provided = Inr a" "n \<in> set ns" "note_type n = Ironwood"
  shows "a = ironwood_anchor n \<and> a \<noteq> None \<and> (provided = None \<or> provided = a)"
proof -
  have "list_ex (\<lambda>n. note_type n = Ironwood) ns" using assms(2,3) by (auto simp: list_ex_iff)
  with assms(1) have "selected_ironwood_anchor ns None = Inr a" "provided = None \<or> provided = a"
    by (auto simp: effective_ironwood_anchor_def bind_res_Inr_iff split: if_splits)
  with selected_ironwood_anchor_Inr [OF this(1)] assms(2,3) show ?thesis by fastforce
qed

section \<open>The calls a plan makes\<close>

definition spend_key :: "tx_lib \<Rightarrow> multi_inputs \<Rightarrow> selectable_note \<Rightarrow> sapling_spending_key" where
  "spend_key lib inp n = sapling_key_for lib (base_sapling_key inp n) (the (diversifier n)) (note_recipient lib (the (the_note n)))"

definition spend_call :: "tx_lib \<Rightarrow> multi_inputs \<Rightarrow> selectable_note \<Rightarrow> builder_call" where
  "spend_call lib inp n = (case note_type n of
     Sapling \<Rightarrow> AddSaplingSpend (sapling_fvk_of lib (spend_key lib inp n)) (the (the_note n)) (the (merkle_path n))
   | Ironwood \<Rightarrow> AddIronwoodSpend (ironwood_fvk_of lib (the (ironwood_key_for inp n))) (the (ironwood_note n)) (the (ironwood_merkle_path n)))"

definition output_call :: "tx_lib \<Rightarrow> multi_inputs \<Rightarrow> shielded_output \<Rightarrow> builder_call" where
  "output_call lib inp out = (case out of
     SaplingOut address amount memo \<Rightarrow>
       AddSaplingOutput (Some (sapling_ovk_of lib (default_sapling_key inp))) address amount (projr (output_memo lib memo))
   | IronwoodOut address amount memo \<Rightarrow>
       AddIronwoodOutput (map_option (ironwood_ovk_of lib) (default_ironwood_key inp)) address amount (projr (output_memo lib memo)))"

text \<open>The change of a Sapling spend before Ironwood goes back to the first spent Sapling note.\<close>

definition legacy_change :: "tx_lib \<Rightarrow> multi_inputs \<Rightarrow> selectable_note list \<Rightarrow> (sapling_ovk \<times> sapling_address) option" where
  "legacy_change lib inp ns = (case filter (\<lambda>n. note_type n = Sapling) ns of [] \<Rightarrow> None
     | n # _ \<Rightarrow> Some (sapling_ovk_of lib (base_sapling_key inp n), note_recipient lib (the (the_note n))))"

definition has_spend_data :: "multi_inputs \<Rightarrow> selectable_note \<Rightarrow> bool" where
  "has_spend_data inp n = (case note_type n of
     Sapling \<Rightarrow> diversifier n \<noteq> None \<and> the_note n \<noteq> None \<and> merkle_path n \<noteq> None
   | Ironwood \<Rightarrow> ironwood_note n \<noteq> None \<and> ironwood_merkle_path n \<noteq> None \<and> ironwood_key_for inp n \<noteq> None)"

lemma add_call_Inr: "add_call lib cfg what call st = Inr st' \<longleftrightarrow>
    accepts lib cfg (st_calls st) call \<and> st' = st\<lparr>st_calls := st_calls st @ [call]\<rparr>"
  by (auto simp: add_call_def)

lemma add_sapling_note_Inr:
  assumes "add_sapling_note lib cfg inp n st = Inr st'" "note_type n = Sapling"
  shows "has_spend_data inp n \<and> st' = st\<lparr>st_calls := st_calls st @ [spend_call lib inp n],
     st_extsks := st_extsks st @ [sapling_inner lib (spend_key lib inp n)],
     st_legacy_change := (if st_legacy_change st = None then legacy_change lib inp [n] else st_legacy_change st)\<rparr>"
  using assms
  by (auto simp: add_sapling_note_def bind_res_Inr_iff add_call_Inr Let_def has_spend_data_def spend_call_def
      spend_key_def legacy_change_def)

lemma add_ironwood_note_Inr:
  assumes "add_ironwood_note lib cfg inp n st = Inr st'" "note_type n = Ironwood"
  shows "has_spend_data inp n \<and> st' = st\<lparr>st_calls := st_calls st @ [spend_call lib inp n],
     st_saks := st_saks st @ [spend_auth_of lib (the (ironwood_key_for inp n))]\<rparr>"
  using assms
  by (auto simp: add_ironwood_note_def bind_res_Inr_iff add_call_Inr has_spend_data_def spend_call_def)

lemma add_spends_Inr:
  assumes "add_spends lib cfg inp ns st = Inr st'"
  shows "list_all (has_spend_data inp) ns \<and>
    st' = st\<lparr>st_calls := st_calls st @ map (spend_call lib inp) ns,
      st_extsks := st_extsks st @ map (\<lambda>n. sapling_inner lib (spend_key lib inp n)) (filter (\<lambda>n. note_type n = Sapling) ns),
      st_saks := st_saks st @ map (\<lambda>n. spend_auth_of lib (the (ironwood_key_for inp n))) (filter (\<lambda>n. note_type n = Ironwood) ns),
      st_legacy_change := (if st_legacy_change st = None then legacy_change lib inp ns else st_legacy_change st)\<rparr>"
  using assms
proof (induction ns arbitrary: st)
  case Nil
  then show ?case by (auto simp: legacy_change_def)
next
  case (Cons n ns)
  from Cons.prems obtain st1 where st1: "(case note_type n of Sapling \<Rightarrow> add_sapling_note lib cfg inp n st
      | Ironwood \<Rightarrow> add_ironwood_note lib cfg inp n st) = Inr st1" "add_spends lib cfg inp ns st1 = Inr st'"
    by (auto simp: bind_res_Inr_iff)
  show ?case
  proof (cases "note_type n")
    case Sapling
    with st1(1) add_sapling_note_Inr [of lib cfg inp n st st1] Cons.IH [OF st1(2)]
    show ?thesis by (auto simp: legacy_change_def)
  next
    case Ironwood
    with st1(1) add_ironwood_note_Inr [of lib cfg inp n st st1] Cons.IH [OF st1(2)]
    show ?thesis by (auto simp: legacy_change_def)
  qed
qed

lemma add_outputs_Inr:
  assumes "add_outputs lib cfg inp os st = Inr st'"
  shows "st' = st\<lparr>st_calls := st_calls st @ map (output_call lib inp) os\<rparr>"
  using assms
proof (induction os arbitrary: st)
  case (Cons out os)
  have "\<exists>st1. add_call lib cfg what (output_call lib inp out) st = Inr st1 \<and> add_outputs lib cfg inp os st1 = Inr st'"
    if "what = (if is_ironwood_out out then ''Failed to add Ironwood output: {:?}'' else ''Failed to add Sapling output: {:?}'')" for what
    using Cons.prems that by (cases out) (auto simp: bind_res_Inr_iff check_amount_def output_call_def split: if_splits)
  then obtain what st1 where "add_call lib cfg what (output_call lib inp out) st = Inr st1" "add_outputs lib cfg inp os st1 = Inr st'"
    by blast
  with Cons.IH [of st1] show ?case by (auto simp: add_call_Inr)
qed simp

text \<open>The change output: its pool, its address and when there is one.\<close>

definition change_calls ::
    "tx_lib \<Rightarrow> multi_inputs \<Rightarrow> bool \<Rightarrow> bool \<Rightarrow> (sapling_ovk \<times> sapling_address) option \<Rightarrow> u64 \<Rightarrow> builder_call list" where
  "change_calls lib inp to_ironwood internal legacy change =
     (if change < CHANGE_DUST_THRESHOLD then []
      else if to_ironwood then
        [AddIronwoodOutput (map_option (ironwood_ovk_of lib) (default_ironwood_key inp))
          (ironwood_internal_address lib (the (default_ironwood_key inp)) (change_diversifier_index inp)) change (empty_memo_bytes lib)]
      else if internal then
        [AddSaplingOutput (Some (sapling_ovk_of lib (default_sapling_key inp)))
          (sapling_internal_address lib (default_sapling_key inp) (change_diversifier_index inp)) change (empty_memo_bytes lib)]
      else [AddSaplingOutput (Some (fst (the legacy))) (snd (the legacy)) change (empty_memo_bytes lib)])"

lemma add_change_Inr:
  assumes "add_change lib cfg inp to_ironwood internal change st = Inr st'"
  shows "st' = st\<lparr>st_calls := st_calls st @ change_calls lib inp to_ironwood internal (st_legacy_change st) change\<rparr>"
  using assms
  by (auto simp: add_change_def change_calls_def bind_res_Inr_iff add_call_Inr check_amount_def split: if_splits)

fun call_amount :: "builder_call \<Rightarrow> nat" where
  "call_amount (AddSaplingSpend _ _ _) = 0"
| "call_amount (AddIronwoodSpend _ _ _) = 0"
| "call_amount (AddSaplingOutput _ _ amount _) = unat amount"
| "call_amount (AddIronwoodOutput _ _ amount _) = unat amount"

lemma call_amount_spend [simp]: "call_amount (spend_call lib inp n) = 0"
  by (cases "note_type n") (simp_all add: spend_call_def)

lemma call_amount_output [simp]: "call_amount (output_call lib inp out) = unat (out_amount out)"
  by (cases out) (simp_all add: output_call_def)

lemma call_amount_change:
  "change = 0 \<or> CHANGE_DUST_THRESHOLD \<le> change \<Longrightarrow>
     sum_list (map call_amount (change_calls lib inp to_ironwood internal legacy change)) = unat change"
  by (auto simp: change_calls_def)

definition pays_ironwood :: "shielded_builder \<Rightarrow> selectable_note list \<Rightarrow> bool" where
  "pays_ironwood b notes \<longleftrightarrow> list_ex is_ironwood_out (sb_outputs b) \<or> list_ex (\<lambda>n. note_type n = Ironwood) notes"

text \<open>Everything a successful plan guarantees, given the value of its change.\<close>

definition planned :: "tx_lib \<Rightarrow> shielded_builder \<Rightarrow> multi_inputs \<Rightarrow> build_plan \<Rightarrow> u64 \<Rightarrow> bool" where
  "planned lib b inp p change \<longleftrightarrow>
    mset (plan_notes p) \<subseteq># mset (available_notes inp) \<and>
    value_sum (plan_notes p) = unat (sum_u64 (map out_amount (sb_outputs b))) + unat (plan_fee p) + unat change \<and>
    (change = 0 \<or> CHANGE_DUST_THRESHOLD \<le> change) \<and>
    validate_fee (plan_fee p) = Inr () \<and>
    effective_sapling_anchor lib (plan_notes p) (list_ex (\<lambda>o'. \<not> is_ironwood_out o') (sb_outputs b)) =
      Inr (cfg_sapling_anchor (plan_config p)) \<and>
    effective_ironwood_anchor (plan_notes p) (list_ex is_ironwood_out (sb_outputs b)) (provided_ironwood_anchor inp) =
      Inr (cfg_ironwood_anchor (plan_config p)) \<and>
    list_all (has_spend_data inp) (plan_notes p) \<and>
    st_calls (plan_state p) = map (spend_call lib inp) (plan_notes p) @ map (output_call lib inp) (sb_outputs b) @
      change_calls lib inp (pays_ironwood b (plan_notes p)) (pirate_is_ironwood_active (sb_network b) (target_height inp))
        (legacy_change lib inp (plan_notes p)) change \<and>
    st_extsks (plan_state p) =
      map (\<lambda>n. sapling_inner lib (spend_key lib inp n)) (filter (\<lambda>n. note_type n = Sapling) (plan_notes p)) \<and>
    st_saks (plan_state p) =
      map (\<lambda>n. spend_auth_of lib (the (ironwood_key_for inp n))) (filter (\<lambda>n. note_type n = Ironwood) (plan_notes p))"

lemma plan_transaction_planned:
  assumes "plan_transaction lib b inp = Inr p"
  shows "\<exists>change. planned lib b inp p change"
proof -
  let ?lim = "auto_consolidation_extra_limit b"
  define select where "select = (if 0 < ?lim
    then select_notes_with_consolidation SmallestFirst ?lim (available_notes inp)
    else select_notes SmallestFirst (available_notes inp))"
  have sel_eta: "(\<lambda>target fee. select_notes_with_consolidation SmallestFirst ?lim (available_notes inp) target fee) =
      select_notes_with_consolidation SmallestFirst ?lim (available_notes inp)" by simp
  from assms obtain sel eff sapling ironwood st1 st2 st3 cfg where d:
      "plan_amounts select (fee_override b) (map out_amount (sb_outputs b)) (list_ex (\<lambda>o'. out_memo o' \<noteq> None) (sb_outputs b)) = Inr (sel, eff)"
      "effective_sapling_anchor lib (sel_notes sel) (list_ex (\<lambda>o'. \<not> is_ironwood_out o') (sb_outputs b)) = Inr sapling"
      "effective_ironwood_anchor (sel_notes sel) (list_ex is_ironwood_out (sb_outputs b)) (provided_ironwood_anchor inp) = Inr ironwood"
      "cfg = \<lparr>cfg_network = sb_network b, cfg_height = target_height inp, cfg_sapling_anchor = sapling, cfg_ironwood_anchor = ironwood\<rparr>"
      "add_spends lib cfg inp (sel_notes sel) \<lparr>st_calls = [], st_extsks = [], st_saks = [], st_legacy_change = None\<rparr> = Inr st1"
      "add_outputs lib cfg inp (sb_outputs b) st1 = Inr st2"
      "add_change lib cfg inp (pays_ironwood b (sel_notes sel)) (pirate_is_ironwood_active (sb_network b) (target_height inp))
         (eff_change eff) st2 = Inr st3"
      "p = \<lparr>plan_config = cfg, plan_state = st3, plan_fee = eff_fee eff, plan_notes = sel_notes sel\<rparr>"
    unfolding plan_transaction_def Let_def select_def pays_ironwood_def
    by (auto simp: bind_res_Inr_iff check_amount_def split: if_splits prod.splits)
  have amounts: "mset (sel_notes sel) \<subseteq># mset (available_notes inp)"
      "value_sum (sel_notes sel) = unat (sum_u64 (map out_amount (sb_outputs b))) + unat (eff_fee eff) + unat (eff_change eff)"
      "eff_change eff = 0 \<or> CHANGE_DUST_THRESHOLD \<le> eff_change eff" "validate_fee (eff_fee eff) = Inr ()"
    using d(1) plain_sel.plan_amounts_balanced cons_sel.plan_amounts_balanced
    unfolding select_def by (simp_all split: if_splits)
  show ?thesis
    using amounts d(2,3) add_spends_Inr [OF d(5)] add_outputs_Inr [OF d(6)] add_change_Inr [OF d(7)]
    by (intro exI [of _ "eff_change eff"]) (simp add: planned_def d(8) d(4))
qed

section \<open>When a plan exists\<close>

text \<open>
  Nothing stands in the way of a transaction: the notes have their witness data and one anchor
  per pool, and the crates accept what they are given.
\<close>

definition spend_ready ::
    "tx_lib \<Rightarrow> multi_inputs \<Rightarrow> sapling_anchor \<Rightarrow> orchard_anchor \<Rightarrow> selectable_note \<Rightarrow> bool" where
  "spend_ready lib inp sapling ironwood n \<longleftrightarrow> has_spend_data inp n \<and>
     (note_type n = Sapling \<longrightarrow> note_root lib (the (the_note n)) (the (merkle_path n)) = sapling) \<and>
     (note_type n = Ironwood \<longrightarrow> ironwood_anchor n = Some ironwood)"

definition lib_ready :: "tx_lib \<Rightarrow> nat \<Rightarrow> shielded_output list \<Rightarrow> bool" where
  "lib_ready lib cap outs \<longleftrightarrow> (\<forall>cfg cs c. accepts lib cfg cs c) \<and> (\<forall>a. unat a \<le> cap \<longrightarrow> amount_ok lib a) \<and>
     sapling_prover lib = Inr () \<and> (\<forall>out \<in> set outs. \<exists>mb. output_memo lib (out_memo out) = Inr mb)"

lemma selected_sapling_anchor_ready:
  assumes "\<forall>n \<in> set ns. spend_ready lib inp A B n" "acc = None \<or> acc = Some A"
  shows "selected_sapling_anchor lib ns acc = Inr (if list_ex (\<lambda>n. note_type n = Sapling) ns then Some A else acc)"
  using assms
proof (induction ns arbitrary: acc)
  case (Cons n ns)
  show ?case
  proof (cases "note_type n = Sapling")
    case True
    with Cons.prems obtain nt path where "the_note n = Some nt" "merkle_path n = Some path" "note_root lib nt path = A"
      by (auto simp: spend_ready_def has_spend_data_def)
    with True Cons.prems Cons.IH [of "Some A"] show ?thesis by (auto simp: Let_def)
  qed (use Cons in simp)
qed simp

lemma selected_ironwood_anchor_ready:
  assumes "\<forall>n \<in> set ns. spend_ready lib inp A B n" "acc = None \<or> acc = Some B"
  shows "selected_ironwood_anchor ns acc = Inr (if list_ex (\<lambda>n. note_type n = Ironwood) ns then Some B else acc)"
  using assms
proof (induction ns arbitrary: acc)
  case (Cons n ns)
  show ?case
  proof (cases "note_type n = Ironwood")
    case True
    with Cons.prems have "ironwood_anchor n = Some B" by (simp add: spend_ready_def)
    with True Cons.prems Cons.IH [of "Some B"] show ?thesis by auto
  qed (use Cons in simp)
qed simp

lemma anchors_exist:
  assumes "\<forall>n \<in> set ns. spend_ready lib inp A B n" "provided = None \<or> provided = Some B"
  shows "\<exists>a. effective_sapling_anchor lib ns outs = Inr a" "\<exists>a. effective_ironwood_anchor ns outs' provided = Inr a"
  using selected_sapling_anchor_ready [OF assms(1), of None] selected_ironwood_anchor_ready [OF assms(1), of None] assms(2)
  by (auto simp: effective_sapling_anchor_def effective_ironwood_anchor_def)

lemma add_spends_exists:
  assumes "\<forall>n \<in> set ns. spend_ready lib inp A B n" "lib_ready lib cap outs"
  shows "\<exists>st'. add_spends lib cfg inp ns st = Inr st'"
  using assms
proof (induction ns arbitrary: st)
  case (Cons n ns)
  have "\<exists>st1. (case note_type n of Sapling \<Rightarrow> add_sapling_note lib cfg inp n st
      | Ironwood \<Rightarrow> add_ironwood_note lib cfg inp n st) = Inr st1"
    using Cons.prems
    by (cases "note_type n")
      (auto simp: spend_ready_def has_spend_data_def lib_ready_def add_sapling_note_def add_ironwood_note_def add_call_def Let_def)
  with Cons show ?case by auto
qed simp

lemma add_outputs_exists:
  assumes "lib_ready lib cap outs" "\<forall>out \<in> set os. out \<in> set outs \<and> unat (out_amount out) \<le> cap"
  shows "\<exists>st'. add_outputs lib cfg inp os st = Inr st'"
  using assms(2)
proof (induction os arbitrary: st)
  case (Cons out os)
  obtain mb where "output_memo lib (out_memo out) = Inr mb" "amount_ok lib (out_amount out)"
    "\<And>c. accepts lib cfg (st_calls st) c"
    using assms(1) Cons.prems by (auto simp: lib_ready_def)
  with Cons show ?case by (cases out) (auto simp: check_amount_def add_call_def)
qed simp

lemma add_change_exists:
  assumes "lib_ready lib cap outs" "unat change \<le> cap" "default_ironwood_key inp \<noteq> None"
    "\<not> to_ironwood \<Longrightarrow> \<not> internal \<Longrightarrow> st_legacy_change st \<noteq> None"
  shows "\<exists>st'. add_change lib cfg inp to_ironwood internal change st = Inr st'"
  using assms by (auto simp: add_change_def lib_ready_def check_amount_def add_call_def)

lemma plan_transaction_exists:
  assumes ready: "\<forall>n \<in> set (available_notes inp). spend_ready lib inp A B n"
    and lib: "lib_ready lib (value_sum (available_notes inp)) (sb_outputs b)"
    and anchor: "provided_ironwood_anchor inp = None \<or> provided_ironwood_anchor inp = Some B"
    and key: "default_ironwood_key inp \<noteq> None"
    and fee: "fee_override b = None"
    and funds: "sum_list (map (unat \<circ> out_amount) (sb_outputs b)) + unat DEFAULT_FEE \<le> value_sum (available_notes inp)"
      "value_sum (available_notes inp) < 2 ^ 64"
  shows "\<exists>p. plan_transaction lib b inp = Inr p"
proof -
  let ?lim = "auto_consolidation_extra_limit b" and ?ns = "available_notes inp" and ?outs = "sb_outputs b"
  let ?memo = "list_ex (\<lambda>o'. out_memo o' \<noteq> None) ?outs"
  define select where "select = (if 0 < ?lim then select_notes_with_consolidation SmallestFirst ?lim ?ns
    else select_notes SmallestFirst ?ns)"
  have sum: "unat (sum_u64 (map out_amount ?outs)) = sum_list (map (unat \<circ> out_amount) ?outs)"
    using unat_sum_u64 [of "map out_amount ?outs"] funds by simp
  obtain sel eff where amounts: "plan_amounts select None (map out_amount ?outs) ?memo = Inr (sel, eff)"
    using plain_sel.plan_amounts_exists [of "map out_amount ?outs" ?ns SmallestFirst ?memo]
      cons_sel.plan_amounts_exists [of "map out_amount ?outs" ?ns SmallestFirst ?lim ?memo] funds sum
    unfolding select_def by (cases "0 < ?lim") auto
  have bal: "mset (sel_notes sel) \<subseteq># mset ?ns"
      "value_sum (sel_notes sel) = unat (sum_u64 (map out_amount ?outs)) + unat (eff_fee eff) + unat (eff_change eff)"
      "validate_fee (eff_fee eff) = Inr ()"
    using amounts plain_sel.plan_amounts_balanced cons_sel.plan_amounts_balanced
    unfolding select_def by (simp_all split: if_splits)
  have le: "value_sum (sel_notes sel) \<le> value_sum ?ns" using bal(1) by (rule plain_sel.value_sum_mono)
  have sub: "\<forall>n \<in> set (sel_notes sel). spend_ready lib inp A B n"
    using ready set_mset_mono [OF bal(1)] by auto
  have pos: "sel_notes sel \<noteq> []"
    using bal(2,3) by (auto simp: validate_fee_def fee_consts word_less_nat_alt split: if_splits)
  obtain sa ia where an: "effective_sapling_anchor lib (sel_notes sel) (list_ex (\<lambda>o'. \<not> is_ironwood_out o') ?outs) = Inr sa"
      "effective_ironwood_anchor (sel_notes sel) (list_ex is_ironwood_out ?outs) (provided_ironwood_anchor inp) = Inr ia"
    using anchors_exist [OF sub anchor] by blast
  define cfg where "cfg = \<lparr>cfg_network = sb_network b, cfg_height = target_height inp, cfg_sapling_anchor = sa, cfg_ironwood_anchor = ia\<rparr>"
  obtain st1 where st1: "add_spends lib cfg inp (sel_notes sel) \<lparr>st_calls = [], st_extsks = [], st_saks = [], st_legacy_change = None\<rparr> = Inr st1"
    using add_spends_exists [OF sub lib] by blast
  have "unat (out_amount out) \<le> value_sum ?ns" if "out \<in> set ?outs" for out
    using member_le_sum_list [of "unat (out_amount out)" "map (unat \<circ> out_amount) ?outs"] that funds(1) by simp
  then obtain st2 where st2: "add_outputs lib cfg inp ?outs st1 = Inr st2"
    using add_outputs_exists [OF lib, of ?outs] by blast
  have "legacy_change lib inp (sel_notes sel) \<noteq> None" if "\<not> pays_ironwood b (sel_notes sel)"
    using that pos by (cases "sel_notes sel"; cases "note_type (hd (sel_notes sel))")
      (auto simp: pays_ironwood_def legacy_change_def split: list.splits)
  moreover have "st_legacy_change st2 = legacy_change lib inp (sel_notes sel)"
    using add_spends_Inr [OF st1] add_outputs_Inr [OF st2] by simp
  moreover have "unat (eff_change eff) \<le> value_sum ?ns" using bal(2) le by linarith
  ultimately obtain st3 where st3: "add_change lib cfg inp (pays_ironwood b (sel_notes sel))
      (pirate_is_ironwood_active (sb_network b) (target_height inp)) (eff_change eff) st2 = Inr st3"
    using add_change_exists [OF lib _ key, of "eff_change eff" "pays_ironwood b (sel_notes sel)" _ st2] by metis
  have ok: "amount_ok lib (eff_fee eff)" "sapling_prover lib = Inr ()" using lib bal(2) le by (simp_all add: lib_ready_def)
  have "plan_transaction lib b inp =
      Inr \<lparr>plan_config = cfg, plan_state = st3, plan_fee = eff_fee eff, plan_notes = sel_notes sel\<rparr>"
    using amounts an st1 st2 st3 ok fee unfolding pays_ironwood_def cfg_def select_def
    by (cases "0 < ?lim") (simp_all add: plan_transaction_def Let_def check_amount_def)
  then show ?thesis by blast
qed

section \<open>Properties\<close>

text \<open>
  Property C1. A planned transaction balances: the notes it spends are among those offered and
  are worth exactly what its outputs, its change and its fee are worth, and the fee is one
  \<open>validate_fee\<close> accepts; the premise is that the requested amounts add up within 64 bits,
  which \<open>iter().sum()\<close> does not check.
\<close>

theorem transaction_balanced:
  assumes "plan_transaction lib b inp = Inr p"
    and "sum_list (map (unat \<circ> out_amount) (sb_outputs b)) < 2 ^ 64"
  shows "value_sum (plan_notes p) = sum_list (map call_amount (st_calls (plan_state p))) + unat (plan_fee p) \<and>
    mset (plan_notes p) \<subseteq># mset (available_notes inp) \<and> validate_fee (plan_fee p) = Inr ()"
proof -
  obtain change where planned: "planned lib b inp p change" using plan_transaction_planned [OF assms(1)] ..
  have zero: "sum_list (map (\<lambda>n. 0) xs) = (0 :: nat)" for xs :: "selectable_note list" by simp
  have "sum_list (map call_amount (st_calls (plan_state p))) =
      sum_list (map (unat \<circ> out_amount) (sb_outputs b)) + unat change"
    using planned call_amount_change [of change] by (simp add: planned_def comp_def zero)
  moreover have "unat (sum_u64 (map out_amount (sb_outputs b))) = sum_list (map (unat \<circ> out_amount) (sb_outputs b))"
    using unat_sum_u64 [of "map out_amount (sb_outputs b)"] assms(2) by simp
  ultimately show ?thesis using planned by (simp add: planned_def)
qed

text \<open>A concrete wallet: two Sapling notes of 60000, one payment of 100000 and any crates that accept it.\<close>

definition example_lib :: tx_lib where
  "example_lib = \<lparr>sapling_fvk_of = (\<lambda>_. undefined), sapling_ovk_of = (\<lambda>_. undefined),
     address_from_diversifier = (\<lambda>_ _. None), derive_internal = (\<lambda>k. k), sapling_internal_address = (\<lambda>_ _. undefined),
     sapling_inner = (\<lambda>_. undefined), note_recipient = (\<lambda>_. undefined), note_root = (\<lambda>_ _. undefined),
     empty_tree_anchor = undefined, ironwood_fvk_of = (\<lambda>_. undefined), ironwood_ovk_of = (\<lambda>_. undefined),
     ironwood_internal_address = (\<lambda>_ _. undefined), spend_auth_of = (\<lambda>_. undefined), empty_memo_bytes = undefined,
     memo_bytes_from = (\<lambda>_. Inr undefined), amount_ok = (\<lambda>_. True), sapling_prover = Inr (),
     accepts = (\<lambda>_ _ _. True), build_tx = (\<lambda>_ _ _ _ _. Some ([1], [2, 3]))\<rparr>"

definition example_inputs :: multi_inputs where
  "example_inputs = \<lparr>default_sapling_key = undefined, default_ironwood_key = Some undefined, sapling_keys_by_id = Map.empty,
     ironwood_keys_by_id = Map.empty,
     available_notes = map (\<lambda>i. with_witness undefined undefined undefined (new_note 60000 [] 5 [i] 0)) [7, 8],
     target_height = 4000000, provided_ironwood_anchor = None, change_diversifier_index = 0\<rparr>"

definition example_builder :: shielded_builder where
  "example_builder = shielded_builder_new\<lparr>sb_outputs := [SaplingOut undefined 100000 None]\<rparr>"

lemmas example_defs = example_lib_def example_inputs_def example_builder_def shielded_builder_new_def with_witness_def new_note_def

lemma example_ready:
  "\<forall>n \<in> set (available_notes example_inputs). spend_ready example_lib example_inputs undefined undefined n"
  "lib_ready example_lib cap (sb_outputs example_builder)" "fee_override example_builder = None"
  "default_ironwood_key example_inputs \<noteq> None" "provided_ironwood_anchor example_inputs = None"
  "sum_list (map (unat \<circ> out_amount) (sb_outputs example_builder)) = 100000" "value_sum (available_notes example_inputs) = 120000"
  by (simp_all add: example_defs spend_ready_def has_spend_data_def lib_ready_def output_memo_def value_sum_def)

lemma example_plan: "\<exists>p. plan_transaction example_lib example_builder example_inputs = Inr p"
  by (rule plan_transaction_exists [OF example_ready(1)]) (simp_all add: example_ready fee_consts)

theorem transaction_balanced_witness:
  "\<exists>p. plan_transaction example_lib example_builder example_inputs = Inr p \<and>
    value_sum (plan_notes p) = sum_list (map call_amount (st_calls (plan_state p))) + unat (plan_fee p) \<and>
    mset (plan_notes p) \<subseteq># mset (available_notes example_inputs) \<and> validate_fee (plan_fee p) = Inr ()"
  using example_plan transaction_balanced [of example_lib example_builder example_inputs] example_ready(6) by auto

text \<open>
  Observation. Every note of a planned transaction is spent once, in order, with the full data
  it needs; its Sapling spends carry the key, external or internal, chosen for the note's key
  group and address, one signing key per spend; all notes of a pool lie under the one anchor the
  transaction names, and an anchor given by the caller is that anchor; the requested outputs
  follow unchanged and in order.
\<close>

lemma transaction_spends_authorised:
  assumes "plan_transaction lib b inp = Inr p"
  shows "take (length (plan_notes p) + length (sb_outputs b)) (st_calls (plan_state p)) =
      map (spend_call lib inp) (plan_notes p) @ map (output_call lib inp) (sb_outputs b) \<and>
    list_all (has_spend_data inp) (plan_notes p) \<and>
    st_extsks (plan_state p) =
      map (\<lambda>n. sapling_inner lib (spend_key lib inp n)) (filter (\<lambda>n. note_type n = Sapling) (plan_notes p)) \<and>
    st_saks (plan_state p) =
      map (\<lambda>n. spend_auth_of lib (the (ironwood_key_for inp n))) (filter (\<lambda>n. note_type n = Ironwood) (plan_notes p)) \<and>
    (\<forall>n \<in> set (plan_notes p). case note_type n of
       Sapling \<Rightarrow> cfg_sapling_anchor (plan_config p) = Some (note_root lib (the (the_note n)) (the (merkle_path n)))
     | Ironwood \<Rightarrow> cfg_ironwood_anchor (plan_config p) = ironwood_anchor n \<and> ironwood_anchor n \<noteq> None \<and>
         (provided_ironwood_anchor inp = None \<or> provided_ironwood_anchor inp = ironwood_anchor n))"
proof -
  obtain change where planned: "planned lib b inp p change" using plan_transaction_planned [OF assms] ..
  have sapling: "cfg_sapling_anchor (plan_config p) = Some (note_root lib (the (the_note n)) (the (merkle_path n)))"
    if "n \<in> set (plan_notes p)" "note_type n = Sapling" for n
    using planned that effective_sapling_anchor_Inr by (auto simp: planned_def)
  have ironwood: "cfg_ironwood_anchor (plan_config p) = ironwood_anchor n \<and> ironwood_anchor n \<noteq> None \<and>
      (provided_ironwood_anchor inp = None \<or> provided_ironwood_anchor inp = ironwood_anchor n)"
    if "n \<in> set (plan_notes p)" "note_type n = Ironwood" for n
    using planned that effective_ironwood_anchor_Inr unfolding planned_def by metis
  show ?thesis
    using planned sapling ironwood by (auto simp: planned_def split: note_type.split)
qed

theorem transaction_spends_authorised_witness:
  "\<exists>p. plan_transaction example_lib example_builder example_inputs = Inr p \<and>
    take (length (plan_notes p) + 1) (st_calls (plan_state p)) =
      map (spend_call example_lib example_inputs) (plan_notes p) @
      [output_call example_lib example_inputs (SaplingOut undefined 100000 None)]"
proof -
  obtain p where p: "plan_transaction example_lib example_builder example_inputs = Inr p" using example_plan ..
  with transaction_spends_authorised [OF p] show ?thesis
    by (intro exI [of _ p]) (simp add: example_builder_def)
qed

text \<open>
  Property C32. Change always returns to the wallet: a planned transaction has at most one call
  after the requested outputs; it pays at least the dust threshold, it is an Ironwood output to
  the wallet's own internal Ironwood address exactly when an Ironwood note is spent or paid,
  and otherwise a Sapling output, to the wallet's internal address once Ironwood is active at
  the target height and to the address of the first spent Sapling note before that.
\<close>

theorem change_returns_to_wallet:
  assumes "plan_transaction lib b inp = Inr p"
    and "drop (length (plan_notes p) + length (sb_outputs b)) (st_calls (plan_state p)) = c # cs"
  shows "cs = [] \<and> unat CHANGE_DUST_THRESHOLD \<le> call_amount c \<and>
    (case c of
       AddIronwoodOutput ovk addr amount memo \<Rightarrow>
         (list_ex is_ironwood_out (sb_outputs b) \<or> list_ex (\<lambda>n. note_type n = Ironwood) (plan_notes p)) \<and>
         addr = ironwood_internal_address lib (the (default_ironwood_key inp)) (change_diversifier_index inp)
     | AddSaplingOutput ovk addr amount memo \<Rightarrow>
         \<not> (list_ex is_ironwood_out (sb_outputs b) \<or> list_ex (\<lambda>n. note_type n = Ironwood) (plan_notes p)) \<and>
         addr = (if pirate_is_ironwood_active (sb_network b) (target_height inp)
           then sapling_internal_address lib (default_sapling_key inp) (change_diversifier_index inp)
           else note_recipient lib (the (the_note (hd (plan_notes p)))))
     | _ \<Rightarrow> False)"
proof -
  obtain change where planned: "planned lib b inp p change" using plan_transaction_planned [OF assms(1)] ..
  have calls: "change_calls lib inp (pays_ironwood b (plan_notes p)) (pirate_is_ironwood_active (sb_network b) (target_height inp))
      (legacy_change lib inp (plan_notes p)) change = c # cs"
    using planned assms(2) by (simp add: planned_def)
  have pos: "plan_notes p \<noteq> []"
    using planned by (auto simp: planned_def validate_fee_def fee_consts word_less_nat_alt split: if_splits)
  have legacy: "snd (the (legacy_change lib inp (plan_notes p))) = note_recipient lib (the (the_note (hd (plan_notes p))))"
    if "\<not> list_ex (\<lambda>n. note_type n = Ironwood) (plan_notes p)"
    using that pos by (cases "plan_notes p"; cases "note_type (hd (plan_notes p))") (auto simp: legacy_change_def)
  show ?thesis
    using calls legacy by (auto simp: change_calls_def pays_ironwood_def word_less_nat_alt split: if_splits)
qed

theorem change_returns_to_wallet_witness:
  "\<exists>p c. plan_transaction example_lib example_builder example_inputs = Inr p \<and>
    drop (length (plan_notes p) + 1) (st_calls (plan_state p)) = [c] \<and> 10000 \<le> call_amount c"
proof -
  obtain p where p: "plan_transaction example_lib example_builder example_inputs = Inr p" using example_plan ..
  have "plan_notes p = available_notes example_inputs"
    "drop (length (plan_notes p) + length (sb_outputs example_builder)) (st_calls (plan_state p)) =
      [AddSaplingOutput (Some undefined) undefined 10000 undefined]"
    using p
    by (auto simp: plan_transaction_def plan_amounts_def estimated_fee_def actual_fee_def calculate_fee_def change_and_fee_def
        select_notes_def finish_selection_def sum_u64_def checked_add_def checked_sub_def apply_dust_policy_add_to_fee_def
        fee_consts effective_sapling_anchor_def effective_ironwood_anchor_def add_sapling_note_def add_call_def Let_def
        output_memo_def check_amount_def add_change_def pirate_is_ironwood_active_def pirate_network_new_def mainnet_def
        example_defs)
  from this(2) change_returns_to_wallet [OF p this(2)] p show ?thesis
    by (auto simp: example_builder_def fee_consts)
qed



text \<open>
  A pending transaction of the Sapling-only builder balances in the same way.
\<close>

lemma pending_balanced:
  assumes "build_pending b available = Inr p"
  shows "unat (input_value p) = unat (output_value p) + unat (pt_fee p) + unat (pt_change p) \<and>
    validate_fee (pt_fee p) = Inr () \<and> (pt_change p = 0 \<or> CHANGE_DUST_THRESHOLD \<le> pt_change p)"
proof -
  from assms obtain sel eff where d: "plan_amounts (select_notes SmallestFirst available) (tb_fee_override b)
      (map to_amount (tb_outputs b)) (list_ex (\<lambda>o'. to_memo o' \<noteq> None) (tb_outputs b)) = Inr (sel, eff)"
      "p = \<lparr>pt_outputs = tb_outputs b, input_value = total_value sel,
         output_value = sum_u64 (map to_amount (tb_outputs b)), pt_fee = eff_fee eff, pt_change = eff_change eff\<rparr>"
    by (auto simp: build_pending_def bind_res_Inr_iff)
  from d(1) have "unat (total_value sel) = value_sum (sel_notes sel)"
    by (auto simp: plan_amounts_def bind_res_Inr_iff dest: plain_sel.select_total)
  with plain_sel.plan_amounts_balanced [OF d(1)] d(2) show ?thesis by simp
qed

end
