(* ===== verification/SendCaches.thy ===== *)
theory SendCaches
  imports Builder "HOL-Library.AList"
begin

text \<open>
  The in-memory tables the send flow of the wallet service keeps between building, signing and
  broadcasting a transaction (\<open>pirate-wallet-service/src/api/tx_flow.rs\<close>): the notes chosen
  for a pending transaction, what a signed transaction spends, and the change that is on its
  way back. The first two are caches with a time to live and a bounded number of entries.

  A \<open>HashMap\<close> is an association list in its iteration order, which matters only for
  \<open>min_by_key\<close> among entries of equal age; a map per wallet that is only looked up is a
  function. The clock is an argument. The locale \<open>bounded_cache\<close> is what the flow
  relies on; both caches interpret it.
\<close>

section \<open>A cache with a time to live and a capacity\<close>

definition is_fresh :: "u64 \<Rightarrow> u64 \<Rightarrow> u64 \<Rightarrow> bool" where
  "is_fresh ttl now created_at \<longleftrightarrow> saturating_sub now created_at \<le> ttl"

definition cache_retain :: "('v \<Rightarrow> u64) \<Rightarrow> u64 \<Rightarrow> u64 \<Rightarrow> (str \<times> 'v) list \<Rightarrow> (str \<times> 'v) list" where
  "cache_retain created ttl now c = filter (\<lambda>(_, v). is_fresh ttl now (created v)) c"

text \<open>\<open>min_by_key\<close>: the first entry with the least time of creation.\<close>

fun min_by_key :: "('a \<Rightarrow> u64) \<Rightarrow> 'a list \<Rightarrow> 'a option" where
  "min_by_key f [] = None"
| "min_by_key f (x # xs) = (case min_by_key f xs of None \<Rightarrow> Some x | Some y \<Rightarrow> Some (if f y < f x then y else x))"

lemma min_by_key_None_iff [simp]: "min_by_key f xs = None \<longleftrightarrow> xs = []"
  by (cases xs) (auto split: option.splits)

lemma min_by_key_SomeD: "min_by_key f xs = Some x \<Longrightarrow> x \<in> set xs \<and> (\<forall>y \<in> set xs. f x \<le> f y)"
  by (induction xs arbitrary: x) (force split: option.splits if_splits)+

text \<open>The \<open>while\<close> loop that removes the oldest entry until the cache fits.\<close>

function cache_evict :: "('v \<Rightarrow> u64) \<Rightarrow> nat \<Rightarrow> (str \<times> 'v) list \<Rightarrow> (str \<times> 'v) list" where
  "cache_evict created cap c =
     (if cap < length c
      then case min_by_key (\<lambda>(_, v). created v) c of
        None \<Rightarrow> c
      | Some (oldest_key, _) \<Rightarrow> cache_evict created cap (AList.delete oldest_key c)
      else c)"
  by pat_completeness auto
termination
proof (relation "measure (\<lambda>(_, _, c). length c)")
  fix created :: "'v \<Rightarrow> u64" and cap :: nat and c :: "(str \<times> 'v) list" and e k v
  assume "min_by_key (\<lambda>(_, v). created v) c = Some e" "(k, v) = e"
  then have "(k, v) \<in> set c" using min_by_key_SomeD by metis
  then show "((created, cap, AList.delete k c), (created, cap, c)) \<in> measure (\<lambda>(_, _, c). length c)"
    by (auto simp: AList.delete_eq intro!: length_filter_less)
qed simp

declare cache_evict.simps [simp del]

definition cache_store ::
    "('v \<Rightarrow> u64) \<Rightarrow> u64 \<Rightarrow> nat \<Rightarrow> u64 \<Rightarrow> str \<Rightarrow> 'v \<Rightarrow> (str \<times> 'v) list \<Rightarrow> (str \<times> 'v) list" where
  "cache_store created ttl cap now k v c =
     cache_evict created cap (AList.update k v (cache_retain created ttl now c))"

section \<open>Contexts of pending signatures\<close>

type_synonym wallet_id = str

definition PENDING_SIGN_CONTEXT_TTL_MS :: u64 where "PENDING_SIGN_CONTEXT_TTL_MS = 600000"
definition PENDING_SIGN_CONTEXT_MAX_ENTRIES :: nat where "PENDING_SIGN_CONTEXT_MAX_ENTRIES = 128"

record pending_sign_context =
  psc_wallet_id :: wallet_id
  psc_required_total :: u64
  psc_created_at_ms :: u64
  psc_key_ids_filter :: "i64 list option"
  psc_address_ids_filter :: "i64 list option"
  psc_selected_notes :: "selectable_note list"

type_synonym sign_cache = "(str \<times> pending_sign_context) list"

text \<open>\<open>sort_unstable\<close> then \<open>dedup\<close>, which drops repeated neighbours.\<close>

definition normalize_pending_sign_filter_ids :: "i64 list option \<Rightarrow> i64 list option" where
  "normalize_pending_sign_filter_ids ids = map_option (\<lambda>values. remdups_adj (sort values)) ids"

definition store_pending_sign_context :: "u64 \<Rightarrow> str \<Rightarrow> pending_sign_context \<Rightarrow> sign_cache \<Rightarrow> sign_cache" where
  "store_pending_sign_context now pending_id ctx c =
     cache_store psc_created_at_ms PENDING_SIGN_CONTEXT_TTL_MS PENDING_SIGN_CONTEXT_MAX_ENTRIES now pending_id ctx c"

text \<open>The entry leaves the cache before it is compared with what the caller asks for.\<close>

definition take_pending_sign_context ::
    "u64 \<Rightarrow> str \<Rightarrow> wallet_id \<Rightarrow> u64 \<Rightarrow> i64 list option \<Rightarrow> i64 list option \<Rightarrow> sign_cache
     \<Rightarrow> pending_sign_context option \<times> sign_cache" where
  "take_pending_sign_context now pending_id wallet required key_ids address_ids c =
     (let fresh = cache_retain psc_created_at_ms PENDING_SIGN_CONTEXT_TTL_MS now c
      in case map_of fresh pending_id of
           None \<Rightarrow> (None, fresh)
         | Some ctx \<Rightarrow>
             (if \<not> is_fresh PENDING_SIGN_CONTEXT_TTL_MS now (psc_created_at_ms ctx)
                \<or> psc_wallet_id ctx \<noteq> wallet
                \<or> psc_required_total ctx \<noteq> required
                \<or> psc_key_ids_filter ctx \<noteq> normalize_pending_sign_filter_ids key_ids
                \<or> psc_address_ids_filter ctx \<noteq> normalize_pending_sign_filter_ids address_ids
              then None else Some ctx, AList.delete pending_id fresh))"

definition clear_pending_sign_context :: "str \<Rightarrow> sign_cache \<Rightarrow> sign_cache" where
  "clear_pending_sign_context pending_id c = AList.delete pending_id c"

section \<open>Contexts of signed transactions\<close>

definition BROADCAST_CONTEXT_TTL_MS :: u64 where "BROADCAST_CONTEXT_TTL_MS = 1800000"
definition BROADCAST_CONTEXT_MAX_ENTRIES :: nat where "BROADCAST_CONTEXT_MAX_ENTRIES = 64"

record broadcast_context =
  bc_wallet_id :: wallet_id
  bc_account_id :: i64
  bc_spent_nullifiers :: "bytes list"
  bc_sent_amount :: u64
  bc_fee :: u64
  bc_change_amount :: u64
  bc_expiry_height :: u32
  bc_created_at_ms :: u64

type_synonym broadcast_cache = "(str \<times> broadcast_context) list"

definition store_broadcast_context :: "u64 \<Rightarrow> str \<Rightarrow> broadcast_context \<Rightarrow> broadcast_cache \<Rightarrow> broadcast_cache" where
  "store_broadcast_context now txid ctx c =
     cache_store bc_created_at_ms BROADCAST_CONTEXT_TTL_MS BROADCAST_CONTEXT_MAX_ENTRIES now txid ctx c"

definition take_broadcast_context :: "str \<Rightarrow> broadcast_cache \<Rightarrow> broadcast_context option \<times> broadcast_cache" where
  "take_broadcast_context txid c = (map_of c txid, AList.delete txid c)"

definition broadcast_context_wallet :: "str \<Rightarrow> broadcast_cache \<Rightarrow> wallet_id option" where
  "broadcast_context_wallet txid c = map_option bc_wallet_id (map_of c txid)"

section \<open>Transaction identifiers\<close>

text \<open>\<open>to_ascii_lowercase\<close>, \<open>is_ascii_hexdigit\<close> and the \<open>hex\<close> crate's codec.\<close>

definition to_ascii_lowercase :: "str \<Rightarrow> str" where
  "to_ascii_lowercase s = map (\<lambda>c. if 0x41 \<le> c \<and> c \<le> 0x5A then c + 32 else c) s"

definition is_ascii_hexdigit :: "nat \<Rightarrow> bool" where
  "is_ascii_hexdigit c \<longleftrightarrow> hex_digit c \<noteq> None"

definition hex_encode :: "bytes \<Rightarrow> str" where
  "hex_encode bs = concat (map (\<lambda>b. [hex_char (unat b div 16), hex_char (unat b mod 16)]) bs)"

fun hex_decode :: "str \<Rightarrow> bytes option" where
  "hex_decode [] = Some []"
| "hex_decode [c] = None"
| "hex_decode (c # d # cs) =
     (case (hex_digit c, hex_digit d, hex_decode cs) of
        (Some h, Some l, Some bs) \<Rightarrow> Some (of_nat (16 * h + l) # bs)
      | _ \<Rightarrow> None)"

definition normalize_txid_hex :: "str \<Rightarrow> str option" where
  "normalize_txid_hex txid =
     (let normalized = to_ascii_lowercase (trim txid)
      in if str_len normalized = 64 \<and> list_all is_ascii_hexdigit normalized then Some normalized else None)"

definition txid_hex_variants_from_bytes :: "bytes \<Rightarrow> str list" where
  "txid_hex_variants_from_bytes txid_bytes =
     (if txid_bytes = [] then []
      else let direct = hex_encode txid_bytes
           in if length txid_bytes \<noteq> 32 then [direct]
              else let reversed_hex = hex_encode (rev txid_bytes)
                   in if reversed_hex = direct then [direct] else [direct, reversed_hex])"

section \<open>Change on its way back\<close>

definition PENDING_CHANGE_TTL_MS :: u64 where "PENDING_CHANGE_TTL_MS = 1800000"

record pending_change_entry =
  pc_txid :: str
  pc_change_amount :: u64
  pc_broadcast_at_ms :: u64

type_synonym pending_changes = "wallet_id \<rightharpoonup> pending_change_entry list"

fun update_first :: "('a \<Rightarrow> bool) \<Rightarrow> ('a \<Rightarrow> 'a) \<Rightarrow> 'a list \<Rightarrow> 'a list" where
  "update_first P f [] = []"
| "update_first P f (x # xs) = (if P x then f x # xs else x # update_first P f xs)"

definition add_pending_change :: "u64 \<Rightarrow> wallet_id \<Rightarrow> str \<Rightarrow> u64 \<Rightarrow> pending_changes \<Rightarrow> pending_changes" where
  "add_pending_change now wallet txid change m =
     (if change = 0 then m
      else case normalize_txid_hex txid of
        None \<Rightarrow> m
      | Some t \<Rightarrow>
          let entries = filter (\<lambda>e. is_fresh PENDING_CHANGE_TTL_MS now (pc_broadcast_at_ms e))
                (case m wallet of None \<Rightarrow> [] | Some es \<Rightarrow> es)
          in m(wallet \<mapsto>
               (if list_ex (\<lambda>e. pc_txid e = t) entries
                then update_first (\<lambda>e. pc_txid e = t)
                  (\<lambda>e. e\<lparr>pc_change_amount := change, pc_broadcast_at_ms := now\<rparr>) entries
                else entries @ [\<lparr>pc_txid = t, pc_change_amount = change, pc_broadcast_at_ms = now\<rparr>])))"

definition clear_pending_changes :: "wallet_id \<Rightarrow> pending_changes \<Rightarrow> pending_changes" where
  "clear_pending_changes wallet m = m(wallet := None)"

definition resolve_pending_change ::
    "u64 \<Rightarrow> wallet_id \<Rightarrow> str list \<Rightarrow> pending_changes \<Rightarrow> u64 \<times> pending_changes" where
  "resolve_pending_change now wallet known m =
     (case m wallet of
        None \<Rightarrow> (0, m)
      | Some es \<Rightarrow>
          let entries = filter (\<lambda>e. is_fresh PENDING_CHANGE_TTL_MS now (pc_broadcast_at_ms e) \<and> pc_txid e \<notin> set known) es
          in (sum_u64 (map pc_change_amount entries),
              if entries = [] then m(wallet := None) else m(wallet \<mapsto> entries)))"

section \<open>What eviction keeps\<close>

lemma delete_set_distinct:
  "distinct (map fst c) \<Longrightarrow> (k, v) \<in> set c \<Longrightarrow> set (AList.delete k c) = set c - {(k, v)}"
  by (auto simp: AList.delete_eq dest: eq_key_imp_eq_value)

lemma length_delete_distinct:
  assumes "distinct (map fst c)" "(k, v) \<in> set c"
  shows "length (AList.delete k c) = length c - 1"
proof -
  have "distinct c" "distinct (AList.delete k c)"
    using assms(1) by (simp_all add: distinct_map AList.delete_eq)
  then show ?thesis
    using delete_set_distinct [OF assms] assms(2) by (metis card_Diff_singleton distinct_card)
qed

lemma cache_evict_correct:
  assumes "distinct (map fst c)"
  shows "length (cache_evict created cap c) = min cap (length c) \<and> set (cache_evict created cap c) \<subseteq> set c
    \<and> distinct (map fst (cache_evict created cap c))
    \<and> (\<forall>e \<in> set c - set (cache_evict created cap c). \<forall>s \<in> set (cache_evict created cap c).
         created (snd e) \<le> created (snd s))"
  using assms
proof (induction created cap c rule: cache_evict.induct)
  case (1 created cap c)
  show ?case
  proof (cases "cap < length c")
    case False
    then show ?thesis using 1 by (simp add: cache_evict.simps [of created cap c])
  next
    case True
    then have "c \<noteq> []" by auto
    then obtain k v where m: "min_by_key (\<lambda>(_, v). created v) c = Some (k, v)"
      by (metis min_by_key_None_iff not_None_eq surj_pair)
    then have kv: "(k, v) \<in> set c" and least: "\<And>e. e \<in> set c \<Longrightarrow> created v \<le> created (snd e)"
      using min_by_key_SomeD [OF m] by (auto simp: case_prod_beta)
    let ?d = "AList.delete k c"
    have ev: "cache_evict created cap c = cache_evict created cap ?d"
      using True m by (simp add: cache_evict.simps [of created cap c])
    have d: "distinct (map fst ?d)" "set ?d = set c - {(k, v)}" "length ?d = length c - 1"
      using 1(2) kv by (simp_all add: distinct_delete delete_set_distinct length_delete_distinct)
    note IH = 1(1) [OF True m refl d(1)]
    have "created (snd e) \<le> created (snd s)"
      if e: "e \<in> set c - set (cache_evict created cap ?d)" and s: "s \<in> set (cache_evict created cap ?d)" for e s
    proof (cases "e = (k, v)")
      case True
      with IH d(2) s least [of s] show ?thesis by auto
    next
      case False
      with IH d(2) e s show ?thesis by auto
    qed
    with IH True d show ?thesis unfolding ev by auto
  qed
qed

lemma cache_retain_set: "set (cache_retain created ttl now c) \<subseteq> set c"
  by (auto simp: cache_retain_def)

lemma cache_retain_distinct: "distinct (map fst c) \<Longrightarrow> distinct (map fst (cache_retain created ttl now c))"
  by (simp add: cache_retain_def distinct_map_filter)

lemma update_set: "distinct (map fst c) \<Longrightarrow> set (AList.update k v c) \<subseteq> insert (k, v) (set c)"
  by (induction c) auto

lemma update_mem: "(k, v) \<in> set (AList.update k v c)"
  by (induction c) auto

lemma update_other: "distinct (map fst c) \<Longrightarrow> (k', v') \<in> set (AList.update k v c) \<Longrightarrow> k' = k \<Longrightarrow> v' = v"
  by (metis distinct_update map_of_is_SomeI update_mem option.inject)

section \<open>The interface of the caches\<close>

text \<open>
  What the send flow relies on: keys are unique and entries bounded in number, an entry of the
  cache was stored under its key, and the entry just stored is found again if it is the newest.
\<close>

datatype 'v cache_op = CacheStore u64 str 'v | CacheKeep "str \<times> 'v \<Rightarrow> bool"

fun cache_exec ::
    "(u64 \<Rightarrow> str \<Rightarrow> 'v \<Rightarrow> (str \<times> 'v) list \<Rightarrow> (str \<times> 'v) list) \<Rightarrow> 'v cache_op \<Rightarrow> (str \<times> 'v) list \<Rightarrow> (str \<times> 'v) list"
  where
  "cache_exec store (CacheStore now k v) c = store now k v c"
| "cache_exec store (CacheKeep P) c = filter P c"

locale bounded_cache =
  fixes store :: "u64 \<Rightarrow> str \<Rightarrow> 'v \<Rightarrow> (str \<times> 'v) list \<Rightarrow> (str \<times> 'v) list"
    and created :: "'v \<Rightarrow> u64"
    and cap :: nat
  assumes store_distinct: "distinct (map fst c) \<Longrightarrow> distinct (map fst (store now k v c))"
    and store_bound: "distinct (map fst c) \<Longrightarrow> length (store now k v c) \<le> cap"
    and store_from: "distinct (map fst c) \<Longrightarrow> set (store now k v c) \<subseteq> insert (k, v) (set c)"
    and store_found: "distinct (map fst c) \<Longrightarrow> (\<And>k' v'. (k', v') \<in> set c \<Longrightarrow> k' \<noteq> k \<Longrightarrow> created v' < created v)
      \<Longrightarrow> map_of (store now k v c) k = Some v"
begin

lemma exec_ok:
  assumes "distinct (map fst c)" "length c \<le> cap"
  shows "distinct (map fst (cache_exec store op c)) \<and> length (cache_exec store op c) \<le> cap"
  using assms by (cases op) (auto simp: store_distinct store_bound distinct_map_filter intro: order_trans [OF length_filter_le])

text \<open>However the operations follow each other, the cache stays within its bounds.\<close>

lemma run_ok: "distinct (map fst (fold (cache_exec store) ops [])) \<and> length (fold (cache_exec store) ops []) \<le> cap"
proof -
  have "distinct (map fst c) \<and> length c \<le> cap \<Longrightarrow>
      distinct (map fst (fold (cache_exec store) ops c)) \<and> length (fold (cache_exec store) ops c) \<le> cap" for c
    by (induction ops arbitrary: c) (use exec_ok in auto)
  then show ?thesis by simp
qed

text \<open>And every entry was stored under its key by one of them.\<close>

lemma run_stored:
  assumes "(k, v) \<in> set (fold (cache_exec store) ops [])"
  shows "\<exists>now. CacheStore now k v \<in> set ops"
proof -
  have "(k, v) \<in> set (fold (cache_exec store) ops c) \<Longrightarrow> distinct (map fst c) \<Longrightarrow> length c \<le> cap
      \<Longrightarrow> (k, v) \<in> set c \<or> (\<exists>now. CacheStore now k v \<in> set ops)" for c
  proof (induction ops arbitrary: c)
    case (Cons op ops)
    have "(k, v) \<in> set (cache_exec store op c) \<or> (\<exists>now. CacheStore now k v \<in> set ops)"
      using Cons.IH [of "cache_exec store op c"] Cons.prems exec_ok [of c op] by auto
    then show ?case
      using store_from [OF Cons.prems(2)] by (cases op) fastforce+
  qed simp
  with assms show ?thesis by force
qed

end

lemma cache_store_laws:
  assumes c: "distinct (map fst c)" and cap: "0 < cap"
  shows "distinct (map fst (cache_store created ttl cap now k v c))"
    and "length (cache_store created ttl cap now k v c) \<le> cap"
    and "set (cache_store created ttl cap now k v c) \<subseteq> insert (k, v) (set c)"
    and "(\<And>k' v'. (k', v') \<in> set c \<Longrightarrow> k' \<noteq> k \<Longrightarrow> created v' < created v)
      \<Longrightarrow> map_of (cache_store created ttl cap now k v c) k = Some v"
proof -
  let ?r = "cache_retain created ttl now c" and ?u = "AList.update k v (cache_retain created ttl now c)"
  have r: "distinct (map fst ?r)" using c by (rule cache_retain_distinct)
  then have u: "distinct (map fst ?u)" by (rule distinct_update)
  note ev = cache_evict_correct [OF u, of created cap]
  have us: "set ?u \<subseteq> insert (k, v) (set c)" using update_set [OF r] cache_retain_set by fastforce
  show "distinct (map fst (cache_store created ttl cap now k v c))"
    "length (cache_store created ttl cap now k v c) \<le> cap"
    "set (cache_store created ttl cap now k v c) \<subseteq> insert (k, v) (set c)"
    using ev us by (auto simp: cache_store_def)
  assume newest: "\<And>k' v'. (k', v') \<in> set c \<Longrightarrow> k' \<noteq> k \<Longrightarrow> created v' < created v"
  have "(k, v) \<in> set (cache_evict created cap ?u)"
  proof (rule ccontr)
    assume gone: "(k, v) \<notin> set (cache_evict created cap ?u)"
    have "0 < length ?u" using update_mem [of k v ?r] by (auto simp: length_pos_if_in_set)
    then have "0 < length (cache_evict created cap ?u)" using ev cap by simp
    then obtain k' v' where s: "(k', v') \<in> set (cache_evict created cap ?u)" by (metis length_greater_0_conv list.set_intros(1) neq_Nil_conv surj_pair)
    then have su: "(k', v') \<in> set ?u" and le: "created v \<le> created v'" using ev gone update_mem [of k v ?r] by force+
    then have "k' \<noteq> k" using s gone update_other [OF r su] by auto
    with su us newest [of k' v'] le show False by auto
  qed
  then show "map_of (cache_store created ttl cap now k v c) k = Some v"
    using ev by (simp add: cache_store_def)
qed

interpretation signing: bounded_cache store_pending_sign_context psc_created_at_ms PENDING_SIGN_CONTEXT_MAX_ENTRIES
  unfolding store_pending_sign_context_def
  by unfold_locales (rule cache_store_laws; simp add: PENDING_SIGN_CONTEXT_MAX_ENTRIES_def)+

interpretation broadcasting: bounded_cache store_broadcast_context bc_created_at_ms BROADCAST_CONTEXT_MAX_ENTRIES
  unfolding store_broadcast_context_def
  by unfold_locales (rule cache_store_laws; simp add: BROADCAST_CONTEXT_MAX_ENTRIES_def)+

section \<open>Pending signatures\<close>

datatype sign_op =
    SignStore u64 str pending_sign_context
  | SignTake u64 str wallet_id u64 "i64 list option" "i64 list option"
  | SignClear str

text \<open>A run of the three operations, with the contexts it hands out.\<close>

fun sign_run :: "sign_op list \<Rightarrow> sign_cache \<Rightarrow> (sign_op \<times> pending_sign_context) list \<times> sign_cache" where
  "sign_run [] c = ([], c)"
| "sign_run (SignStore now k ctx # ops) c = sign_run ops (store_pending_sign_context now k ctx c)"
| "sign_run (SignClear k # ops) c = sign_run ops (clear_pending_sign_context k c)"
| "sign_run (SignTake now k w req kf af # ops) c =
     (case take_pending_sign_context now k w req kf af c of
        (None, c') \<Rightarrow> sign_run ops c'
      | (Some ctx, c') \<Rightarrow> (case sign_run ops c' of (out, c'') \<Rightarrow> ((SignTake now k w req kf af, ctx) # out, c'')))"

fun op_key :: "sign_op \<Rightarrow> str" where
  "op_key (SignStore _ k _) = k"
| "op_key (SignTake _ k _ _ _ _) = k"
| "op_key (SignClear k) = k"

fun is_store :: "sign_op \<Rightarrow> bool" where
  "is_store (SignStore _ _ _) = True"
| "is_store _ = False"

text \<open>The context handed out to a request answers that request.\<close>

fun answers :: "sign_op \<times> pending_sign_context \<Rightarrow> bool" where
  "answers (SignTake now k w req kf af, ctx) \<longleftrightarrow> psc_wallet_id ctx = w \<and> psc_required_total ctx = req
     \<and> psc_key_ids_filter ctx = normalize_pending_sign_filter_ids kf
     \<and> psc_address_ids_filter ctx = normalize_pending_sign_filter_ids af
     \<and> is_fresh PENDING_SIGN_CONTEXT_TTL_MS now (psc_created_at_ms ctx)"
| "answers _ \<longleftrightarrow> False"

lemma take_Some:
  assumes "take_pending_sign_context now k w req kf af c = (Some ctx, c')"
  shows "answers (SignTake now k w req kf af, ctx) \<and> (k, ctx) \<in> set c"
  using assms
  by (auto simp: take_pending_sign_context_def Let_def cache_retain_def split: option.splits if_splits dest: map_of_SomeD)

lemma take_cache:
  "snd (take_pending_sign_context now k w req kf af c) =
     filter (\<lambda>(k', v). is_fresh PENDING_SIGN_CONTEXT_TTL_MS now (psc_created_at_ms v) \<and> k' \<noteq> k) c"
proof (cases "map_of (cache_retain psc_created_at_ms PENDING_SIGN_CONTEXT_TTL_MS now c) k")
  case None
  then have "k \<notin> fst ` set (cache_retain psc_created_at_ms PENDING_SIGN_CONTEXT_TTL_MS now c)"
    by (simp add: map_of_eq_None_iff)
  with None show ?thesis
    by (auto simp: take_pending_sign_context_def cache_retain_def image_iff intro!: filter_cong)
next
  case (Some ctx)
  then show ?thesis
    by (auto simp: take_pending_sign_context_def cache_retain_def AList.delete_eq intro!: filter_cong)
qed

text \<open>Every operation acts on the cache as one of the interface.\<close>

fun cache_op_of :: "sign_op \<Rightarrow> pending_sign_context cache_op" where
  "cache_op_of (SignStore now k ctx) = CacheStore now k ctx"
| "cache_op_of (SignTake now k w req kf af) =
     CacheKeep (\<lambda>(k', v). is_fresh PENDING_SIGN_CONTEXT_TTL_MS now (psc_created_at_ms v) \<and> k' \<noteq> k)"
| "cache_op_of (SignClear k) = CacheKeep (\<lambda>(k', v). k' \<noteq> k)"

abbreviation "sign_exec \<equiv> cache_exec store_pending_sign_context"

lemma clear_cache: "clear_pending_sign_context k c = filter (\<lambda>(k', v). k' \<noteq> k) c"
  by (auto simp: clear_pending_sign_context_def AList.delete_eq intro!: filter_cong)

lemma clear_ok:
  assumes "distinct (map fst c)" "length c \<le> PENDING_SIGN_CONTEXT_MAX_ENTRIES"
  shows "distinct (map fst (clear_pending_sign_context k c))"
    "length (clear_pending_sign_context k c) \<le> PENDING_SIGN_CONTEXT_MAX_ENTRIES"
    "set (clear_pending_sign_context k c) \<subseteq> set c"
  using signing.exec_ok [OF assms, of "CacheKeep (\<lambda>(k', v). k' \<noteq> k)"] by (auto simp: clear_cache)

lemma sign_run_cache: "snd (sign_run ops c) = fold sign_exec (map cache_op_of ops) c"
proof (induction ops c rule: sign_run.induct)
  case (3 k ops c)
  then show ?case by (simp add: clear_cache)
next
  case (4 now k w req kf af ops c)
  then show ?case
    using take_cache [of now k w req kf af c] by (auto split: prod.splits option.splits)
qed simp_all

lemma sign_run_out:
  "op_ctx \<in> set (fst (sign_run ops c)) \<Longrightarrow> distinct (map fst c) \<Longrightarrow> length c \<le> PENDING_SIGN_CONTEXT_MAX_ENTRIES
   \<Longrightarrow> answers op_ctx \<and> ((op_key (fst op_ctx), snd op_ctx) \<in> set c
      \<or> (\<exists>now. SignStore now (op_key (fst op_ctx)) (snd op_ctx) \<in> set ops))"
proof (induction ops c rule: sign_run.induct)
  case (2 now k ctx ops c)
  then show ?case
    using signing.store_from [of c now k ctx] signing.exec_ok [of c "CacheStore now k ctx"] by auto
next
  case (3 k ops c)
  then show ?case using clear_ok [of c k] by auto
next
  case (4 now k w req kf af ops c)
  obtain r c' where t: "take_pending_sign_context now k w req kf af c = (r, c')" by force
  have c': "c' = filter (\<lambda>(k', v). is_fresh PENDING_SIGN_CONTEXT_TTL_MS now (psc_created_at_ms v) \<and> k' \<noteq> k) c"
    using take_cache [of now k w req kf af c] t by simp
  then have ok: "distinct (map fst c')" "length c' \<le> PENDING_SIGN_CONTEXT_MAX_ENTRIES" "set c' \<subseteq> set c"
    using signing.exec_ok [OF 4(4,5), of "cache_op_of (SignTake now k w req kf af)"] by auto
  show ?case
  proof (cases r)
    case None
    with 4(1) [OF t [symmetric]] 4(3) t ok show ?thesis by auto
  next
    case (Some ctx)
    show ?thesis
    proof (cases "op_ctx = (SignTake now k w req kf af, ctx)")
      case True
      then show ?thesis using take_Some t Some by auto
    next
      case False
      with 4(2) [OF t [symmetric] Some] 4(3) t ok Some show ?thesis by (auto split: prod.splits)
    qed
  qed
qed simp

text \<open>Handed out, or still in the cache: never more than was stored.\<close>

lemma sign_run_count:
  assumes "distinct (map fst c)" "length c \<le> PENDING_SIGN_CONTEXT_MAX_ENTRIES"
  shows "length (filter (\<lambda>(op, _). op_key op = k) (fst (sign_run ops c)))
    + of_bool (k \<in> fst ` set (snd (sign_run ops c)))
    \<le> of_bool (k \<in> fst ` set c) + length (filter (\<lambda>op. is_store op \<and> op_key op = k) ops)"
  using assms
proof (induction ops c rule: sign_run.induct)
  case (2 now k' ctx ops c)
  have "distinct (map fst (store_pending_sign_context now k' ctx c))"
      "length (store_pending_sign_context now k' ctx c) \<le> PENDING_SIGN_CONTEXT_MAX_ENTRIES"
    using signing.exec_ok [OF 2(2,3), of "CacheStore now k' ctx"] by simp_all
  note 2(1) [OF this]
  moreover have "k \<in> fst ` set (store_pending_sign_context now k' ctx c) \<Longrightarrow> k = k' \<or> k \<in> fst ` set c"
    using signing.store_from [OF 2(2), of now k' ctx] by auto
  ultimately show ?case by (auto simp: of_bool_def split: if_splits)
next
  case (3 k' ops c)
  have "of_bool (k \<in> fst ` set (clear_pending_sign_context k' c)) \<le> (of_bool (k \<in> fst ` set c) :: nat)"
    using clear_ok(3) [OF 3(2,3), of k'] by auto
  from order_trans [OF 3(1) [OF clear_ok(1,2) [OF 3(2,3)]] add_right_mono [OF this]] show ?case by simp
next
  case (4 now k' w req kf af ops c)
  obtain r c' where t: "take_pending_sign_context now k' w req kf af c = (r, c')" by force
  have c': "c' = filter (\<lambda>(k'', v). is_fresh PENDING_SIGN_CONTEXT_TTL_MS now (psc_created_at_ms v) \<and> k'' \<noteq> k') c"
    using take_cache [of now k' w req kf af c] t by simp
  then have ok: "distinct (map fst c')" "length c' \<le> PENDING_SIGN_CONTEXT_MAX_ENTRIES" "set c' \<subseteq> set c"
      "k' \<notin> fst ` set c'"
    using signing.exec_ok [OF 4(3,4), of "cache_op_of (SignTake now k' w req kf af)"] by auto
  show ?case
  proof (cases r)
    case None
    with 4(1) [OF t [symmetric] None ok(1,2)] t ok show ?thesis by (auto simp: of_bool_def split: if_splits)
  next
    case (Some ctx)
    then have "k' \<in> fst ` set c" using take_Some t by force
    then have step: "of_bool (k \<in> fst ` set c') + of_bool (k' = k) \<le> (of_bool (k \<in> fst ` set c) :: nat)"
      using ok(3,4) by (cases "k' = k") auto
    obtain out c'' where run: "sign_run ops c' = (out, c'')" by force
    have "length (filter (\<lambda>(op, _). op_key op = k) out) + of_bool (k \<in> fst ` set c'')
        \<le> of_bool (k \<in> fst ` set c') + length (filter (\<lambda>op. is_store op \<and> op_key op = k) ops)"
      using 4(2) [OF t [symmetric] Some ok(1,2)] run by simp
    moreover have "sign_run (SignTake now k' w req kf af # ops) c = ((SignTake now k' w req kf af, ctx) # out, c'')"
        "length (filter (\<lambda>(op, _). op_key op = k) ((SignTake now k' w req kf af, ctx) # out))
          = of_bool (k' = k) + length (filter (\<lambda>(op, _). op_key op = k) out)"
        "length (filter (\<lambda>op. is_store op \<and> op_key op = k) (SignTake now k' w req kf af # ops))
          = length (filter (\<lambda>op. is_store op \<and> op_key op = k) ops)"
      using t Some run by simp_all
    ultimately show ?thesis using step by (simp only: fst_conv snd_conv)
  qed
qed simp

text \<open>
  Property C31. Whatever sequence of stores, takes and clears the send flow performs on the
  cache of pending signatures, starting empty: identifiers stay unique and there are never
  more than 128 entries; for each identifier the contexts handed out and the one still held
  are together no more than the stores under it, so a selection of notes is used for one
  signing at most; and each context handed out was stored under the requested identifier, for
  the same wallet, total and normalised filters, not more than ten minutes before.
\<close>

theorem pending_context_single_use:
  "case sign_run ops [] of (out, c) \<Rightarrow>
     distinct (map fst c) \<and> length c \<le> 128
     \<and> length (filter (\<lambda>(op, _). op_key op = k) out) + of_bool (map_of c k \<noteq> None)
         \<le> length (filter (\<lambda>op. is_store op \<and> op_key op = k) ops)
     \<and> list_all (\<lambda>(op, ctx). answers (op, ctx) \<and> (\<exists>now. SignStore now (op_key op) ctx \<in> set ops)) out"
proof -
  obtain out c where run: "sign_run ops [] = (out, c)" by force
  have "distinct (map fst c) \<and> length c \<le> 128"
    using signing.run_ok [of "map cache_op_of ops"] sign_run_cache [of ops "[]"] run
    by (simp add: PENDING_SIGN_CONTEXT_MAX_ENTRIES_def)
  moreover have "length (filter (\<lambda>(op, _). op_key op = k) out) + of_bool (map_of c k \<noteq> None)
      \<le> length (filter (\<lambda>op. is_store op \<and> op_key op = k) ops)"
    using sign_run_count [of "[]" k ops] run by (simp add: map_of_eq_None_iff)
  moreover have "list_all (\<lambda>(op, ctx). answers (op, ctx) \<and> (\<exists>now. SignStore now (op_key op) ctx \<in> set ops)) out"
    using sign_run_out [of _ ops "[]"] run by (fastforce simp: list_all_iff)
  ultimately show ?thesis using run by simp
qed

section \<open>Transaction identifiers\<close>

lemma hex_digits_of_byte: "hex_digit (hex_char (unat b div 16)) = Some (unat b div 16)"
  "hex_digit (hex_char (unat b mod 16)) = Some (unat b mod 16)" for b :: u8
proof -
  have "unat b < 256" using unsigned_less [of b] by simp
  then show "hex_digit (hex_char (unat b div 16)) = Some (unat b div 16)"
    "hex_digit (hex_char (unat b mod 16)) = Some (unat b mod 16)"
    by (auto intro: hex_digit_hex_char)
qed

lemma hex_decode_encode: "hex_decode (hex_encode bs) = Some bs"
  by (induction bs) (simp_all add: hex_encode_def hex_digits_of_byte)

lemma hex_encode_chars: "c \<in> set (hex_encode bs) \<Longrightarrow> \<exists>d < 16. c = hex_char d"
proof -
  assume "c \<in> set (hex_encode bs)"
  then obtain b :: u8 where "c = hex_char (unat b div 16) \<or> c = hex_char (unat b mod 16)"
    by (auto simp: hex_encode_def)
  moreover have "unat b < 256" using unsigned_less [of b] by simp
  then have "unat b div 16 < 16" "unat b mod 16 < 16" by auto
  ultimately show ?thesis by blast
qed

lemma trim_plain: "(\<And>c. c \<in> set s \<Longrightarrow> \<not> is_whitespace c) \<Longrightarrow> trim s = s"
proof -
  assume plain: "\<And>c. c \<in> set s \<Longrightarrow> \<not> is_whitespace c"
  then have "dropWhile is_whitespace s = s" by (cases s) auto
  moreover have "dropWhile is_whitespace (rev s) = rev s" using plain by (cases s rule: rev_cases) auto
  ultimately show ?thesis by (simp add: trim_def)
qed

lemma str_len_ascii: "(\<And>c. c \<in> set s \<Longrightarrow> c < 0x80) \<Longrightarrow> str_len s = length s"
  by (induction s) (auto simp: len_utf8_def)

lemma length_hex_encode: "length (hex_encode bs) = 2 * length bs"
  by (induction bs) (simp_all add: hex_encode_def)

text \<open>The identifiers the wallet prints for 32 bytes are in normal form.\<close>

lemma normalize_hex_encode:
  assumes "length bs = 32"
  shows "normalize_txid_hex (hex_encode bs) = Some (hex_encode bs)"
proof -
  have hex: "\<not> is_whitespace c \<and> c < 0x80 \<and> is_ascii_hexdigit c \<and> \<not> (0x41 \<le> c \<and> c \<le> 0x5A)"
    if c: "c \<in> set (hex_encode bs)" for c
  proof -
    obtain d where d: "d < 16" "c = hex_char d" using hex_encode_chars [OF c] by blast
    then have "is_ascii_hexdigit c" by (simp add: is_ascii_hexdigit_def hex_digit_hex_char)
    moreover have "0x30 \<le> c \<and> c \<le> 0x39 \<or> 0x61 \<le> c \<and> c \<le> 0x66" using d by (auto simp: hex_char_def)
    then have "\<not> is_whitespace c" "c < 0x80" "\<not> (0x41 \<le> c \<and> c \<le> 0x5A)" by (auto simp: is_whitespace_def)
    ultimately show ?thesis by simp
  qed
  have "trim (hex_encode bs) = hex_encode bs" using hex by (intro trim_plain) auto
  moreover have "to_ascii_lowercase (hex_encode bs) = hex_encode bs"
    using hex unfolding to_ascii_lowercase_def by (intro map_idI) auto
  moreover have "str_len (hex_encode bs) = 64"
    using hex assms by (subst str_len_ascii) (auto simp: length_hex_encode)
  ultimately show ?thesis using hex by (simp add: normalize_txid_hex_def list_all_iff)
qed

section \<open>Pending change\<close>

lemma sum_u64_sum_list: "sum_u64 xs = sum_list xs"
proof -
  have "foldl (+) a xs = a + sum_list xs" for a by (induction xs arbitrary: a) (simp_all add: add.assoc)
  then show ?thesis by (simp add: sum_u64_def)
qed

lemma sum_filter: "sum_list (map g (filter Q xs)) = sum_list (map (\<lambda>x. if Q x then g x else 0) xs)" for g :: "'a \<Rightarrow> u64"
  by (induction xs) auto

lemma sum_update_first:
  assumes "distinct (map key xs)" "\<exists>x \<in> set xs. key x = t" "\<And>x. key x = t \<Longrightarrow> g (f x) = (a :: u64)"
  shows "sum_list (map g (update_first (\<lambda>x. key x = t) f xs)) = a + sum_list (map (\<lambda>x. if key x = t then 0 else g x) xs)"
  using assms
proof (induction xs)
  case (Cons x xs)
  show ?case
  proof (cases "key x = t")
    case True
    with Cons.prems(1) have "\<And>y. y \<in> set xs \<Longrightarrow> key y \<noteq> t" by (auto simp: rev_image_eqI)
    then have "sum_list (map (\<lambda>x. if key x = t then 0 else g x) xs) = sum_list (map g xs)"
      by (intro arg_cong [of _ _ sum_list] map_cong) auto
    with True Cons.prems(3) [of x] show ?thesis by simp
  next
    case False
    with Cons show ?thesis by simp
  qed
qed simp

definition changes_inv :: "pending_changes \<Rightarrow> bool" where
  "changes_inv m \<longleftrightarrow> (\<forall>w es. m w = Some es \<longrightarrow> distinct (map pc_txid es))"

lemma update_first_keys: "(\<And>x. key (f x) = key x) \<Longrightarrow> map key (update_first P f xs) = map key xs"
  by (induction xs) auto

lemma changes_inv_add: "changes_inv m \<Longrightarrow> changes_inv (add_pending_change now w txid change m)"
  by (auto simp: changes_inv_def add_pending_change_def Let_def list_ex_iff update_first_keys distinct_map_filter
      split: option.splits)

lemma changes_inv_resolve: "changes_inv m \<Longrightarrow> changes_inv (snd (resolve_pending_change now w known m))"
  by (auto simp: changes_inv_def resolve_pending_change_def Let_def distinct_map_filter split: option.splits)

lemma is_fresh_earlier: "is_fresh ttl now' t \<Longrightarrow> now \<le> now' \<Longrightarrow> is_fresh ttl now t"
  by (auto simp: is_fresh_def word_le_nat_alt unat_saturating_sub)

text \<open>
  Observation. The change of an accepted broadcast counts once: after
  \<open>add_pending_change\<close>, what \<open>resolve_pending_change\<close> returns for the wallet at any later
  time is the change, as long as the transaction is not yet known to the scanner and no more
  than thirty minutes old, plus what the other transactions contribute; an earlier entry for
  the same transaction is replaced, other wallets are not affected, and a wallet never
  has two entries for one transaction.
\<close>

lemma pending_change_counted_once:
  assumes "changes_inv m" "change \<noteq> 0" "normalize_txid_hex txid = Some t" "now \<le> now'"
  shows "fst (resolve_pending_change now' w known (add_pending_change now w txid change m)) =
      (if is_fresh PENDING_CHANGE_TTL_MS now' now \<and> t \<notin> set known then change else 0)
      + fst (resolve_pending_change now' w (t # known) m) \<and>
    (w' \<noteq> w \<longrightarrow> add_pending_change now w txid change m w' = m w') \<and>
    changes_inv (add_pending_change now w txid change m)"
proof (intro conjI)
  define old where "old = (case m w of None \<Rightarrow> [] | Some es \<Rightarrow> es)"
  define es where "es = filter (\<lambda>e. is_fresh PENDING_CHANGE_TTL_MS now (pc_broadcast_at_ms e)) old"
  define upd where "upd = (\<lambda>e :: pending_change_entry. e\<lparr>pc_change_amount := change, pc_broadcast_at_ms := now\<rparr>)"
  define new where "new = (if list_ex (\<lambda>e. pc_txid e = t) es then update_first (\<lambda>e. pc_txid e = t) upd es
    else es @ [\<lparr>pc_txid = t, pc_change_amount = change, pc_broadcast_at_ms = now\<rparr>])"
  define counted where "counted = (\<lambda>kn (e :: pending_change_entry). is_fresh PENDING_CHANGE_TTL_MS now' (pc_broadcast_at_ms e) \<and> pc_txid e \<notin> set kn)"
  define g where "g = (\<lambda>kn (e :: pending_change_entry). if counted kn e then pc_change_amount e else 0)"
  define a where "a = (if is_fresh PENDING_CHANGE_TTL_MS now' now \<and> t \<notin> set known then change else 0)"
  note [simp] = g_def counted_def upd_def a_def
  have g: "(\<lambda>e. if pc_txid e = t then 0 else g known e) = g (t # known)" by (auto simp: fun_eq_iff)
  have d: "distinct (map pc_txid es)"
    using assms(1) by (auto simp: changes_inv_def es_def old_def distinct_map_filter split: option.splits)
  have m': "add_pending_change now w txid change m = m(w \<mapsto> new)"
    using assms(2,3) by (simp add: add_pending_change_def Let_def new_def es_def old_def)
  have "sum_list (map (g known) new) = a + sum_list (map (g (t # known)) es)"
  proof (cases "list_ex (\<lambda>e. pc_txid e = t) es")
    case True
    then have "\<exists>e \<in> set es. pc_txid e = t" by (auto simp: list_ex_iff)
    from sum_update_first [OF d this, of "g known" upd a] True show ?thesis
      unfolding new_def g by simp
  next
    case False
    then have "sum_list (map (g (t # known)) es) = sum_list (map (g known) es)"
      by (intro arg_cong [of _ _ sum_list] map_cong) (auto simp: list_ex_iff)
    with False show ?thesis by (simp add: new_def)
  qed
  moreover have "sum_list (map (g (t # known)) es) = sum_list (map (g (t # known)) old)"
    unfolding es_def sum_filter using is_fresh_earlier [OF _ assms(4)]
    by (intro arg_cong [of _ _ sum_list] map_cong) auto
  moreover have "fst (resolve_pending_change now' w kn m0) =
      sum_list (map (g kn) (case m0 w of None \<Rightarrow> [] | Some es \<Rightarrow> es))" for kn m0
    by (simp add: resolve_pending_change_def Let_def sum_u64_sum_list sum_filter split: option.splits)
  ultimately show "fst (resolve_pending_change now' w known (add_pending_change now w txid change m)) =
      (if is_fresh PENDING_CHANGE_TTL_MS now' now \<and> t \<notin> set known then change else 0)
      + fst (resolve_pending_change now' w (t # known) m)"
    unfolding m' old_def a_def by simp
  show "w' \<noteq> w \<longrightarrow> add_pending_change now w txid change m w' = m w'" by (simp add: m')
  show "changes_inv (add_pending_change now w txid change m)" using assms(1) by (rule changes_inv_add)
qed

theorem pending_change_counted_once_witness:
  "fst (resolve_pending_change 6 [1] [] (add_pending_change 5 [1] (hex_encode (replicate 32 0)) 70 Map.empty)) = 70
   \<and> fst (resolve_pending_change 6 [1] [hex_encode (replicate 32 0)]
        (add_pending_change 5 [1] (hex_encode (replicate 32 0)) 70 Map.empty)) = 0"
proof -
  have inv: "changes_inv Map.empty" by (simp add: changes_inv_def)
  have fresh: "is_fresh PENDING_CHANGE_TTL_MS 6 5"
    by (simp add: is_fresh_def PENDING_CHANGE_TTL_MS_def saturating_sub_def word_le_nat_alt)
  have none: "fst (resolve_pending_change 6 w kn Map.empty) = 0" for w kn
    by (simp add: resolve_pending_change_def)
  have len: "length (replicate 32 (0 :: u8)) = 32" by simp
  have order: "(70 :: u64) \<noteq> 0" "(5 :: u64) \<le> 6" by (simp_all add: word_le_nat_alt)
  show ?thesis
    using pending_change_counted_once [OF inv order(1) normalize_hex_encode [OF len] order(2)]
    by (simp add: fresh none)
qed

end
