(* ===== verification/AddressStore.thy ===== *)
theory AddressStore
  imports Errors Utf8
begin

text \<open>
  The address table of the storage crate (\<open>pirate-storage-sqlite/src/repository/address.rs\<close>):
  the allocation of the next diversified address of a key, the upsert that merges a derived
  address into its row, the lookups, and the display preferences.

  The tables are lists of rows in insertion order. \<open>addresses.address\<close> is \<open>UNIQUE\<close>, and the
  index of migration 38 makes the full diversifier index unique per account, key, scope and
  type; a statement that breaks either is refused with \<open>ConstraintViolation\<close> and changes
  nothing. An 88-bit index is stored big-endian, so that the bytewise order of SQLite is the
  numeric one. The clock of \<open>datetime('now')\<close> only fills a column no code reads and is left out.
\<close>

section \<open>Rows\<close>

datatype address_type = SaplingAddr | IronwoodAddr
datatype address_scope = External | Internal
datatype color_tag = ColorNone | Red | Orange | Yellow | Green | Blue | Purple | Pink | Gray

fun address_type_str :: "address_type \<Rightarrow> string" where
  "address_type_str SaplingAddr = ''Sapling''"
| "address_type_str IronwoodAddr = ''Orchard''"

fun address_scope_str :: "address_scope \<Rightarrow> string" where
  "address_scope_str External = ''external''"
| "address_scope_str Internal = ''internal''"

definition decode_address_type :: "string \<Rightarrow> address_type" where
  "decode_address_type v = (if v = ''Orchard'' then IronwoodAddr else SaplingAddr)"

definition decode_address_scope :: "string \<Rightarrow> address_scope" where
  "decode_address_scope v = (if v = ''internal'' then Internal else External)"

definition color_from_u8 :: "u8 \<Rightarrow> color_tag" where
  "color_from_u8 v =
     (if v = 1 then Red else if v = 2 then Orange else if v = 3 then Yellow else if v = 4 then Green
      else if v = 5 then Blue else if v = 6 then Purple else if v = 7 then Pink else if v = 8 then Gray
      else ColorNone)"

fun color_as_u8 :: "color_tag \<Rightarrow> u8" where
  "color_as_u8 ColorNone = 0"
| "color_as_u8 Red = 1"
| "color_as_u8 Orange = 2"
| "color_as_u8 Yellow = 3"
| "color_as_u8 Green = 4"
| "color_as_u8 Blue = 5"
| "color_as_u8 Purple = 6"
| "color_as_u8 Pink = 7"
| "color_as_u8 Gray = 8"

record address =
  ad_id :: "i64 option"
  ad_key_id :: "i64 option"
  ad_account_id :: i64
  ad_diversifier_index :: u32
  ad_diversifier_index_88 :: "bytes option"
  ad_address :: str
  ad_address_type :: address_type
  ad_label :: "str option"
  ad_created_at :: i64
  ad_color_tag :: color_tag
  ad_address_scope :: address_scope

record address_row =
  ar_id :: i64
  ar_account_id :: i64
  ar_key_id :: "i64 option"
  ar_diversifier_index :: i64
  ar_address :: str
  ar_address_type :: string
  ar_label :: "str option"
  ar_created_at :: i64
  ar_color_tag :: i64
  ar_address_scope :: string
  ar_diversifier_index_be :: "bytes option"

record preference_row =
  pr_address_id :: i64
  pr_is_pinned :: i64
  pr_is_archived :: i64

record address_db =
  address_rows :: "address_row list"
  preference_rows :: "preference_row list"

section \<open>The 88-bit diversifier index\<close>

definition encode_diversifier_index_be :: "bytes \<Rightarrow> bytes" where
  "encode_diversifier_index_be index = rev index"

definition decode_diversifier_index_be :: "bytes \<Rightarrow> bytes" where
  "decode_diversifier_index_be encoded = rev encoded"

fun increment_diversifier_index :: "bytes \<Rightarrow> storage_error + bytes" where
  "increment_diversifier_index [] = Inl (Validation (Msg ''ZIP-32 diversifier index space is exhausted'' []))"
| "increment_diversifier_index (b # bs) =
     (let b' = b + 1 in if b' \<noteq> 0 then Inr (b' # bs)
      else bind_res (increment_diversifier_index bs) (\<lambda>bs'. Inr (b' # bs')))"

text \<open>The order of arrays in Rust and of blobs in SQLite.\<close>

fun bytes_less :: "bytes \<Rightarrow> bytes \<Rightarrow> bool" where
  "bytes_less [] ys \<longleftrightarrow> ys \<noteq> []"
| "bytes_less (x # xs) [] \<longleftrightarrow> False"
| "bytes_less (x # xs) (y # ys) \<longleftrightarrow> x < y \<or> x = y \<and> bytes_less xs ys"

fun max_blob :: "bytes list \<Rightarrow> bytes option" where
  "max_blob [] = None"
| "max_blob (b # bs) = (case max_blob bs of None \<Rightarrow> Some b | Some m \<Rightarrow> Some (if bytes_less b m then m else b))"

section \<open>The next index\<close>

definition in_scope :: "i64 \<Rightarrow> i64 \<Rightarrow> address_scope \<Rightarrow> address_row \<Rightarrow> bool" where
  "in_scope account key scope r \<longleftrightarrow>
     ar_account_id r = account \<and> ar_key_id r = Some key \<and> ar_address_scope r = address_scope_str scope"

definition in_group :: "i64 \<Rightarrow> i64 \<Rightarrow> address_scope \<Rightarrow> address_type \<Rightarrow> address_row \<Rightarrow> bool" where
  "in_group account key scope ty r \<longleftrightarrow> in_scope account key scope r \<and> ar_address_type r = address_type_str ty"

text \<open>\<open>SELECT MAX(...)\<close>: \<open>NULL\<close> on no rows.\<close>

fun sql_max :: "i64 list \<Rightarrow> i64 option" where
  "sql_max [] = None"
| "sql_max (x # xs) = (case sql_max xs of None \<Rightarrow> Some x | Some m \<Rightarrow> Some (max x m))"

definition get_current_diversifier_index_for_scope :: "i64 \<Rightarrow> i64 \<Rightarrow> address_scope \<Rightarrow> address_db \<Rightarrow> u32" where
  "get_current_diversifier_index_for_scope account key scope db =
     (case sql_max (map ar_diversifier_index (filter (in_scope account key scope) (address_rows db))) of
        None \<Rightarrow> 0 | Some v \<Rightarrow> word_of_int v)"

definition get_current_diversifier_index_for_scope_and_type ::
    "i64 \<Rightarrow> i64 \<Rightarrow> address_scope \<Rightarrow> address_type \<Rightarrow> address_db \<Rightarrow> u32" where
  "get_current_diversifier_index_for_scope_and_type account key scope ty db =
     (case sql_max (map ar_diversifier_index (filter (in_group account key scope ty) (address_rows db))) of
        None \<Rightarrow> 0 | Some v \<Rightarrow> word_of_int v)"

definition stored_sequence :: "i64 \<Rightarrow> storage_error + u32" where
  "stored_sequence v =
     (if 0 \<le> v \<and> v < 2 ^ 32 then Inr (word_of_int v)
      else Inl (Validation (Msg ''Stored address sequence is invalid'' [])))"

text \<open>The search of the exceptional case, over the distinct values in ascending order.\<close>

fun lowest_free_loop :: "u32 \<Rightarrow> i64 list \<Rightarrow> storage_error + u32" where
  "lowest_free_loop lowest_free [] = Inr lowest_free"
| "lowest_free_loop lowest_free (row # rows) =
     bind_res (stored_sequence row) (\<lambda>stored.
       if stored < lowest_free then lowest_free_loop lowest_free rows
       else if lowest_free < stored then Inr lowest_free
       else bind_res (ok_or (checked_add lowest_free 1) (Validation (Msg ''Address sequence is exhausted'' [])))
         (\<lambda>next. lowest_free_loop next rows))"

definition get_next_diversifier_index_for_scope_and_type ::
    "i64 \<Rightarrow> i64 \<Rightarrow> address_scope \<Rightarrow> address_type \<Rightarrow> address_db \<Rightarrow> storage_error + u32" where
  "get_next_diversifier_index_for_scope_and_type account key scope ty db =
     (let values = map ar_diversifier_index (filter (in_group account key scope ty) (address_rows db))
      in case sql_max values of
           None \<Rightarrow> Inr 0
         | Some m \<Rightarrow> bind_res (stored_sequence m) (\<lambda>max_index.
             if max_index < - 1 then Inr (max_index + 1)
             else lowest_free_loop 0 (remdups_adj (sort values))))"

definition get_next_diversifier_index_88_for_scope_and_type ::
    "i64 \<Rightarrow> i64 \<Rightarrow> address_scope \<Rightarrow> address_type \<Rightarrow> address_db \<Rightarrow> storage_error + bytes" where
  "get_next_diversifier_index_88_for_scope_and_type account key scope ty db =
     (case max_blob (List.map_filter ar_diversifier_index_be (filter (in_group account key scope ty) (address_rows db))) of
        None \<Rightarrow> Inr (replicate 11 0)
      | Some encoded \<Rightarrow>
          if length encoded \<noteq> 11
          then Inl (Validation (Msg ''Stored ZIP-32 diversifier index has an invalid length'' []))
          else increment_diversifier_index (decode_diversifier_index_be encoded))"

section \<open>Writes\<close>

text \<open>The two unique indexes of the table.\<close>

definition full_key :: "address_row \<Rightarrow> (i64 \<times> i64 \<times> string \<times> string \<times> bytes) option" where
  "full_key r =
     (case (ar_key_id r, ar_diversifier_index_be r) of
        (Some k, Some be) \<Rightarrow> Some (ar_account_id r, k, ar_address_scope r, ar_address_type r, be)
      | _ \<Rightarrow> None)"

definition unique_rows :: "address_row list \<Rightarrow> bool" where
  "unique_rows rows \<longleftrightarrow> distinct (map ar_address rows) \<and> distinct (List.map_filter full_key rows)"

definition checked_rows :: "address_row list \<Rightarrow> address_db \<Rightarrow> storage_error + address_db" where
  "checked_rows rows db =
     (if unique_rows rows then Inr (db\<lparr>address_rows := rows\<rparr>) else Inl (Database ConstraintViolation))"

text \<open>The row id SQLite gives: one more than the largest.\<close>

definition next_address_id :: "address_row list \<Rightarrow> i64" where
  "next_address_id rows = (case sql_max (map ar_id rows) of None \<Rightarrow> 1 | Some m \<Rightarrow> m + 1)"

definition inserted_row :: "i64 \<Rightarrow> address \<Rightarrow> address_row" where
  "inserted_row i a =
     \<lparr>ar_id = i, ar_account_id = ad_account_id a, ar_key_id = ad_key_id a,
      ar_diversifier_index = uint (ad_diversifier_index a), ar_address = ad_address a,
      ar_address_type = address_type_str (ad_address_type a), ar_label = ad_label a, ar_created_at = ad_created_at a,
      ar_color_tag = uint (color_as_u8 (ad_color_tag a)), ar_address_scope = address_scope_str (ad_address_scope a),
      ar_diversifier_index_be = map_option encode_diversifier_index_be (ad_diversifier_index_88 a)\<rparr>"

definition coalesce :: "'a option \<Rightarrow> 'a option \<Rightarrow> 'a option" where
  "coalesce x y = (case x of None \<Rightarrow> y | Some v \<Rightarrow> Some v)"

text \<open>\<open>ON CONFLICT(address) DO UPDATE\<close>: the stored row and the one that was to be inserted.\<close>

definition merged_row :: "address_row \<Rightarrow> address_row \<Rightarrow> address_row" where
  "merged_row excluded old = old
     \<lparr>ar_account_id := ar_account_id excluded,
      ar_key_id := coalesce (ar_key_id excluded) (ar_key_id old),
      ar_diversifier_index := (if ar_diversifier_index excluded = 0 then ar_diversifier_index old
        else ar_diversifier_index excluded),
      ar_address_type := ar_address_type excluded,
      ar_label := coalesce (ar_label excluded) (ar_label old),
      ar_address_scope := (if ar_address_scope old = ''internal'' then ar_address_scope old else ar_address_scope excluded),
      ar_diversifier_index_be := coalesce (ar_diversifier_index_be excluded) (ar_diversifier_index_be old)\<rparr>"

definition upsert_address :: "address \<Rightarrow> address_db \<Rightarrow> storage_error + address_db" where
  "upsert_address a db =
     (let rows = address_rows db; new = inserted_row (next_address_id rows) a
      in checked_rows
           (if list_ex (\<lambda>r. ar_address r = ad_address a) rows
            then map (\<lambda>r. if ar_address r = ad_address a then merged_row new r else r) rows
            else rows @ [new]) db)"

definition backfill_address_key_id :: "i64 \<Rightarrow> i64 \<Rightarrow> address_db \<Rightarrow> storage_error + nat \<times> address_db" where
  "backfill_address_key_id account key db =
     (let hit = (\<lambda>r. ar_account_id r = account \<and> ar_key_id r = None)
      in bind_res (checked_rows (map (\<lambda>r. if hit r then r\<lparr>ar_key_id := Some key\<rparr> else r) (address_rows db)) db)
           (\<lambda>db'. Inr (length (filter hit (address_rows db)), db')))"

definition repair_address_ownership :: "address \<Rightarrow> address_db \<Rightarrow> storage_error + address_db" where
  "repair_address_ownership a db =
     bind_res (ok_or (ad_key_id a) (Validation (Msg ''Address ownership repair requires a key group'' []))) (\<lambda>key.
     bind_res (ok_or (ad_diversifier_index_88 a) (Validation (Msg ''Address ownership repair requires a ZIP-32 index'' []))) (\<lambda>index.
       let hit = (\<lambda>r. ar_account_id r = ad_account_id a \<and> ar_address r = ad_address a)
       in bind_res (checked_rows (map (\<lambda>r. if hit r then r\<lparr>ar_key_id := Some key,
              ar_address_type := address_type_str (ad_address_type a), ar_address_scope := address_scope_str (ad_address_scope a),
              ar_diversifier_index_be := Some (encode_diversifier_index_be index)\<rparr> else r) (address_rows db)) db)
            (\<lambda>db'. if length (filter hit (address_rows db)) \<noteq> 1
               then Inl (SStorage (Msg ''Address ownership repair target is unavailable'' [])) else Inr db')))"

text \<open>
  \<open>build\<close> derives the address from the sequence number and the first full index it may use. The
  whole closure runs between \<open>BEGIN IMMEDIATE\<close> and \<open>COMMIT\<close>; an error rolls back.
\<close>

definition allocate_next_diversified_address ::
    "(u32 \<Rightarrow> bytes \<Rightarrow> storage_error + address) \<Rightarrow> i64 \<Rightarrow> i64 \<Rightarrow> address_scope \<Rightarrow> address_type \<Rightarrow> address_db
     \<Rightarrow> storage_error + address \<times> address_db" where
  "allocate_next_diversified_address build account key scope ty db =
     bind_res (get_next_diversifier_index_for_scope_and_type account key scope ty db) (\<lambda>next_index.
     bind_res (get_next_diversifier_index_88_for_scope_and_type account key scope ty db) (\<lambda>next_index_88.
     bind_res (build next_index next_index_88) (\<lambda>a.
     bind_res (ok_or (ad_diversifier_index_88 a)
       (Validation (Msg ''Address derivation did not return a ZIP-32 index'' []))) (\<lambda>actual.
       if bytes_less (encode_diversifier_index_be actual) (encode_diversifier_index_be next_index_88)
       then Inl (Validation (Msg ''Address derivation moved the ZIP-32 index backwards'' []))
       else bind_res (upsert_address a db) (\<lambda>db'. Inr (a, db'))))))"

definition update_address_label :: "i64 \<Rightarrow> str \<Rightarrow> str option \<Rightarrow> address_db \<Rightarrow> address_db" where
  "update_address_label account a label db = db\<lparr>address_rows :=
     map (\<lambda>r. if ar_account_id r = account \<and> ar_address r = a then r\<lparr>ar_label := label\<rparr> else r) (address_rows db)\<rparr>"

definition update_address_color_tag :: "i64 \<Rightarrow> str \<Rightarrow> color_tag \<Rightarrow> address_db \<Rightarrow> address_db" where
  "update_address_color_tag account a tag db = db\<lparr>address_rows :=
     map (\<lambda>r. if ar_account_id r = account \<and> ar_address r = a then r\<lparr>ar_color_tag := uint (color_as_u8 tag)\<rparr> else r)
       (address_rows db)\<rparr>"

section \<open>Reads\<close>

definition decode_address_row :: "address_row \<Rightarrow> storage_error + address" where
  "decode_address_row r =
     bind_res (case ar_diversifier_index_be r of
         None \<Rightarrow> Inr None
       | Some encoded \<Rightarrow> if length encoded \<noteq> 11
           then Inl (Database (OtherFailure (Msg ''ZIP-32 diversifier index must contain 11 bytes'' [])))
           else Inr (Some (decode_diversifier_index_be encoded))) (\<lambda>index.
       Inr \<lparr>ad_id = Some (ar_id r), ad_key_id = ar_key_id r, ad_account_id = ar_account_id r,
         ad_diversifier_index = word_of_int (ar_diversifier_index r), ad_diversifier_index_88 = index,
         ad_address = ar_address r, ad_address_type = decode_address_type (ar_address_type r), ad_label = ar_label r,
         ad_created_at = ar_created_at r, ad_color_tag = color_from_u8 (word_of_int (ar_color_tag r)),
         ad_address_scope = decode_address_scope (ar_address_scope r)\<rparr>)"

fun decode_rows :: "address_row list \<Rightarrow> storage_error + address list" where
  "decode_rows [] = Inr []"
| "decode_rows (r # rs) = bind_res (decode_address_row r) (\<lambda>a. bind_res (decode_rows rs) (\<lambda>as. Inr (a # as)))"

text \<open>\<open>query_row(...).optional()\<close>: the first row of the result.\<close>

definition first_row :: "(address_row \<Rightarrow> bool) \<Rightarrow> address_db \<Rightarrow> storage_error + address option" where
  "first_row P db = (case find P (address_rows db) of
     None \<Rightarrow> Inr None | Some r \<Rightarrow> bind_res (decode_address_row r) (\<lambda>a. Inr (Some a)))"

definition get_address_by_string :: "i64 \<Rightarrow> str \<Rightarrow> address_db \<Rightarrow> storage_error + address option" where
  "get_address_by_string account a db = first_row (\<lambda>r. ar_account_id r = account \<and> ar_address r = a) db"

definition get_address_by_index_for_scope ::
    "i64 \<Rightarrow> i64 \<Rightarrow> u32 \<Rightarrow> address_scope \<Rightarrow> address_db \<Rightarrow> storage_error + address option" where
  "get_address_by_index_for_scope account key index scope db =
     first_row (\<lambda>r. in_scope account key scope r \<and> ar_diversifier_index r = uint index) db"

definition get_address_by_index_for_scope_and_type ::
    "i64 \<Rightarrow> i64 \<Rightarrow> u32 \<Rightarrow> address_scope \<Rightarrow> address_type \<Rightarrow> address_db \<Rightarrow> storage_error + address option" where
  "get_address_by_index_for_scope_and_type account key index scope ty db =
     first_row (\<lambda>r. in_group account key scope ty r \<and> ar_diversifier_index r = uint index) db"

definition get_all_addresses :: "i64 \<Rightarrow> address_db \<Rightarrow> storage_error + address list" where
  "get_all_addresses account db =
     decode_rows (sort_key ar_diversifier_index (filter (\<lambda>r. ar_account_id r = account) (address_rows db)))"

definition get_addresses_by_key :: "i64 \<Rightarrow> i64 \<Rightarrow> address_db \<Rightarrow> storage_error + address list" where
  "get_addresses_by_key account key db =
     decode_rows (sort_key ar_diversifier_index
       (filter (\<lambda>r. ar_account_id r = account \<and> ar_key_id r = Some key) (address_rows db)))"

section \<open>Display preferences\<close>

record address_display_preference =
  dp_address_id :: i64
  dp_is_pinned :: bool
  dp_is_archived :: bool

definition get_address_display_preferences :: "i64 \<Rightarrow> address_db \<Rightarrow> address_display_preference list" where
  "get_address_display_preferences account db =
     map (\<lambda>p. \<lparr>dp_address_id = pr_address_id p, dp_is_pinned = (pr_is_pinned p \<noteq> 0), dp_is_archived = (pr_is_archived p \<noteq> 0)\<rparr>)
       (filter (\<lambda>p. list_ex (\<lambda>r. ar_id r = pr_address_id p \<and> ar_account_id r = account) (address_rows db)) (preference_rows db))"

text \<open>Insert a preference for an address of the account, or change the one there is.\<close>

definition upsert_preference ::
    "preference_row \<Rightarrow> (preference_row \<Rightarrow> preference_row) \<Rightarrow> i64 \<Rightarrow> address_db \<Rightarrow> storage_error + address_db" where
  "upsert_preference new change account db =
     (if \<not> list_ex (\<lambda>r. ar_account_id r = account \<and> ar_id r = pr_address_id new) (address_rows db)
      then Inl (NotFound (Msg ''address row {address_id} for account {account_id}'' [pr_address_id new, account]))
      else Inr (db\<lparr>preference_rows :=
        (if list_ex (\<lambda>p. pr_address_id p = pr_address_id new) (preference_rows db)
         then map (\<lambda>p. if pr_address_id p = pr_address_id new then change p else p) (preference_rows db)
         else preference_rows db @ [new])\<rparr>))"

definition set_address_pinned :: "i64 \<Rightarrow> i64 \<Rightarrow> bool \<Rightarrow> address_db \<Rightarrow> storage_error + address_db" where
  "set_address_pinned account address_id pinned db =
     upsert_preference \<lparr>pr_address_id = address_id, pr_is_pinned = bool_to_int pinned, pr_is_archived = 0\<rparr>
       (\<lambda>p. p\<lparr>pr_is_pinned := bool_to_int pinned, pr_is_archived := (if pinned then 0 else pr_is_archived p)\<rparr>) account db"

definition set_address_archived :: "i64 \<Rightarrow> i64 \<Rightarrow> bool \<Rightarrow> address_db \<Rightarrow> storage_error + address_db" where
  "set_address_archived account address_id archived db =
     upsert_preference \<lparr>pr_address_id = address_id, pr_is_pinned = 0, pr_is_archived = bool_to_int archived\<rparr>
       (\<lambda>p. p\<lparr>pr_is_archived := bool_to_int archived, pr_is_pinned := (if archived then 0 else pr_is_pinned p)\<rparr>) account db"

section \<open>Bytewise order is numeric order\<close>

fun be_nat :: "bytes \<Rightarrow> nat" where
  "be_nat [] = 0"
| "be_nat (b # bs) = unat b * 256 ^ length bs + be_nat bs"

lemma be_nat_append: "be_nat (xs @ ys) = be_nat xs * 256 ^ length ys + be_nat ys"
  by (induction xs) (simp_all add: algebra_simps power_add)

lemma be_nat_less: "be_nat bs < 256 ^ length bs"
proof (induction bs)
  case (Cons b bs)
  have "unat b * 256 ^ length bs + be_nat bs < (unat b + 1) * 256 ^ length bs"
    using Cons by simp
  also have "\<dots> \<le> 256 * 256 ^ length bs"
    using unat_u8_bound [of b] by (intro mult_right_mono) simp_all
  finally show ?case by simp
qed simp

lemma bytes_less_be_nat: "length xs = length ys \<Longrightarrow> bytes_less xs ys \<longleftrightarrow> be_nat xs < be_nat ys"
proof (induction xs ys rule: list_induct2)
  case (Cons x xs y ys)
  have bounds: "be_nat xs < 256 ^ length ys" "be_nat ys < 256 ^ length ys"
    using be_nat_less [of xs] be_nat_less [of ys] Cons by simp_all
  have step: "unat a < unat b \<Longrightarrow> p < 256 ^ length ys \<Longrightarrow> unat a * 256 ^ length ys + p < unat b * 256 ^ length ys + q"
    for a b :: u8 and p q
  proof -
    assume "unat a < unat b" "p < 256 ^ length ys"
    then have "unat a * 256 ^ length ys + p < (unat a + 1) * 256 ^ length ys" by simp
    also have "\<dots> \<le> unat b * 256 ^ length ys" using \<open>unat a < unat b\<close> by (intro mult_right_mono) simp_all
    finally show ?thesis by simp
  qed
  consider "x < y" | "x = y" | "y < x" by fastforce
  then show ?case
  proof cases
    case 1
    then show ?thesis using step [of x y] bounds Cons by (simp add: word_less_nat_alt)
  next
    case 2
    then show ?thesis using Cons by simp
  next
    case 3
    then have "be_nat (y # ys) < be_nat (x # xs)" using step [of y x] bounds Cons by (simp add: word_less_nat_alt)
    with 3 show ?thesis by auto
  qed
qed simp

lemma increment_Inr:
  "increment_diversifier_index bs = Inr bs' \<Longrightarrow> length bs' = length bs \<and> be_nat (rev bs') = be_nat (rev bs) + 1"
proof (induction bs arbitrary: bs')
  case (Cons b bs)
  show ?case
  proof (cases "b + 1 = 0")
    case False
    then have "unat (b + 1) = unat b + 1" using unatSuc [of b] by (simp add: add.commute)
    with Cons.prems False show ?thesis by (auto simp: be_nat_append)
  next
    case True
    then have b: "b = - 1" by (simp add: eq_neg_iff_add_eq_0)
    with Cons.prems True obtain r where r: "increment_diversifier_index bs = Inr r" "bs' = 0 # r"
      by (auto simp: bind_res_Inr_iff)
    have "unat b = 255" by (simp add: b unsigned_minus_1_eq_mask mask_eq_exp_minus_1)
    with Cons.IH [OF r(1)] r(2) show ?thesis by (simp add: be_nat_append)
  qed
qed simp

lemma max_blob_Some:
  assumes "max_blob bs = Some m" "\<And>b. b \<in> set bs \<Longrightarrow> length b = n"
  shows "m \<in> set bs \<and> (\<forall>b \<in> set bs. be_nat b \<le> be_nat m)"
  using assms
proof (induction bs arbitrary: m)
  case (Cons b bs)
  show ?case
  proof (cases "max_blob bs")
    case None
    then have "bs = []" by (cases bs) (auto split: option.splits)
    with Cons.prems show ?thesis by simp
  next
    case (Some m')
    from Cons.IH [OF Some] Cons.prems(2) have m': "m' \<in> set bs" "\<And>c. c \<in> set bs \<Longrightarrow> be_nat c \<le> be_nat m'" by auto
    then have "bytes_less b m' \<longleftrightarrow> be_nat b < be_nat m'"
      using Cons.prems(2) [of b] Cons.prems(2) [of m'] by (intro bytes_less_be_nat) simp
    with Cons.prems(1) Some m' show ?thesis by (fastforce split: if_splits)
  qed
qed simp

lemma max_blob_None [simp]: "max_blob bs = None \<longleftrightarrow> bs = []"
  by (cases bs) (auto split: option.splits)

lemma sql_max_None [simp]: "sql_max xs = None \<longleftrightarrow> xs = []"
  by (cases xs) (auto split: option.splits)

lemma sql_max_Some: "sql_max xs = Some m \<Longrightarrow> m \<in> set xs \<and> (\<forall>x \<in> set xs. x \<le> m)"
proof (induction xs arbitrary: m)
  case (Cons x xs)
  then show ?case by (cases "sql_max xs") (auto simp: max_def)
qed simp

section \<open>The next index is new\<close>

lemma stored_sequence_Inr: "stored_sequence v = Inr w \<longleftrightarrow> 0 \<le> v \<and> v < 2 ^ 32 \<and> uint w = v"
  by (auto simp: stored_sequence_def uint_word_of_int)

lemma lowest_free_loop_Inr:
  assumes "lowest_free_loop lf xs = Inr n" "sorted_wrt (<) xs"
  shows "lf \<le> n \<and> uint n \<notin> set xs \<and> (\<forall>k. lf \<le> k \<and> k < n \<longrightarrow> uint k \<in> set xs)"
  using assms
proof (induction xs arbitrary: lf)
  case (Cons x xs)
  then obtain st where st: "stored_sequence x = Inr st" "uint st = x"
    by (auto simp: bind_res_Inr_iff stored_sequence_Inr)
  consider (below) "st < lf" | (above) "lf < st" | (eq) "st = lf" by fastforce
  then show ?case
  proof cases
    case below
    with Cons st have "lowest_free_loop lf xs = Inr n" "sorted_wrt (<) xs" by simp_all
    from Cons.IH [OF this] below st show ?thesis by (auto simp: word_less_def word_le_def)
  next
    case above
    then have "\<not> st < lf" by simp
    with Cons.prems st above have "n = lf" by auto
    moreover have "uint lf < x" using above st by (simp add: word_less_def)
    then have "\<forall>y \<in> set (x # xs). uint lf < y" using Cons.prems(2) by auto
    ultimately show ?thesis by fastforce
  next
    case eq
    with Cons.prems(1) st obtain nx where nx: "checked_add lf 1 = Some nx" "lowest_free_loop nx xs = Inr n"
      by (auto simp: bind_res_Inr_iff)
    then have "unat nx = unat lf + 1" by (simp add: checked_add_Some_iff)
    then have suc: "uint nx = uint lf + 1" by (metis of_nat_1 of_nat_add uint_nat)
    from Cons.IH [OF nx(2)] Cons.prems(2)
    have IH: "nx \<le> n" "uint n \<notin> set xs" "\<And>k. nx \<le> k \<Longrightarrow> k < n \<Longrightarrow> uint k \<in> set xs" by auto
    have "uint k \<in> set (x # xs)" if "lf \<le> k" "k < n" for k
    proof (cases "k = lf")
      case True
      with st eq show ?thesis by simp
    next
      case False
      with that(1) suc have "nx \<le> k" by (simp add: word_le_def) (metis add1_zle_eq order_le_less unsigned_word_eqI)
      with IH(3) that(2) show ?thesis by simp
    qed
    moreover have "lf \<le> n" "uint n \<notin> set (x # xs)" using IH(1,2) suc st eq by (auto simp: word_le_def)
    ultimately show ?thesis by blast
  qed
qed auto

lemma sorted_wrt_less_remdups_adj: "sorted xs \<Longrightarrow> sorted_wrt (<) (remdups_adj xs)" for xs :: "i64 list"
  by (induction xs rule: remdups_adj.induct) (auto simp: less_le)

lemma next_sequence_unused:
  assumes "get_next_diversifier_index_for_scope_and_type account key scope ty db = Inr n"
    and "r \<in> set (address_rows db)" "in_group account key scope ty r"
  shows "ar_diversifier_index r \<noteq> uint n"
proof -
  let ?vs = "map ar_diversifier_index (filter (in_group account key scope ty) (address_rows db))"
  have r: "ar_diversifier_index r \<in> set ?vs" using assms(2,3) by auto
  then obtain m where m: "sql_max ?vs = Some m" by (metis empty_iff list.set(1) not_None_eq sql_max_None)
  with assms(1) obtain w where w: "stored_sequence m = Inr w" by (auto simp: get_next_diversifier_index_for_scope_and_type_def bind_res_Inr_iff)
  show ?thesis
  proof (cases "w < - 1")
    case True
    with assms(1) m w have n: "n = w + 1" by (simp add: get_next_diversifier_index_for_scope_and_type_def)
    have "w \<noteq> - 1" using True by auto
    then have "uint n = uint w + 1"
      unfolding n using True by (simp add: uint_word_ariths word_less_def unsigned_minus_1_eq_mask mask_eq_exp_minus_1 uint_plus_if')
    moreover have "ar_diversifier_index r \<le> m" using sql_max_Some [OF m] r by auto
    ultimately show ?thesis using w by (simp add: stored_sequence_Inr)
  next
    case False
    with assms(1) m w have "lowest_free_loop 0 (remdups_adj (sort ?vs)) = Inr n"
      by (simp add: get_next_diversifier_index_for_scope_and_type_def)
    then have "uint n \<notin> set ?vs"
      using lowest_free_loop_Inr [of 0 "remdups_adj (sort ?vs)" n] sorted_wrt_less_remdups_adj [of "sort ?vs"] by simp
    with r show ?thesis by auto
  qed
qed

section \<open>The invariant of the tables\<close>

definition row_ok :: "address_row \<Rightarrow> bool" where
  "row_ok r \<longleftrightarrow> (case ar_diversifier_index_be r of None \<Rightarrow> True | Some be \<Rightarrow> length be = 11)
     \<and> 0 \<le> ar_diversifier_index r \<and> ar_diversifier_index r < 2 ^ 32"

definition pref_ok :: "preference_row \<Rightarrow> bool" where
  "pref_ok p \<longleftrightarrow> pr_is_pinned p \<in> {0, 1} \<and> pr_is_archived p \<in> {0, 1} \<and> \<not> (pr_is_pinned p = 1 \<and> pr_is_archived p = 1)"

definition addr_inv :: "address_db \<Rightarrow> bool" where
  "addr_inv db \<longleftrightarrow> unique_rows (address_rows db) \<and> distinct (map ar_id (address_rows db))
     \<and> (\<forall>r \<in> set (address_rows db). row_ok r)
     \<and> distinct (map pr_address_id (preference_rows db)) \<and> (\<forall>p \<in> set (preference_rows db). pref_ok p)"

text \<open>A full index is an array of eleven bytes.\<close>

definition wf_address :: "address \<Rightarrow> bool" where
  "wf_address a \<longleftrightarrow> (case ad_diversifier_index_88 a of None \<Rightarrow> True | Some i \<Rightarrow> length i = 11)"

definition wf_build :: "(u32 \<Rightarrow> bytes \<Rightarrow> storage_error + address) \<Rightarrow> bool" where
  "wf_build build \<longleftrightarrow> (\<forall>n i a. build n i = Inr a \<longrightarrow> wf_address a)"

datatype addr_op =
    Upsert address
  | Backfill i64 i64
  | Repair address
  | Allocate "u32 \<Rightarrow> bytes \<Rightarrow> storage_error + address" i64 i64 address_scope address_type
  | Label i64 str "str option"
  | Color i64 str color_tag
  | Pin i64 i64 bool
  | Archive i64 i64 bool

fun addr_step :: "addr_op \<Rightarrow> address_db \<Rightarrow> storage_error + address_db" where
  "addr_step (Upsert a) db = upsert_address a db"
| "addr_step (Backfill account key) db = map_sum id snd (backfill_address_key_id account key db)"
| "addr_step (Repair a) db = repair_address_ownership a db"
| "addr_step (Allocate build account key scope ty) db =
     map_sum id snd (allocate_next_diversified_address build account key scope ty db)"
| "addr_step (Label account a l) db = Inr (update_address_label account a l db)"
| "addr_step (Color account a t) db = Inr (update_address_color_tag account a t db)"
| "addr_step (Pin account i b) db = set_address_pinned account i b db"
| "addr_step (Archive account i b) db = set_address_archived account i b db"

fun addr_allowed :: "addr_op \<Rightarrow> bool" where
  "addr_allowed (Upsert a) = wf_address a"
| "addr_allowed (Repair a) = wf_address a"
| "addr_allowed (Allocate build _ _ _ _) = wf_build build"
| "addr_allowed _ = True"

lemma checked_rows_Inr:
  "checked_rows rows db = Inr db' \<longleftrightarrow> unique_rows rows \<and> db' = db\<lparr>address_rows := rows\<rparr>"
  by (auto simp: checked_rows_def)

lemma checked_rows_inv:
  assumes "addr_inv db" "checked_rows rows db = Inr db'" "distinct (map ar_id rows)" "\<And>r. r \<in> set rows \<Longrightarrow> row_ok r"
  shows "addr_inv db'"
  using assms by (auto simp: addr_inv_def checked_rows_Inr)

text \<open>An update of the rows in place that keeps their ids.\<close>

lemma map_rows_inv:
  assumes "addr_inv db" "checked_rows (map f (address_rows db)) db = Inr db'"
    and "\<And>r. ar_id (f r) = ar_id r" "\<And>r. r \<in> set (address_rows db) \<Longrightarrow> row_ok (f r)"
  shows "addr_inv db'"
proof (rule checked_rows_inv [OF assms(1,2)])
  have "map ar_id (map f (address_rows db)) = map ar_id (address_rows db)" using assms(3) by simp
  then show "distinct (map ar_id (map f (address_rows db)))" using assms(1) unfolding addr_inv_def by metis
qed (use assms(4) in auto)

lemma next_address_id_new: "r \<in> set rows \<Longrightarrow> ar_id r \<noteq> next_address_id rows"
  using sql_max_Some [of "map ar_id rows"] by (fastforce simp: next_address_id_def split: option.splits)

lemma inserted_row_ok: "wf_address a \<Longrightarrow> row_ok (inserted_row i a)"
  using uint_lt2p [of "ad_diversifier_index a"]
  by (auto simp: wf_address_def row_ok_def inserted_row_def encode_diversifier_index_be_def split: option.splits)

lemma merged_row_ok: "row_ok new \<Longrightarrow> row_ok old \<Longrightarrow> row_ok (merged_row new old)"
  by (auto simp: row_ok_def merged_row_def coalesce_def split: option.splits)

lemma merged_row_id: "ar_id (merged_row new old) = ar_id old"
  by (simp add: merged_row_def)

lemma upsert_inv:
  assumes "addr_inv db" "wf_address a" "upsert_address a db = Inr db'"
  shows "addr_inv db'"
proof -
  let ?rows = "address_rows db" and ?new = "inserted_row (next_address_id (address_rows db)) a"
  have new: "row_ok ?new" using assms(2) by (rule inserted_row_ok)
  have old: "r \<in> set ?rows \<Longrightarrow> row_ok r" for r using assms(1) by (simp add: addr_inv_def)
  show ?thesis
  proof (cases "list_ex (\<lambda>r. ar_address r = ad_address a) ?rows")
    case True
    with assms(3) have "checked_rows (map (\<lambda>r. if ar_address r = ad_address a then merged_row ?new r else r) ?rows) db = Inr db'"
      by (simp add: upsert_address_def Let_def)
    then show ?thesis
      by (rule map_rows_inv [OF assms(1)]) (simp_all add: merged_row_id merged_row_ok new old)
  next
    case False
    with assms(3) have "checked_rows (?rows @ [?new]) db = Inr db'" by (simp add: upsert_address_def Let_def)
    moreover have "ar_id ?new \<notin> ar_id ` set ?rows" using next_address_id_new by (fastforce simp: inserted_row_def)
    ultimately show ?thesis
      using assms(1) new old by (intro checked_rows_inv [OF assms(1)]) (auto simp: addr_inv_def)
  qed
qed

lemma backfill_inv:
  assumes "addr_inv db" "backfill_address_key_id account key db = Inr (n, db')"
  shows "addr_inv db'"
proof -
  let ?f = "\<lambda>r. if ar_account_id r = account \<and> ar_key_id r = None then r\<lparr>ar_key_id := Some key\<rparr> else r"
  from assms(2) have "checked_rows (map ?f (address_rows db)) db = Inr db'"
    by (auto simp: backfill_address_key_id_def Let_def bind_res_Inr_iff)
  then show ?thesis
    by (rule map_rows_inv [OF assms(1)]) (use assms(1) in \<open>auto simp: addr_inv_def row_ok_def\<close>)
qed

lemma repair_inv:
  assumes "addr_inv db" "wf_address a" "repair_address_ownership a db = Inr db'"
  shows "addr_inv db'"
proof -
  from assms(3) obtain key index where ki: "ad_key_id a = Some key" "ad_diversifier_index_88 a = Some index"
    and "checked_rows (map (\<lambda>r. if ar_account_id r = ad_account_id a \<and> ar_address r = ad_address a
      then r\<lparr>ar_key_id := Some key, ar_address_type := address_type_str (ad_address_type a),
        ar_address_scope := address_scope_str (ad_address_scope a),
        ar_diversifier_index_be := Some (encode_diversifier_index_be index)\<rparr> else r) (address_rows db)) db = Inr db'"
    by (auto simp: repair_address_ownership_def Let_def bind_res_Inr_iff split: if_splits)
  from this(3) show ?thesis
    by (rule map_rows_inv [OF assms(1)])
      (use assms(1,2) ki in \<open>auto simp: addr_inv_def row_ok_def wf_address_def encode_diversifier_index_be_def\<close>)
qed

lemma allocate_Inr:
  assumes "allocate_next_diversified_address build account key scope ty db = Inr (a, db')"
  obtains n i j where "get_next_diversifier_index_for_scope_and_type account key scope ty db = Inr n"
    "get_next_diversifier_index_88_for_scope_and_type account key scope ty db = Inr i"
    "build n i = Inr a" "ad_diversifier_index_88 a = Some j"
    "\<not> bytes_less (encode_diversifier_index_be j) (encode_diversifier_index_be i)" "upsert_address a db = Inr db'"
  using assms by (auto simp: allocate_next_diversified_address_def bind_res_Inr_iff split: if_splits)

text \<open>A change of label or colour touches no column an index or the invariant reads.\<close>

lemma plain_update_inv:
  assumes "addr_inv db"
    and "\<And>r. ar_id (f r) = ar_id r \<and> ar_address (f r) = ar_address r \<and> full_key (f r) = full_key r \<and> (row_ok (f r) \<longleftrightarrow> row_ok r)"
  shows "addr_inv (db\<lparr>address_rows := map f (address_rows db)\<rparr>)"
proof -
  have "map ar_id (map f rs) = map ar_id rs" "map ar_address (map f rs) = map ar_address rs"
      "List.map_filter full_key (map f rs) = List.map_filter full_key rs" for rs
    using assms(2) by (induction rs) (auto simp: List.map_filter_simps split: option.splits)
  then have "unique_rows (map f rs) = unique_rows rs" "distinct (map ar_id (map f rs)) = distinct (map ar_id rs)" for rs
    unfolding unique_rows_def by metis+
  then show ?thesis using assms by (auto simp: addr_inv_def)
qed

lemma preference_inv:
  assumes "addr_inv db" "upsert_preference new change account db = Inr db'" "pref_ok new"
    and "\<And>p. pref_ok p \<Longrightarrow> pref_ok (change p)" "\<And>p. pr_address_id (change p) = pr_address_id p"
  shows "addr_inv db'"
proof -
  let ?ps = "preference_rows db" and ?hit = "\<lambda>p. pr_address_id p = pr_address_id new"
  let ?qs = "if list_ex ?hit ?ps then map (\<lambda>p. if ?hit p then change p else p) ?ps else ?ps @ [new]"
  have "map pr_address_id (map (\<lambda>p. if ?hit p then change p else p) ps) = map pr_address_id ps" for ps
    using assms(5) by simp
  then have "distinct (map pr_address_id ?qs)"
    using assms(1) by (auto simp: addr_inv_def list_ex_iff simp del: map_map)
  moreover have "\<And>p. p \<in> set ?qs \<Longrightarrow> pref_ok p"
    using assms(1,3,4) by (auto simp: addr_inv_def split: if_splits)
  moreover have "db' = db\<lparr>preference_rows := ?qs\<rparr>" using assms(2) by (auto simp: upsert_preference_def split: if_splits)
  ultimately show ?thesis using assms(1) by (simp add: addr_inv_def)
qed

lemma wf_buildD: "wf_build build \<Longrightarrow> build n i = Inr a \<Longrightarrow> wf_address a"
  by (simp add: wf_build_def)

interpretation addresses: invariant_machine addr_step addr_allowed addr_inv
proof
  fix db op db'
  assume inv: "addr_inv db" and ok: "addr_allowed op" and step: "addr_step op db = Inr db'"
  show "addr_inv db'"
  proof (cases op)
    case (Upsert a)
    with ok step show ?thesis using upsert_inv [OF inv] by simp
  next
    case (Backfill account key)
    with step obtain n where "backfill_address_key_id account key db = Inr (n, db')"
      by (cases "backfill_address_key_id account key db") auto
    then show ?thesis by (rule backfill_inv [OF inv])
  next
    case (Repair a)
    with ok step show ?thesis using repair_inv [OF inv] by simp
  next
    case (Allocate build account key scope ty)
    with step obtain a where "allocate_next_diversified_address build account key scope ty db = Inr (a, db')"
      by (cases "allocate_next_diversified_address build account key scope ty db") auto
    then obtain n i where "build n i = Inr a" "upsert_address a db = Inr db'" by (rule allocate_Inr)
    moreover from this(1) have "wf_address a" using ok Allocate by (auto dest: wf_buildD)
    ultimately show ?thesis using upsert_inv [OF inv] by blast
  next
    case (Label account a l)
    with step have db': "db' = update_address_label account a l db" by simp
    show ?thesis unfolding db' update_address_label_def
      by (rule plain_update_inv [OF inv]) (simp add: full_key_def row_ok_def split: option.splits)
  next
    case (Color account a t)
    with step have db': "db' = update_address_color_tag account a t db" by simp
    show ?thesis unfolding db' update_address_color_tag_def
      by (rule plain_update_inv [OF inv]) (simp add: full_key_def row_ok_def split: option.splits)
  next
    case (Pin account i b)
    with step show ?thesis
      unfolding addr_step.simps Pin set_address_pinned_def
      by (elim preference_inv [OF inv]) (auto simp: pref_ok_def bool_to_int_def)
  next
    case (Archive account i b)
    with step show ?thesis
      unfolding addr_step.simps Archive set_address_archived_def
      by (elim preference_inv [OF inv]) (auto simp: pref_ok_def bool_to_int_def)
  qed
qed

section \<open>Allocation\<close>

lemma next_index_88_above:
  assumes inv: "addr_inv db" and i: "get_next_diversifier_index_88_for_scope_and_type account key scope ty db = Inr i"
    and r: "r \<in> set (address_rows db)" "in_group account key scope ty r" "ar_diversifier_index_be r = Some be"
  shows "length i = 11 \<and> be_nat be < be_nat (encode_diversifier_index_be i)"
proof -
  let ?bs = "List.map_filter ar_diversifier_index_be (filter (in_group account key scope ty) (address_rows db))"
  have "be \<in> set ?bs" using r by (force simp: List.map_filter_def)
  then obtain m where m: "max_blob ?bs = Some m" by (metis empty_iff list.set(1) not_None_eq max_blob_None)
  have "length b = 11" if "b \<in> set ?bs" for b
    using that inv by (fastforce simp: List.map_filter_def addr_inv_def row_ok_def)
  from max_blob_Some [OF m this] \<open>be \<in> set ?bs\<close> have "be_nat be \<le> be_nat m" by blast
  moreover have "length m = 11" "increment_diversifier_index (rev m) = Inr i"
    using i m by (auto simp: get_next_diversifier_index_88_for_scope_and_type_def decode_diversifier_index_be_def split: if_splits)
  then have "length i = 11" "be_nat (rev i) = be_nat m + 1" using increment_Inr [of "rev m" i] by simp_all
  ultimately show ?thesis by (simp add: encode_diversifier_index_be_def)
qed


definition example_address :: "u32 \<Rightarrow> bytes \<Rightarrow> storage_error + address" where
  "example_address n i = Inr \<lparr>ad_id = None, ad_key_id = Some 1, ad_account_id = 1, ad_diversifier_index = n,
     ad_diversifier_index_88 = Some (1 # replicate 10 0), ad_address = [0x7A], ad_address_type = SaplingAddr, ad_label = None,
     ad_created_at = 0, ad_color_tag = ColorNone, ad_address_scope = External\<rparr>"

definition example_addresses :: address_db where
  "example_addresses = \<lparr>address_rows = [\<lparr>ar_id = 1, ar_account_id = 1, ar_key_id = Some 1, ar_diversifier_index = 0,
     ar_address = [0x79], ar_address_type = ''Sapling'', ar_label = None, ar_created_at = 0, ar_color_tag = 0,
     ar_address_scope = ''external'', ar_diversifier_index_be = Some (replicate 11 0)\<rparr>], preference_rows = []\<rparr>"


text \<open>
  Observation. Whatever sequence of upserts, backfills, repairs, allocations, label, colour,
  pin and archive operations runs on an empty table, failing ones included: no two rows have
  the same address, row id or full diversifier index within a key's scope and type, a
  full index has eleven bytes and a sequence number 32 bits, each address has at most one
  display preference, and no address is both pinned and archived.
\<close>

lemma address_table_invariant:
  assumes "list_all addr_allowed ops"
  shows "addr_inv (run_ops addr_step ops \<lparr>address_rows = [], preference_rows = []\<rparr>)"
  using assms by (intro addresses.inv_run) (simp_all add: addr_inv_def unique_rows_def List.map_filter_def)

theorem address_table_invariant_witness:
  "addr_inv (run_ops addr_step [Upsert (projr (example_address 0 [])), Pin 1 1 True, Archive 1 1 True]
     \<lparr>address_rows = [], preference_rows = []\<rparr>)"
  by (rule address_table_invariant) (simp add: example_address_def wf_address_def)

end
