(* ===== verification/SpendKeys.thy ===== *)
theory SpendKeys
  imports SendCaches SpendFlow AddressStore "HOL-Library.Product_Lexorder"
begin

text \<open>
  What a send reads before it selects notes: the key groups of an account
  (\<open>repository.rs\<close>), the notes that can be spent at an anchor (\<open>repository.rs\<close>,
  \<open>tx_flow.rs\<close>), and the choice of the key group that pays (\<open>tx_flow.rs\<close>).

  The decryption of stored blobs, the query for all unspent notes and the construction of
  witnesses are arguments (records \<open>key_crypto\<close> and \<open>note_source\<close>); the theories \<open>NoteQueries\<close> and
  \<open>AnchorWitness\<close> define the latter two (\<open>repository_notes\<close>). A \<open>HashMap\<close> is an
  association list and a \<open>HashSet\<close> a list without repetitions; where the code iterates over one, the
  result does not depend on the order, except for which of several errors is reported.
\<close>

section \<open>Key groups\<close>

datatype key_type = Seed | ImportSpend | ImportView
datatype key_scope = AccountScope | SingleAddress

record account_key =
  ak_id :: "i64 option"
  ak_account_id :: i64
  ak_key_type :: key_type
  ak_key_scope :: key_scope
  ak_label :: "str option"
  ak_birthday_height :: i64
  ak_created_at :: i64
  ak_spendable :: bool
  ak_sapling_extsk :: "bytes option"
  ak_sapling_dfvk :: "bytes option"
  ak_orchard_extsk :: "bytes option"
  ak_orchard_fvk :: "bytes option"
  ak_encrypted_mnemonic :: "bytes option"

record key_row =
  kr_id :: i64
  kr_account_id :: i64
  kr_key_type :: string
  kr_key_scope :: string
  kr_label :: "str option"
  kr_birthday_height :: i64
  kr_created_at :: i64
  kr_spendable :: i64
  kr_sapling_extsk :: "bytes option"
  kr_sapling_dfvk :: "bytes option"
  kr_orchard_extsk :: "bytes option"
  kr_orchard_fvk :: "bytes option"
  kr_encrypted_mnemonic :: "bytes option"

record key_crypto =
  reveal_spending_blob :: "bytes \<Rightarrow> storage_error + bytes option"
  decrypt_blob :: "bytes \<Rightarrow> storage_error + bytes"

definition reveal_optional_spending_blob :: "key_crypto \<Rightarrow> bytes option \<Rightarrow> storage_error + bytes option" where
  "reveal_optional_spending_blob cr blob = (case blob of None \<Rightarrow> Inr None | Some v \<Rightarrow> reveal_spending_blob cr v)"

definition decrypt_optional_blob :: "key_crypto \<Rightarrow> bytes option \<Rightarrow> storage_error + bytes option" where
  "decrypt_optional_blob cr blob =
     (case blob of None \<Rightarrow> Inr None | Some v \<Rightarrow> bind_res (decrypt_blob cr v) (\<lambda>d. Inr (Some d)))"

definition account_key_of :: "key_crypto \<Rightarrow> key_row \<Rightarrow> storage_error + account_key" where
  "account_key_of cr r =
     bind_res (reveal_optional_spending_blob cr (kr_sapling_extsk r)) (\<lambda>sapling.
     bind_res (decrypt_optional_blob cr (kr_sapling_dfvk r)) (\<lambda>dfvk.
     bind_res (reveal_optional_spending_blob cr (kr_orchard_extsk r)) (\<lambda>orchard.
     bind_res (decrypt_optional_blob cr (kr_orchard_fvk r)) (\<lambda>fvk.
     bind_res (reveal_optional_spending_blob cr (kr_encrypted_mnemonic r)) (\<lambda>mnemonic.
       Inr \<lparr>ak_id = Some (kr_id r), ak_account_id = kr_account_id r,
         ak_key_type = (if kr_key_type r = ''import_spend'' then ImportSpend
           else if kr_key_type r = ''import_view'' then ImportView else Seed),
         ak_key_scope = (if kr_key_scope r = ''single_address'' then SingleAddress else AccountScope),
         ak_label = kr_label r, ak_birthday_height = kr_birthday_height r, ak_created_at = kr_created_at r,
         ak_spendable = (kr_spendable r \<noteq> 0), ak_sapling_extsk = sapling, ak_sapling_dfvk = dfvk,
         ak_orchard_extsk = orchard, ak_orchard_fvk = fvk, ak_encrypted_mnemonic = mnemonic\<rparr>)))))"

fun account_keys_of :: "key_crypto \<Rightarrow> key_row list \<Rightarrow> storage_error + account_key list" where
  "account_keys_of cr [] = Inr []"
| "account_keys_of cr (r # rs) =
     bind_res (account_key_of cr r) (\<lambda>k. bind_res (account_keys_of cr rs) (\<lambda>ks. Inr (k # ks)))"

definition get_account_keys :: "key_crypto \<Rightarrow> key_row list \<Rightarrow> i64 \<Rightarrow> storage_error + account_key list" where
  "get_account_keys cr rows account = account_keys_of cr (filter (\<lambda>r. kr_account_id r = account) rows)"

definition get_account_key_by_id :: "key_crypto \<Rightarrow> key_row list \<Rightarrow> i64 \<Rightarrow> storage_error + account_key option" where
  "get_account_key_by_id cr rows key =
     (case find (\<lambda>r. kr_id r = key) rows of
        None \<Rightarrow> Inr None | Some r \<Rightarrow> bind_res (account_key_of cr r) (\<lambda>k. Inr (Some k)))"

section \<open>Notes that can be spent at an anchor\<close>

record note_source =
  unspent_selectable_notes :: "i64 \<Rightarrow> i64 list option \<Rightarrow> i64 list option \<Rightarrow> storage_error + selectable_note list"
  unscanned_ranges :: "note_type \<Rightarrow> (i64 \<times> i64 \<times> i64) list"
  construct_anchor_witnesses :: "u64 \<Rightarrow> selectable_note list \<Rightarrow> storage_error + selectable_note list"

definition shard_index_from_position :: "i64 \<Rightarrow> i64 option" where
  "shard_index_from_position position = (if position < 0 then None else Some (position div 2 ^ 16))"

text \<open>The rows of the view of one pool that lie in the spend window, grouped by shard.\<close>

definition load_blocked_shard_ranges ::
    "note_source \<Rightarrow> note_type \<Rightarrow> i64 \<Rightarrow> i64 \<Rightarrow> i64 list \<Rightarrow> (i64 \<times> (u64 \<times> u64) list) list" where
  "load_blocked_shard_ranges src ty anchor birthday shards =
     fold (\<lambda>(shard, s, e) blocked.
         case (u64_try_from s, u64_try_from e) of
           (Some s', Some e') \<Rightarrow> AList.update shard
             ((case map_of blocked shard of None \<Rightarrow> [] | Some rs \<Rightarrow> rs) @ [(s', e')]) blocked
         | _ \<Rightarrow> blocked)
       (filter (\<lambda>(shard, s, e). s \<le> anchor \<and> birthday < e \<and> shard \<in> set shards) (unscanned_ranges src ty)) []"

definition note_position :: "selectable_note \<Rightarrow> u64 option" where
  "note_position n = (case note_type n of Sapling \<Rightarrow> sapling_position n | Ironwood \<Rightarrow> ironwood_position n)"

definition note_shard :: "selectable_note \<Rightarrow> i64 option" where
  "note_shard n = Option.bind (Option.bind (note_position n) i64_try_from) shard_index_from_position"

definition note_shards_of :: "note_type \<Rightarrow> selectable_note list \<Rightarrow> i64 list" where
  "note_shards_of ty notes = remdups (List.map_filter note_shard (filter (\<lambda>n. note_type n = ty) notes))"

text \<open>The notes of the window whose shard is not blocked, before witnesses are built.\<close>

definition notes_within ::
    "note_source \<Rightarrow> u64 \<Rightarrow> i64 \<Rightarrow> u64 \<Rightarrow> i64 \<Rightarrow> selectable_note list \<Rightarrow> selectable_note list" where
  "notes_within src anchor anchor_i64 birthday birthday_i64 all_notes =
     (let notes = filter (\<lambda>n. note_height n \<le> anchor \<and> birthday \<le> note_height n) all_notes;
          notes = filter (\<lambda>n. note_position n \<noteq> None) notes;
          blocked = (\<lambda>ty. load_blocked_shard_ranges src ty anchor_i64 birthday_i64 (note_shards_of ty notes))
      in filter (\<lambda>n. case note_shard n of None \<Rightarrow> False
           | Some shard \<Rightarrow> map_of (blocked (note_type n)) shard = None) notes)"

definition get_unspent_selectable_notes_at_anchor_filtered ::
    "note_source \<Rightarrow> spend_db \<Rightarrow> i64 \<Rightarrow> u64 \<Rightarrow> i64 list option \<Rightarrow> i64 list option \<Rightarrow> storage_error + selectable_note list" where
  "get_unspent_selectable_notes_at_anchor_filtered src db account anchor_height key_ids address_ids =
     (if anchor_height = 0 then Inr []
      else bind_res (get_wallet_birthday_height account db) (\<lambda>birthday_opt.
        let wallet_birthday = (case birthday_opt of None \<Rightarrow> 0 | Some b \<Rightarrow> b)
        in bind_res (ok_or (i64_try_from anchor_height)
             (SStorage (Msg ''anchor_height {} exceeds i64::MAX'' [uint anchor_height]))) (\<lambda>anchor_i64.
           bind_res (ok_or (i64_try_from wallet_birthday)
             (SStorage (Msg ''wallet_birthday {} exceeds i64::MAX'' [uint wallet_birthday]))) (\<lambda>birthday_i64.
           bind_res (unspent_selectable_notes src account key_ids address_ids) (\<lambda>all_notes.
             if filter (\<lambda>n. (note_height n \<le> anchor_height \<and> wallet_birthday \<le> note_height n) \<and> note_position n \<noteq> None) all_notes = []
             then Inr []
             else construct_anchor_witnesses src anchor_height
               (notes_within src anchor_height anchor_i64 wallet_birthday birthday_i64 all_notes))))))"

section \<open>The notes a send may select from (tx\_flow.rs)\<close>

record spend_selection_anchors =
  sa_target_height :: u64
  sa_conservative_anchor_height :: u64
  sa_sapling_anchor_height :: u64
  sa_ironwood_anchor_height :: u64

datatype flow_error =
    Anyhow msg
  | FromCore string core_error
  | FromStorage storage_error
  | FromGate gate_error

definition from_storage :: "storage_error + 'a \<Rightarrow> flow_error + 'a" where
  "from_storage r = map_sum FromStorage id r"

definition from_core :: "string \<Rightarrow> core_error + 'a \<Rightarrow> flow_error + 'a" where
  "from_core what r = map_sum (FromCore what) id r"

definition compute_spend_selection_anchors :: "spend_db \<Rightarrow> i64 \<Rightarrow> flow_error + spend_selection_anchors" where
  "compute_spend_selection_anchors db account =
     bind_res (from_storage (get_target_and_anchor_heights_by_pool_for_account SPENDABILITY_MIN_CONFIRMATIONS account db)) (\<lambda>opt.
     bind_res (ok_or opt (Anyhow (Msg ''Anchor height unavailable for spend selection'' []))) (\<lambda>an.
       Inr \<lparr>sa_target_height = pp_target_height an, sa_conservative_anchor_height = max (conservative_anchor_height an) 1,
         sa_sapling_anchor_height = max (sapling_anchor_height an) 1,
         sa_ironwood_anchor_height = max (ironwood_anchor_height an) 1\<rparr>))"

text \<open>One pass over the notes of a pool; the set of outputs already taken is the first argument.\<close>

fun take_pool ::
    "note_type \<Rightarrow> (bytes \<times> u32 \<times> u8) list \<Rightarrow> selectable_note list \<Rightarrow> (bytes \<times> u32 \<times> u8) list \<times> selectable_note list" where
  "take_pool ty seen [] = (seen, [])"
| "take_pool ty seen (n # ns) =
     (let key = (note_txid n, output_index n, case ty of Sapling \<Rightarrow> 0 | Ironwood \<Rightarrow> 1)
      in if note_type n \<noteq> ty \<or> key \<in> set seen then take_pool ty seen ns
         else case take_pool ty (key # seen) ns of (seen', out) \<Rightarrow> (seen', n # out))"

definition load_selectable_notes_for_send ::
    "note_source \<Rightarrow> spend_db \<Rightarrow> i64 \<Rightarrow> spend_selection_anchors \<Rightarrow> i64 list option \<Rightarrow> i64 list option
     \<Rightarrow> flow_error + selectable_note list" where
  "load_selectable_notes_for_send src db account anchors key_ids address_ids =
     (if sa_sapling_anchor_height anchors = sa_ironwood_anchor_height anchors
      then from_storage (get_unspent_selectable_notes_at_anchor_filtered src db account
             (sa_conservative_anchor_height anchors) key_ids address_ids)
      else bind_res (from_storage (get_unspent_selectable_notes_at_anchor_filtered src db account
             (sa_sapling_anchor_height anchors) key_ids address_ids)) (\<lambda>sapling_notes.
           let (seen, sapling) = take_pool Sapling [] sapling_notes
           in bind_res (from_storage (get_unspent_selectable_notes_at_anchor_filtered src db account
             (sa_ironwood_anchor_height anchors) key_ids address_ids)) (\<lambda>ironwood_notes.
             Inr (sapling @ snd (take_pool Ironwood seen ironwood_notes)))))"

section \<open>The key group that pays (tx\_flow.rs)\<close>

definition normalize_filter_ids :: "i64 list option \<Rightarrow> i64 list option" where
  "normalize_filter_ids ids = Option.bind ids (\<lambda>values.
     let normalized = foldl (\<lambda>acc i. if i \<in> set acc then acc else acc @ [i]) [] values
     in if normalized = [] then None else Some normalized)"

record key_source =
  ks_crypto :: key_crypto
  ks_rows :: "key_row list"

definition validate_spendable_key :: "key_source \<Rightarrow> i64 \<Rightarrow> i64 \<Rightarrow> flow_error + unit" where
  "validate_spendable_key src account key_id1 =
     bind_res (from_storage (get_account_key_by_id (ks_crypto src) (ks_rows src) key_id1)) (\<lambda>opt.
     bind_res (ok_or opt (Anyhow (Msg ''Key group not found'' []))) (\<lambda>key.
       if ak_account_id key \<noteq> account then Inl (Anyhow (Msg ''Key group does not belong to this wallet'' []))
       else if \<not> ak_spendable key then Inl (Anyhow (Msg ''Key group is not spendable'' []))
       else Inr ()))"

fun validate_all :: "key_source \<Rightarrow> i64 \<Rightarrow> i64 list \<Rightarrow> flow_error + unit" where
  "validate_all src account [] = Inr ()"
| "validate_all src account (k # ks) = bind_res (validate_spendable_key src account k) (\<lambda>_. validate_all src account ks)"

text \<open>The key of each selected address.\<close>

fun address_keys :: "address list \<Rightarrow> i64 list \<Rightarrow> flow_error + i64 list" where
  "address_keys addresses [] = Inr []"
| "address_keys addresses (i # is) =
     bind_res (ok_or (find (\<lambda>a. ad_id a = Some i) addresses) (Anyhow (Msg ''Address {} not found'' [i]))) (\<lambda>a.
     bind_res (ok_or (ad_key_id a) (Anyhow (Msg ''Address {} is missing key id'' [i]))) (\<lambda>k.
     bind_res (address_keys addresses is) (\<lambda>ks. Inr (k # ks))))"

definition resolve_by_keys :: "key_source \<Rightarrow> i64 \<Rightarrow> i64 list option \<Rightarrow> flow_error + i64 option" where
  "resolve_by_keys src account key_ids =
     (case key_ids of
        None \<Rightarrow> Inr None
      | Some ids \<Rightarrow> (case remdups ids of
            [] \<Rightarrow> Inr None
          | [key_id1] \<Rightarrow> bind_res (validate_spendable_key src account key_id1) (\<lambda>_. Inr (Some key_id1))
          | unique \<Rightarrow> bind_res (validate_all src account unique) (\<lambda>_. Inr None)))"

definition resolve_by_addresses ::
    "key_source \<Rightarrow> address_db \<Rightarrow> i64 \<Rightarrow> i64 option \<Rightarrow> i64 list option \<Rightarrow> flow_error + i64 option" where
  "resolve_by_addresses src adb account selected address_ids =
     (case address_ids of
        None \<Rightarrow> Inr selected
      | Some [] \<Rightarrow> Inr selected
      | Some ids \<Rightarrow>
          bind_res (from_storage (get_all_addresses account adb)) (\<lambda>addresses.
          bind_res (address_keys addresses ids) (\<lambda>ks.
            case remdups ks of
              [] \<Rightarrow> Inr selected
            | [key_id1] \<Rightarrow> bind_res (validate_spendable_key src account key_id1) (\<lambda>_.
                case selected of
                  Some existing \<Rightarrow> if existing \<noteq> key_id1
                    then Inl (Anyhow (Msg ''Selected key group does not match selected addresses'' [])) else Inr selected
                | None \<Rightarrow> Inr (Some key_id1))
            | unique \<Rightarrow> bind_res (validate_all src account unique) (\<lambda>_.
                case selected of
                  Some existing \<Rightarrow> if existing \<notin> set unique
                    then Inl (Anyhow (Msg ''Selected key group does not match selected addresses'' [])) else Inr None
                | None \<Rightarrow> Inr None))))"

definition resolve_spend_key_id ::
    "key_source \<Rightarrow> address_db \<Rightarrow> i64 \<Rightarrow> i64 list option \<Rightarrow> i64 list option \<Rightarrow> flow_error + i64 option" where
  "resolve_spend_key_id src adb account key_ids address_ids =
     bind_res (resolve_by_keys src account key_ids) (\<lambda>selected.
       resolve_by_addresses src adb account selected address_ids)"

definition account_key_can_spend_note :: "account_key \<Rightarrow> selectable_note \<Rightarrow> bool" where
  "account_key_can_spend_note key n \<longleftrightarrow> ak_spendable key \<and>
     (case note_type n of Sapling \<Rightarrow> ak_sapling_extsk key \<noteq> None | Ironwood \<Rightarrow> ak_orchard_extsk key \<noteq> None)"

text \<open>\<open>collect::<HashMap>\<close>: a later key with the same id replaces an earlier one.\<close>

definition keys_by_id :: "account_key list \<Rightarrow> (i64 \<times> account_key) list" where
  "keys_by_id keys = fold (\<lambda>key m. case ak_id key of None \<Rightarrow> m | Some i \<Rightarrow> AList.update i key m) keys []"

definition add_total :: "i64 \<Rightarrow> u64 \<Rightarrow> (i64 \<times> u64) list \<Rightarrow> (i64 \<times> u64) list" where
  "add_total k v m = AList.update k (saturating_add (case map_of m k of None \<Rightarrow> 0 | Some t \<Rightarrow> t) v) m"

definition add_spendable :: "account_key list \<Rightarrow> selectable_note \<Rightarrow> (i64 \<times> u64) list \<Rightarrow> (i64 \<times> u64) list" where
  "add_spendable keys n totals =
     (case key_id n of
        None \<Rightarrow> totals
      | Some k \<Rightarrow> (case map_of (keys_by_id keys) k of
            None \<Rightarrow> totals
          | Some key \<Rightarrow> if account_key_can_spend_note key n then add_total k (note_value n) totals else totals))"

definition spendable_totals :: "account_key list \<Rightarrow> selectable_note list \<Rightarrow> (i64 \<times> u64) list" where
  "spendable_totals keys notes = fold (add_spendable keys) notes []"

definition choose_auto_spend_key_id_for_amount :: "account_key list \<Rightarrow> selectable_note list \<Rightarrow> u64 \<Rightarrow> i64 option" where
  "choose_auto_spend_key_id_for_amount keys notes required =
     (case sort_key (\<lambda>(k, t). (t, k)) (filter (\<lambda>(_, t). required \<le> t) (spendable_totals keys notes)) of
        [] \<Rightarrow> None | (k, _) # _ \<Rightarrow> Some k)"

definition auto_select_spend_key_id_for_amount ::
    "note_source \<Rightarrow> key_source \<Rightarrow> spend_db \<Rightarrow> i64 \<Rightarrow> u64 \<Rightarrow> spend_selection_anchors \<Rightarrow> flow_error + i64 option" where
  "auto_select_spend_key_id_for_amount nsrc ksrc db account required anchors =
     bind_res (from_storage (get_account_keys (ks_crypto ksrc) (ks_rows ksrc) account)) (\<lambda>keys.
     bind_res (load_selectable_notes_for_send nsrc db account anchors None None) (\<lambda>notes.
       Inr (choose_auto_spend_key_id_for_amount keys notes required)))"

definition note_balances_by_key_id :: "selectable_note list \<Rightarrow> (i64 \<times> u64) list" where
  "note_balances_by_key_id notes =
     fold (\<lambda>n m. case key_id n of None \<Rightarrow> m | Some k \<Rightarrow> add_total k (note_value n) m) notes []"

fun contributing_loop :: "u64 \<Rightarrow> u64 \<Rightarrow> i64 list \<Rightarrow> selectable_note list \<Rightarrow> i64 list" where
  "contributing_loop required tot acc [] = acc"
| "contributing_loop required tot acc (n # ns) =
     (if required \<le> tot then acc
      else contributing_loop required (saturating_add tot (note_value n))
        (case key_id n of None \<Rightarrow> acc | Some k \<Rightarrow> List.insert k acc) ns)"

definition infer_contributing_key_ids_for_amount :: "selectable_note list \<Rightarrow> u64 \<Rightarrow> i64 list" where
  "infer_contributing_key_ids_for_amount notes required =
     contributing_loop required 0 [] (sort_key (\<lambda>n. (note_value n, note_height n)) notes)"

text \<open>A descending order of balances is the ascending one of their negations.\<close>

definition choose_multi_key_change_sink_key_id ::
    "(i64 \<times> account_key) list \<Rightarrow> i64 list \<Rightarrow> (i64 \<times> u64) list \<Rightarrow> i64 option" where
  "choose_multi_key_change_sink_key_id keys contributing balances =
     (case sort (map fst (filter (\<lambda>(_, key). ak_spendable key \<and> ak_key_type key = Seed \<and> ak_key_scope key = AccountScope
             \<and> ak_sapling_extsk key \<noteq> None) keys)) of
        seed # _ \<Rightarrow> Some seed
      | [] \<Rightarrow>
          (case sort_key (\<lambda>(k, b). (- uint b, k))
              (map (\<lambda>k. (k, case map_of balances k of None \<Rightarrow> 0 | Some b \<Rightarrow> b))
                (filter (\<lambda>k. case map_of keys k of None \<Rightarrow> False
                   | Some key \<Rightarrow> ak_spendable key \<and> ak_sapling_extsk key \<noteq> None) contributing)) of
             [] \<Rightarrow> None | (k, _) # _ \<Rightarrow> Some k))"

definition resolve_change_diversifier_index :: "address_db \<Rightarrow> i64 \<Rightarrow> i64 \<Rightarrow> flow_error + u32" where
  "resolve_change_diversifier_index adb account key =
     bind_res (from_storage (get_addresses_by_key account key adb)) (\<lambda>addresses.
       case map ad_diversifier_index (filter (\<lambda>a. ad_address_scope a = Internal) addresses) of
         [] \<Rightarrow> Inr 0 | i # is \<Rightarrow> Inr (foldl min i is))"

section \<open>Which notes can be spent\<close>

lemma load_blocked_None:
  "map_of (load_blocked_shard_ranges src ty a b shards) sh = None \<longleftrightarrow>
     \<not> (sh \<in> set shards \<and> (\<exists>s e. (sh, s, e) \<in> set (unscanned_ranges src ty) \<and> 0 \<le> s \<and> 0 \<le> e \<and> s \<le> a \<and> b < e))"
proof -
  let ?f = "\<lambda>(shard, s, e) blocked.
      case (u64_try_from s, u64_try_from e) of
        (Some s', Some e') \<Rightarrow> AList.update shard
          ((case map_of blocked shard of None \<Rightarrow> [] | Some rs \<Rightarrow> rs) @ [(s' :: u64, e' :: u64)]) blocked
      | _ \<Rightarrow> blocked"
  have "map_of (fold ?f rows m) sh = None \<longleftrightarrow>
      map_of m sh = None \<and> \<not> (\<exists>s e. (sh, s, e) \<in> set rows \<and> 0 \<le> s \<and> 0 \<le> e)" for rows m
  proof (induction rows arbitrary: m)
    case (Cons row rows)
    obtain k s e where row: "row = (k, s, e)" by (cases row)
    show ?case
      by (simp only: fold_simps comp_apply Cons.IH)
        (auto simp: row u64_try_from_def update_conv' split: if_splits option.splits)
  qed simp
  then show ?thesis unfolding load_blocked_shard_ranges_def by auto
qed


text \<open>Which output a note is, within its pool.\<close>

definition note_outpoint :: "selectable_note \<Rightarrow> bytes \<times> u32 \<times> note_type" where
  "note_outpoint n = (note_txid n, output_index n, note_type n)"

lemma take_pool_out:
  "snd (take_pool ty seen ns) = out \<Longrightarrow>
     distinct (map note_outpoint out) \<and> set out \<subseteq> {n \<in> set ns. note_type n = ty}
     \<and> (\<forall>n \<in> set out. (note_txid n, output_index n, case ty of Sapling \<Rightarrow> 0 | Ironwood \<Rightarrow> 1) \<notin> set seen)"
proof (induction ns arbitrary: seen out)
  case (Cons n ns)
  let ?key = "(note_txid n, output_index n, case ty of Sapling \<Rightarrow> 0 | Ironwood \<Rightarrow> 1)"
  show ?case
  proof (cases "note_type n \<noteq> ty \<or> ?key \<in> set seen")
    case True
    with Cons.prems Cons.IH [of seen out] show ?thesis by auto
  next
    case False
    obtain out' where out': "out = n # out'" "snd (take_pool ty (?key # seen) ns) = out'"
      using Cons.prems False by (auto simp: Let_def split: prod.splits)
    with Cons.IH [OF out'(2)] False show ?thesis by (auto simp: note_outpoint_def)
  qed
qed simp

text \<open>
  Observation. Where the two pools are anchored at different heights, a send selects among
  notes that are pairwise different outputs, the Sapling ones found spendable at the Sapling
  anchor and the Ironwood ones at the Ironwood anchor.
\<close>

lemma selectable_notes_by_pool:
  assumes "load_selectable_notes_for_send src db account anchors kf af = Inr notes"
    and "sa_sapling_anchor_height anchors \<noteq> sa_ironwood_anchor_height anchors"
  shows "distinct (map note_outpoint notes) \<and> (\<exists>sapling ironwood.
      get_unspent_selectable_notes_at_anchor_filtered src db account (sa_sapling_anchor_height anchors) kf af = Inr sapling \<and>
      get_unspent_selectable_notes_at_anchor_filtered src db account (sa_ironwood_anchor_height anchors) kf af = Inr ironwood \<and>
      list_all (\<lambda>n. note_type n = Sapling \<and> n \<in> set sapling \<or> note_type n = Ironwood \<and> n \<in> set ironwood) notes)"
proof (rule conjI)
  from assms obtain sapling ironwood
    where q: "get_unspent_selectable_notes_at_anchor_filtered src db account (sa_sapling_anchor_height anchors) kf af = Inr sapling"
      "get_unspent_selectable_notes_at_anchor_filtered src db account (sa_ironwood_anchor_height anchors) kf af = Inr ironwood"
      and nts: "notes = snd (take_pool Sapling [] sapling) @ snd (take_pool Ironwood (fst (take_pool Sapling [] sapling)) ironwood)"
    by (auto simp: load_selectable_notes_for_send_def from_storage_def bind_res_Inr_iff map_sum_def case_prod_beta split: sum.splits)
  note s = take_pool_out [OF refl, of Sapling "[]" sapling]
  note i = take_pool_out [OF refl, of Ironwood "fst (take_pool Sapling [] sapling)" ironwood]
  have "note_outpoint x \<noteq> note_outpoint y" if "note_type x = Sapling" "note_type y = Ironwood" for x y
    using that by (simp add: note_outpoint_def)
  then show "distinct (map note_outpoint notes)"
    using s i unfolding nts by (simp only: map_append distinct_append set_map) fastforce
  show "\<exists>sapling ironwood.
      get_unspent_selectable_notes_at_anchor_filtered src db account (sa_sapling_anchor_height anchors) kf af = Inr sapling \<and>
      get_unspent_selectable_notes_at_anchor_filtered src db account (sa_ironwood_anchor_height anchors) kf af = Inr ironwood \<and>
      list_all (\<lambda>n. note_type n = Sapling \<and> n \<in> set sapling \<or> note_type n = Ironwood \<and> n \<in> set ironwood) notes"
    using q s i unfolding nts by (intro exI conjI) (auto simp: list_all_iff)
qed

section \<open>The key group that pays\<close>

text \<open>What a key group can pay with: the values of the notes it owns and has the key for.\<close>

definition owned_by :: "account_key list \<Rightarrow> i64 \<Rightarrow> selectable_note \<Rightarrow> bool" where
  "owned_by keys k n \<longleftrightarrow> key_id n = Some k \<and>
     (case map_of (keys_by_id keys) k of None \<Rightarrow> False | Some key \<Rightarrow> account_key_can_spend_note key n)"

definition key_funds :: "account_key list \<Rightarrow> selectable_note list \<Rightarrow> i64 \<Rightarrow> nat" where
  "key_funds keys notes k = value_sum (filter (owned_by keys k) notes)"

lemma add_total_conv:
  "map_of (add_total k v m) k' =
     (if k' = k then Some (saturating_add (case map_of m k of None \<Rightarrow> 0 | Some t \<Rightarrow> t) v) else map_of m k')"
  by (simp add: add_total_def update_conv')

lemma spendable_totals_spec:
  "distinct (map fst (spendable_totals keys ns)) \<and>
   (\<forall>k. map_of (spendable_totals keys ns) k =
      (if filter (owned_by keys k) ns = [] then None
       else Some (of_nat (min (key_funds keys ns k) (2 ^ 64 - 1)))))"
proof (induction ns rule: rev_induct)
  case (snoc n ns)
  have st: "spendable_totals keys (ns @ [n]) = add_spendable keys n (spendable_totals keys ns)"
    by (simp add: spendable_totals_def)
  show ?case
  proof (cases "\<exists>k. owned_by keys k n")
    case False
    then have "add_spendable keys n t = t" for t by (auto simp: owned_by_def add_spendable_def split: option.splits)
    with snoc False show ?thesis unfolding st by (simp add: key_funds_def)
  next
    case True
    then obtain k where k: "owned_by keys k n" by blast
    then have other: "owned_by keys k' n \<longleftrightarrow> k' = k" for k' by (auto simp: owned_by_def)
    have step: "add_spendable keys n t = add_total k (note_value n) t" for t
      using k by (auto simp: owned_by_def add_spendable_def split: option.splits)
    let ?old = "case map_of (spendable_totals keys ns) k of None \<Rightarrow> 0 | Some t \<Rightarrow> t"
    have old: "unat ?old = min (key_funds keys ns k) (2 ^ 64 - 1)"
      using snoc by (auto simp: key_funds_def unat_of_nat min_def)
    have "saturating_add ?old (note_value n) = of_nat (min (key_funds keys (ns @ [n]) k) (2 ^ 64 - 1))"
      using k old by (intro unat_eqI) (auto simp: unat_saturating_add key_funds_def unat_of_nat)
    moreover have "filter (owned_by keys k') (ns @ [n]) = filter (owned_by keys k') ns @ (if k' = k then [n] else [])" for k'
      by (simp add: other)
    moreover have "key_funds keys (ns @ [n]) k' = key_funds keys ns k'" if "k' \<noteq> k" for k'
      using that by (simp add: key_funds_def other)
    moreover have "distinct (map fst (add_total k (note_value n) (spendable_totals keys ns)))"
      using snoc by (simp add: add_total_def distinct_update)
    ultimately show ?thesis using snoc unfolding st step by (simp add: add_total_conv)
  qed
qed (simp add: spendable_totals_def)

lemma sort_key_hd: "sort_key f xs = y # ys \<Longrightarrow> y \<in> set xs \<and> (\<forall>x \<in> set xs. f y \<le> f x)"
proof -
  assume sorted: "sort_key f xs = y # ys"
  then have "set xs = set (y # ys)" by (metis set_sort)
  moreover have "sorted (map f (y # ys))" using sorted by (metis sorted_sort_key)
  ultimately show ?thesis by auto
qed

lemma key_funds_le: "key_funds keys ns k \<le> value_sum ns"
  unfolding key_funds_def by (induction ns) auto

lemma qualifying_totals:
  assumes "value_sum ns < 2 ^ 64" "0 < req"
  shows "set (filter (\<lambda>(_, t). req \<le> t) (spendable_totals keys ns)) =
    {(k, of_nat (key_funds keys ns k)) |k. unat req \<le> key_funds keys ns k}" (is "?Q = _")
proof -
  have funds: "key_funds keys ns k < 2 ^ 64" for k using key_funds_le assms(1) by (rule le_less_trans)
  have "(k, t) \<in> set (spendable_totals keys ns) \<longleftrightarrow>
      filter (owned_by keys k) ns \<noteq> [] \<and> t = of_nat (key_funds keys ns k)" for k t
    using spendable_totals_spec [of keys ns] funds [of k] by (auto simp flip: map_of_eq_Some_iff)
  moreover have "req \<le> of_nat (key_funds keys ns k) \<longleftrightarrow> unat req \<le> key_funds keys ns k" for k
    using funds [of k] by (simp add: word_le_nat_alt unat_of_nat)
  moreover have "0 < unat req" using assms(2) by (simp add: word_less_nat_alt)
  then have "filter (owned_by keys k) ns \<noteq> []" if "unat req \<le> key_funds keys ns k" for k
    using that by (auto simp: key_funds_def)
  ultimately show ?thesis by auto
qed

lemma choose_auto_Some_iff:
  assumes "value_sum ns < 2 ^ 64" "0 < req"
  shows "choose_auto_spend_key_id_for_amount keys ns req = Some k \<longleftrightarrow>
    unat req \<le> key_funds keys ns k \<and>
    (\<forall>k'. unat req \<le> key_funds keys ns k' \<longrightarrow> (key_funds keys ns k, k) \<le> (key_funds keys ns k', k'))"
proof -
  let ?q = "filter (\<lambda>(_, t). req \<le> t) (spendable_totals keys ns)"
  have funds: "(of_nat (key_funds keys ns a) :: u64, a) \<le> (of_nat (key_funds keys ns b), b) \<longleftrightarrow>
      (key_funds keys ns a, a) \<le> (key_funds keys ns b, b)" for a b
    using key_funds_le [of keys ns a] key_funds_le [of keys ns b] assms(1)
    by (simp add: word_less_nat_alt word_le_nat_alt unat_of_nat word_unat_eq_iff)
  note q = qualifying_totals [OF assms, of keys]
  show ?thesis
  proof (cases "sort_key (\<lambda>(k, t). (t, k)) ?q")
    case Nil
    then have "set ?q = {}" by (metis set_sort list.set(1))
    with Nil show ?thesis unfolding q by (auto simp: choose_auto_spend_key_id_for_amount_def)
  next
    case (Cons e es)
    obtain a t where e: "e = (a, t)" by force
    from sort_key_hd [OF Cons] e have at: "unat req \<le> key_funds keys ns a" "t = of_nat (key_funds keys ns a)"
      and least: "\<And>b. unat req \<le> key_funds keys ns b \<Longrightarrow> (key_funds keys ns a, a) \<le> (key_funds keys ns b, b)"
      unfolding q funds [symmetric] by fastforce+
    have "choose_auto_spend_key_id_for_amount keys ns req = Some a"
      using Cons e by (simp add: choose_auto_spend_key_id_for_amount_def)
    moreover have "k = a" if "unat req \<le> key_funds keys ns k"
        "\<forall>k'. unat req \<le> key_funds keys ns k' \<longrightarrow> (key_funds keys ns k, k) \<le> (key_funds keys ns k', k')"
    proof -
      have "(key_funds keys ns a, a) \<le> (key_funds keys ns k, k)" using that(1) by (rule least)
      moreover have "(key_funds keys ns k, k) \<le> (key_funds keys ns a, a)" using that(2) at(1) by blast
      ultimately show ?thesis by (metis order_antisym prod.inject)
    qed
    ultimately show ?thesis using at(1) least by auto
  qed
qed

lemma choose_auto_None_iff:
  assumes "value_sum ns < 2 ^ 64" "0 < req"
  shows "choose_auto_spend_key_id_for_amount keys ns req = None \<longleftrightarrow> (\<forall>k. key_funds keys ns k < unat req)"
proof -
  let ?q = "filter (\<lambda>(_, t). req \<le> t) (spendable_totals keys ns)"
  have "choose_auto_spend_key_id_for_amount keys ns req = None \<longleftrightarrow> sort_key (\<lambda>(k, t). (t, k)) ?q = []"
    by (simp add: choose_auto_spend_key_id_for_amount_def split: list.splits prod.splits)
  also have "\<dots> \<longleftrightarrow> set ?q = {}" by (metis set_empty set_sort)
  finally show ?thesis unfolding qualifying_totals [OF assms] by (auto simp: not_le)
qed

text \<open>
  Observation. With no filter given, the wallet pays from one key group when one suffices: the
  automatic choice is a group whose spendable notes cover the amount, with the least such
  total and then the least id, and there is none only if no group covers it. Once dust
  is folded into the fee the amount grows; as long as the chosen group still covers it, the
  same group is chosen again, and where none was enough none is chosen later.
\<close>

lemma cheapest_key_chosen:
  assumes "value_sum ns < 2 ^ 64" "0 < req" "req \<le> req'"
  shows "case choose_auto_spend_key_id_for_amount keys ns req of
      None \<Rightarrow> (\<forall>k. key_funds keys ns k < unat req) \<and> choose_auto_spend_key_id_for_amount keys ns req' = None
    | Some k \<Rightarrow> unat req \<le> key_funds keys ns k
        \<and> (\<forall>k'. unat req \<le> key_funds keys ns k' \<longrightarrow>
             key_funds keys ns k < key_funds keys ns k' \<or> key_funds keys ns k = key_funds keys ns k' \<and> k \<le> k')
        \<and> (unat req' \<le> key_funds keys ns k \<longrightarrow> choose_auto_spend_key_id_for_amount keys ns req' = Some k)"
proof -
  have le: "unat req \<le> unat req'" and pos: "0 < req'" using assms(2,3) by (auto simp: word_le_nat_alt word_less_nat_alt)
  show ?thesis
  proof (cases "choose_auto_spend_key_id_for_amount keys ns req")
    case None
    then have "\<forall>k. key_funds keys ns k < unat req" using choose_auto_None_iff [OF assms(1,2)] by blast
    moreover from this le have "choose_auto_spend_key_id_for_amount keys ns req' = None"
      using choose_auto_None_iff [OF assms(1) pos, of keys] by (meson less_le_trans)
    ultimately show ?thesis by (simp add: None)
  next
    case (Some k)
    then show ?thesis
      using choose_auto_Some_iff [OF assms(1,2), of keys k] choose_auto_Some_iff [OF assms(1) pos, of keys k] le by auto
  qed
qed

section \<open>Examples\<close>

definition example_key :: "i64 \<Rightarrow> account_key" where
  "example_key i = \<lparr>ak_id = Some i, ak_account_id = 2, ak_key_type = ImportSpend, ak_key_scope = AccountScope, ak_label = None,
     ak_birthday_height = 1, ak_created_at = 0, ak_spendable = True, ak_sapling_extsk = Some [], ak_sapling_dfvk = None,
     ak_orchard_extsk = None, ak_orchard_fvk = None, ak_encrypted_mnemonic = None\<rparr>"

definition example_note :: "i64 \<Rightarrow> u64 \<Rightarrow> selectable_note" where
  "example_note k v = with_sapling_position 0 (with_key_id (Some k) (new_note v [] 40 [] 0))"

lemmas example_note_defs = example_note_def new_note_def with_key_id_def with_sapling_position_def

lemma example_funds:
  "key_funds [example_key 7, example_key 8] [example_note 8 80, example_note 7 50] k =
     (if k = 7 then 50 else if k = 8 then 80 else 0)"
  by (simp add: key_funds_def owned_by_def keys_by_id_def example_key_def example_note_defs account_key_can_spend_note_def)

theorem cheapest_key_chosen_witness:
  "choose_auto_spend_key_id_for_amount [example_key 7, example_key 8] [example_note 8 80, example_note 7 50] 40 = Some 7 \<and>
   choose_auto_spend_key_id_for_amount [example_key 7, example_key 8] [example_note 8 80, example_note 7 50] 45 = Some 7"
proof -
  let ?ks = "[example_key 7, example_key 8]" and ?ns = "[example_note 8 80, example_note 7 50]"
  have hyps: "value_sum ?ns < 2 ^ 64" "(0 :: u64) < 40" "(40 :: u64) \<le> 45"
    by (simp_all add: example_note_defs word_le_nat_alt word_less_nat_alt)
  note chosen = cheapest_key_chosen [OF hyps, of ?ks, unfolded example_funds]
  show ?thesis
  proof (cases "choose_auto_spend_key_id_for_amount ?ks ?ns 40")
    case None
    with chosen show ?thesis by (auto dest: spec [of _ 7])
  next
    case (Some k)
    with chosen have "k = 7" by (auto dest: spec [of _ 7] split: if_splits)
    with chosen Some show ?thesis by simp
  qed
qed

definition example_source :: note_source where
  "example_source = \<lparr>unspent_selectable_notes = (\<lambda>_ _ _. Inr [example_note 7 50]), unscanned_ranges = (\<lambda>_. []),
     construct_anchor_witnesses = (\<lambda>_ notes. Inr notes)\<rparr>"

definition example_anchors :: spend_selection_anchors where
  "example_anchors = \<lparr>sa_target_height = 101, sa_conservative_anchor_height = 97, sa_sapling_anchor_height = 98,
     sa_ironwood_anchor_height = 97\<rparr>"

lemma example_query:
  "h \<in> {97, 98} \<Longrightarrow> get_unspent_selectable_notes_at_anchor_filtered example_source example_db 2 h kf af = Inr [example_note 7 50]"
  by (auto simp: get_unspent_selectable_notes_at_anchor_filtered_def get_wallet_birthday_height_def example_db_def
      example_source_def example_note_defs u64_try_from_def i64_try_from_def notes_within_def note_position_def note_shard_def
      shard_index_from_position_def load_blocked_shard_ranges_def word_le_nat_alt)

theorem selectable_notes_by_pool_witness:
  "\<exists>notes. load_selectable_notes_for_send example_source example_db 2 example_anchors None None = Inr notes \<and>
     distinct (map note_outpoint notes) \<and> length notes = 1"
proof -
  have load: "load_selectable_notes_for_send example_source example_db 2 example_anchors None None = Inr [example_note 7 50]"
    by (simp add: load_selectable_notes_for_send_def example_anchors_def example_query from_storage_def)
      (simp add: example_note_defs)
  have "distinct (map note_outpoint [example_note 7 50])"
    using selectable_notes_by_pool [OF load] by (simp add: example_anchors_def)
  with load show ?thesis by auto
qed

end
