(* ===== verification/TxFlow.thy ===== *)
theory TxFlow
  imports SpendKeys SyncState
begin

text \<open>
  The send flow of the wallet service (\<open>pirate-wallet-service/src/api/tx_flow.rs\<close>): building a
  pending transaction, the consolidation and sweep variants, signing, and what is recorded
  once a broadcast was accepted.

  What the flow reads of a wallet is the record \<open>wallet_env\<close>: the stores modelled in
  the other theories, and as arguments what lies outside them (the wallet registry, the signing
  session, the creation of the primary key group, the tree state). Key parsing and address
  codecs are the record \<open>flow_lib\<close>. What the flow changes is \<open>flow_state\<close>: the three caches,
  the address table, and the requests made to the repository in their order (\<open>db_call\<close>). Fresh
  identifiers and times are arguments. Logging, the triggering of a background sync and the thread
  that runs the builder are left out; its time limit is an argument that says whether it was met.
\<close>

section \<open>Requests and pending transactions (models.rs)\<close>

definition lit :: "string \<Rightarrow> str" where
  "lit s = map of_char s"

definition starts_with :: "string \<Rightarrow> str \<Rightarrow> bool" where
  "starts_with p s \<longleftrightarrow> strip_prefix (lit p) s \<noteq> None"

record tx_output =
  o_addr :: str
  o_amount :: u64
  o_memo :: "str option"

definition is_orchard_addr :: "str \<Rightarrow> bool" where
  "is_orchard_addr a \<longleftrightarrow> starts_with ''pirate1'' a \<or> starts_with ''pirate-test1'' a \<or> starts_with ''pirate-regtest1'' a"

definition is_sapling_addr :: "str \<Rightarrow> bool" where
  "is_sapling_addr a \<longleftrightarrow> starts_with ''zs1'' a \<or> starts_with ''ztestsapling1'' a \<or> starts_with ''zregtestsapling1'' a"

definition validate_output :: "tx_output \<Rightarrow> msg + unit" where
  "validate_output out =
     (if o_amount out = 0 then Inl (Msg ''Amount cannot be zero'' [])
      else if \<not> is_orchard_addr (o_addr out) \<and> \<not> is_sapling_addr (o_addr out)
      then Inl (Msg ''Invalid address format (must start with zs1... or pirate1...)'' [])
      else case o_memo out of
        None \<Rightarrow> Inr ()
      | Some memo \<Rightarrow> if 512 < str_len memo then Inl (Msg ''Memo too long: {} bytes (max 512)'' [int (str_len memo)]) else Inr ())"

record pending_tx =
  ptx_id :: str
  ptx_outputs :: "tx_output list"
  ptx_total_amount :: u64
  ptx_fee :: u64
  ptx_change :: u64
  ptx_input_total :: u64
  ptx_num_inputs :: u32
  ptx_expiry_height :: u32
  ptx_created_at :: i64

section \<open>What the flow reads and changes\<close>

record flow_lib =
  fl_tx :: tx_lib
  decode_sapling_address :: "str \<Rightarrow> sapling_address option"
  decode_ironwood_address :: "str \<Rightarrow> orchard_address option"
  sapling_key_from_bytes :: "bytes \<Rightarrow> sapling_spending_key option"
  ironwood_key_from_bytes :: "bytes \<Rightarrow> ironwood_spending_key option"
  sapling_change_entry :: "sapling_spending_key \<Rightarrow> u32 \<Rightarrow> network_type \<Rightarrow> (str \<times> bytes) option"
  ironwood_change_string :: "ironwood_spending_key \<Rightarrow> u32 \<Rightarrow> network_type \<Rightarrow> core_error + str"
  txid_to_string :: "bytes \<Rightarrow> str"

record wallet_secret =
  ws_account_id :: i64
  ws_extsk :: bytes
  ws_orchard_extsk :: "bytes option"

record wallet_env =
  we_open :: "flow_error + unit"
  we_secret :: "storage_error + wallet_secret option"
  we_spend_db :: spend_db
  we_sync_db :: sync_db
  we_keys :: key_source
  we_notes :: note_source
  we_auto_consolidation :: bool
  we_network :: "flow_error + string option"
  we_signing_protection :: "storage_error + bool"
  we_session_unlocked :: bool
  we_primary_key :: "flow_error + i64"
  we_orchard_anchor :: "u64 \<Rightarrow> storage_error + orchard_anchor option"

datatype db_call =
    UpsertTxMemo str bytes
  | MarkNotesSpent i64 "(bytes \<times> bytes) list"
  | UpsertOutgoingIntent i64 str u64 u64 i64 u32

record flow_state =
  fs_sign_cache :: sign_cache
  fs_broadcast_cache :: broadcast_cache
  fs_pending_changes :: pending_changes
  fs_addresses :: address_db
  fs_calls :: "db_call list"

definition MAX_OUTPUTS_PER_TX :: nat where "MAX_OUTPUTS_PER_TX = 50"
definition AUTO_CONSOLIDATION_THRESHOLD :: nat where "AUTO_CONSOLIDATION_THRESHOLD = 30"
definition AUTO_CONSOLIDATION_MAX_EXTRA_NOTES :: nat where "AUTO_CONSOLIDATION_MAX_EXTRA_NOTES = 20"
definition TRANSACTION_EXPIRY_BLOCKS :: u32 where "TRANSACTION_EXPIRY_BLOCKS = 40"
definition BUILD_AND_SIGN_TIMEOUT_BASE_SECS :: u64 where "BUILD_AND_SIGN_TIMEOUT_BASE_SECS = 300"
definition BUILD_AND_SIGN_TIMEOUT_PER_INPUT_SECS :: u64 where "BUILD_AND_SIGN_TIMEOUT_PER_INPUT_SECS = 15"
definition BUILD_AND_SIGN_TIMEOUT_MAX_SECS :: u64 where "BUILD_AND_SIGN_TIMEOUT_MAX_SECS = 1800"

definition saturating_mul :: "u64 \<Rightarrow> u64 \<Rightarrow> u64" where
  "saturating_mul a b = (if unat a * unat b < 2 ^ 64 then a * b else - 1)"

definition build_and_sign_timeout :: "u32 \<Rightarrow> u64" where
  "build_and_sign_timeout num_inputs =
     (let input_count = u64_from_u32 (max num_inputs 1)
      in min (saturating_add BUILD_AND_SIGN_TIMEOUT_BASE_SECS
           (saturating_mul input_count BUILD_AND_SIGN_TIMEOUT_PER_INPUT_SECS)) BUILD_AND_SIGN_TIMEOUT_MAX_SECS)"

section \<open>Building\<close>

text \<open>The loop over the outputs: whether one has a memo, and the total.\<close>

fun check_outputs :: "flow_lib \<Rightarrow> nat \<Rightarrow> bool \<Rightarrow> u64 \<Rightarrow> tx_output list \<Rightarrow> flow_error + bool \<times> u64" where
  "check_outputs lib i has_memo tot [] = Inr (has_memo, tot)"
| "check_outputs lib i has_memo tot (out # outs) =
     bind_res (case validate_output out of
         Inl (Msg m args) \<Rightarrow> Inl (Anyhow (Msg (''Output {}: '' @ m) (int (i + 1) # args))) | Inr _ \<Rightarrow> Inr ()) (\<lambda>_.
     bind_res (if \<not> is_orchard_addr (o_addr out) \<and> \<not> is_sapling_addr (o_addr out)
         then Inl (Anyhow (Msg ''Invalid address at output {}: must be a Sapling (zs1...) or Ironwood (pirate1...) address'' [int (i + 1)]))
         else if is_orchard_addr (o_addr out)
         then ok_or (map_option (\<lambda>_. ()) (decode_ironwood_address lib (o_addr out)))
                (Anyhow (Msg ''Invalid Ironwood address at output {}: {}'' [int (i + 1)]))
         else ok_or (map_option (\<lambda>_. ()) (decode_sapling_address lib (o_addr out)))
                (Anyhow (Msg ''Invalid Sapling address at output {}: {}'' [int (i + 1)]))) (\<lambda>_.
     bind_res (case o_memo out of
         None \<Rightarrow> Inr ()
       | Some memo \<Rightarrow>
           if MAX_MEMO_LENGTH < str_len memo
           then Inl (Anyhow (Msg ''Memo at output {} is too long: {} bytes (maximum {})''
                  [int (i + 1), int (str_len memo), int MAX_MEMO_LENGTH]))
           else if list_ex (\<lambda>c. is_control c \<and> c \<noteq> 10 \<and> c \<noteq> 9 \<and> c \<noteq> 13) memo
           then Inl (Anyhow (Msg ''Memo at output {} contains invalid control characters'' [int (i + 1)]))
           else Inr ()) (\<lambda>_.
     bind_res (ok_or (checked_add tot (o_amount out)) (Anyhow (Msg ''Amount overflow'' []))) (\<lambda>tot'.
       check_outputs lib (i + 1) (has_memo \<or> o_memo out \<noteq> None) tot' outs))))"

text \<open>The amounts of a request: total, fee and their sum.\<close>

definition request_amounts :: "flow_lib \<Rightarrow> tx_output list \<Rightarrow> u64 option \<Rightarrow> flow_error + u64 \<times> u64 \<times> u64" where
  "request_amounts lib outputs fee_opt =
     (if outputs = [] then Inl (Anyhow (Msg ''At least one output is required'' []))
      else if MAX_OUTPUTS_PER_TX < length outputs
      then Inl (Anyhow (Msg ''Too many outputs: {} (maximum {})'' [int (length outputs), int MAX_OUTPUTS_PER_TX]))
      else bind_res (check_outputs lib 0 False 0 outputs) (\<lambda>(has_memo, total_amount).
           bind_res (from_core ''Fee calculation error'' (calculate_fee 2 (length outputs) has_memo)) (\<lambda>calculated_fee.
           let fee = (case fee_opt of None \<Rightarrow> calculated_fee | Some f \<Rightarrow> f)
           in bind_res (from_core ''Invalid fee'' (validate_fee fee)) (\<lambda>_.
              bind_res (ok_or (checked_add total_amount fee) (Anyhow (Msg ''Amount + fee overflow'' []))) (\<lambda>required.
                Inr (total_amount, fee, required))))))"

definition load_secret :: "wallet_env \<Rightarrow> flow_error + wallet_secret" where
  "load_secret env =
     bind_res (we_open env) (\<lambda>_.
     bind_res (from_storage (we_secret env)) (\<lambda>opt.
       ok_or opt (Anyhow (Msg ''No wallet secret found for {}'' []))))"

definition gate :: "wallet_env \<Rightarrow> flow_error + spendability_status" where
  "gate env = map_sum FromGate id (require_spendability_ready (we_spend_db env))"

text \<open>The filter that is in effect, and the notes to select from.\<close>

definition spend_candidates ::
    "wallet_env \<Rightarrow> i64 \<Rightarrow> spend_selection_anchors \<Rightarrow> i64 option \<Rightarrow> u64 \<Rightarrow> i64 list option \<Rightarrow> i64 list option
     \<Rightarrow> flow_error + i64 list option \<times> selectable_note list" where
  "spend_candidates env account anchors resolved required key_ids address_ids =
     (if key_ids = None \<and> address_ids = None then
        bind_res (from_storage (get_account_keys (ks_crypto (we_keys env)) (ks_rows (we_keys env)) account)) (\<lambda>account_keys.
        bind_res (load_selectable_notes_for_send (we_notes env) (we_spend_db env) account anchors None None) (\<lambda>selectable.
          case (case resolved of Some k \<Rightarrow> Some k
                | None \<Rightarrow> choose_auto_spend_key_id_for_amount account_keys selectable required) of
            None \<Rightarrow> Inr (key_ids, selectable)
          | Some k \<Rightarrow>
              bind_res (ok_or (find (\<lambda>key. ak_id key = Some k) account_keys)
                (Anyhow (Msg ''Auto-selected key group not found'' []))) (\<lambda>selected_key.
                Inr (Some [k], filter (\<lambda>n. key_id n = Some k \<and> account_key_can_spend_note selected_key n) selectable))))
      else bind_res (load_selectable_notes_for_send (we_notes env) (we_spend_db env) account anchors key_ids address_ids)
             (\<lambda>selectable. Inr (key_ids, selectable)))"

definition eligible_count :: "selectable_note list \<Rightarrow> nat" where
  "eligible_count notes = length (filter auto_consolidation_eligible notes)"

definition build_extra_limit :: "wallet_env \<Rightarrow> i64 list option \<Rightarrow> i64 list option \<Rightarrow> selectable_note list \<Rightarrow> nat" where
  "build_extra_limit env key_ids address_ids notes =
     (if we_auto_consolidation env \<and> key_ids = None \<and> address_ids = None
         \<and> AUTO_CONSOLIDATION_THRESHOLD \<le> eligible_count notes
      then AUTO_CONSOLIDATION_MAX_EXTRA_NOTES else 0)"

text \<open>Selection, and the fee and change once dust is folded in.\<close>

definition select_for_send ::
    "nat \<Rightarrow> selectable_note list \<Rightarrow> u64 \<Rightarrow> u64 \<Rightarrow> u64 \<Rightarrow> flow_error + selection_result \<times> effective_fee_and_change" where
  "select_for_send extra notes total_amount fee required =
     (let available_balance = sum_u64 (map note_value notes)
      in if available_balance < required
         then Inl (Anyhow (Msg ''Insufficient funds: need {} arrrtoshis, have {} arrrtoshis'' [uint required, uint available_balance]))
         else bind_res (from_core ''Note selection failed''
                (if 0 < extra then select_notes_with_consolidation SmallestFirst extra notes total_amount fee
                 else select_notes SmallestFirst notes total_amount fee)) (\<lambda>selection.
              bind_res (from_core ''Dust policy resolution failed'' (apply_dust_policy_add_to_fee fee (sel_change selection)))
                (\<lambda>effective. Inr (selection, effective))))"

definition build_tx_internal ::
    "flow_lib \<Rightarrow> wallet_env \<Rightarrow> wallet_id \<Rightarrow> tx_output list \<Rightarrow> u64 option \<Rightarrow> i64 list option \<Rightarrow> i64 list option
     \<Rightarrow> str \<times> i64 \<times> u64 \<times> u64 \<Rightarrow> flow_state \<Rightarrow> flow_error + pending_tx \<times> flow_state" where
  "build_tx_internal lib env wallet outputs fee_opt key_ids0 address_ids0 stamps st =
     (case stamps of (pending_id, created_at, created_at_ms, now) \<Rightarrow>
     bind_res (request_amounts lib outputs fee_opt) (\<lambda>(total_amount, fee, required).
     let key_ids = normalize_filter_ids key_ids0; address_ids = normalize_filter_ids address_ids0
     in bind_res (load_secret env) (\<lambda>secret.
        bind_res (gate env) (\<lambda>_.
        bind_res (compute_spend_selection_anchors (we_spend_db env) (ws_account_id secret)) (\<lambda>anchors.
        bind_res (resolve_spend_key_id (we_keys env) (fs_addresses st) (ws_account_id secret) key_ids address_ids) (\<lambda>resolved.
        bind_res (spend_candidates env (ws_account_id secret) anchors resolved required key_ids address_ids)
          (\<lambda>(effective_ids, selectable).
        bind_res (select_for_send (build_extra_limit env key_ids address_ids selectable) selectable total_amount fee required)
          (\<lambda>(selection, effective).
        bind_res (ok_or (checked_add total_amount (eff_fee effective)) (Anyhow (Msg ''Amount + effective fee overflow'' [])))
          (\<lambda>pending_required_total.
        bind_res (from_storage (load_sync_state_once (we_sync_db env))) (\<lambda>sync.
          let pending = \<lparr>ptx_id = pending_id, ptx_outputs = outputs, ptx_total_amount = total_amount,
                ptx_fee = eff_fee effective, ptx_change = eff_change effective, ptx_input_total = total_value selection,
                ptx_num_inputs = of_nat (length (sel_notes selection)),
                ptx_expiry_height = saturating_add (ucast (ssr_local_height sync)) TRANSACTION_EXPIRY_BLOCKS,
                ptx_created_at = created_at\<rparr>;
              ctx = \<lparr>psc_wallet_id = wallet, psc_required_total = pending_required_total, psc_created_at_ms = created_at_ms,
                psc_key_ids_filter = normalize_pending_sign_filter_ids effective_ids,
                psc_address_ids_filter = normalize_pending_sign_filter_ids address_ids,
                psc_selected_notes = sel_notes selection\<rparr>
          in Inr (pending, st\<lparr>fs_sign_cache := store_pending_sign_context now pending_id ctx (fs_sign_cache st)\<rparr>)))))))))))"

definition build_tx where
  "build_tx lib env wallet outputs fee_opt = build_tx_internal lib env wallet outputs fee_opt None None"

definition build_tx_for_key where
  "build_tx_for_key lib env wallet key outputs fee_opt = build_tx_internal lib env wallet outputs fee_opt (Some [key]) None"

definition build_tx_filtered where
  "build_tx_filtered lib env wallet outputs fee_opt key_ids address_ids =
     build_tx_internal lib env wallet outputs fee_opt key_ids address_ids"

text \<open>The amount of a transaction that empties the given notes.\<close>

definition sweep_amount :: "string \<Rightarrow> selectable_note list \<Rightarrow> u64 option \<Rightarrow> flow_error + u64 \<times> u64" where
  "sweep_amount what notes fee_opt =
     (let available_balance = sum_u64 (map note_value notes)
      in if available_balance = 0 then Inl (Anyhow (Msg what []))
         else bind_res (from_core ''Fee calculation error'' (calculate_fee 1 1 False)) (\<lambda>calculated_fee.
              let fee = (case fee_opt of None \<Rightarrow> calculated_fee | Some f \<Rightarrow> f)
              in bind_res (from_core ''Invalid fee'' (validate_fee fee)) (\<lambda>_.
                 if available_balance \<le> fee
                 then Inl (Anyhow (Msg ''Insufficient funds: need {} arrrtoshis for fee, have {} arrrtoshis''
                        [uint fee, uint available_balance]))
                 else Inr (available_balance - fee, fee))))"

definition build_consolidation_tx ::
    "flow_lib \<Rightarrow> wallet_env \<Rightarrow> wallet_id \<Rightarrow> i64 \<Rightarrow> str \<Rightarrow> u64 option \<Rightarrow> str \<times> i64 \<times> u64 \<times> u64 \<Rightarrow> flow_state
     \<Rightarrow> flow_error + pending_tx \<times> flow_state" where
  "build_consolidation_tx lib env wallet key target_address fee_opt stamps st =
     bind_res (we_open env) (\<lambda>_.
     bind_res (gate env) (\<lambda>_.
     bind_res (load_secret env) (\<lambda>secret.
     bind_res (compute_spend_selection_anchors (we_spend_db env) (ws_account_id secret)) (\<lambda>anchors.
     bind_res (load_selectable_notes_for_send (we_notes env) (we_spend_db env) (ws_account_id secret) anchors (Some [key]) None) (\<lambda>notes.
     bind_res (sweep_amount ''No spendable notes available for consolidation'' notes fee_opt) (\<lambda>(amount, fee).
       build_tx_internal lib env wallet [\<lparr>o_addr = target_address, o_amount = amount, o_memo = None\<rparr>] (Some fee)
         (Some [key]) None stamps st))))))"

definition build_sweep_tx ::
    "flow_lib \<Rightarrow> wallet_env \<Rightarrow> wallet_id \<Rightarrow> str \<Rightarrow> u64 option \<Rightarrow> i64 list option \<Rightarrow> i64 list option
     \<Rightarrow> str \<times> i64 \<times> u64 \<times> u64 \<Rightarrow> flow_state \<Rightarrow> flow_error + pending_tx \<times> flow_state" where
  "build_sweep_tx lib env wallet target_address fee_opt key_ids0 address_ids0 stamps st =
     bind_res (we_open env) (\<lambda>_.
     bind_res (gate env) (\<lambda>_.
     bind_res (load_secret env) (\<lambda>secret.
     bind_res (compute_spend_selection_anchors (we_spend_db env) (ws_account_id secret)) (\<lambda>anchors.
     let key_ids = normalize_filter_ids key_ids0; address_ids = normalize_filter_ids address_ids0
     in bind_res (resolve_spend_key_id (we_keys env) (fs_addresses st) (ws_account_id secret) key_ids address_ids) (\<lambda>_.
        bind_res (load_selectable_notes_for_send (we_notes env) (we_spend_db env) (ws_account_id secret) anchors key_ids address_ids) (\<lambda>notes.
        bind_res (sweep_amount ''No spendable notes available for sweep'' notes fee_opt) (\<lambda>(amount, fee).
          build_tx_internal lib env wallet [\<lparr>o_addr = target_address, o_amount = amount, o_memo = None\<rparr>] (Some fee)
            key_ids address_ids stamps st)))))))"

section \<open>Signing\<close>

record signed_tx =
  stx_txid :: str
  stx_raw :: bytes
  stx_size :: nat

definition require_wallet_signing_session :: "wallet_env \<Rightarrow> flow_error + unit" where
  "require_wallet_signing_session env =
     bind_res (we_open env) (\<lambda>_.
     bind_res (from_storage (we_signing_protection env)) (\<lambda>protected.
       if protected \<and> \<not> we_session_unlocked env
       then Inl (Anyhow (Msg ''ERR_SIGNING_SESSION_LOCKED: unlock this wallet before signing'' [])) else Inr ()))"

text \<open>The key group that signs, and the filter the selection context must have been stored with.\<close>

definition signing_key ::
    "wallet_env \<Rightarrow> address_db \<Rightarrow> i64 \<Rightarrow> spend_selection_anchors \<Rightarrow> u64 \<Rightarrow> i64 list option \<Rightarrow> i64 list option
     \<Rightarrow> flow_error + i64 option \<times> i64 list option" where
  "signing_key env adb account anchors required key_ids address_ids =
     bind_res (resolve_spend_key_id (we_keys env) adb account key_ids address_ids) (\<lambda>resolved.
       if key_ids = None \<and> address_ids = None then
         bind_res (case resolved of
             Some k \<Rightarrow> Inr (Some k)
           | None \<Rightarrow> auto_select_spend_key_id_for_amount (we_notes env) (we_keys env) (we_spend_db env) account required anchors)
           (\<lambda>key. Inr (key, case key of None \<Rightarrow> key_ids | Some k \<Rightarrow> Some [k]))
       else Inr (resolved, key_ids))"

record key_material =
  km_sapling_extsk :: bytes
  km_orchard_extsk :: "bytes option"
  km_change_key_id :: i64

definition signing_material :: "wallet_env \<Rightarrow> wallet_secret \<Rightarrow> i64 option \<Rightarrow> flow_error + key_material" where
  "signing_material env secret signing =
     (case signing of
        None \<Rightarrow> bind_res (we_primary_key env) (\<lambda>primary.
          Inr \<lparr>km_sapling_extsk = ws_extsk secret, km_orchard_extsk = ws_orchard_extsk secret, km_change_key_id = primary\<rparr>)
      | Some k \<Rightarrow>
          bind_res (from_storage (get_account_key_by_id (ks_crypto (we_keys env)) (ks_rows (we_keys env)) k)) (\<lambda>opt.
          bind_res (ok_or opt (Anyhow (Msg ''Key group not found'' []))) (\<lambda>key.
            if ak_account_id key \<noteq> ws_account_id secret then Inl (Anyhow (Msg ''Key group does not belong to this wallet'' []))
            else if \<not> ak_spendable key then Inl (Anyhow (Msg ''Key group is not spendable'' []))
            else bind_res (ok_or (ak_sapling_extsk key) (Anyhow (Msg ''Sapling spending key missing for key group'' []))) (\<lambda>sk.
              Inr \<lparr>km_sapling_extsk = sk, km_orchard_extsk = ak_orchard_extsk key, km_change_key_id = k\<rparr>))))"

text \<open>The tables of spending keys by id; a key that does not parse is left out.\<close>

definition spendable_keys_by_id :: "account_key list \<Rightarrow> (i64 \<times> account_key) list" where
  "spendable_keys_by_id keys = keys_by_id (filter ak_spendable keys)"

definition parsed_keys_by_id ::
    "(bytes \<Rightarrow> 'k option) \<Rightarrow> (account_key \<Rightarrow> bytes option) \<Rightarrow> account_key list \<Rightarrow> (i64 \<times> 'k) list" where
  "parsed_keys_by_id parse blob keys =
     fold (\<lambda>key m. case (ak_id key, Option.bind (blob key) parse) of
        (Some i, Some k) \<Rightarrow> AList.update i k m | _ \<Rightarrow> m) (filter ak_spendable keys) []"

record sign_request =
  rq_pending :: pending_tx
  rq_secret :: wallet_secret
  rq_key_ids :: "i64 list option"
  rq_address_ids :: "i64 list option"
  rq_required :: u64
  rq_status :: spendability_status
  rq_anchors :: spend_selection_anchors
  rq_signing_key :: "i64 option"
  rq_effective_ids :: "i64 list option"
  rq_material :: key_material
  rq_account_keys :: "account_key list"

text \<open>Everything up to the point where the selection context is taken.\<close>

definition open_sign_request ::
    "flow_lib \<Rightarrow> wallet_env \<Rightarrow> pending_tx \<Rightarrow> i64 list option \<Rightarrow> i64 list option \<Rightarrow> address_db \<Rightarrow> flow_error + sign_request" where
  "open_sign_request lib env pending0 key_ids0 address_ids0 adb =
     bind_res (require_wallet_signing_session env) (\<lambda>_.
     bind_res (from_core '''' (sapling_prover (fl_tx lib))) (\<lambda>_.
     bind_res (from_core ''Pending tx dust normalization failed''
       (apply_dust_policy_add_to_fee (ptx_fee pending0) (ptx_change pending0))) (\<lambda>normalized.
     let pending = pending0\<lparr>ptx_fee := eff_fee normalized, ptx_change := eff_change normalized\<rparr>
     in bind_res (load_secret env) (\<lambda>secret.
        let key_ids = normalize_filter_ids key_ids0; address_ids = normalize_filter_ids address_ids0
        in bind_res (ok_or (checked_add (ptx_total_amount pending) (ptx_fee pending)) (Anyhow (Msg ''Amount + fee overflow'' []))) (\<lambda>required.
           bind_res (gate env) (\<lambda>status.
           bind_res (compute_spend_selection_anchors (we_spend_db env) (ws_account_id secret)) (\<lambda>anchors.
           bind_res (signing_key env adb (ws_account_id secret) anchors required key_ids address_ids) (\<lambda>(signing, effective_ids).
           bind_res (signing_material env secret signing) (\<lambda>material.
             Inr \<lparr>rq_pending = pending, rq_secret = secret, rq_key_ids = key_ids, rq_address_ids = address_ids,
               rq_required = required, rq_status = status, rq_anchors = anchors, rq_signing_key = signing,
               rq_effective_ids = effective_ids, rq_material = material,
               rq_account_keys = (case get_account_keys (ks_crypto (we_keys env)) (ks_rows (we_keys env)) (ws_account_id secret) of
                 Inl _ \<Rightarrow> [] | Inr ks \<Rightarrow> ks)\<rparr>)))))))))"

text \<open>
  A payment no single group can make: the change goes to one key group, and the notes of imported
  groups that contribute are marked for consolidation.
\<close>

definition multi_key_adjust ::
    "sign_request \<Rightarrow> selectable_note list \<Rightarrow> key_material \<times> selectable_note list \<times> nat" where
  "multi_key_adjust rq notes =
     (if rq_key_ids rq = None \<and> rq_address_ids rq = None \<and> rq_signing_key rq = None then
        let contributing = infer_contributing_key_ids_for_amount notes (rq_required rq);
            keys = spendable_keys_by_id (rq_account_keys rq)
        in if 1 < length contributing then
             let material =
                   (case choose_multi_key_change_sink_key_id keys contributing (note_balances_by_key_id notes) of
                      None \<Rightarrow> rq_material rq
                    | Some sink \<Rightarrow> (case map_of keys sink of
                          None \<Rightarrow> rq_material rq
                        | Some key \<Rightarrow> (case ak_sapling_extsk key of
                              None \<Rightarrow> rq_material rq
                            | Some sk \<Rightarrow> \<lparr>km_sapling_extsk = sk, km_orchard_extsk = ak_orchard_extsk key, km_change_key_id = sink\<rparr>)));
                 imported = filter (\<lambda>k. case map_of keys k of None \<Rightarrow> False | Some key \<Rightarrow> ak_key_type key = ImportSpend) contributing;
                 marked = (\<lambda>n. case key_id n of None \<Rightarrow> False | Some k \<Rightarrow> k \<in> set imported)
             in if imported = [] then (material, notes, 0)
                else (material, map (\<lambda>n. if marked n then n\<lparr>auto_consolidation_eligible := True\<rparr> else n) notes,
                      length (filter marked notes))
           else (rq_material rq, notes, 0)
      else (rq_material rq, notes, 0))"

definition sign_extra_limit :: "wallet_env \<Rightarrow> sign_request \<Rightarrow> selectable_note list \<Rightarrow> nat \<Rightarrow> nat" where
  "sign_extra_limit env rq notes forced =
     max forced (if we_auto_consolidation env \<and> rq_effective_ids rq = None \<and> rq_address_ids rq = None
         \<and> AUTO_CONSOLIDATION_THRESHOLD \<le> eligible_count notes
       then AUTO_CONSOLIDATION_MAX_EXTRA_NOTES else 0)"

definition network_of :: "string option \<Rightarrow> network_type" where
  "network_of s = (if s = Some ''testnet'' then Testnet else if s = Some ''regtest'' then Regtest else Mainnet)"

definition output_memo_of :: "tx_output \<Rightarrow> memo option" where
  "output_memo_of out = (case o_memo out of None \<Rightarrow> None | Some s \<Rightarrow> if s = [] then None else Some (from_text_truncated s))"

fun add_request_outputs :: "flow_lib \<Rightarrow> tx_output list \<Rightarrow> shielded_builder \<Rightarrow> flow_error + shielded_builder" where
  "add_request_outputs lib [] b = Inr b"
| "add_request_outputs lib (out # outs) b =
     (if is_orchard_addr (o_addr out)
      then bind_res (ok_or (decode_ironwood_address lib (o_addr out)) (Anyhow (Msg ''Invalid Ironwood address {}: {}'' []))) (\<lambda>a.
           bind_res (from_core '''' (add_ironwood_output a (o_amount out) (output_memo_of out) b)) (add_request_outputs lib outs))
      else bind_res (ok_or (decode_sapling_address lib (o_addr out)) (Anyhow (Msg ''Invalid Sapling address {}: {}'' []))) (\<lambda>a.
           bind_res (from_core '''' (add_sapling_output a (o_amount out) (output_memo_of out) b)) (add_request_outputs lib outs)))"

text \<open>Whether the selection the builder will make spends an Ironwood note.\<close>

fun predict_orchard_spends ::
    "u64 \<Rightarrow> nat \<Rightarrow> u64 \<Rightarrow> nat \<Rightarrow> bool \<Rightarrow> selectable_note list \<Rightarrow> flow_error + bool" where
  "predict_orchard_spends required limit tot extra found [] = Inr found"
| "predict_orchard_spends required limit tot extra found (n # ns) =
     (if tot < required then
        bind_res (ok_or (checked_add tot (note_value n)) (Anyhow (Msg ''Value overflow'' []))) (\<lambda>tot'.
          predict_orchard_spends required limit tot' extra (found \<or> note_type n = Ironwood) ns)
      else if limit = 0 \<or> limit \<le> extra then Inr found
      else if auto_consolidation_eligible n then
        bind_res (ok_or (checked_add tot (note_value n)) (Anyhow (Msg ''Value overflow'' []))) (\<lambda>tot'.
          predict_orchard_spends required limit tot' (Suc extra) (found \<or> note_type n = Ironwood) ns)
      else predict_orchard_spends required limit tot extra found ns)"

record sign_plan =
  sp_builder :: shielded_builder
  sp_inputs :: multi_inputs
  sp_network :: network_type
  sp_change_key_id :: i64
  sp_use_orchard_change :: bool
  sp_use_sapling_internal_change :: bool

text \<open>From the notes of the context to the call of the builder.\<close>

definition plan_signing ::
    "flow_lib \<Rightarrow> wallet_env \<Rightarrow> sign_request \<Rightarrow> selectable_note list \<Rightarrow> address_db \<Rightarrow> flow_error + sign_plan" where
  "plan_signing lib env rq context_notes adb =
     (case multi_key_adjust rq context_notes of (material, notes, forced) \<Rightarrow>
     bind_res (ok_or (sapling_key_from_bytes lib (km_sapling_extsk material)) (Anyhow (Msg ''Invalid spending key bytes: {}'' []))) (\<lambda>extsk.
     let orchard_extsk = Option.bind (km_orchard_extsk material) (ironwood_key_from_bytes lib)
     in if rq_signing_key rq \<noteq> None \<and> orchard_extsk = None \<and> list_ex (\<lambda>n. note_type n = Ironwood) notes
        then Inl (Anyhow (Msg ''Ironwood spending key missing for this key group'' []))
        else let limit = sign_extra_limit env rq notes forced
        in bind_res (we_network env) (\<lambda>network_str.
           bind_res (from_storage (load_sync_state_once (we_sync_db env))) (\<lambda>sync.
           let network = network_of network_str;
               activation = coalesce (network.ironwood_activation_height (from_type network))
                 (sync_state_row.ironwood_activation_height sync);
               b0 = with_fee_per_action (ptx_fee (rq_pending rq)) (with_network_and_ironwood_activation_height network activation);
               b1 = (if 0 < limit then with_auto_consolidation_extra_limit limit b0 else b0);
               has_orchard_output = list_ex (\<lambda>out. is_orchard_addr (o_addr out)) (ptx_outputs (rq_pending rq))
           in bind_res (add_request_outputs lib (ptx_outputs (rq_pending rq)) b1) (\<lambda>builder.
              bind_res (predict_orchard_spends (rq_required rq) limit 0 0 False (sort_key note_value notes)) (\<lambda>has_orchard_spends.
              let use_orchard_change = (has_orchard_output \<or> has_orchard_spends)
              in if st_target_height (rq_status rq) = 0
                 then Inl (Anyhow (Msg ''ERR_SYNC_FINALIZING: Spendability target height is not initialized yet.'' []))
                 else bind_res (ok_or (u32_try_from (max (st_target_height (rq_status rq)) 1))
                     (Anyhow (Msg ''Target height {} exceeds u32 range'' [uint (st_target_height (rq_status rq))]))) (\<lambda>height.
                   bind_res (if has_orchard_spends then Inr None
                     else if has_orchard_output
                     then bind_res (from_storage (we_orchard_anchor env (sa_ironwood_anchor_height (rq_anchors rq)))) (\<lambda>anchor_opt.
                       if anchor_opt = None
                       then Inl (Anyhow (Msg ''Sync required: Ironwood anchor is not available locally yet. Let wallet sync complete, then retry.'' []))
                       else Inr anchor_opt)
                     else Inr None) (\<lambda>orchard_anchor.
                   bind_res (resolve_change_diversifier_index adb (ws_account_id (rq_secret rq)) (km_change_key_id material)) (\<lambda>change_index.
                     Inr \<lparr>sp_builder = builder,
                       sp_inputs = \<lparr>default_sapling_key = extsk, default_ironwood_key = orchard_extsk,
                         sapling_keys_by_id = map_of (parsed_keys_by_id (sapling_key_from_bytes lib) ak_sapling_extsk (rq_account_keys rq)),
                         ironwood_keys_by_id = map_of (parsed_keys_by_id (ironwood_key_from_bytes lib) ak_orchard_extsk (rq_account_keys rq)),
                         available_notes = notes, target_height = height, provided_ironwood_anchor = orchard_anchor,
                         change_diversifier_index = change_index\<rparr>,
                       sp_network = network, sp_change_key_id = km_change_key_id material,
                       sp_use_orchard_change = use_orchard_change,
                       sp_use_sapling_internal_change = (\<not> use_orchard_change
                         \<and> sapling_internal_change_active_with_resolved_height network
                             (max (st_target_height (rq_status rq)) 1) activation)\<rparr>)))))))))"

definition u32_le_bytes :: "u32 \<Rightarrow> bytes" where
  "u32_le_bytes v = map (\<lambda>k. ucast (drop_bit (8 * k) v)) [0, 1, 2, 3]"

text \<open>The internal address the change will arrive at, to be stored before signing.\<close>

definition change_address_entry ::
    "flow_lib \<Rightarrow> sign_request \<Rightarrow> sign_plan \<Rightarrow> i64 \<Rightarrow> flow_error + address option" where
  "change_address_entry lib rq p created_at =
     (let inp = sp_inputs p;
          entry = (\<lambda>a ty index. Some \<lparr>ad_id = None, ad_key_id = Some (sp_change_key_id p), ad_account_id = ws_account_id (rq_secret rq),
            ad_diversifier_index = change_diversifier_index inp, ad_diversifier_index_88 = Some index, ad_address = a,
            ad_address_type = ty, ad_label = None, ad_created_at = created_at, ad_color_tag = ColorNone,
            ad_address_scope = Internal\<rparr>)
      in if CHANGE_DUST_THRESHOLD \<le> ptx_change (rq_pending rq) \<and> (sp_use_orchard_change p \<or> sp_use_sapling_internal_change p)
         then if sp_use_orchard_change p
           then bind_res (ok_or (default_ironwood_key inp) (Anyhow (Msg ''Ironwood spending key required for Ironwood change'' []))) (\<lambda>key.
                bind_res (from_core '''' (ironwood_change_string lib key (change_diversifier_index inp) (sp_network p))) (\<lambda>a.
                  Inr (entry a IronwoodAddr (u32_le_bytes (change_diversifier_index inp) @ replicate 7 0))))
           else bind_res (ok_or (sapling_change_entry lib (default_sapling_key inp) (change_diversifier_index inp) (sp_network p))
                  (Anyhow (Msg ''Unable to recover Sapling change address index'' []))) (\<lambda>(a, index).
                  Inr (entry a SaplingAddr index))
         else Inr None)"

text \<open>\<open>let _ = repo.upsert_address(..)\<close>: an error is dropped.\<close>

definition store_change_address :: "address option \<Rightarrow> address_db \<Rightarrow> address_db" where
  "store_change_address entry adb =
     (case entry of None \<Rightarrow> adb | Some a \<Rightarrow> (case upsert_address a adb of Inl _ \<Rightarrow> adb | Inr adb' \<Rightarrow> adb'))"

definition missing_key_ids :: "multi_inputs \<Rightarrow> note_type \<Rightarrow> i64 list" where
  "missing_key_ids inp ty =
     (let has_key = (\<lambda>k. case ty of Sapling \<Rightarrow> sapling_keys_by_id inp k \<noteq> None | Ironwood \<Rightarrow> ironwood_keys_by_id inp k \<noteq> None)
      in sort (remdups (filter (\<lambda>k. \<not> has_key k)
           (List.map_filter key_id (filter (\<lambda>n. note_type n = ty) (available_notes inp))))))"

definition outgoing_memo :: "tx_output list \<Rightarrow> str option" where
  "outgoing_memo outs = find (\<lambda>s. s \<noteq> []) (map trim (List.map_filter o_memo outs))"

definition sign_tx_internal ::
    "flow_lib \<Rightarrow> wallet_env \<Rightarrow> wallet_id \<Rightarrow> pending_tx \<Rightarrow> i64 list option \<Rightarrow> i64 list option
     \<Rightarrow> i64 \<times> u64 \<times> u64 \<times> u64 \<times> bool \<Rightarrow> flow_state \<Rightarrow> flow_state \<times> (flow_error + signed_tx)" where
  "sign_tx_internal lib env wallet pending0 key_ids0 address_ids0 stamps st =
     (case stamps of (created_at, now_take, created_at_ms, now_store, in_time) \<Rightarrow>
      case open_sign_request lib env pending0 key_ids0 address_ids0 (fs_addresses st) of
        Inl e \<Rightarrow> (st, Inl e)
      | Inr rq \<Rightarrow>
          (case take_pending_sign_context now_take (ptx_id (rq_pending rq)) wallet (rq_required rq) (rq_effective_ids rq)
                  (rq_address_ids rq) (fs_sign_cache st) of
             (None, c) \<Rightarrow> (st\<lparr>fs_sign_cache := c\<rparr>,
               Inl (Anyhow (Msg ''Pending send context expired. Rebuild transaction and retry.'' [])))
           | (Some ctx, c) \<Rightarrow>
               let st1 = st\<lparr>fs_sign_cache := c\<rparr>
               in case bind_res (plan_signing lib env rq (psc_selected_notes ctx) (fs_addresses st)) (\<lambda>p.
                      bind_res (change_address_entry lib rq p created_at) (\<lambda>entry. Inr (p, entry))) of
                    Inl e \<Rightarrow> (st1, Inl e)
                  | Inr (p, entry) \<Rightarrow>
                      let st2 = st1\<lparr>fs_addresses := store_change_address entry (fs_addresses st)\<rparr>;
                          sapling_ids = missing_key_ids (sp_inputs p) Sapling;
                          orchard_ids = missing_key_ids (sp_inputs p) Ironwood
                      in if sapling_ids \<noteq> [] \<or> orchard_ids \<noteq> []
                         then (st2, Inl (Anyhow (Msg ''Selected notes require unavailable spending keys (sapling={:?}, orchard={:?}). Re-import the missing key group(s) and retry.'' (sapling_ids @ orchard_ids))))
                         else if \<not> in_time
                         then (st2, Inl (Anyhow (Msg ''Build/sign timed out after {}s for {} inputs''
                                [uint (build_and_sign_timeout (ptx_num_inputs (rq_pending rq))), uint (ptx_num_inputs (rq_pending rq))])))
                         else case build_and_sign_multi (fl_tx lib) (sp_builder p) (sp_inputs p) of
                             Inl e \<Rightarrow> (st2, Inl (FromCore ''Build/sign failed'' e))
                           | Inr core \<Rightarrow>
                               let txid = txid_to_string lib (tx_txid core);
                                   bctx = \<lparr>bc_wallet_id = wallet, bc_account_id = ws_account_id (rq_secret rq),
                                     bc_spent_nullifiers = List.map_filter ref_nullifier (spent_notes core),
                                     bc_sent_amount = ptx_total_amount (rq_pending rq), bc_fee = ptx_fee (rq_pending rq),
                                     bc_change_amount = ptx_change (rq_pending rq),
                                     bc_expiry_height = ptx_expiry_height (rq_pending rq), bc_created_at_ms = created_at_ms\<rparr>
                               in (st2\<lparr>fs_sign_cache := clear_pending_sign_context (ptx_id (rq_pending rq)) (fs_sign_cache st2),
                                     fs_broadcast_cache := store_broadcast_context now_store txid bctx (fs_broadcast_cache st2),
                                     fs_calls := fs_calls st2 @ (case outgoing_memo (ptx_outputs (rq_pending rq)) of
                                       None \<Rightarrow> [] | Some m \<Rightarrow> [UpsertTxMemo txid (encode_memo (from_text_truncated m))])\<rparr>,
                                   Inr \<lparr>stx_txid = txid, stx_raw = tx_raw core, stx_size = tx_size core\<rparr>)))"

definition sign_tx where
  "sign_tx lib env wallet pending = sign_tx_internal lib env wallet pending None None"

definition sign_tx_for_key where
  "sign_tx_for_key lib env wallet pending key = sign_tx_internal lib env wallet pending (Some [key]) None"

definition sign_tx_filtered where
  "sign_tx_filtered lib env wallet pending key_ids address_ids = sign_tx_internal lib env wallet pending key_ids address_ids"

section \<open>Broadcasting\<close>

definition resolve_broadcast_wallet ::
    "wallet_id option \<Rightarrow> wallet_id option \<Rightarrow> wallet_id option \<Rightarrow> flow_error + wallet_id" where
  "resolve_broadcast_wallet requested origin active =
     (case (requested, origin) of
        (Some r, Some w) \<Rightarrow> if r \<noteq> w then Inl (Anyhow (Msg ''Signed transaction belongs to wallet {}, not {}'' [])) else Inr r
      | (Some r, None) \<Rightarrow> Inr r
      | (None, Some w) \<Rightarrow> Inr w
      | (None, None) \<Rightarrow> ok_or active (Anyhow (Msg ''No active wallet'' [])))"

text \<open>What is recorded once the network has accepted; the wallet's database may fail to open.\<close>

definition record_accepted_broadcast :: "u64 \<Rightarrow> u64 \<Rightarrow> flow_error + unit \<Rightarrow> signed_tx \<Rightarrow> flow_state \<Rightarrow> flow_state" where
  "record_accepted_broadcast now now_intent opened tx st =
     (case take_broadcast_context (stx_txid tx) (fs_broadcast_cache st) of
        (None, c) \<Rightarrow> st\<lparr>fs_broadcast_cache := c\<rparr>
      | (Some ctx, c) \<Rightarrow>
          let st1 = st\<lparr>fs_broadcast_cache := c\<rparr>;
              decoded = (case hex_decode (stx_txid tx) of None \<Rightarrow> [] | Some bs \<Rightarrow> bs);
              txid_bytes = (if length decoded = 32 then decoded else replicate 32 0)
          in case opened of
               Inl _ \<Rightarrow> st1
             | Inr _ \<Rightarrow> st1\<lparr>
                 fs_pending_changes := add_pending_change now (bc_wallet_id ctx) (stx_txid tx) (bc_change_amount ctx)
                   (fs_pending_changes st1),
                 fs_calls := fs_calls st1 @
                   [MarkNotesSpent (bc_account_id ctx)
                      (map (\<lambda>nf. (nf, txid_bytes)) (filter (\<lambda>nf. length nf = 32) (bc_spent_nullifiers ctx))),
                    UpsertOutgoingIntent (bc_account_id ctx) (stx_txid tx) (bc_sent_amount ctx) (bc_fee ctx)
                      (uint (now_intent div 1000)) (bc_expiry_height ctx)]\<rparr>)"

section \<open>Selecting again from a selection\<close>

lemma from_core_Inr [simp]: "from_core what r = Inr x \<longleftrightarrow> r = Inr x"
  by (cases r) (auto simp: from_core_def)

lemma from_storage_Inr [simp]: "from_storage r = Inr x \<longleftrightarrow> r = Inr x"
  by (cases r) (auto simp: from_storage_def)

text \<open>Notes in order of value, no fewer of which would do.\<close>

definition minimal_for :: "nat \<Rightarrow> selectable_note list \<Rightarrow> bool" where
  "minimal_for req ns \<longleftrightarrow> sorted (map note_value ns) \<and> req \<le> value_sum ns \<and> value_sum ns < 2 ^ 64
     \<and> (\<forall>j < length ns. value_sum (take j ns) < req)"

lemma sort_notes_sorted: "sorted (map note_value ns) \<Longrightarrow> sort_notes SmallestFirst ns = ns"
  by (simp add: sort_key_id_if_sorted)

lemma select_minimal:
  assumes "minimal_for (unat target + unat fee) ns"
  shows "\<exists>r. select_notes SmallestFirst ns target fee = Inr r \<and> sel_notes r = ns"
proof -
  obtain r where r: "select_notes SmallestFirst ns target fee = Inr r"
    using assms select_notes_complete [of target fee ns SmallestFirst] by (auto simp: minimal_for_def)
  from select_notes_Inr [OF r] sort_notes_sorted assms obtain k where k: "k \<le> length ns" "sel_notes r = take k ns"
      "unat target + unat fee \<le> value_sum (take k ns)"
    unfolding minimal_for_def by auto
  then have "k = length ns" using assms unfolding minimal_for_def by (metis le_neq_implies_less not_le)
  with r k show ?thesis by simp
qed

lemma consolidate_loop_minimal:
  "(\<And>j. j < length ns \<Longrightarrow> unat t + value_sum (take j ns) < unat req) \<Longrightarrow> unat t + value_sum ns < 2 ^ 64 \<Longrightarrow>
     \<exists>t'. consolidate_loop req limit ns sel t extra = Inr (sel @ ns, t') \<and> unat t' = unat t + value_sum ns"
proof (induction ns arbitrary: sel t)
  case (Cons n ns)
  have "t < req" using Cons.prems(1) [of 0] by (simp add: word_less_nat_alt)
  moreover obtain u where u: "checked_add t (note_value n) = Some u" "unat u = unat t + unat (note_value n)"
    using Cons.prems(2) by (auto simp: checked_add_def unat_word_ariths)
  moreover have "unat u + value_sum (take j ns) < unat req" if "j < length ns" for j
    using Cons.prems(1) [of "Suc j"] that u(2) by simp
  then obtain t' where "consolidate_loop req limit ns (sel @ [n]) u extra = Inr ((sel @ [n]) @ ns, t')"
      "unat t' = unat u + value_sum ns"
    using Cons.IH [of u "sel @ [n]"] Cons.prems(2) u(2) by auto
  ultimately show ?case by simp
qed simp

lemma consolidation_minimal:
  assumes "minimal_for (unat target + unat fee) ns"
  shows "\<exists>r. select_notes_with_consolidation SmallestFirst limit ns target fee = Inr r \<and> sel_notes r = ns"
proof -
  obtain req where req: "checked_add target fee = Some req" "unat req = unat target + unat fee"
    using assms by (auto simp: minimal_for_def checked_add_def unat_word_ariths)
  obtain t where t: "consolidate_loop req limit ns [] 0 0 = Inr (ns, t)" "unat t = value_sum ns"
    using consolidate_loop_minimal [of ns 0 req limit "[]" 0] assms req(2) by (auto simp: minimal_for_def)
  have "\<not> t < req" using assms req(2) t(2) by (simp add: minimal_for_def word_less_nat_alt)
  moreover have "sort_notes SmallestFirst ns = ns" using assms by (simp only: minimal_for_def sort_notes_sorted)
  ultimately show ?thesis
    using req t(1) by (simp only: select_notes_with_consolidation_def) (simp add: finish_selection_def)
qed

text \<open>A selection without extra notes is minimal, also for the amount with dust folded in.\<close>

lemma selection_minimal:
  assumes sel: "select_notes SmallestFirst ns target fee = Inr r" and dust: "apply_dust_policy_add_to_fee fee (sel_change r) = Inr eff"
  shows "minimal_for (unat target + unat (eff_fee eff)) (sel_notes r)"
    and "unat (total_value r) = value_sum (sel_notes r)"
    and "unat (total_value r) = unat target + unat (eff_fee eff) + unat (eff_change eff)"
proof -
  from select_notes_Inr [OF sel] obtain k where k: "k \<le> length ns" "sel_notes r = take k (sort_key note_value ns)"
      "unat (total_value r) = value_sum (sel_notes r)"
      "unat (total_value r) = unat target + unat fee + unat (sel_change r)"
      "\<And>j. j < k \<Longrightarrow> value_sum (take j (sort_key note_value ns)) < unat target + unat fee" by auto
  show total: "unat (total_value r) = value_sum (sel_notes r)" by (rule k(3))
  show balance: "unat (total_value r) = unat target + unat (eff_fee eff) + unat (eff_change eff)"
    using k(4) dust_policy_conserves [OF dust] by linarith
  have "unat fee \<le> unat (eff_fee eff)" using dust by (cases rule: dust_policy_Inr_cases) auto
  then have "value_sum (take j (sel_notes r)) < unat target + unat (eff_fee eff)" if "j < length (sel_notes r)" for j
    using k(5) [of j] that k(1,2) by (simp add: min_def split: if_splits)
  moreover have "sorted (map note_value (sel_notes r))"
    unfolding k(2) take_map [symmetric] by (intro sorted_wrt_take) (rule sorted_sort_key)
  ultimately show "minimal_for (unat target + unat (eff_fee eff)) (sel_notes r)"
    using total balance unat_u64_bound [of "total_value r"] by (simp add: minimal_for_def)
qed

lemma value_sum_values:
  assumes "map note_value ns = map note_value ns'"
  shows "value_sum ns = value_sum ns'"
proof -
  have "value_sum xs = sum_list (map unat (map note_value xs))" for xs by (simp add: value_sum_def comp_def)
  then show ?thesis by (simp only: assms)
qed

lemma minimal_for_values: "map note_value ns = map note_value ns' \<Longrightarrow> minimal_for req ns = minimal_for req ns'"
proof -
  assume eq: "map note_value ns = map note_value ns'"
  have "value_sum (take j ns) = value_sum (take j ns')" for j
    by (intro value_sum_values) (simp only: eq flip: take_map)
  from this this [of "length ns"] show ?thesis
    using eq map_eq_imp_length_eq [OF eq] by (simp add: minimal_for_def)
qed

lemma dust_policy_idem:
  assumes "apply_dust_policy_add_to_fee fee change = Inr eff"
  shows "apply_dust_policy_add_to_fee (eff_fee eff) (eff_change eff) =
    Inr \<lparr>eff_fee = eff_fee eff, eff_change = eff_change eff, dust_added_to_fee = 0\<rparr>"
  using dust_policy_no_dust [OF assms] by (auto simp: apply_dust_policy_add_to_fee_def)

section \<open>What the builder is given\<close>

lemma plan_transaction_amounts:
  assumes "plan_transaction lib b inp = Inr p"
  shows "\<exists>sel eff. plan_amounts
      (if 0 < auto_consolidation_extra_limit b
       then select_notes_with_consolidation SmallestFirst (auto_consolidation_extra_limit b) (available_notes inp)
       else select_notes SmallestFirst (available_notes inp)) (fee_override b) (map out_amount (sb_outputs b))
      (list_ex (\<lambda>o'. out_memo o' \<noteq> None) (sb_outputs b)) = Inr (sel, eff) \<and>
    plan_fee p = eff_fee eff \<and> plan_notes p = sel_notes sel"
  using assms unfolding plan_transaction_def Let_def
  by (auto simp: bind_res_Inr_iff check_amount_def split: if_splits prod.splits)

text \<open>Offered a minimal set of notes for its fee, the builder spends all of them and pays that fee.\<close>

lemma plan_spends_all:
  assumes plan: "plan_transaction lib b inp = Inr p" and over: "fee_override b = Some fee"
    and min: "minimal_for (unat amt + unat fee) (available_notes inp)"
    and amounts: "sum_u64 (map out_amount (sb_outputs b)) = amt"
    and change: "value_sum (available_notes inp) = unat amt + unat fee + unat change"
      "change = 0 \<or> CHANGE_DUST_THRESHOLD \<le> change"
  shows "plan_notes p = available_notes inp \<and> plan_fee p = fee"
proof -
  let ?select = "if 0 < auto_consolidation_extra_limit b
    then select_notes_with_consolidation SmallestFirst (auto_consolidation_extra_limit b) (available_notes inp)
    else select_notes SmallestFirst (available_notes inp)"
  from plan_transaction_amounts [OF plan] obtain sel eff where d:
      "?select amt fee = Inr sel" "change_and_fee (total_value sel) amt fee = Inr eff"
      "plan_fee p = eff_fee eff" "plan_notes p = sel_notes sel"
    using over amounts by (auto simp: plan_amounts_def estimated_fee_def actual_fee_def bind_res_Inr_iff)
  have nts: "sel_notes sel = available_notes inp"
    using d(1) select_minimal [OF min] consolidation_minimal [OF min, of "auto_consolidation_extra_limit b"]
    by (auto split: if_splits)
  have "unat (total_value sel) = value_sum (sel_notes sel)"
    using d(1) plain_sel.select_total cons_sel.select_total by (cases "0 < auto_consolidation_extra_limit b") auto
  with nts change(1) have tv: "unat (total_value sel) = unat amt + unat fee + unat change" by simp
  then obtain tot where "checked_add amt fee = Some tot" "checked_sub (total_value sel) tot = Some change"
    using unat_u64_bound [of "total_value sel"] by (auto simp: checked_add_def checked_sub_Some_iff unat_word_ariths)
  with d(2) have "apply_dust_policy_add_to_fee fee change = Inr eff" by (simp add: change_and_fee_def)
  with change(2) have "eff_fee eff = fee" by (auto simp: apply_dust_policy_add_to_fee_def)
  with d nts show ?thesis by simp
qed

lemma multi_key_adjust_notes:
  assumes "multi_key_adjust rq ns = (material, ns', forced)"
  shows "map note_value ns' = map note_value ns \<and> map spent_ref ns' = map spent_ref ns"
  using assms by (auto simp: multi_key_adjust_def Let_def spent_ref_def split: if_splits)

lemma add_request_outputs_Inr:
  "add_request_outputs lib outs b = Inr b' \<Longrightarrow> fee_override b' = fee_override b \<and>
     map out_amount (sb_outputs b') = map out_amount (sb_outputs b) @ map o_amount outs"
proof (induction outs arbitrary: b)
  case (Cons out outs)
  from Cons.prems obtain b1 where b1: "add_request_outputs lib outs b1 = Inr b'"
      "fee_override b1 = fee_override b" "map out_amount (sb_outputs b1) = map out_amount (sb_outputs b) @ [o_amount out]"
    by (auto simp: bind_res_Inr_iff add_ironwood_output_def add_sapling_output_def split: if_splits)
  with Cons.IH [OF b1(1)] show ?case by simp
qed simp

lemma add_request_outputs_limit:
  "add_request_outputs lib outs b = Inr b' \<Longrightarrow> auto_consolidation_extra_limit b' = auto_consolidation_extra_limit b"
proof (induction outs arbitrary: b)
  case (Cons out outs)
  then show ?case
    by (force simp: bind_res_Inr_iff add_ironwood_output_def add_sapling_output_def split: if_splits)
qed simp

lemma plan_signing_Inr:
  assumes "plan_signing lib env rq ns adb = Inr p"
  shows "map note_value (available_notes (sp_inputs p)) = map note_value ns \<and>
    map spent_ref (available_notes (sp_inputs p)) = map spent_ref ns \<and>
    fee_override (sp_builder p) = Some (ptx_fee (rq_pending rq)) \<and>
    map out_amount (sb_outputs (sp_builder p)) = map o_amount (ptx_outputs (rq_pending rq))"
proof -
  obtain material ns' forced where adj: "multi_key_adjust rq ns = (material, ns', forced)" by (cases "multi_key_adjust rq ns")
  from assms adj obtain b where
      "add_request_outputs lib (ptx_outputs (rq_pending rq)) b = Inr (sp_builder p)"
      "fee_override b = Some (ptx_fee (rq_pending rq))" "sb_outputs b = []"
      "available_notes (sp_inputs p) = ns'"
    unfolding plan_signing_def Let_def
    by (auto simp: bind_res_Inr_iff with_fee_per_action_def with_auto_consolidation_extra_limit_def
        with_network_and_ironwood_activation_height_def split: if_splits)
  with add_request_outputs_Inr multi_key_adjust_notes [OF adj] show ?thesis by fastforce
qed

section \<open>What building shows and stores\<close>

lemma check_outputs_Inr:
  "check_outputs lib i m tot outs = Inr (m', tot') \<Longrightarrow> unat tot' = unat tot + sum_list (map (unat \<circ> o_amount) outs)"
proof (induction outs arbitrary: i m tot)
  case (Cons out outs)
  from Cons.prems obtain t where "checked_add tot (o_amount out) = Some t"
      "check_outputs lib (i + 1) (m \<or> o_memo out \<noteq> None) t outs = Inr (m', tot')"
    by (auto simp: bind_res_Inr_iff)
  with Cons.IH show ?case by (auto simp: checked_add_Some_iff)
qed simp

lemma check_outputs_sum:
  assumes "check_outputs lib i m 0 outs = Inr (m', amt)"
  shows "sum_u64 (map o_amount outs) = amt"
proof (rule unat_eqI)
  have "unat amt = sum_list (map unat (map o_amount outs))" using check_outputs_Inr [OF assms] by (simp add: comp_def)
  then show "unat (sum_u64 (map o_amount outs)) = unat amt"
    using unat_sum_u64 [of "map o_amount outs"] unat_u64_bound [of amt] by simp
qed

lemma select_for_send_Inr:
  "select_for_send extra ns amt fee req = Inr (sel, eff) \<longleftrightarrow> req \<le> sum_u64 (map note_value ns) \<and>
     (if 0 < extra then select_notes_with_consolidation SmallestFirst extra ns amt fee else select_notes SmallestFirst ns amt fee) = Inr sel \<and>
     apply_dust_policy_add_to_fee fee (sel_change sel) = Inr eff"
  by (auto simp: select_for_send_def Let_def bind_res_Inr_iff not_less)

text \<open>A pending transaction, the context stored with it, and the selection both come from.\<close>

definition built_from ::
    "nat \<Rightarrow> pending_tx \<Rightarrow> pending_sign_context \<Rightarrow> selectable_note list \<Rightarrow> u64 \<Rightarrow> selection_result \<Rightarrow> effective_fee_and_change \<Rightarrow> bool" where
  "built_from extra pending ctx ns fee sel eff \<longleftrightarrow>
     (\<exists>req. select_for_send extra ns (ptx_total_amount pending) fee req = Inr (sel, eff)) \<and>
     sum_u64 (map o_amount (ptx_outputs pending)) = ptx_total_amount pending \<and>
     ptx_fee pending = eff_fee eff \<and> ptx_change pending = eff_change eff \<and> ptx_input_total pending = total_value sel \<and>
     ptx_num_inputs pending = of_nat (length (sel_notes sel)) \<and> psc_selected_notes ctx = sel_notes sel"

lemma build_tx_internal_Inr:
  assumes "build_tx_internal lib env wallet outs fee_opt kf af (pid, created, created_ms, now) st = Inr (pending, st')"
  shows "\<exists>ctx ns fee sel eff.
    built_from (build_extra_limit env (normalize_filter_ids kf) (normalize_filter_ids af) ns) pending ctx ns fee sel eff \<and>
    ptx_id pending = pid \<and> fs_sign_cache st' = store_pending_sign_context now pid ctx (fs_sign_cache st)"
proof -
  let ?kf = "normalize_filter_ids kf" and ?af = "normalize_filter_ids af"
  from assms obtain amt fee req ids ns sel eff total' expiry where d:
      "request_amounts lib outs fee_opt = Inr (amt, fee, req)"
      "select_for_send (build_extra_limit env ?kf ?af ns) ns amt fee req = Inr (sel, eff)"
      "pending = \<lparr>ptx_id = pid, ptx_outputs = outs, ptx_total_amount = amt, ptx_fee = eff_fee eff, ptx_change = eff_change eff,
         ptx_input_total = total_value sel, ptx_num_inputs = of_nat (length (sel_notes sel)),
         ptx_expiry_height = expiry, ptx_created_at = created\<rparr>"
      "st' = st\<lparr>fs_sign_cache := store_pending_sign_context now pid
         \<lparr>psc_wallet_id = wallet, psc_required_total = total', psc_created_at_ms = created_ms,
          psc_key_ids_filter = normalize_pending_sign_filter_ids ids,
          psc_address_ids_filter = normalize_pending_sign_filter_ids ?af, psc_selected_notes = sel_notes sel\<rparr> (fs_sign_cache st)\<rparr>"
    by (auto simp: build_tx_internal_def Let_def bind_res_Inr_iff split: prod.splits)
  from d(1) obtain m where "check_outputs lib 0 False 0 outs = Inr (m, amt)"
    by (auto simp: request_amounts_def Let_def bind_res_Inr_iff split: if_splits prod.splits)
  from check_outputs_sum [OF this] d show ?thesis
    by (intro exI [of _ "\<lparr>psc_wallet_id = wallet, psc_required_total = total', psc_created_at_ms = created_ms,
        psc_key_ids_filter = normalize_pending_sign_filter_ids ids,
        psc_address_ids_filter = normalize_pending_sign_filter_ids ?af, psc_selected_notes = sel_notes sel\<rparr>"]
        exI [of _ ns] exI [of _ fee] exI [of _ sel] exI [of _ eff])
      (auto simp: built_from_def)
qed

section \<open>What signing hands to the builder\<close>

lemma open_sign_request_Inr:
  assumes "open_sign_request lib env pending kf af adb = Inr rq"
    and "apply_dust_policy_add_to_fee (ptx_fee pending) (ptx_change pending) =
      Inr \<lparr>eff_fee = ptx_fee pending, eff_change = ptx_change pending, dust_added_to_fee = 0\<rparr>"
  shows "rq_pending rq = pending"
  using assms by (auto simp: open_sign_request_def Let_def bind_res_Inr_iff split: prod.splits)

text \<open>A signature that came out, and the plan behind it.\<close>

lemma sign_tx_internal_Inr:
  assumes "sign_tx_internal lib env wallet pending kf af (created, now_take, created_ms, now_store, in_time) st = (st', Inr tx)"
  shows "\<exists>rq ctx p core c. open_sign_request lib env pending kf af (fs_addresses st) = Inr rq \<and>
    take_pending_sign_context now_take (ptx_id (rq_pending rq)) wallet (rq_required rq) (rq_effective_ids rq) (rq_address_ids rq)
      (fs_sign_cache st) = (Some ctx, c) \<and>
    plan_signing lib env rq (psc_selected_notes ctx) (fs_addresses st) = Inr p \<and>
    build_and_sign_multi (fl_tx lib) (sp_builder p) (sp_inputs p) = Inr core \<and>
    stx_raw tx = tx_raw core \<and> stx_txid tx = txid_to_string lib (tx_txid core)"
proof -
  from assms obtain rq where rq: "open_sign_request lib env pending kf af (fs_addresses st) = Inr rq"
    by (auto simp: sign_tx_internal_def split: sum.splits)
  obtain r c where t: "take_pending_sign_context now_take (ptx_id (rq_pending rq)) wallet (rq_required rq) (rq_effective_ids rq)
      (rq_address_ids rq) (fs_sign_cache st) = (r, c)" by force
  with assms rq obtain ctx where ctx: "r = Some ctx" by (auto simp: sign_tx_internal_def split: option.splits)
  from assms rq t ctx obtain p entry where p: "plan_signing lib env rq (psc_selected_notes ctx) (fs_addresses st) = Inr p"
      "change_address_entry lib rq p created = Inr entry"
    by (auto simp: sign_tx_internal_def Let_def bind_res_Inr_iff split: sum.splits)
  from assms rq t ctx p obtain core where "build_and_sign_multi (fl_tx lib) (sp_builder p) (sp_inputs p) = Inr core"
      "stx_raw tx = tx_raw core" "stx_txid tx = txid_to_string lib (tx_txid core)"
    by (auto simp: sign_tx_internal_def Let_def split: sum.splits if_splits)
  with rq t ctx p show ?thesis by blast
qed

lemma stored_context_found:
  assumes "distinct (map fst c)" "(k, ctx') \<in> set (store_pending_sign_context now k ctx c)"
  shows "ctx' = ctx"
proof -
  let ?r = "cache_retain psc_created_at_ms PENDING_SIGN_CONTEXT_TTL_MS now c"
  have d: "distinct (map fst ?r)" using assms(1) by (rule cache_retain_distinct)
  have "set (store_pending_sign_context now k ctx c) \<subseteq> set (AList.update k ctx ?r)"
    using cache_evict_correct [OF distinct_update [OF d]]
    by (auto simp: store_pending_sign_context_def cache_store_def)
  with assms(2) update_other [OF d] show ?thesis by blast
qed

section \<open>Properties\<close>



text \<open>
  A send from start to end: a wallet with one Sapling note of 110000, paying 100000.
\<close>

definition flow_note :: selectable_note where
  "flow_note = with_sapling_position 0 (with_witness undefined undefined undefined (new_note 110000 [] 40 [7] 0))"

definition flow_lib_example :: flow_lib where
  "flow_lib_example = \<lparr>fl_tx = example_lib, decode_sapling_address = (\<lambda>_. Some undefined), decode_ironwood_address = (\<lambda>_. None),
     sapling_key_from_bytes = (\<lambda>_. Some undefined), ironwood_key_from_bytes = (\<lambda>_. None),
     sapling_change_entry = (\<lambda>_ _ _. None), ironwood_change_string = (\<lambda>_ _ _. Inr []), txid_to_string = hex_encode\<rparr>"

definition flow_env :: wallet_env where
  "flow_env = \<lparr>we_open = Inr (), we_secret = Inr (Some \<lparr>ws_account_id = 2, ws_extsk = [], ws_orchard_extsk = None\<rparr>),
     we_spend_db = example_db, we_sync_db = \<lparr>sync_state = None, chain_blocks = []\<rparr>,
     we_keys = \<lparr>ks_crypto = \<lparr>reveal_spending_blob = (\<lambda>b. Inr (Some b)), decrypt_blob = Inr\<rparr>, ks_rows = []\<rparr>,
     we_notes = \<lparr>unspent_selectable_notes = (\<lambda>_ _ _. Inr [flow_note]), unscanned_ranges = (\<lambda>_. []),
       construct_anchor_witnesses = (\<lambda>_ notes. Inr notes)\<rparr>,
     we_auto_consolidation = False, we_network = Inr None, we_signing_protection = Inr False, we_session_unlocked = False,
     we_primary_key = Inr 1, we_orchard_anchor = (\<lambda>_. Inr None)\<rparr>"

definition flow_outputs :: "tx_output list" where
  "flow_outputs = [\<lparr>o_addr = lit ''zs1'', o_amount = 100000, o_memo = None\<rparr>]"

definition flow_start :: flow_state where
  "flow_start = \<lparr>fs_sign_cache = [], fs_broadcast_cache = [], fs_pending_changes = Map.empty,
     fs_addresses = \<lparr>address_rows = [], preference_rows = []\<rparr>, fs_calls = []\<rparr>"

lemmas flow_note_defs = flow_note_def with_sapling_position_def with_witness_def new_note_def

definition flow_status :: spendability_status where
  "flow_status = \<lparr>st_spendable = True, st_rescan_required = False, st_target_height = 91, st_anchor_height = 90,
     st_validated_anchor_height = 90, st_repair_queued = False, st_reason_code = ''OK''\<rparr>"

lemma flow_gate: "gate flow_env = Inr flow_status"
proof -
  have "load_state example_db = load_row (validated_row 90)" by (simp add: load_state_def example_db_def)
  moreover have "next_found_note_range (queue_table example_db) = Inr None"
    by (simp add: next_found_note_range_def found_note_work_def example_db_def)
  ultimately show ?thesis
    by (simp add: gate_def flow_env_def flow_status_def require_spendability_ready_def load_spendability_status_internal_def load_row_def
        validated_row_def initial_row_def row_u64_def u64_try_from_def Let_def word_le_nat_alt)
qed

lemma flow_anchors: "compute_spend_selection_anchors example_db 2 = Inr \<lparr>sa_target_height = 101, sa_conservative_anchor_height = 97,
   sa_sapling_anchor_height = 98, sa_ironwood_anchor_height = 97\<rparr>"
proof -
  have ext: "scan_queue_extrema example_db = Inr (Some (10, 100))"
    by (simp add: scan_queue_extrema_def example_db_def min_start_def max_end_def SCAN_PRIORITY_HISTORIC_def u64_try_from_def
        saturating_sub_def word_le_nat_alt word_less_nat_alt max_def)
  have birthday: "birthday_height_for_account 2 example_db = Inr 30"
    by (simp add: birthday_height_for_account_def example_db_def u64_try_from_def)
  have snap: "snap_to_checkpoint_for_table (sapling_checkpoints example_db) 100 30 = Some 98"
      "snap_to_checkpoint_for_table (orchard_checkpoints example_db) 100 30 = Some 97"
    by (simp_all add: snap_to_checkpoint_for_table_def u32_try_from_def example_db_def u64_from_u32_def)
  have num: "saturating_add 100 1 = (101 :: u64)" "saturating_sub 101 (u64_from_u32 1) = (100 :: u64)"
      "max (10 :: u64) 1 = 10" "max (30 :: u64) 1 = 30" "max (10 :: u64) 30 = 30" "max (100 :: u64) 30 = 100"
      "min (98 :: u64) 97 = 97" "max (98 :: u64) 1 = 98" "max (97 :: u64) 1 = 97" "\<not> (101 :: u64) < 100" "max 1 1 = (1 :: u32)"
    by (simp_all add: saturating_add_def saturating_sub_def u64_from_u32_def word_le_nat_alt word_less_nat_alt max_def min_def)
  show ?thesis
    by (simp add: compute_spend_selection_anchors_def get_target_and_anchor_heights_by_pool_for_account_def
        SPENDABILITY_MIN_CONFIRMATIONS_def from_storage_def ext birthday snap num Let_def)
qed

lemma flow_query: "h \<in> {97, 98} \<Longrightarrow> get_unspent_selectable_notes_at_anchor_filtered (we_notes flow_env) example_db 2 h kf af = Inr [flow_note]"
  by (auto simp: get_unspent_selectable_notes_at_anchor_filtered_def get_wallet_birthday_height_def example_db_def
      flow_env_def flow_note_defs u64_try_from_def i64_try_from_def notes_within_def note_position_def note_shard_def
      shard_index_from_position_def load_blocked_shard_ranges_def word_le_nat_alt)

lemma flow_request: "request_amounts flow_lib_example flow_outputs None = Inr (100000, 10000, 110000)"
  by (simp add: request_amounts_def flow_outputs_def MAX_OUTPUTS_PER_TX_def validate_output_def is_orchard_addr_def
     is_sapling_addr_def starts_with_def lit_def flow_lib_example_def checked_add_def calculate_fee_default fee_consts validate_fee_def from_core_def)


lemma flow_load: "load_selectable_notes_for_send (we_notes flow_env) (we_spend_db flow_env) 2
    \<lparr>sa_target_height = 101, sa_conservative_anchor_height = 97, sa_sapling_anchor_height = 98, sa_ironwood_anchor_height = 97\<rparr>
    None None = Inr [flow_note]"
proof -
  have "we_spend_db flow_env = example_db" by (simp add: flow_env_def)
  then show ?thesis
    by (simp add: load_selectable_notes_for_send_def flow_query from_storage_def) (simp add: flow_note_defs)
qed

lemma flow_select: "select_notes SmallestFirst [flow_note] 100000 10000 =
    Inr \<lparr>sel_notes = [flow_note], total_value = 110000, sel_change = 0\<rparr>"
  by (simp add: select_notes_def checked_add_def finish_selection_def flow_note_defs word_le_nat_alt)

definition flow_context :: pending_sign_context where
  "flow_context = \<lparr>psc_wallet_id = [], psc_required_total = 110000, psc_created_at_ms = 5, psc_key_ids_filter = None,
     psc_address_ids_filter = None, psc_selected_notes = [flow_note]\<rparr>"

definition flow_pending :: pending_tx where
  "flow_pending = \<lparr>ptx_id = [2], ptx_outputs = flow_outputs, ptx_total_amount = 100000, ptx_fee = 10000, ptx_change = 0,
     ptx_input_total = 110000, ptx_num_inputs = 1, ptx_expiry_height = 40, ptx_created_at = 0\<rparr>"

lemma flow_keys: "resolve_spend_key_id ks adb a None None = Inr None"
  by (simp add: resolve_spend_key_id_def resolve_by_keys_def resolve_by_addresses_def)

lemma flow_auto: "choose_auto_spend_key_id_for_amount [] [flow_note] req = None"
  by (simp add: choose_auto_spend_key_id_for_amount_def spendable_totals_def add_spendable_def flow_note_defs)

lemma flow_account_keys: "get_account_keys (ks_crypto (we_keys flow_env)) (ks_rows (we_keys flow_env)) a = Inr []"
  by (simp add: get_account_keys_def flow_env_def)

lemma flow_secret: "load_secret flow_env = Inr \<lparr>ws_account_id = 2, ws_extsk = [], ws_orchard_extsk = None\<rparr>"
  by (simp add: load_secret_def flow_env_def from_storage_def)

lemma flow_stored: "store_pending_sign_context 5 [2] flow_context [] = [([2], flow_context)]"
  by (simp add: store_pending_sign_context_def cache_store_def cache_retain_def cache_evict.simps PENDING_SIGN_CONTEXT_MAX_ENTRIES_def)

lemma flow_built: "build_tx_internal flow_lib_example flow_env [] flow_outputs None None None ([2], 0, 5, 5) flow_start =
    Inr (flow_pending, flow_start\<lparr>fs_sign_cache := [([2], flow_context)]\<rparr>)"
proof -
  have env: "we_spend_db flow_env = example_db" "we_sync_db flow_env = \<lparr>sync_state = None, chain_blocks = []\<rparr>" "\<not> we_auto_consolidation flow_env"
    by (simp_all add: flow_env_def)
  have cand: "spend_candidates flow_env 2 \<lparr>sa_target_height = 101, sa_conservative_anchor_height = 97, sa_sapling_anchor_height = 98, sa_ironwood_anchor_height = 97\<rparr>
     None 110000 None None = Inr (None, [flow_note])"
    using flow_load env by (simp add: spend_candidates_def flow_account_keys flow_auto from_storage_def)
  have sel: "select_for_send 0 [flow_note] 100000 10000 110000 = Inr (\<lparr>sel_notes = [flow_note], total_value = 110000, sel_change = 0\<rparr>,
     \<lparr>eff_fee = 10000, eff_change = 0, dust_added_to_fee = 0\<rparr>)"
    by (simp add: select_for_send_Inr flow_select sum_u64_def apply_dust_policy_add_to_fee_def) (simp add: flow_note_defs)
  have sync: "load_sync_state_once \<lparr>sync_state = None, chain_blocks = []\<rparr> = Inr default_sync_state" by (simp add: load_sync_state_once_def)
  have sum: "checked_add 100000 (10000 :: u64) = Some 110000" by (simp add: checked_add_def)
  show ?thesis
    using flow_stored [unfolded flow_context_def]
    by (simp add: build_tx_internal_def flow_request flow_secret flow_gate flow_anchors env flow_keys cand sel build_extra_limit_def
       normalize_filter_ids_def sum sync from_storage_def default_sync_state_def Let_def normalize_pending_sign_filter_ids_def flow_start_def flow_pending_def
       flow_context_def TRANSACTION_EXPIRY_BLOCKS_def saturating_add_def)
qed


definition flow_request_rq :: sign_request where
  "flow_request_rq = \<lparr>rq_pending = flow_pending, rq_secret = \<lparr>ws_account_id = 2, ws_extsk = [], ws_orchard_extsk = None\<rparr>,
     rq_key_ids = None, rq_address_ids = None, rq_required = 110000, rq_status = flow_status,
     rq_anchors = \<lparr>sa_target_height = 101, sa_conservative_anchor_height = 97, sa_sapling_anchor_height = 98, sa_ironwood_anchor_height = 97\<rparr>,
     rq_signing_key = None, rq_effective_ids = None,
     rq_material = \<lparr>km_sapling_extsk = [], km_orchard_extsk = None, km_change_key_id = 1\<rparr>, rq_account_keys = []\<rparr>"

lemma flow_opened: "open_sign_request flow_lib_example flow_env flow_pending None None adb = Inr flow_request_rq"
proof -
  have env: "we_spend_db flow_env = example_db" "we_primary_key flow_env = Inr 1"
      "require_wallet_signing_session flow_env = Inr ()" "sapling_prover (fl_tx flow_lib_example) = Inr ()"
    by (simp_all add: flow_env_def require_wallet_signing_session_def from_storage_def flow_lib_example_def example_lib_def)
  have sum: "checked_add 100000 (10000 :: u64) = Some 110000" by (simp add: checked_add_def)
  have dust: "apply_dust_policy_add_to_fee 10000 0 = Inr \<lparr>eff_fee = 10000, eff_change = 0, dust_added_to_fee = 0\<rparr>"
    by (simp add: apply_dust_policy_add_to_fee_def)
  show ?thesis
    using flow_load env
    by (simp add: open_sign_request_def flow_secret flow_gate flow_anchors flow_keys signing_key_def sum from_core_def from_storage_def dust
       auto_select_spend_key_id_for_amount_def flow_account_keys flow_auto signing_material_def normalize_filter_ids_def Let_def
       flow_request_rq_def flow_pending_def)
qed

definition flow_plan :: sign_plan where
  "flow_plan = \<lparr>sp_builder = \<lparr>sb_outputs = [SaplingOut undefined 100000 None], fee_override = Some 10000,
       sb_network = with_ironwood_activation_height Mainnet None, auto_consolidation_extra_limit = 0\<rparr>,
     sp_inputs = \<lparr>default_sapling_key = undefined, default_ironwood_key = None, sapling_keys_by_id = Map.empty,
       ironwood_keys_by_id = Map.empty, available_notes = [flow_note], target_height = 91, provided_ironwood_anchor = None,
       change_diversifier_index = 0\<rparr>,
     sp_network = Mainnet, sp_change_key_id = 1, sp_use_orchard_change = False, sp_use_sapling_internal_change = False\<rparr>"

text \<open>The plan for any notes that need no consolidation, signed by a key group or by the wallet.\<close>

lemma flow_plan_with:
  assumes rq: "rq = flow_request_rq\<lparr>rq_signing_key := sk, rq_effective_ids := ids\<rparr>"
    and adj: "multi_key_adjust rq ns = (rq_material flow_request_rq, ns, 0)" and limit: "sign_extra_limit flow_env rq ns 0 = 0"
    and pred: "predict_orchard_spends 110000 0 0 0 False (sort_key note_value ns) = Inr False"
    and pool: "\<not> list_ex (\<lambda>n. note_type n = Ironwood) ns"
  shows "plan_signing flow_lib_example flow_env rq ns \<lparr>address_rows = [], preference_rows = []\<rparr> =
    Inr (flow_plan\<lparr>sp_inputs := sp_inputs flow_plan\<lparr>available_notes := ns\<rparr>\<rparr>)"
proof -
  have act: "sapling_internal_change_active_with_resolved_height Mainnet 91 None = False"
    by (simp add: sapling_internal_change_active_with_resolved_height_def u32_try_from_def is_ironwood_active_with_resolved_height_def network_defs)
  have net: "network.ironwood_activation_height (from_type Mainnet) = None" by (simp add: network_defs)
  have sync: "load_sync_state_once (we_sync_db flow_env) = Inr default_sync_state" by (simp add: load_sync_state_once_def flow_env_def)
  have pending: "rq_pending rq = flow_pending" "rq_required rq = 110000" "rq_status rq = flow_status" "st_target_height flow_status = 91"
      "ws_account_id (rq_secret rq) = 2" "rq_account_keys rq = []" "ptx_fee flow_pending = 10000"
      "km_change_key_id (rq_material flow_request_rq) = 1" "km_orchard_extsk (rq_material flow_request_rq) = None"
    by (simp_all add: rq flow_request_rq_def flow_status_def flow_pending_def)
  have outs: "add_request_outputs flow_lib_example (ptx_outputs flow_pending) b =
      Inr (b\<lparr>sb_outputs := sb_outputs b @ [SaplingOut undefined 100000 None]\<rparr>)" for b
    by (simp add: flow_pending_def flow_outputs_def is_orchard_addr_def starts_with_def lit_def flow_lib_example_def
        add_sapling_output_def check_output_def output_memo_of_def from_core_def)
  have orch: "list_ex (\<lambda>out. is_orchard_addr (o_addr out)) (ptx_outputs flow_pending) = False"
    by (simp add: flow_pending_def flow_outputs_def is_orchard_addr_def starts_with_def lit_def)
  have lib: "sapling_key_from_bytes flow_lib_example k = Some undefined" "we_network flow_env = Inr None" for k
    by (simp_all add: flow_lib_example_def flow_env_def)
  have h: "max (91 :: u64) 1 = 91" "u32_try_from 91 = Some 91" by (simp_all add: max_def word_le_nat_alt u32_try_from_def)
  show ?thesis
    unfolding plan_signing_def Let_def
    by (simp add: adj limit outs orch pred pool sync lib h pending from_storage_def net resolve_change_diversifier_index_def
        get_addresses_by_key_def network_of_def with_fee_per_action_def with_network_and_ironwood_activation_height_def
        default_sync_state_def coalesce_def)
      (simp add: flow_plan_def act parsed_keys_by_id_def)
qed

lemma flow_planned: "plan_signing flow_lib_example flow_env flow_request_rq [flow_note] \<lparr>address_rows = [], preference_rows = []\<rparr> = Inr flow_plan"
proof -
  have same: "flow_request_rq = flow_request_rq\<lparr>rq_signing_key := None, rq_effective_ids := None\<rparr>"
    "flow_plan = flow_plan\<lparr>sp_inputs := sp_inputs flow_plan\<lparr>available_notes := [flow_note]\<rparr>\<rparr>"
    by (simp_all add: flow_request_rq_def flow_plan_def)
  have "multi_key_adjust flow_request_rq [flow_note] = (rq_material flow_request_rq, [flow_note], 0)"
    by (simp add: multi_key_adjust_def Let_def infer_contributing_key_ids_for_amount_def flow_request_rq_def) (simp add: flow_note_defs)
  moreover have "sign_extra_limit flow_env flow_request_rq [flow_note] 0 = 0" by (simp add: sign_extra_limit_def flow_env_def)
  moreover have "predict_orchard_spends 110000 0 0 0 False (sort_key note_value [flow_note]) = Inr False"
      "\<not> list_ex (\<lambda>n. note_type n = Ironwood) [flow_note]"
    by (simp_all add: flow_note_defs checked_add_def)
  ultimately show ?thesis using flow_plan_with [OF same(1)] same(2) by metis
qed

lemma flow_plans:
  assumes "select_notes SmallestFirst ns 100000 10000 = Inr \<lparr>sel_notes = [flow_note], total_value = 110000, sel_change = 0\<rparr>"
  shows "\<exists>pl. plan_transaction example_lib (sp_builder flow_plan) (sp_inputs flow_plan\<lparr>available_notes := ns\<rparr>) = Inr pl"
proof -
  have amounts: "plan_amounts (select_notes SmallestFirst ns) (Some 10000) [100000] False =
      Inr (\<lparr>sel_notes = [flow_note], total_value = 110000, sel_change = 0\<rparr>, \<lparr>eff_fee = 10000, eff_change = 0, dust_added_to_fee = 0\<rparr>)"
    by (simp add: plan_amounts_def estimated_fee_def actual_fee_def validate_fee_def fee_consts sum_u64_def assms change_and_fee_def
       checked_add_def checked_sub_def apply_dust_policy_add_to_fee_def)
  show ?thesis
    by (simp add: plan_transaction_def flow_plan_def amounts Let_def)
      (simp add: flow_note_defs effective_sapling_anchor_def effective_ironwood_anchor_def example_lib_def add_sapling_note_def add_call_def
        output_memo_def check_amount_def add_change_def fee_consts Let_def)
qed

lemma flow_signs: "\<exists>core. build_and_sign_multi example_lib (sp_builder flow_plan) (sp_inputs flow_plan) = Inr core"
proof -
  have "sp_inputs flow_plan = sp_inputs flow_plan\<lparr>available_notes := [flow_note]\<rparr>" by (simp add: flow_plan_def)
  then obtain pl where "plan_transaction example_lib (sp_builder flow_plan) (sp_inputs flow_plan) = Inr pl"
    using flow_plans [OF flow_select] by metis
  then show ?thesis by (simp add: build_and_sign_multi_def) (simp add: example_lib_def)
qed

lemma flow_signed: "\<exists>st' tx. sign_tx_internal flow_lib_example flow_env [] flow_pending None None (0, 6, 6, 6, True)
    (flow_start\<lparr>fs_sign_cache := [([2], flow_context)]\<rparr>) = (st', Inr tx)"
proof -
  have ids: "ptx_id (rq_pending flow_request_rq) = [2]" "rq_required flow_request_rq = 110000" "rq_effective_ids flow_request_rq = None"
    "rq_address_ids flow_request_rq = None" "ptx_change (rq_pending flow_request_rq) = 0"
    by (simp_all add: flow_request_rq_def flow_pending_def)
  have take: "take_pending_sign_context 6 [2] [] 110000 None None [([2], flow_context)] = (Some flow_context, [])"
    by (simp add: take_pending_sign_context_def cache_retain_def is_fresh_def saturating_sub_def flow_context_def PENDING_SIGN_CONTEXT_TTL_MS_def
       normalize_pending_sign_filter_ids_def word_le_nat_alt)
  have entry: "change_address_entry flow_lib_example flow_request_rq flow_plan 0 = Inr None"
    by (simp add: change_address_entry_def Let_def ids fee_consts)
  have missing: "missing_key_ids (sp_inputs flow_plan) ty = []" for ty
    by (simp add: missing_key_ids_def flow_plan_def flow_note_defs List.map_filter_def)
  obtain core where core: "build_and_sign_multi (fl_tx flow_lib_example) (sp_builder flow_plan) (sp_inputs flow_plan) = Inr core"
    using flow_signs by (auto simp: flow_lib_example_def)
  have nts: "psc_selected_notes flow_context = [flow_note]" by (simp add: flow_context_def)
  show ?thesis
    by (simp add: sign_tx_internal_def flow_opened ids take entry missing core nts flow_planned flow_start_def Let_def)
qed




end
