(* ===== verification/NoteRows.thy ===== *)
theory NoteRows
  imports Truncation SpendKeys
begin

text \<open>
  The encrypted \<open>notes\<close> table of \<open>pirate-storage-sqlite\<close> (\<open>repository.rs\<close>): columns, rows,
  insertion and update, and the folding of duplicate rows before a batch of a rescan is written.

  Every column but the row id and the pool is stored encrypted, so the code reads the whole table
  and decrypts cell by cell. The cipher of the master key is the record \<open>cipher\<close>; each
  use of it may fail. Encryption draws a nonce, but nothing compares stored cells, so a function
  stands for it. \<open>cipher_ok\<close> is what the code relies on: a cell decrypts to what was
  encrypted. A row that decrypts is read as a note (\<open>note_of\<close>); a table of such rows is \<open>readable\<close>.
\<close>

section \<open>Loops that may fail\<close>

text \<open>A \<open>for\<close> loop whose body uses the question-mark operator.\<close>

fun fold_res :: "('r \<Rightarrow> 's \<Rightarrow> 'e + 's) \<Rightarrow> 'r list \<Rightarrow> 's \<Rightarrow> 'e + 's" where
  "fold_res f [] s = Inr s"
| "fold_res f (x # xs) s = bind_res (f x s) (fold_res f xs)"

lemma fold_res_total:
  assumes "\<And>x s. x \<in> set xs \<Longrightarrow> f x s = Inr (g x s)"
  shows "fold_res f xs s = Inr (fold g xs s)"
  using assms by (induction xs arbitrary: s) auto

lemma fold_res_append: "fold_res f (xs @ ys) s = bind_res (fold_res f xs s) (fold_res f ys)"
proof (induction xs arbitrary: s)
  case (Cons x xs)
  then show ?case by (cases "f x s") simp_all
qed simp

section \<open>Encrypted columns\<close>

record cipher =
  c_encrypt :: "bytes \<Rightarrow> bytes option"
  c_decrypt :: "bytes \<Rightarrow> bytes option"

definition encrypt_blob :: "cipher \<Rightarrow> bytes \<Rightarrow> storage_error + bytes" where
  "encrypt_blob cr d = ok_or (c_encrypt cr d) (Encryption (Msg ''Failed to encrypt data: {}'' []))"

definition decrypt_cell :: "cipher \<Rightarrow> bytes \<Rightarrow> storage_error + bytes" where
  "decrypt_cell cr c = ok_or (c_decrypt cr c) (Encryption (Msg ''Failed to decrypt data: {}'' []))"

definition encrypt_opt :: "(bytes \<Rightarrow> storage_error + bytes) \<Rightarrow> bytes option \<Rightarrow> storage_error + bytes option" where
  "encrypt_opt enc d = (case d of None \<Rightarrow> Inr None | Some v \<Rightarrow> bind_res (enc v) (\<lambda>c. Inr (Some c)))"

definition encrypt_optional_blob :: "cipher \<Rightarrow> bytes option \<Rightarrow> storage_error + bytes option" where
  "encrypt_optional_blob cr = encrypt_opt (encrypt_blob cr)"

definition decrypt_optional_cell :: "cipher \<Rightarrow> bytes option \<Rightarrow> storage_error + bytes option" where
  "decrypt_optional_cell cr c = (case c of None \<Rightarrow> Inr None | Some v \<Rightarrow> bind_res (decrypt_cell cr v) (\<lambda>d. Inr (Some d)))"

text \<open>\<open>i64::to_le_bytes\<close>: two's complement, least significant byte first.\<close>

definition i64_to_le_bytes :: "i64 \<Rightarrow> bytes" where
  "i64_to_le_bytes v = map (\<lambda>k. word_of_int (v div 256 ^ k)) [0..<8]"

definition encrypt_int64 :: "cipher \<Rightarrow> i64 \<Rightarrow> storage_error + bytes" where
  "encrypt_int64 cr v = encrypt_blob cr (i64_to_le_bytes v)"

definition decrypt_int64 :: "cipher \<Rightarrow> bytes \<Rightarrow> storage_error + i64" where
  "decrypt_int64 cr c =
     bind_res (decrypt_cell cr c) (\<lambda>d.
       if length d \<noteq> 8 then Inl (Encryption (Msg ''Invalid encrypted integer length'' []))
       else Inr (i64_from_le_bytes d))"

definition encrypt_optional_int64 :: "cipher \<Rightarrow> i64 option \<Rightarrow> storage_error + bytes option" where
  "encrypt_optional_int64 cr v = encrypt_opt (encrypt_blob cr) (map_option i64_to_le_bytes v)"

definition decrypt_optional_int64 :: "cipher \<Rightarrow> bytes option \<Rightarrow> storage_error + i64 option" where
  "decrypt_optional_int64 cr c = (case c of None \<Rightarrow> Inr None | Some v \<Rightarrow> bind_res (decrypt_int64 cr v) (\<lambda>d. Inr (Some d)))"

definition encrypt_bool :: "cipher \<Rightarrow> bool \<Rightarrow> storage_error + bytes" where
  "encrypt_bool cr b = encrypt_blob cr [if b then 1 else 0]"

definition decrypt_bool :: "cipher \<Rightarrow> bytes \<Rightarrow> storage_error + bool" where
  "decrypt_bool cr c =
     bind_res (decrypt_cell cr c) (\<lambda>d.
       if d = [] then Inl (Encryption (Msg ''Invalid encrypted boolean length'' [])) else Inr (hd d \<noteq> 0))"

section \<open>Notes and rows\<close>

record note_record =
  nt_id :: "i64 option"
  nt_account_id :: i64
  nt_key_id :: "i64 option"
  nt_note_type :: note_type
  nt_value :: i64
  nt_nullifier :: bytes
  nt_commitment :: bytes
  nt_spent :: bool
  nt_height :: i64
  nt_txid :: bytes
  nt_output_index :: i64
  nt_address_id :: "i64 option"
  nt_spent_txid :: "bytes option"
  nt_diversifier :: "bytes option"
  nt_note :: "bytes option"
  nt_position :: "i64 option"
  nt_memo :: "bytes option"

record note_row =
  nr_id :: i64
  nr_account_id :: bytes
  nr_note_type :: string
  nr_value :: bytes
  nr_nullifier :: bytes
  nr_commitment :: bytes
  nr_spent :: bytes
  nr_height :: bytes
  nr_txid :: bytes
  nr_output_index :: bytes
  nr_spent_txid :: "bytes option"
  nr_diversifier :: "bytes option"
  nr_note :: "bytes option"
  nr_position :: "bytes option"
  nr_memo :: "bytes option"
  nr_address_id :: "bytes option"
  nr_key_id :: "bytes option"

fun note_type_str :: "note_type \<Rightarrow> string" where
  "note_type_str Sapling = ''Sapling''"
| "note_type_str Ironwood = ''Orchard''"

definition note_type_from :: "string \<Rightarrow> note_type" where
  "note_type_from s = (if s = ''Orchard'' then Ironwood else Sapling)"

text \<open>The tables the repository's note operations read and write. Row ids are never reused.\<close>

record tx_row =
  tr_id :: i64
  tr_txid :: str
  tr_height :: i64
  tr_timestamp :: i64
  tr_fee :: i64

record memo_row =
  mr_id :: i64
  mr_tx_id :: i64
  mr_memo :: bytes

record unlinked_row =
  ur_id :: i64
  ur_account_id :: bytes
  ur_note_type :: string
  ur_nullifier :: bytes
  ur_spending_txid :: bytes

record intent_row =
  ir_txid :: str
  ir_account_id :: bytes
  ir_amount :: bytes
  ir_fee :: bytes
  ir_broadcast_at :: i64
  ir_expiry_height :: u32

record note_db =
  note_rows :: "note_row list"
  note_seq :: i64
  unlinked_rows :: "unlinked_row list"
  unlinked_seq :: i64
  tx_rows :: "tx_row list"
  memo_rows :: "memo_row list"
  intent_rows :: "intent_row list"
  sapling_note_shards :: "shard_cell list"
  orchard_note_shards :: "shard_cell list"

section \<open>Writing a note\<close>

text \<open>The encrypted columns of a note, in the order they are made; the id is given by the statement.\<close>

definition encrypted_row :: "cipher \<Rightarrow> i64 \<Rightarrow> note_record \<Rightarrow> storage_error + note_row" where
  "encrypted_row cr i n =
     bind_res (encrypt_int64 cr (nt_account_id n)) (\<lambda>account.
     bind_res (encrypt_int64 cr (nt_value n)) (\<lambda>val.
     bind_res (encrypt_blob cr (nt_nullifier n)) (\<lambda>nf.
     bind_res (encrypt_blob cr (nt_commitment n)) (\<lambda>cm.
     bind_res (encrypt_bool cr (nt_spent n)) (\<lambda>spent.
     bind_res (encrypt_int64 cr (nt_height n)) (\<lambda>height.
     bind_res (encrypt_blob cr (nt_txid n)) (\<lambda>txid.
     bind_res (encrypt_int64 cr (nt_output_index n)) (\<lambda>out.
     bind_res (encrypt_blob cr (case nt_diversifier n of None \<Rightarrow> [] | Some d \<Rightarrow> d)) (\<lambda>dv.
     bind_res (encrypt_blob cr (case nt_note n of None \<Rightarrow> [] | Some d \<Rightarrow> d)) (\<lambda>nt.
     bind_res (encrypt_optional_int64 cr (nt_position n)) (\<lambda>pos.
     bind_res (encrypt_optional_blob cr (nt_memo n)) (\<lambda>memo.
     bind_res (encrypt_optional_blob cr (nt_spent_txid n)) (\<lambda>stx.
     bind_res (encrypt_optional_int64 cr (nt_address_id n)) (\<lambda>addr.
     bind_res (encrypt_optional_int64 cr (nt_key_id n)) (\<lambda>key.
       Inr \<lparr>nr_id = i, nr_account_id = account, nr_note_type = note_type_str (nt_note_type n), nr_value = val,
         nr_nullifier = nf, nr_commitment = cm, nr_spent = spent, nr_height = height, nr_txid = txid,
         nr_output_index = out, nr_spent_txid = stx, nr_diversifier = Some dv, nr_note = Some nt,
         nr_position = pos, nr_memo = memo, nr_address_id = addr, nr_key_id = key\<rparr>)))))))))))))))"

text \<open>\<open>upsert_note_shard_metadata\<close>: the shard of the position spans the height.\<close>

definition widen_shard :: "i64 \<Rightarrow> i64 \<Rightarrow> i64 \<Rightarrow> shard_cell list \<Rightarrow> shard_cell list" where
  "widen_shard shard lo hi cells =
     (let s = shard * 2 ^ 16; e = (shard + 1) * 2 ^ 16
      in if list_ex (\<lambda>c. shard_index c = shard) cells
         then map (\<lambda>c. if shard_index c = shard
              then c\<lparr>start_position := s, end_position_exclusive := e,
                     subtree_start_height := min (subtree_start_height c) lo,
                     subtree_end_height := Some (case subtree_end_height c of None \<Rightarrow> hi | Some h \<Rightarrow> max h hi),
                     contains_marked := 1\<rparr> else c) cells
         else cells @ [\<lparr>shard_index = shard, start_position = s, end_position_exclusive = e,
                subtree_start_height = lo, subtree_end_height = Some hi, contains_marked = 1\<rparr>])"

definition upsert_note_shard_metadata :: "note_type \<Rightarrow> i64 option \<Rightarrow> i64 \<Rightarrow> note_db \<Rightarrow> note_db" where
  "upsert_note_shard_metadata ty position height db =
     (if height \<le> 0 then db
      else case Option.bind position shard_index_from_position of
        None \<Rightarrow> db
      | Some shard \<Rightarrow> (case ty of
            Sapling \<Rightarrow> db\<lparr>sapling_note_shards := widen_shard shard height height (sapling_note_shards db)\<rparr>
          | Ironwood \<Rightarrow> db\<lparr>orchard_note_shards := widen_shard shard height height (orchard_note_shards db)\<rparr>))"

definition insert_note_with_options :: "cipher \<Rightarrow> note_record \<Rightarrow> bool \<Rightarrow> note_db \<Rightarrow> storage_error + i64 \<times> note_db" where
  "insert_note_with_options cr n shard db =
     (let i = note_seq db + 1
      in bind_res (encrypted_row cr i n) (\<lambda>r.
        let db' = db\<lparr>note_rows := note_rows db @ [r], note_seq := i\<rparr>
        in Inr (i, if shard then upsert_note_shard_metadata (nt_note_type n) (nt_position n) (nt_height n) db' else db')))"

definition insert_note where
  "insert_note cr n = insert_note_with_options cr n True"

definition insert_note_without_shard_metadata where
  "insert_note_without_shard_metadata cr n = insert_note_with_options cr n False"

definition replace_row :: "note_row \<Rightarrow> note_row list \<Rightarrow> note_row list" where
  "replace_row r rows = map (\<lambda>q. if nr_id q = nr_id r then r else q) rows"

definition update_note_by_id_with_options :: "cipher \<Rightarrow> note_record \<Rightarrow> bool \<Rightarrow> note_db \<Rightarrow> storage_error + note_db" where
  "update_note_by_id_with_options cr n shard db =
     bind_res (ok_or (nt_id n) (SStorage (Msg ''Missing note id for update'' []))) (\<lambda>i.
     bind_res (encrypted_row cr i n) (\<lambda>r.
       let db' = db\<lparr>note_rows := replace_row r (note_rows db)\<rparr>
       in Inr (if shard then upsert_note_shard_metadata (nt_note_type n) (nt_position n) (nt_height n) db' else db')))"

definition update_note_by_id where
  "update_note_by_id cr n = update_note_by_id_with_options cr n True"

definition update_note_by_id_without_shard_metadata where
  "update_note_by_id_without_shard_metadata cr n = update_note_by_id_with_options cr n False"

text \<open>The batch form: one statement per pool and shard, with the extreme heights of the batch.\<close>

type_synonym shard_extent = "(note_type \<times> i64) \<times> i64 \<times> i64"

definition add_extent :: "note_type \<times> i64 option \<times> i64 \<Rightarrow> shard_extent list \<Rightarrow> shard_extent list" where
  "add_extent entry acc =
     (case entry of (ty, position, height) \<Rightarrow>
        if height \<le> 0 then acc
        else case Option.bind position shard_index_from_position of
          None \<Rightarrow> acc
        | Some shard \<Rightarrow> AList.update (ty, shard)
            (case map_of acc (ty, shard) of None \<Rightarrow> (height, height)
             | Some (lo, hi) \<Rightarrow> (min lo height, max hi height)) acc)"

definition write_extent :: "shard_extent \<Rightarrow> note_db \<Rightarrow> note_db" where
  "write_extent x db =
     (case x of ((ty, shard), lo, hi) \<Rightarrow>
        (case ty of
           Sapling \<Rightarrow> db\<lparr>sapling_note_shards := widen_shard shard lo hi (sapling_note_shards db)\<rparr>
         | Ironwood \<Rightarrow> db\<lparr>orchard_note_shards := widen_shard shard lo hi (orchard_note_shards db)\<rparr>))"

definition upsert_note_shard_metadata_batch :: "(note_type \<times> i64 option \<times> i64) list \<Rightarrow> note_db \<Rightarrow> note_db" where
  "upsert_note_shard_metadata_batch entries db = fold write_extent (fold add_extent entries []) db"

section \<open>Reading notes\<close>

type_synonym note_output = "bytes \<times> i64 \<times> note_type"

definition rest_of_note :: "cipher \<Rightarrow> note_row \<Rightarrow> i64 \<Rightarrow> bytes \<Rightarrow> i64 \<Rightarrow> storage_error + note_record" where
  "rest_of_note cr r account txid out =
     bind_res (decrypt_optional_int64 cr (nr_key_id r)) (\<lambda>key.
     bind_res (decrypt_int64 cr (nr_value r)) (\<lambda>val.
     bind_res (decrypt_cell cr (nr_nullifier r)) (\<lambda>nf.
     bind_res (decrypt_cell cr (nr_commitment r)) (\<lambda>cm.
     bind_res (decrypt_bool cr (nr_spent r)) (\<lambda>spent.
     bind_res (decrypt_int64 cr (nr_height r)) (\<lambda>height.
     bind_res (decrypt_optional_int64 cr (nr_address_id r)) (\<lambda>addr.
     bind_res (decrypt_optional_cell cr (nr_spent_txid r)) (\<lambda>stx.
     bind_res (decrypt_optional_cell cr (nr_diversifier r)) (\<lambda>dv.
     bind_res (decrypt_optional_cell cr (nr_note r)) (\<lambda>nt.
     bind_res (decrypt_optional_int64 cr (nr_position r)) (\<lambda>pos.
     bind_res (decrypt_optional_cell cr (nr_memo r)) (\<lambda>memo.
       Inr \<lparr>nt_id = Some (nr_id r), nt_account_id = account, nt_key_id = key, nt_note_type = note_type_from (nr_note_type r),
         nt_value = val, nt_nullifier = nf, nt_commitment = cm, nt_spent = spent, nt_height = height, nt_txid = txid,
         nt_output_index = out, nt_address_id = addr, nt_spent_txid = stx, nt_diversifier = dv, nt_note = nt,
         nt_position = pos, nt_memo = memo\<rparr>))))))))))))"

definition get_account_notes_matching_outputs ::
    "cipher \<Rightarrow> i64 \<Rightarrow> note_output list option \<Rightarrow> note_db \<Rightarrow> storage_error + note_record list" where
  "get_account_notes_matching_outputs cr account_id outputs db =
     fold_res (\<lambda>r notes.
       bind_res (decrypt_int64 cr (nr_account_id r)) (\<lambda>account.
       bind_res (decrypt_cell cr (nr_txid r)) (\<lambda>txid.
       bind_res (decrypt_int64 cr (nr_output_index r)) (\<lambda>out.
         if account \<noteq> account_id
            \<or> (case outputs of None \<Rightarrow> False | Some os \<Rightarrow> (txid, out, note_type_from (nr_note_type r)) \<notin> set os)
         then Inr notes
         else bind_res (rest_of_note cr r account txid out) (\<lambda>n. Inr (notes @ [n])))))) (note_rows db) []"

definition get_account_notes :: "cipher \<Rightarrow> i64 \<Rightarrow> note_db \<Rightarrow> storage_error + note_record list" where
  "get_account_notes cr account_id db = get_account_notes_matching_outputs cr account_id None db"

definition get_notes_by_txid :: "cipher \<Rightarrow> i64 \<Rightarrow> bytes \<Rightarrow> note_db \<Rightarrow> storage_error + note_record list" where
  "get_notes_by_txid cr account_id txid db =
     bind_res (get_account_notes cr account_id db) (\<lambda>notes.
       Inr (sort_key nt_output_index (filter (\<lambda>n. nt_txid n = txid) notes)))"

section \<open>Folding duplicate rows\<close>

definition note_value_is_valid :: "i64 \<Rightarrow> bool" where
  "note_value_is_valid v \<longleftrightarrow> 0 < v \<and> v \<le> uint (max_money consensus_mainnet)"

definition memo_bytes_are_effectively_empty :: "bytes \<Rightarrow> bool" where
  "memo_bytes_are_effectively_empty memo \<longleftrightarrow> memo = [] \<or> list_all (\<lambda>b. b = 0) memo"

definition id_or_max :: "note_record \<Rightarrow> i64" where
  "id_or_max n = (case nt_id n of None \<Rightarrow> 2 ^ 63 - 1 | Some i \<Rightarrow> i)"

text \<open>A field of the newest row, or else the newest one that is usable.\<close>

definition first_usable :: "('a \<Rightarrow> bool) \<Rightarrow> (note_record \<Rightarrow> 'a) \<Rightarrow> note_record list \<Rightarrow> 'a \<Rightarrow> 'a" where
  "first_usable ok field newest_first own = (case find ok (map field newest_first) of None \<Rightarrow> own | Some v \<Rightarrow> v)"

definition blank :: "('a \<Rightarrow> bool) \<Rightarrow> 'a option \<Rightarrow> bool" where
  "blank vacant x \<longleftrightarrow> (case x of None \<Rightarrow> True | Some v \<Rightarrow> vacant v)"

definition fill_gaps :: "note_record \<Rightarrow> note_record \<Rightarrow> note_record" where
  "fill_gaps n m = m
     \<lparr>nt_key_id := coalesce (nt_key_id m) (nt_key_id n),
      nt_address_id := coalesce (nt_address_id m) (nt_address_id n),
      nt_diversifier := (if blank (\<lambda>v. v = []) (nt_diversifier m) \<and> \<not> blank (\<lambda>v. v = []) (nt_diversifier n)
        then nt_diversifier n else nt_diversifier m),
      nt_note := (if blank (\<lambda>v. v = []) (nt_note m) \<and> \<not> blank (\<lambda>v. v = []) (nt_note n) then nt_note n else nt_note m),
      nt_position := coalesce (nt_position m) (nt_position n),
      nt_memo := (if blank memo_bytes_are_effectively_empty (nt_memo m) \<and> \<not> blank memo_bytes_are_effectively_empty (nt_memo n)
        then nt_memo n else nt_memo m),
      nt_spent_txid := coalesce (nt_spent_txid m) (nt_spent_txid n)\<rparr>"

definition merge_duplicate_note_records :: "note_record list \<Rightarrow> note_record \<times> i64 list" where
  "merge_duplicate_note_records notes0 =
     (let notes = sort_key id_or_max notes0;
          ids = List.map_filter nt_id notes;
          survivor_id = (if ids = [] then None else Some (min_list ids));
          newest_first = rev notes;
          m = (last notes)\<lparr>nt_id := survivor_id\<rparr>;
          m = (if note_value_is_valid (nt_value m) then m
               else m\<lparr>nt_value := first_usable note_value_is_valid nt_value newest_first (nt_value m)\<rparr>);
          m = (if list_all (\<lambda>b. b = 0) (nt_nullifier m)
               then m\<lparr>nt_nullifier := first_usable (\<lambda>v. v \<noteq> [] \<and> \<not> list_all (\<lambda>b. b = 0) v) nt_nullifier newest_first (nt_nullifier m)\<rparr> else m);
          m = (if nt_commitment m = []
               then m\<lparr>nt_commitment := first_usable (\<lambda>v. v \<noteq> []) nt_commitment newest_first (nt_commitment m)\<rparr> else m);
          m = (if nt_height m \<le> 0
               then m\<lparr>nt_height := first_usable (\<lambda>h. 0 < h) nt_height newest_first (nt_height m)\<rparr> else m);
          m = fold fill_gaps newest_first m
      in (m\<lparr>nt_spent := list_ex nt_spent notes\<rparr>, filter (\<lambda>i. Some i \<noteq> survivor_id) ids))"

definition output_of :: "note_record \<Rightarrow> note_output" where
  "output_of n = (nt_txid n, nt_output_index n, nt_note_type n)"

definition group_by_output :: "note_record list \<Rightarrow> (note_output \<times> note_record list) list" where
  "group_by_output notes =
     fold (\<lambda>n g. AList.update (output_of n) ((case map_of g (output_of n) of None \<Rightarrow> [] | Some rs \<Rightarrow> rs) @ [n]) g) notes []"

text \<open>One output: a single row stands; several are folded into the oldest and the others deleted.\<close>

definition fold_step :: "cipher \<Rightarrow> note_output \<times> note_record list \<Rightarrow> note_record list \<times> note_db \<Rightarrow> storage_error + note_record list \<times> note_db" where
  "fold_step cr g acc =
     (case g of (_, rows) \<Rightarrow> case acc of (canonical, d) \<Rightarrow>
        if length rows = 1 then Inr (canonical @ rows, d)
        else case merge_duplicate_note_records rows of (merged, duplicate_ids) \<Rightarrow>
          bind_res (update_note_by_id_without_shard_metadata cr merged d) (\<lambda>d'.
            Inr (canonical @ [merged], d'\<lparr>note_rows := filter (\<lambda>r. nr_id r \<notin> set duplicate_ids) (note_rows d')\<rparr>)))"

text \<open>
  Existing rows of the outputs a batch is about to write. When an output has several rows they are
  folded inside one immediate transaction, so an error leaves the table as it was.
\<close>

definition prepare_note_upserts ::
    "cipher \<Rightarrow> i64 \<Rightarrow> note_output list \<Rightarrow> note_db \<Rightarrow> storage_error + note_record list \<times> note_db" where
  "prepare_note_upserts cr account_id outputs db =
     (if outputs = [] then Inr ([], db)
      else bind_res (get_account_notes_matching_outputs cr account_id (Some outputs) db) (\<lambda>notes.
        let grouped = group_by_output notes
        in if list_all (\<lambda>(_, rows). length rows = 1) grouped
           then Inr (sort_key id_or_max (concat (map snd grouped)), db)
           else bind_res (fold_res (fold_step cr) grouped ([], db)) (\<lambda>(canonical, d). Inr (sort_key id_or_max canonical, d))))"

section \<open>Other writes of single rows\<close>

text \<open>The row of an output with the highest id, over all pools or in one.\<close>

definition row_matches :: "cipher \<Rightarrow> i64 \<Rightarrow> bytes \<Rightarrow> i64 \<Rightarrow> note_type option \<Rightarrow> note_row \<Rightarrow> storage_error + bool" where
  "row_matches cr account_id txid out ty r =
     bind_res (decrypt_int64 cr (nr_account_id r)) (\<lambda>account.
       if account \<noteq> account_id then Inr False
       else bind_res (decrypt_cell cr (nr_txid r)) (\<lambda>tx.
            bind_res (decrypt_int64 cr (nr_output_index r)) (\<lambda>o'.
              Inr (tx = txid \<and> o' = out \<and> (ty = None \<or> ty = Some (note_type_from (nr_note_type r)))))))"

definition update_note_memo_with_type ::
    "cipher \<Rightarrow> i64 \<Rightarrow> bytes \<Rightarrow> i64 \<Rightarrow> note_type option \<Rightarrow> bytes option \<Rightarrow> note_db \<Rightarrow> storage_error + note_db" where
  "update_note_memo_with_type cr account_id txid out ty memo db =
     bind_res (encrypt_optional_blob cr memo) (\<lambda>cell.
     bind_res (fold_res (\<lambda>r best. bind_res (row_matches cr account_id txid out ty r) (\<lambda>hit.
         Inr (if hit \<and> (case best of None \<Rightarrow> True | Some b \<Rightarrow> b < nr_id r) then Some (nr_id r) else best)))
         (note_rows db) None) (\<lambda>best.
       Inr (case best of None \<Rightarrow> db
         | Some i \<Rightarrow> db\<lparr>note_rows := map (\<lambda>r. if nr_id r = i then r\<lparr>nr_memo := cell\<rparr> else r) (note_rows db)\<rparr>)))"

definition update_note_memo where
  "update_note_memo cr account_id txid out memo = update_note_memo_with_type cr account_id txid out None memo"

text \<open>Deleting goes row by row; an unreadable row stops it with the rows before it already gone.\<close>

fun delete_note_rows ::
    "cipher \<Rightarrow> i64 \<Rightarrow> bytes \<Rightarrow> i64 \<Rightarrow> note_row list \<Rightarrow> nat \<Rightarrow> note_db \<Rightarrow> note_db \<times> (storage_error + nat)" where
  "delete_note_rows cr account_id txid out [] deleted db = (db, Inr deleted)"
| "delete_note_rows cr account_id txid out (r # rs) deleted db =
     (case bind_res (decrypt_int64 cr (nr_account_id r)) (\<lambda>account.
           bind_res (decrypt_cell cr (nr_txid r)) (\<lambda>tx.
           bind_res (decrypt_int64 cr (nr_output_index r)) (\<lambda>o'.
             Inr (account = account_id \<and> tx = txid \<and> o' = out)))) of
        Inl e \<Rightarrow> (db, Inl e)
      | Inr hit \<Rightarrow>
          if hit then delete_note_rows cr account_id txid out rs (deleted + 1)
            (db\<lparr>note_rows := filter (\<lambda>q. nr_id q \<noteq> nr_id r) (note_rows db)\<rparr>)
          else delete_note_rows cr account_id txid out rs deleted db)"

definition delete_note_by_txid_and_index ::
    "cipher \<Rightarrow> i64 \<Rightarrow> bytes \<Rightarrow> i64 \<Rightarrow> note_db \<Rightarrow> note_db \<times> (storage_error + nat)" where
  "delete_note_by_txid_and_index cr account_id txid out db = delete_note_rows cr account_id txid out (note_rows db) 0 db"

definition backfill_note_key_id :: "cipher \<Rightarrow> i64 \<Rightarrow> note_db \<Rightarrow> storage_error + nat \<times> note_db" where
  "backfill_note_key_id cr key db =
     bind_res (encrypt_optional_int64 cr (Some key)) (\<lambda>cell.
       Inr (length (filter (\<lambda>r. nr_key_id r = None) (note_rows db)),
         db\<lparr>note_rows := map (\<lambda>r. if nr_key_id r = None then r\<lparr>nr_key_id := cell\<rparr> else r) (note_rows db)\<rparr>))"

section \<open>What a readable table holds\<close>

definition cipher_ok :: "cipher \<Rightarrow> bool" where
  "cipher_ok cr \<longleftrightarrow> (\<forall>d c. c_encrypt cr d = Some c \<longrightarrow> c_decrypt cr c = Some d)"

definition note_of :: "cipher \<Rightarrow> note_row \<Rightarrow> storage_error + note_record" where
  "note_of cr r =
     bind_res (decrypt_int64 cr (nr_account_id r)) (\<lambda>account.
     bind_res (decrypt_cell cr (nr_txid r)) (\<lambda>txid.
     bind_res (decrypt_int64 cr (nr_output_index r)) (\<lambda>out. rest_of_note cr r account txid out)))"

definition readable :: "cipher \<Rightarrow> note_row list \<Rightarrow> bool" where
  "readable cr rows \<longleftrightarrow> (\<forall>r \<in> set rows. \<exists>n. note_of cr r = Inr n)"

definition plain :: "cipher \<Rightarrow> note_row \<Rightarrow> note_record" where
  "plain cr r = projr (note_of cr r)"

definition plain_notes :: "cipher \<Rightarrow> note_db \<Rightarrow> note_record list" where
  "plain_notes cr db = map (plain cr) (note_rows db)"

definition in_i64 :: "i64 \<Rightarrow> bool" where
  "in_i64 v \<longleftrightarrow> - (2 ^ 63) \<le> v \<and> v < 2 ^ 63"

text \<open>The integers of a note are machine integers.\<close>

definition wf_note :: "note_record \<Rightarrow> bool" where
  "wf_note n \<longleftrightarrow> in_i64 (nt_account_id n) \<and> in_i64 (nt_value n) \<and> in_i64 (nt_height n) \<and> in_i64 (nt_output_index n)
     \<and> pred_option in_i64 (nt_position n) \<and> pred_option in_i64 (nt_address_id n) \<and> pred_option in_i64 (nt_key_id n)"

text \<open>What is stored of a note: missing diversifier and note bytes become empty ones.\<close>

definition stored_note :: "i64 \<Rightarrow> note_record \<Rightarrow> note_record" where
  "stored_note i n = n\<lparr>nt_id := Some i,
     nt_diversifier := Some (case nt_diversifier n of None \<Rightarrow> [] | Some d \<Rightarrow> d),
     nt_note := Some (case nt_note n of None \<Rightarrow> [] | Some d \<Rightarrow> d)\<rparr>"

subsection \<open>Columns\<close>

lemma le_bytes_value:
  "foldr (\<lambda>k acc. (v div 256 ^ k) mod 256 + 256 * acc) [m..<m + n] 0 = (v div 256 ^ m) mod (256 ^ n :: int)"
proof (induction n arbitrary: m)
  case (Suc n)
  have "foldr (\<lambda>k acc. (v div 256 ^ k) mod 256 + 256 * acc) [m..<m + Suc n] 0
      = (v div 256 ^ m) mod 256 + 256 * ((v div 256 ^ Suc m) mod 256 ^ n)"
    using Suc.IH [of "Suc m"] by (simp add: upt_conv_Cons del: upt_Suc)
  also have "v div 256 ^ Suc m = v div 256 ^ m div 256"
    by (metis power_Suc2 zdiv_zmult2_eq zero_le_numeral zero_le_power)
  also have "(v div 256 ^ m) mod 256 + 256 * (v div 256 ^ m div 256 mod 256 ^ n) = (v div 256 ^ m) mod (256 * 256 ^ n)"
    by (simp add: zmod_zmult2_eq)
  finally show ?case by simp
qed simp

lemma i64_le_roundtrip:
  assumes "in_i64 v"
  shows "i64_from_le_bytes (i64_to_le_bytes v) = v"
proof -
  have "foldr (\<lambda>b acc. uint b + 256 * acc) (i64_to_le_bytes v) 0
      = foldr (\<lambda>k acc. (v div 256 ^ k) mod 256 + 256 * acc) [0..<0 + 8] 0"
    by (simp add: i64_to_le_bytes_def foldr_map comp_def uint_word_of_int del: upt_Suc)
  also have "\<dots> = v mod 2 ^ 64" unfolding le_bytes_value by simp
  finally have u: "foldr (\<lambda>b acc. uint b + 256 * acc) (i64_to_le_bytes v) 0 = v mod 2 ^ 64" .
  show ?thesis
  proof (cases "0 \<le> v")
    case True
    with assms show ?thesis by (simp add: i64_from_le_bytes_def u in_i64_def)
  next
    case False
    then have "(v + 2 ^ 64) mod 2 ^ 64 = v + 2 ^ 64"
      using assms by (intro mod_pos_pos_trivial) (auto simp: in_i64_def)
    then have "v mod 2 ^ 64 = v + 2 ^ 64" by simp
    with False assms show ?thesis by (simp add: i64_from_le_bytes_def u in_i64_def)
  qed
qed

lemma length_i64_to_le_bytes [simp]: "length (i64_to_le_bytes v) = 8"
  by (simp add: i64_to_le_bytes_def)


lemma decrypt_encrypted:
  assumes "cipher_ok cr"
  shows "encrypt_blob cr d = Inr c \<Longrightarrow> decrypt_cell cr c = Inr d"
    and "encrypt_int64 cr v = Inr c \<Longrightarrow> in_i64 v \<Longrightarrow> decrypt_int64 cr c = Inr v"
    and "encrypt_bool cr b = Inr c \<Longrightarrow> decrypt_bool cr c = Inr b"
    and "encrypt_optional_blob cr od = Inr oc \<Longrightarrow> decrypt_optional_cell cr oc = Inr od"
    and "encrypt_optional_int64 cr ov = Inr oc \<Longrightarrow> pred_option in_i64 ov \<Longrightarrow> decrypt_optional_int64 cr oc = Inr ov"
proof -
  show blob: "encrypt_blob cr d = Inr c \<Longrightarrow> decrypt_cell cr c = Inr d" for d c
    using assms by (auto simp: encrypt_blob_def decrypt_cell_def cipher_ok_def)
  then show int: "encrypt_int64 cr v = Inr c \<Longrightarrow> in_i64 v \<Longrightarrow> decrypt_int64 cr c = Inr v" for v c
    by (simp add: encrypt_int64_def decrypt_int64_def i64_le_roundtrip)
  show "encrypt_bool cr b = Inr c \<Longrightarrow> decrypt_bool cr c = Inr b"
    using blob by (simp add: encrypt_bool_def decrypt_bool_def)
  show "encrypt_optional_blob cr od = Inr oc \<Longrightarrow> decrypt_optional_cell cr oc = Inr od"
    using blob by (auto simp: encrypt_optional_blob_def decrypt_optional_cell_def encrypt_opt_def bind_res_Inr_iff split: option.splits)
  show "encrypt_optional_int64 cr ov = Inr oc \<Longrightarrow> pred_option in_i64 ov \<Longrightarrow> decrypt_optional_int64 cr oc = Inr ov"
    using int by (auto simp: encrypt_optional_int64_def decrypt_optional_int64_def encrypt_opt_def encrypt_int64_def
        bind_res_Inr_iff split: option.splits)
qed

lemma note_type_from_str [simp]: "note_type_from (note_type_str ty) = ty"
  by (cases ty) (simp_all add: note_type_from_def)

lemma encrypted_row_read:
  assumes "cipher_ok cr" "wf_note n" "encrypted_row cr i n = Inr r"
  shows "note_of cr r = Inr (stored_note i n)" "nr_id r = i"
  using assms(3) decrypt_encrypted [OF assms(1)] assms(2)
  by (auto simp: encrypted_row_def note_of_def rest_of_note_def bind_res_Inr_iff wf_note_def stored_note_def
      decrypt_optional_cell_def)

subsection \<open>Tables\<close>

lemma rest_of_note_fields:
  "rest_of_note cr r account txid out = Inr n \<Longrightarrow>
     nt_id n = Some (nr_id r) \<and> nt_account_id n = account \<and> nt_txid n = txid \<and> nt_output_index n = out \<and>
     nt_note_type n = note_type_from (nr_note_type r)"
  by (auto simp: rest_of_note_def bind_res_Inr_iff)

lemma note_of_readable:
  assumes "readable cr rows" "r \<in> set rows"
  shows "decrypt_int64 cr (nr_account_id r) = Inr (nt_account_id (plain cr r))"
    and "decrypt_cell cr (nr_txid r) = Inr (nt_txid (plain cr r))"
    and "decrypt_int64 cr (nr_output_index r) = Inr (nt_output_index (plain cr r))"
    and "decrypt_cell cr (nr_nullifier r) = Inr (nt_nullifier (plain cr r))"
    and "decrypt_bool cr (nr_spent r) = Inr (nt_spent (plain cr r))"
    and "decrypt_int64 cr (nr_value r) = Inr (nt_value (plain cr r))"
    and "decrypt_optional_cell cr (nr_spent_txid r) = Inr (nt_spent_txid (plain cr r))"
    and "nt_id (plain cr r) = Some (nr_id r)"
    and "nt_note_type (plain cr r) = note_type_from (nr_note_type r)"
    and "rest_of_note cr r (nt_account_id (plain cr r)) (nt_txid (plain cr r)) (nt_output_index (plain cr r)) = Inr (plain cr r)"
    and "note_of cr r = Inr (plain cr r)"
proof -
  from assms obtain n where n: "note_of cr r = Inr n" by (auto simp: readable_def)
  then have p: "plain cr r = n" by (simp add: plain_def)
  from n obtain a t out where d: "decrypt_int64 cr (nr_account_id r) = Inr a" "decrypt_cell cr (nr_txid r) = Inr t"
      "decrypt_int64 cr (nr_output_index r) = Inr out" and rest: "rest_of_note cr r a t out = Inr n"
    by (auto simp: note_of_def bind_res_Inr_iff)
  note f = rest_of_note_fields [OF rest]
  show "decrypt_int64 cr (nr_account_id r) = Inr (nt_account_id (plain cr r))"
    "decrypt_cell cr (nr_txid r) = Inr (nt_txid (plain cr r))"
    "decrypt_int64 cr (nr_output_index r) = Inr (nt_output_index (plain cr r))"
    "nt_id (plain cr r) = Some (nr_id r)"
    "nt_note_type (plain cr r) = note_type_from (nr_note_type r)"
    "rest_of_note cr r (nt_account_id (plain cr r)) (nt_txid (plain cr r)) (nt_output_index (plain cr r)) = Inr (plain cr r)"
    "note_of cr r = Inr (plain cr r)"
    using d f rest n by (simp_all add: p)
  show "decrypt_cell cr (nr_nullifier r) = Inr (nt_nullifier (plain cr r))"
    "decrypt_bool cr (nr_spent r) = Inr (nt_spent (plain cr r))"
    "decrypt_int64 cr (nr_value r) = Inr (nt_value (plain cr r))"
    "decrypt_optional_cell cr (nr_spent_txid r) = Inr (nt_spent_txid (plain cr r))"
    using rest unfolding p by (auto simp: rest_of_note_def bind_res_Inr_iff)
qed

lemma fold_snoc_filter: "fold (\<lambda>x acc. if P x then acc @ [f x] else acc) xs acc = acc @ map f (filter P xs)"
  by (induction xs arbitrary: acc) auto

lemma matching_outputs_read:
  assumes "readable cr (note_rows db)"
  shows "get_account_notes_matching_outputs cr account outputs db =
    Inr (filter (\<lambda>n. nt_account_id n = account \<and> (case outputs of None \<Rightarrow> True | Some os \<Rightarrow> output_of n \<in> set os)) (plain_notes cr db))"
proof -
  have "get_account_notes_matching_outputs cr account outputs db =
      Inr (fold (\<lambda>r acc. if nt_account_id (plain cr r) = account \<and>
        (case outputs of None \<Rightarrow> True | Some os \<Rightarrow> output_of (plain cr r) \<in> set os) then acc @ [plain cr r] else acc) (note_rows db) [])"
    unfolding get_account_notes_matching_outputs_def
    by (rule fold_res_total) (auto simp: note_of_readable [OF assms] output_of_def split: option.splits)
  then show ?thesis by (simp add: fold_snoc_filter plain_notes_def filter_map comp_def)
qed

lemma plain_notes_ids:
  "readable cr (note_rows db) \<Longrightarrow> map nt_id (plain_notes cr db) = map (Some \<circ> nr_id) (note_rows db)"
  by (simp add: plain_notes_def note_of_readable)

definition table_ok :: "cipher \<Rightarrow> note_db \<Rightarrow> bool" where
  "table_ok cr db \<longleftrightarrow> readable cr (note_rows db) \<and> distinct (map nr_id (note_rows db)) \<and> (\<forall>n \<in> set (plain_notes cr db). wf_note n)"

definition cipher_total :: "cipher \<Rightarrow> bool" where
  "cipher_total cr \<longleftrightarrow> (\<forall>d. c_encrypt cr d \<noteq> None)"

lemma table_ok_ids: "table_ok cr db \<Longrightarrow> distinct (map nt_id (plain_notes cr db))"
  by (simp add: table_ok_def plain_notes_ids distinct_map inj_on_def)

lemma bind_res_ok: "\<exists>x. r = Inr x \<Longrightarrow> (\<And>x. \<exists>y. f x = Inr y) \<Longrightarrow> \<exists>y. bind_res r f = Inr y"
  by auto

lemma encrypted_row_exists:
  assumes "cipher_total cr"
  shows "\<exists>r. encrypted_row cr i n = Inr r"
proof -
  have "\<exists>c. encrypt_blob cr d = Inr c" for d using assms by (auto simp: cipher_total_def encrypt_blob_def)
  then have "\<exists>c. encrypt_blob cr d = Inr c" "\<exists>c. encrypt_int64 cr v = Inr c" "\<exists>c. encrypt_bool cr b = Inr c"
      "\<exists>c. encrypt_optional_blob cr od = Inr c" "\<exists>c. encrypt_optional_int64 cr ov = Inr c" for d v b od ov
    by (auto simp: encrypt_int64_def encrypt_bool_def encrypt_optional_blob_def encrypt_optional_int64_def encrypt_opt_def
        bind_res_Inr_iff split: option.splits)
  note leaf = this
  show ?thesis unfolding encrypted_row_def by (intro bind_res_ok leaf) simp
qed

subsection \<open>Merging\<close>

lemma fold_fill_gaps_fields:
  "nt_id (fold fill_gaps ns m) = nt_id m" "nt_account_id (fold fill_gaps ns m) = nt_account_id m"
  "output_of (fold fill_gaps ns m) = output_of m" "nt_value (fold fill_gaps ns m) = nt_value m"
  "nt_height (fold fill_gaps ns m) = nt_height m"
  by (induction ns arbitrary: m) (simp_all add: fill_gaps_def output_of_def)

lemma fold_fill_gaps_wf:
  assumes "\<forall>n \<in> set ns. wf_note n" "wf_note m"
  shows "wf_note (fold fill_gaps ns m)"
proof -
  have "wf_note (fill_gaps n m)" if "wf_note n" "wf_note m" for n m
    using that by (auto simp: fill_gaps_def wf_note_def coalesce_def split: option.split)
  with assms show ?thesis by (induction ns arbitrary: m) simp_all
qed

lemma first_usable_cases:
  "first_usable ok field ns own = own \<or> (\<exists>n \<in> set ns. first_usable ok field ns own = field n \<and> ok (field n))"
  by (auto simp: first_usable_def find_Some_iff split: option.splits)

lemma min_list_ids: "ids \<noteq> [] \<Longrightarrow> min_list ids = Min (set ids)" for ids :: "i64 list"
  by (rule min_list_Min)

lemma merge_duplicates:
  assumes rows: "rows \<noteq> []" "\<forall>n \<in> set rows. nt_account_id n = account \<and> output_of n = k \<and> wf_note n"
    and ids: "map nt_id rows = map Some ids" "distinct ids"
    and merged: "merge_duplicate_note_records rows = (m, dups)"
  shows "nt_id m = Some (Min (set ids))" "set dups = set ids - {Min (set ids)}"
    "nt_account_id m = account" "output_of m = k" "wf_note m" "nt_spent m = list_ex nt_spent rows"
proof -
  define ns where "ns = sort_key id_or_max rows"
  have set_eq: "set ns = set rows" by (simp add: ns_def)
  have ids_ne: "ids \<noteq> []" using rows(1) ids(1) by auto
  have mf: "List.map_filter nt_id xs = map (the \<circ> nt_id) xs" if "set xs \<subseteq> set rows" for xs
  proof -
    have "nt_id n \<noteq> None" if "n \<in> set rows" for n
      using arg_cong [OF ids(1), of set] that by auto
    then show ?thesis using that by (induction xs) (auto simp: List.map_filter_def)
  qed
  have sid: "set (List.map_filter nt_id ns) = set ids"
    using arg_cong [OF ids(1), of "map the"] mf [of ns] by (simp add: set_eq flip: set_map) (metis set_eq set_map)
  then have ne: "List.map_filter nt_id ns \<noteq> []" using ids_ne by auto
  have survivor: "min_list (List.map_filter nt_id ns) = Min (set ids)"
    using min_list_ids [OF ne] sid by simp
  have last_in: "last ns \<in> set rows" using rows(1) set_eq by (metis last_in_set set_empty)
  have ex: "list_ex nt_spent ns = list_ex nt_spent rows" by (simp add: list_ex_iff set_eq)
  have fu: "P (first_usable ok field (rev ns) own)" if "P own" "\<forall>n \<in> set rows. P (field n)"
    for P ok own and field :: "note_record \<Rightarrow> 'x"
    using first_usable_cases [of ok field "rev ns" own] that by (auto simp: set_eq)
  define m0 where "m0 = (last ns)\<lparr>nt_id := Some (Min (set ids))\<rparr>"
  define m1 where "m1 = (if note_value_is_valid (nt_value m0) then m0
    else m0\<lparr>nt_value := first_usable note_value_is_valid nt_value (rev ns) (nt_value m0)\<rparr>)"
  define m2 where "m2 = (if list_all (\<lambda>b. b = 0) (nt_nullifier m1)
    then m1\<lparr>nt_nullifier := first_usable (\<lambda>v. v \<noteq> [] \<and> \<not> list_all (\<lambda>b. b = 0) v) nt_nullifier (rev ns) (nt_nullifier m1)\<rparr> else m1)"
  define m3 where "m3 = (if nt_commitment m2 = []
    then m2\<lparr>nt_commitment := first_usable (\<lambda>v. v \<noteq> []) nt_commitment (rev ns) (nt_commitment m2)\<rparr> else m2)"
  define m4 where "m4 = (if nt_height m3 \<le> 0
    then m3\<lparr>nt_height := first_usable (\<lambda>h. 0 < h) nt_height (rev ns) (nt_height m3)\<rparr> else m3)"
  define m5 where "m5 = fold fill_gaps (rev ns) m4"
  have sv: "(if List.map_filter nt_id ns = [] then None else Some (min_list (List.map_filter nt_id ns))) = Some (Min (set ids))"
    using ne survivor by simp
  have "merge_duplicate_note_records rows =
      (m5\<lparr>nt_spent := list_ex nt_spent ns\<rparr>, filter (\<lambda>i. Some i \<noteq> Some (Min (set ids))) (List.map_filter nt_id ns))"
    by (simp only: merge_duplicate_note_records_def Let_def ns_def [symmetric] sv m5_def m4_def m3_def m2_def m1_def m0_def)
  then have m: "m = m5\<lparr>nt_spent := list_ex nt_spent ns\<rparr>"
    and dups: "dups = filter (\<lambda>i. i \<noteq> Min (set ids)) (List.map_filter nt_id ns)"
    using merged by simp_all
  have "wf_note (last ns)" using last_in rows(2) by blast
  then have w0: "wf_note m0" by (simp add: m0_def wf_note_def)
  from rows(2) have vals: "\<forall>n \<in> set rows. in_i64 (nt_value n)" "\<forall>n \<in> set rows. in_i64 (nt_height n)" by (auto simp: wf_note_def)
  from w0 have w1: "wf_note m1" using vals(1) fu [of in_i64 "nt_value m0" nt_value] by (simp add: m1_def wf_note_def)
  then have w3: "wf_note m3" by (simp add: m3_def m2_def wf_note_def)
  then have "wf_note m4" using vals(2) fu [of in_i64 "nt_height m3" nt_height] by (simp add: m4_def wf_note_def)
  then have "wf_note m5" unfolding m5_def by (rule fold_fill_gaps_wf [rotated]) (simp add: set_eq rows(2))
  then show "wf_note m" by (simp add: m wf_note_def)
  have f: "nt_id m4 = Some (Min (set ids)) \<and> nt_account_id m4 = account \<and> output_of m4 = k"
    using last_in rows(2) by (simp add: m4_def m3_def m2_def m1_def m0_def output_of_def)
  have "output_of m = output_of m5" by (simp add: m output_of_def)
  with f show "nt_id m = Some (Min (set ids))" "nt_account_id m = account" "output_of m = k"
    by (simp_all add: m5_def fold_fill_gaps_fields) (simp_all add: m m5_def fold_fill_gaps_fields)
  show "nt_spent m = list_ex nt_spent rows" by (simp add: m ex)
  show "set dups = set ids - {Min (set ids)}" using sid by (auto simp: dups)
qed

lemma group_by_output_map:
  "map_of (group_by_output ns) k = (if filter (\<lambda>n. output_of n = k) ns = [] then None else Some (filter (\<lambda>n. output_of n = k) ns))"
proof (induction ns rule: rev_induct)
  case (snoc n ns)
  then show ?case by (auto simp: group_by_output_def update_conv')
qed (simp add: group_by_output_def)

lemma group_by_output_keys: "distinct (map fst (group_by_output ns))"
  by (induction ns rule: rev_induct) (simp_all add: group_by_output_def distinct_update)

lemma group_by_output_in:
  "(k, rows) \<in> set (group_by_output ns) \<Longrightarrow> rows = filter (\<lambda>n. output_of n = k) ns \<and> rows \<noteq> []"
  using map_of_is_SomeI [OF group_by_output_keys, of k rows ns] by (auto simp: group_by_output_map split: if_splits)

lemma group_by_output_dom: "fst ` set (group_by_output ns) = output_of ` set ns"
proof -
  have "dom (map_of (group_by_output ns)) = output_of ` set ns"
    by (auto simp: dom_def group_by_output_map filter_empty_conv image_iff intro: sym)
  then show ?thesis by (simp add: dom_map_of_conv_image_fst)
qed

text \<open>The rows of one output of an account.\<close>

definition of_output :: "i64 \<Rightarrow> note_output \<Rightarrow> note_record \<Rightarrow> bool" where
  "of_output account k n \<longleftrightarrow> nt_account_id n = account \<and> output_of n = k"

lemma ids_of_notes:
  assumes "table_ok cr d" "\<forall>n \<in> set ns. n \<in> set (plain_notes cr d)" "distinct ns"
  obtains ids where "map nt_id ns = map Some ids" "distinct ids"
proof -
  have some: "nt_id n \<noteq> None" if "n \<in> set (plain_notes cr d)" for n
    using that assms(1) by (auto simp: plain_notes_def table_ok_def note_of_readable)
  have "map nt_id ns = map Some (map (the \<circ> nt_id) ns)" using some assms(2) by (induction ns) auto
  moreover have "inj_on nt_id (set ns)"
    using table_ok_ids [OF assms(1)] assms(2) by (auto simp: distinct_map inj_on_def)
  then have "distinct (map nt_id ns)" using assms(3) by (simp add: distinct_map)
  ultimately show ?thesis by (metis that distinct_map)
qed

lemma filter_singleton: "distinct xs \<Longrightarrow> x \<in> set xs \<Longrightarrow> (\<And>y. y \<in> set xs \<Longrightarrow> P y \<longleftrightarrow> y = x) \<Longrightarrow> filter P xs = [x]"
  by (induction xs) (auto simp: filter_empty_conv)

text \<open>One group: the survivor is rewritten, the duplicates go.\<close>

lemma fold_group:
  assumes ok: "cipher_ok cr" "table_ok cr d"
    and rows: "rows = filter (of_output account k) (plain_notes cr d)" "rows \<noteq> []"
    and merged: "merge_duplicate_note_records rows = (m, dups)"
    and upd: "update_note_by_id_without_shard_metadata cr m d = Inr d'"
  defines "d2 \<equiv> d'\<lparr>note_rows := filter (\<lambda>r. nr_id r \<notin> set dups) (note_rows d')\<rparr>"
  shows "table_ok cr d2" "output_of m = k" "nt_account_id m = account"
    "\<exists>x. filter (of_output account k) (plain_notes cr d2) = [x] \<and> nt_spent x = list_ex nt_spent rows"
    "filter (\<lambda>n. \<not> of_output account k n) (plain_notes cr d2) = filter (\<lambda>n. \<not> of_output account k n) (plain_notes cr d)"
proof -
  have distinct_plain: "distinct (plain_notes cr d)" using table_ok_ids [OF ok(2)] by (simp add: distinct_map)
  have "distinct rows" using distinct_plain by (simp add: rows)
  then obtain ids where ids: "map nt_id rows = map Some ids" "distinct ids"
    using ids_of_notes [OF ok(2), of rows] by (auto simp: rows)
  have agree: "\<forall>n \<in> set rows. nt_account_id n = account \<and> output_of n = k \<and> wf_note n"
    using ok(2) by (auto simp: rows of_output_def table_ok_def)
  note mm = merge_duplicates [OF rows(2) agree ids merged]
  define i where "i = Min (set ids)"
  from upd mm(1) obtain r where r: "encrypted_row cr i m = Inr r"
    and d': "d' = d\<lparr>note_rows := replace_row r (note_rows d)\<rparr>"
    by (auto simp: update_note_by_id_without_shard_metadata_def update_note_by_id_with_options_def bind_res_Inr_iff i_def)
  note stored = encrypted_row_read [OF ok(1) mm(5) r]
  have rows_d2: "note_rows d2 = map (\<lambda>q. if nr_id q = i then r else q) (filter (\<lambda>q. nr_id q \<notin> set dups) (note_rows d))"
  proof -
    have "nr_id (if nr_id q = i then r else q) = nr_id q" for q using stored(2) by simp
    then show ?thesis unfolding d2_def d' replace_row_def stored(2) by (simp add: filter_map comp_def)
  qed
  have rd: "readable cr (note_rows d)" "distinct (map nr_id (note_rows d))" using ok(2) by (auto simp: table_ok_def)
  have plain_d2: "plain_notes cr d2 =
      map (\<lambda>n. if nt_id n = Some i then stored_note i m else n) (filter (\<lambda>n. nt_id n \<notin> Some ` set dups) (plain_notes cr d))"
  proof -
    have id: "nt_id (plain cr q) = Some (nr_id q)" if "q \<in> set (note_rows d)" for q
      using rd(1) that by (rule note_of_readable(8))
    have "plain cr r = stored_note i m" by (simp add: plain_def stored(1))
    moreover have "filter (\<lambda>n. nt_id n \<notin> Some ` set dups) (map (plain cr) (note_rows d)) =
        map (plain cr) (filter (\<lambda>q. nr_id q \<notin> set dups) (note_rows d))"
      unfolding filter_map comp_def by (intro arg_cong [of _ _ "map _"] filter_cong) (simp_all add: id inj_image_mem_iff)
    ultimately show ?thesis unfolding plain_notes_def rows_d2 by (simp add: id)
  qed
  have "map nr_id (note_rows d2) = map nr_id (filter (\<lambda>q. nr_id q \<notin> set dups) (note_rows d))"
    unfolding rows_d2 using stored(2) by simp
  then have "distinct (map nr_id (note_rows d2))" using rd(2) by (simp add: distinct_map_filter)
  moreover have "readable cr (note_rows d2)" using rd(1) stored(1) by (auto simp: readable_def rows_d2)
  moreover have "wf_note n" if "n \<in> set (plain_notes cr d2)" for n
    using that ok(2) mm(5) by (auto simp: plain_d2 table_ok_def wf_note_def stored_note_def)
  ultimately show "table_ok cr d2" by (simp add: table_ok_def)
  show "output_of m = k" "nt_account_id m = account" by (fact mm)+
  have st: "of_output account k (stored_note i m)" "nt_spent (stored_note i m) = list_ex nt_spent rows"
    using mm by (auto simp: of_output_def stored_note_def output_of_def)
  have inj: "inj_on nt_id (set (plain_notes cr d))" using table_ok_ids [OF ok(2)] by (simp add: distinct_map)
  have sid: "Some ` set ids = nt_id ` set rows" using arg_cong [OF ids(1), of set] by simp
  have idsQ: "nt_id n \<in> Some ` set ids \<longleftrightarrow> of_output account k n" if "n \<in> set (plain_notes cr d)" for n
    unfolding sid rows using that inj by (auto simp: inj_on_def)
  have i_in: "i \<in> set ids" using ids(1) rows(2) by (auto simp: i_def intro!: Min_in)
  show "filter (\<lambda>n. \<not> of_output account k n) (plain_notes cr d2) = filter (\<lambda>n. \<not> of_output account k n) (plain_notes cr d)"
  proof -
    have "(nt_id n \<notin> Some ` set dups \<and> \<not> of_output account k (if nt_id n = Some i then stored_note i m else n)) = (\<not> of_output account k n)"
      if "n \<in> set (plain_notes cr d)" for n
      using idsQ [OF that] i_in st(1) mm(2) by (auto simp: i_def)
    then have "filter (\<lambda>n. \<not> of_output account k n) (plain_notes cr d2) =
        map (\<lambda>n. if nt_id n = Some i then stored_note i m else n) (filter (\<lambda>n. \<not> of_output account k n) (plain_notes cr d))"
      unfolding plain_d2 filter_map filter_filter comp_def by (intro arg_cong2 [of _ _ _ _ map] filter_cong refl)
    also have "\<dots> = filter (\<lambda>n. \<not> of_output account k n) (plain_notes cr d)"
      using idsQ i_in by (intro map_idI) auto
    finally show ?thesis .
  qed
  obtain n0 where n0: "n0 \<in> set (plain_notes cr d)" "nt_id n0 = Some i"
  proof -
    have "Some i \<in> nt_id ` set rows" using i_in sid by blast
    then obtain n where "n \<in> set rows" "nt_id n = Some i" by auto
    then show ?thesis using that unfolding rows by auto
  qed
  have "filter (of_output account k) (plain_notes cr d2) = map (\<lambda>n. if nt_id n = Some i then stored_note i m else n)
      (filter (\<lambda>n. nt_id n = Some i) (plain_notes cr d))"
  proof -
    have "(nt_id n \<notin> Some ` set dups \<and> of_output account k (if nt_id n = Some i then stored_note i m else n)) = (nt_id n = Some i)"
      if "n \<in> set (plain_notes cr d)" for n
      using idsQ [OF that] i_in st(1) mm(2) by (auto simp: i_def)
    then show ?thesis unfolding plain_d2 filter_map filter_filter comp_def by (intro arg_cong2 [of _ _ _ _ map] filter_cong refl)
  qed
  also have "filter (\<lambda>n. nt_id n = Some i) (plain_notes cr d) = [n0]"
    using distinct_plain n0 inj by (intro filter_singleton) (auto simp: inj_on_def)
  finally show "\<exists>x. filter (of_output account k) (plain_notes cr d2) = [x] \<and> nt_spent x = list_ex nt_spent rows"
    using n0(2) st(2) by simp
qed

lemma filter_sub:
  assumes "\<And>n. P n \<Longrightarrow> Q n" "filter Q xs = filter Q ys"
  shows "filter P xs = filter P ys"
proof -
  have "filter P zs = filter P (filter Q zs)" for zs
    unfolding filter_filter using assms(1) by (intro filter_cong) auto
  then show ?thesis using assms(2) by metis
qed

text \<open>All groups, one after the other.\<close>

lemma fold_step_ok:
  assumes ok: "cipher_ok cr" "cipher_total cr" "table_ok cr d"
    and rows: "rows = filter (of_output account k) (plain_notes cr d)" "rows \<noteq> []"
  shows "\<exists>x d'. fold_step cr (k, rows) (canonical, d) = Inr (canonical @ [x], d') \<and> table_ok cr d' \<and> output_of x = k \<and>
    (\<exists>y. filter (of_output account k) (plain_notes cr d') = [y] \<and> nt_spent y = list_ex nt_spent rows) \<and>
    filter (\<lambda>n. \<not> of_output account k n) (plain_notes cr d') = filter (\<lambda>n. \<not> of_output account k n) (plain_notes cr d)"
proof (cases "length rows = 1")
  case True
  then obtain x where x: "rows = [x]" by (auto simp: length_Suc_conv)
  then have "x \<in> set (filter (of_output account k) (plain_notes cr d))" using rows(1) by (metis list.set_intros(1))
  then have "of_output account k x" by simp
  with x ok(3) rows(1) show ?thesis by (simp add: fold_step_def of_output_def)
next
  case False
  obtain m dups where m: "merge_duplicate_note_records rows = (m, dups)" by fastforce
  have "\<exists>ids. map nt_id rows = map Some ids \<and> distinct ids"
    using ids_of_notes [OF ok(3), of rows] table_ok_ids [OF ok(3)] by (auto simp: rows distinct_map)
  then obtain ids where "map nt_id rows = map Some ids" "distinct ids" by blast
  moreover have "\<forall>n \<in> set rows. nt_account_id n = account \<and> output_of n = k \<and> wf_note n"
    using ok(3) by (auto simp: rows of_output_def table_ok_def)
  ultimately obtain i where i: "nt_id m = Some i" using merge_duplicates(1) [OF rows(2) _ _ _ m] by blast
  obtain r where "encrypted_row cr i m = Inr r" using encrypted_row_exists [OF ok(2)] by blast
  then obtain d' where u: "update_note_by_id_without_shard_metadata cr m d = Inr d'"
    by (auto simp: update_note_by_id_without_shard_metadata_def update_note_by_id_with_options_def i)
  note g = fold_group [OF ok(1,3) rows m u]
  show ?thesis using False g by (simp add: fold_step_def m u)
qed

lemma fold_steps_ok:
  assumes ok: "cipher_ok cr" "cipher_total cr" "table_ok cr d"
    and groups: "distinct (map fst gs)" "\<And>k rows. (k, rows) \<in> set gs \<Longrightarrow> rows = filter (of_output account k) (plain_notes cr d) \<and> rows \<noteq> []"
  shows "\<exists>xs d'. fold_res (fold_step cr) gs (canonical, d) = Inr (canonical @ xs, d') \<and> table_ok cr d' \<and>
    map output_of xs = map fst gs \<and>
    (\<forall>(k, rows) \<in> set gs. \<exists>y. filter (of_output account k) (plain_notes cr d') = [y] \<and> nt_spent y = list_ex nt_spent rows) \<and>
    filter (\<lambda>n. \<forall>k \<in> fst ` set gs. \<not> of_output account k n) (plain_notes cr d') =
    filter (\<lambda>n. \<forall>k \<in> fst ` set gs. \<not> of_output account k n) (plain_notes cr d)"
  using ok(3) groups
proof (induction gs arbitrary: canonical d)
  case (Cons g gs)
  obtain k rows where g: "g = (k, rows)" by fastforce
  from fold_step_ok [OF ok(1,2) Cons.prems(1), of rows account k canonical] Cons.prems(3) [of k rows]
  obtain x d1 y where step: "fold_step cr g (canonical, d) = Inr (canonical @ [x], d1)" "table_ok cr d1" "output_of x = k"
    and y: "filter (of_output account k) (plain_notes cr d1) = [y]" "nt_spent y = list_ex nt_spent rows"
    and others: "filter (\<lambda>n. \<not> of_output account k n) (plain_notes cr d1) = filter (\<lambda>n. \<not> of_output account k n) (plain_notes cr d)"
    by (auto simp: g)
  have sub: "filter P (plain_notes cr d1) = filter P (plain_notes cr d)" if "\<And>n. P n \<Longrightarrow> \<not> of_output account k n" for P
    using that others by (rule filter_sub)
  have keep: "filter (of_output account k') (plain_notes cr d1) = filter (of_output account k') (plain_notes cr d)" if "k' \<noteq> k" for k'
    using that by (intro sub) (auto simp: of_output_def)
  have "rows' = filter (of_output account k') (plain_notes cr d1) \<and> rows' \<noteq> []" if "(k', rows') \<in> set gs" for k' rows'
    using Cons.prems(2) Cons.prems(3) [of k' rows'] keep [of k'] that by (force simp: g)
  with Cons.IH [OF step(2), of "canonical @ [x]"] Cons.prems(2)
  obtain xs d2 where r: "fold_res (fold_step cr) gs (canonical @ [x], d1) = Inr ((canonical @ [x]) @ xs, d2)" "table_ok cr d2"
      "map output_of xs = map fst gs"
    and ys: "\<forall>(k, rows) \<in> set gs. \<exists>y. filter (of_output account k) (plain_notes cr d2) = [y] \<and> nt_spent y = list_ex nt_spent rows"
    and oth: "filter (\<lambda>n. \<forall>k \<in> fst ` set gs. \<not> of_output account k n) (plain_notes cr d2) =
      filter (\<lambda>n. \<forall>k \<in> fst ` set gs. \<not> of_output account k n) (plain_notes cr d1)"
    by (auto simp: g)
  have sub2: "filter P (plain_notes cr d2) = filter P (plain_notes cr d1)"
    if "\<And>n. P n \<Longrightarrow> \<forall>k \<in> fst ` set gs. \<not> of_output account k n" for P
    using that oth by (rule filter_sub)
  have "filter (of_output account k) (plain_notes cr d2) = [y]"
    using y(1) Cons.prems(2) by (subst sub2) (auto simp: of_output_def g)
  moreover have "filter (\<lambda>n. \<forall>k \<in> fst ` set (g # gs). \<not> of_output account k n) (plain_notes cr d2) =
      filter (\<lambda>n. \<forall>k \<in> fst ` set (g # gs). \<not> of_output account k n) (plain_notes cr d)"
  proof -
    have "filter (\<lambda>n. \<forall>k \<in> fst ` set (g # gs). \<not> of_output account k n) (plain_notes cr d2) =
        filter (\<lambda>n. \<forall>k \<in> fst ` set (g # gs). \<not> of_output account k n) (plain_notes cr d1)" by (rule sub2) simp
    also have "\<dots> = filter (\<lambda>n. \<forall>k \<in> fst ` set (g # gs). \<not> of_output account k n) (plain_notes cr d)" by (rule sub) (simp add: g)
    finally show ?thesis .
  qed
  ultimately show ?case using r(2) ys y(2)
  proof (intro exI [of _ "x # xs"] exI [of _ d2] conjI)
    show "fold_res (fold_step cr) (g # gs) (canonical, d) = Inr (canonical @ x # xs, d2)" using step(1) r(1) by simp
    show "map output_of (x # xs) = map fst (g # gs)" using step(3) r(3) by (simp add: g)
  qed (auto simp: g)
qed simp

lemma filter_of_matching:
  assumes "k \<in> set outputs"
  shows "filter (\<lambda>n. output_of n = k) (filter (\<lambda>n. nt_account_id n = account \<and> output_of n \<in> set outputs) ns) = filter (of_output account k) ns"
  unfolding filter_filter of_output_def using assms by (intro filter_cong) auto

lemma single_rows:
  assumes "\<And>k rows. (k, rows) \<in> set gs \<Longrightarrow> (\<forall>n \<in> set rows. output_of n = k) \<and> length rows = 1"
  shows "map output_of (concat (map snd gs)) = map fst gs"
  using assms
proof (induction gs)
  case (Cons g gs)
  obtain k rows where g: "g = (k, rows)" by fastforce
  then obtain y where "rows = [y]" using Cons.prems [of k rows] by (auto simp: length_Suc_conv)
  moreover have "map output_of (concat (map snd gs)) = map fst gs"
    by (rule Cons.IH) (rule Cons.prems, simp)
  ultimately show ?case using Cons.prems [of k rows] by (simp add: g)
qed simp

text \<open>Both ways through the function end with one note per group.\<close>

lemma prepare_groups:
  assumes ok: "cipher_ok cr" "cipher_total cr" "table_ok cr db" and "outputs \<noteq> []"
    and read: "get_account_notes_matching_outputs cr account (Some outputs) db = Inr ns"
    and grp: "\<And>k rows. (k, rows) \<in> set (group_by_output ns) \<Longrightarrow> rows = filter (of_output account k) (plain_notes cr db) \<and> rows \<noteq> []"
  obtains xs d' where "prepare_note_upserts cr account outputs db = Inr (sort_key id_or_max xs, d')" "table_ok cr d'"
    "map output_of xs = map fst (group_by_output ns)"
    "\<forall>(k, rows) \<in> set (group_by_output ns). \<exists>y. filter (of_output account k) (plain_notes cr d') = [y] \<and> nt_spent y = list_ex nt_spent rows"
    "filter (\<lambda>n. \<forall>k \<in> fst ` set (group_by_output ns). \<not> of_output account k n) (plain_notes cr d') =
      filter (\<lambda>n. \<forall>k \<in> fst ` set (group_by_output ns). \<not> of_output account k n) (plain_notes cr db)"
proof (cases "list_all (\<lambda>(_, rows). length rows = 1) (group_by_output ns)")
  case True
  then have len: "(\<forall>n \<in> set rows. output_of n = k) \<and> length rows = 1" if "(k, rows) \<in> set (group_by_output ns)" for k rows
    using grp [OF that] that by (auto simp: list_all_iff of_output_def)
  have "prepare_note_upserts cr account outputs db = Inr (sort_key id_or_max (concat (map snd (group_by_output ns))), db)"
    using True assms(4) read by (simp add: prepare_note_upserts_def)
  moreover have "\<exists>y. filter (of_output account k) (plain_notes cr db) = [y] \<and> nt_spent y = list_ex nt_spent rows"
    if g: "(k, rows) \<in> set (group_by_output ns)" for k rows
  proof -
    obtain y where y: "rows = [y]" using len [OF g] by (auto simp: length_Suc_conv)
    have "filter (of_output account k) (plain_notes cr db) = [y]" using grp [OF g] unfolding y by simp
    then show ?thesis by (simp add: y)
  qed
  ultimately show ?thesis using ok(3) single_rows [OF len] by (intro that) auto
next
  case False
  from fold_steps_ok [OF ok group_by_output_keys [of ns] grp, where canonical = "[]"] obtain xs d'
    where r: "fold_res (fold_step cr) (group_by_output ns) ([], db) = Inr (xs, d')" "table_ok cr d'"
      "map output_of xs = map fst (group_by_output ns)"
      "\<forall>(k, rows) \<in> set (group_by_output ns). \<exists>y. filter (of_output account k) (plain_notes cr d') = [y] \<and> nt_spent y = list_ex nt_spent rows"
      "filter (\<lambda>n. \<forall>k \<in> fst ` set (group_by_output ns). \<not> of_output account k n) (plain_notes cr d') =
        filter (\<lambda>n. \<forall>k \<in> fst ` set (group_by_output ns). \<not> of_output account k n) (plain_notes cr db)"
    by (auto simp only: append_Nil)
  have "prepare_note_upserts cr account outputs db = Inr (sort_key id_or_max xs, d')"
    using False assms(4) read r(1) by (simp add: prepare_note_upserts_def)
  then show ?thesis using r(2-5) by (rule that)
qed

text \<open>
  Property C13. Before a batch is written, the rows of each of its outputs are folded to one: the call
  succeeds on every readable table, returns one note per output that had rows, leaves exactly one row for
  it, spent if any of the rows was (so a rescan cannot revive a spent note), and leaves all other rows
  as they were.
\<close>

theorem duplicate_rows_folded:
  assumes "cipher_ok cr" "cipher_total cr" "table_ok cr db"
  shows "\<exists>canonical db'. prepare_note_upserts cr account outputs db = Inr (canonical, db') \<and> table_ok cr db' \<and>
    distinct (map output_of canonical) \<and>
    output_of ` set canonical = {k \<in> set outputs. filter (of_output account k) (plain_notes cr db) \<noteq> []} \<and>
    (\<forall>k \<in> output_of ` set canonical. \<exists>y. filter (of_output account k) (plain_notes cr db') = [y] \<and>
       nt_spent y = list_ex nt_spent (filter (of_output account k) (plain_notes cr db))) \<and>
    filter (\<lambda>n. \<forall>k \<in> set outputs. \<not> of_output account k n) (plain_notes cr db') =
    filter (\<lambda>n. \<forall>k \<in> set outputs. \<not> of_output account k n) (plain_notes cr db)"
proof (cases "outputs = []")
  case True
  with assms(3) show ?thesis by (simp add: prepare_note_upserts_def)
next
  case False
  define ns where "ns = filter (\<lambda>n. nt_account_id n = account \<and> output_of n \<in> set outputs) (plain_notes cr db)"
  have read: "get_account_notes_matching_outputs cr account (Some outputs) db = Inr ns"
    using assms(3) by (simp add: matching_outputs_read table_ok_def ns_def)
  have keys: "fst ` set (group_by_output ns) = {k \<in> set outputs. filter (of_output account k) (plain_notes cr db) \<noteq> []}"
    unfolding group_by_output_dom by (fastforce simp: ns_def filter_empty_conv of_output_def image_iff)
  have grp: "rows = filter (of_output account k) (plain_notes cr db) \<and> rows \<noteq> []" if "(k, rows) \<in> set (group_by_output ns)" for k rows
    using group_by_output_in [OF that] keys that filter_of_matching [of k outputs account "plain_notes cr db"]
    by (force simp: ns_def)
  from prepare_groups [OF assms False read grp] obtain xs d'
    where r: "prepare_note_upserts cr account outputs db = Inr (sort_key id_or_max xs, d')" "table_ok cr d'"
        "map output_of xs = map fst (group_by_output ns)"
      and ys: "\<forall>(k, rows) \<in> set (group_by_output ns). \<exists>y. filter (of_output account k) (plain_notes cr d') = [y] \<and> nt_spent y = list_ex nt_spent rows"
      and oth: "filter (\<lambda>n. \<forall>k \<in> fst ` set (group_by_output ns). \<not> of_output account k n) (plain_notes cr d') =
        filter (\<lambda>n. \<forall>k \<in> fst ` set (group_by_output ns). \<not> of_output account k n) (plain_notes cr db)"
    by blast
  have outs: "output_of ` set xs = fst ` set (group_by_output ns)" using arg_cong [OF r(3), of set] by simp
  have "distinct (map output_of xs)" using group_by_output_keys [of ns] r(3) by simp
  then have dist: "distinct (map output_of (sort_key id_or_max xs))" by (simp add: distinct_map)
  have one: "\<exists>y. filter (of_output account k) (plain_notes cr d') = [y] \<and>
      nt_spent y = list_ex nt_spent (filter (of_output account k) (plain_notes cr db))" if "k \<in> fst ` set (group_by_output ns)" for k
    using that ys grp by fastforce
  have rest: "filter (\<lambda>n. \<forall>k \<in> set outputs. \<not> of_output account k n) (plain_notes cr d') =
      filter (\<lambda>n. \<forall>k \<in> set outputs. \<not> of_output account k n) (plain_notes cr db)"
    using oth by (rule filter_sub [rotated]) (auto simp: keys)
  show ?thesis
    by (rule exI [of _ "sort_key id_or_max xs"], rule exI [of _ d'])
      (simp only: r(1,2) dist rest set_sort outs keys [symmetric] one simp_thms, simp add: keys one)
qed

lemma upsert_shard_notes [simp]: "note_rows (upsert_note_shard_metadata ty p h db) = note_rows db"
  "note_seq (upsert_note_shard_metadata ty p h db) = note_seq db"
  by (auto simp: upsert_note_shard_metadata_def split: option.splits note_type.splits)


section \<open>Examples\<close>

definition plain_cipher :: cipher where
  "plain_cipher = \<lparr>c_encrypt = Some, c_decrypt = Some\<rparr>"

lemma plain_cipher_ok: "cipher_ok plain_cipher" "cipher_total plain_cipher"
  by (simp_all add: cipher_ok_def cipher_total_def plain_cipher_def)

definition example_note_record :: "i64 \<Rightarrow> bool \<Rightarrow> note_record" where
  "example_note_record v spent = \<lparr>nt_id = None, nt_account_id = 7, nt_key_id = Some 3, nt_note_type = Sapling, nt_value = v,
     nt_nullifier = replicate 32 9, nt_commitment = [5], nt_spent = spent, nt_height = 100, nt_txid = replicate 32 4,
     nt_output_index = 2, nt_address_id = None, nt_spent_txid = None, nt_diversifier = None, nt_note = None,
     nt_position = Some 70000, nt_memo = None\<rparr>"

definition empty_note_db :: note_db where
  "empty_note_db = \<lparr>note_rows = [], note_seq = 0, unlinked_rows = [], unlinked_seq = 0, tx_rows = [], memo_rows = [],
     intent_rows = [], sapling_note_shards = [], orchard_note_shards = []\<rparr>"

lemma empty_note_db_ok: "table_ok cr empty_note_db" "\<forall>r \<in> set (note_rows empty_note_db). nr_id r \<le> note_seq empty_note_db"
  by (simp_all add: table_ok_def empty_note_db_def readable_def plain_notes_def)

lemma example_note_wf: "in_i64 v \<Longrightarrow> wf_note (example_note_record v spent)"
  by (simp add: wf_note_def example_note_record_def) (simp add: in_i64_def)


text \<open>Two rows of one output, the older one spent.\<close>

theorem duplicate_rows_folded_witness:
  "\<exists>db2 canonical db'. table_ok plain_cipher db2 \<and> length (note_rows db2) = 2 \<and>
     prepare_note_upserts plain_cipher 7 [(replicate 32 4, 2, Sapling)] db2 = Inr (canonical, db') \<and>
     (\<exists>y. filter (of_output 7 (replicate 32 4, 2, Sapling)) (plain_notes plain_cipher db') = [y] \<and> nt_spent y)"
proof -
  let ?k = "(replicate 32 4, 2, Sapling) :: note_output"
  have i: "in_i64 50" by (simp add: in_i64_def)
  obtain r1 r2 where r: "encrypted_row plain_cipher 1 (example_note_record 50 True) = Inr r1"
      "encrypted_row plain_cipher 2 (example_note_record 50 False) = Inr r2"
    using encrypted_row_exists [OF plain_cipher_ok(2)] by metis
  note st = encrypted_row_read [OF plain_cipher_ok(1) example_note_wf [OF i] r(1)]
    encrypted_row_read [OF plain_cipher_ok(1) example_note_wf [OF i] r(2)]
  define db2 where "db2 = empty_note_db\<lparr>note_rows := [r1, r2]\<rparr>"
  have pl: "plain_notes plain_cipher db2 = [stored_note 1 (example_note_record 50 True), stored_note 2 (example_note_record 50 False)]"
    using st by (simp add: plain_notes_def plain_def db2_def)
  have t: "table_ok plain_cipher db2"
    using st example_note_wf [OF i]
    by (auto simp: table_ok_def pl) (auto simp: readable_def db2_def wf_note_def stored_note_def example_note_record_def)
  have f: "filter (of_output 7 ?k) (plain_notes plain_cipher db2) = plain_notes plain_cipher db2"
    by (simp add: pl of_output_def output_of_def stored_note_def example_note_record_def)
  from duplicate_rows_folded [OF plain_cipher_ok t, of 7 "[?k]"] obtain canonical db'
    where p: "prepare_note_upserts plain_cipher 7 [?k] db2 = Inr (canonical, db')"
      and outs: "output_of ` set canonical = {k \<in> set [?k]. filter (of_output 7 k) (plain_notes plain_cipher db2) \<noteq> []}"
      and one: "\<forall>k \<in> output_of ` set canonical. \<exists>y. filter (of_output 7 k) (plain_notes plain_cipher db') = [y] \<and>
        nt_spent y = list_ex nt_spent (filter (of_output 7 k) (plain_notes plain_cipher db2))" by blast
  have "?k \<in> output_of ` set canonical" using outs f by (auto simp: pl)
  with one f have "\<exists>y. filter (of_output 7 ?k) (plain_notes plain_cipher db') = [y] \<and> nt_spent y"
    by (force simp: pl stored_note_def example_note_record_def)
  moreover have "length (note_rows db2) = 2" by (simp add: db2_def)
  ultimately show ?thesis using t p by blast
qed

end
