(* ===== verification/NoteQueries.thy ===== *)
theory NoteQueries
  imports NoteRows
begin

text \<open>
  Queries over the notes table (\<open>repository.rs\<close>): unspent notes, the balance, and the notes a
  transaction may spend.

  A query decrypts the table row by row and stops at the first cell that fails. Several rows may
  describe one output; a spent row settles it, and otherwise the row with the highest id counts. Values of the
  Zcash crates are abstract, and the functions that make them from bytes are the record
  \<open>note_codec\<close>.
\<close>

section \<open>Unspent notes\<close>

text \<open>The columns read of a row that is not spent and has a valid value, in the order of the code.\<close>

definition unspent_candidate :: "cipher \<Rightarrow> note_row \<Rightarrow> i64 \<Rightarrow> bytes \<Rightarrow> i64 \<Rightarrow> i64 \<Rightarrow> storage_error + note_record" where
  "unspent_candidate cr r account txid out val =
     bind_res (decrypt_optional_int64 cr (nr_key_id r)) (\<lambda>key.
     bind_res (decrypt_cell cr (nr_nullifier r)) (\<lambda>nf.
     bind_res (decrypt_cell cr (nr_commitment r)) (\<lambda>cm.
     bind_res (decrypt_int64 cr (nr_height r)) (\<lambda>height.
     bind_res (decrypt_optional_cell cr (nr_spent_txid r)) (\<lambda>stx.
     bind_res (decrypt_optional_cell cr (nr_diversifier r)) (\<lambda>dv.
     bind_res (decrypt_optional_cell cr (nr_note r)) (\<lambda>nt.
     bind_res (decrypt_optional_int64 cr (nr_position r)) (\<lambda>pos.
     bind_res (decrypt_optional_cell cr (nr_memo r)) (\<lambda>memo.
     bind_res (decrypt_optional_int64 cr (nr_address_id r)) (\<lambda>addr.
       Inr \<lparr>nt_id = Some (nr_id r), nt_account_id = account, nt_key_id = key, nt_note_type = note_type_from (nr_note_type r),
         nt_value = val, nt_nullifier = nf, nt_commitment = cm, nt_spent = False, nt_height = height, nt_txid = txid,
         nt_output_index = out, nt_address_id = addr, nt_spent_txid = stx, nt_diversifier = dv, nt_note = nt,
         nt_position = pos, nt_memo = memo\<rparr>))))))))))"

type_synonym unspent_state = "note_output list \<times> (note_output \<times> note_record) list"

definition id_or_default :: "note_record \<Rightarrow> i64" where
  "id_or_default n = (case nt_id n of None \<Rightarrow> 0 | Some i \<Rightarrow> i)"

text \<open>A candidate replaces the one held for its output if its row is newer.\<close>

definition keep_latest :: "note_record \<Rightarrow> unspent_state \<Rightarrow> unspent_state" where
  "keep_latest n s =
     (case s of (spent, unspent) \<Rightarrow>
        case map_of unspent (output_of n) of
          Some existing \<Rightarrow> if id_or_default existing < id_or_default n then (spent, AList.update (output_of n) n unspent) else s
        | None \<Rightarrow> (spent, AList.update (output_of n) n unspent))"

definition unspent_step :: "cipher \<Rightarrow> i64 \<Rightarrow> note_row \<Rightarrow> unspent_state \<Rightarrow> storage_error + unspent_state" where
  "unspent_step cr account_id r s =
     (case s of (spent_outputs, unspent) \<Rightarrow>
     bind_res (decrypt_int64 cr (nr_account_id r)) (\<lambda>account.
       if account \<noteq> account_id then Inr s
       else bind_res (decrypt_cell cr (nr_txid r)) (\<lambda>txid.
            bind_res (decrypt_int64 cr (nr_output_index r)) (\<lambda>out.
            let key = (txid, out, note_type_from (nr_note_type r))
            in bind_res (decrypt_bool cr (nr_spent r)) (\<lambda>spent.
               if spent then Inr (key # spent_outputs, AList.delete key unspent)
               else if key \<in> set spent_outputs then Inr s
               else bind_res (decrypt_int64 cr (nr_value r)) (\<lambda>val.
                 if \<not> note_value_is_valid val then Inr s
                 else bind_res (unspent_candidate cr r account txid out val) (\<lambda>n. Inr (keep_latest n s))))))))"

definition get_unspent_notes :: "cipher \<Rightarrow> i64 \<Rightarrow> note_db \<Rightarrow> storage_error + note_record list" where
  "get_unspent_notes cr account_id db =
     bind_res (fold_res (unspent_step cr account_id) (note_rows db) ([], [])) (\<lambda>(_, unspent). Inr (map snd unspent))"

section \<open>Balance\<close>

text \<open>\<open>v as u64\<close>: the same 64 bits read without a sign.\<close>

definition as_u64 :: "i64 \<Rightarrow> u64" where
  "as_u64 v = word_of_int v"

definition add_balance :: "u64 \<Rightarrow> note_record \<Rightarrow> u64 \<times> u64 \<Rightarrow> storage_error + u64 \<times> u64" where
  "add_balance threshold n acc =
     (case acc of (spendable, pending) \<Rightarrow>
        if 0 < as_u64 (nt_height n) \<and> as_u64 (nt_height n) \<le> threshold
        then bind_res (ok_or (checked_add spendable (as_u64 (nt_value n))) (SStorage (Msg ''Balance overflow'' [])))
               (\<lambda>s. Inr (s, pending))
        else bind_res (ok_or (checked_add pending (as_u64 (nt_value n))) (SStorage (Msg ''Balance overflow'' [])))
               (\<lambda>p. Inr (spendable, p)))"

definition calculate_balance :: "cipher \<Rightarrow> i64 \<Rightarrow> u64 \<Rightarrow> u64 \<Rightarrow> note_db \<Rightarrow> storage_error + u64 \<times> u64 \<times> u64" where
  "calculate_balance cr account_id current_height min_depth0 db =
     bind_res (get_unspent_notes cr account_id db) (\<lambda>notes.
       let min_depth = max min_depth0 1;
           threshold = saturating_sub current_height (saturating_sub min_depth 1)
       in bind_res (fold_res (add_balance threshold) notes (0, 0)) (\<lambda>(spendable, pending).
          bind_res (ok_or (checked_add spendable pending) (SStorage (Msg ''Balance overflow'' []))) (\<lambda>tot.
            Inr (spendable, pending, tot))))"

section \<open>Notes a transaction may spend\<close>

typedecl jubjub_fr
typedecl orchard_rho
typedecl orchard_rseed

datatype sapling_rseed = AfterZip212 bytes | BeforeZip212 jubjub_fr

record note_codec =
  sapling_address_from_bytes :: "bytes \<Rightarrow> sapling_address option"
  sapling_diversifier_of :: "sapling_address \<Rightarrow> sapling_diversifier"
  jubjub_fr_from_bytes :: "bytes \<Rightarrow> jubjub_fr option"
  sapling_note_from_parts :: "sapling_address \<Rightarrow> u64 \<Rightarrow> sapling_rseed \<Rightarrow> sapling_note"
  orchard_address_from_bytes :: "bytes \<Rightarrow> orchard_address option"
  orchard_rho_from_bytes :: "bytes \<Rightarrow> orchard_rho option"
  orchard_rseed_from_bytes :: "bytes \<Rightarrow> orchard_rho \<Rightarrow> orchard_rseed option"
  orchard_note_from_parts :: "orchard_address \<Rightarrow> u64 \<Rightarrow> orchard_rho \<Rightarrow> orchard_rseed \<Rightarrow> orchard_note option"

definition slice :: "nat \<Rightarrow> nat \<Rightarrow> bytes \<Rightarrow> bytes" where
  "slice a b bs = take (b - a) (drop a bs)"

definition parse_sapling_note_bytes :: "bytes \<Rightarrow> (bytes \<times> u8 \<times> bytes) option" where
  "parse_sapling_note_bytes bs =
     (if 77 \<le> length bs \<and> bs ! 0 = 1 then Some (slice 1 44 bs, bs ! 44, slice 45 77 bs)
      else if length bs = 76 then Some (slice 0 43 bs, bs ! 43, slice 44 76 bs)
      else None)"

definition parse_orchard_note_bytes :: "bytes \<Rightarrow> (bytes \<times> bytes \<times> bytes) option" where
  "parse_orchard_note_bytes bs =
     (if 108 \<le> length bs \<and> bs ! 0 = 1 then Some (slice 1 44 bs, slice 44 76 bs, slice 76 108 bs)
      else if length bs = 107 then Some (slice 0 43 bs, slice 43 75 bs, slice 75 107 bs)
      else None)"

definition with_nullifier_bytes :: "bytes \<Rightarrow> selectable_note \<Rightarrow> selectable_note" where
  "with_nullifier_bytes nf sn = (if nf = [] then sn else with_nullifier nf sn)"

definition sapling_selectable :: "note_codec \<Rightarrow> i64 list \<Rightarrow> note_record \<Rightarrow> selectable_note option" where
  "sapling_selectable cd eligible n =
     Option.bind (Option.bind (nt_note n) parse_sapling_note_bytes) (\<lambda>(address_bytes, leadbyte, rseed_bytes).
     Option.bind (sapling_address_from_bytes cd address_bytes) (\<lambda>address.
     Option.bind (if leadbyte = 2 then Some (AfterZip212 rseed_bytes)
                  else map_option BeforeZip212 (jubjub_fr_from_bytes cd rseed_bytes)) (\<lambda>rseed.
     Option.bind (u64_try_from (nt_value n)) (\<lambda>val.
       let sn = with_key_id (nt_key_id n)
             (new_note val (nt_commitment n) (as_u64 (nt_height n)) (nt_txid n) (word_of_int (nt_output_index n)));
           sn = (case nt_position n of None \<Rightarrow> sn | Some p \<Rightarrow> if 0 \<le> p then with_sapling_position (as_u64 p) sn else sn);
           sn = sn\<lparr>auto_consolidation_eligible := (case nt_address_id n of None \<Rightarrow> False | Some a \<Rightarrow> a \<in> set eligible)\<rparr>;
           sn = with_nullifier_bytes (nt_nullifier n) sn
       in Some (sn\<lparr>diversifier := Some (sapling_diversifier_of cd address),
                   the_note := Some (sapling_note_from_parts cd address val rseed)\<rparr>)))))"

definition ironwood_selectable :: "note_codec \<Rightarrow> i64 list \<Rightarrow> note_record \<Rightarrow> selectable_note option" where
  "ironwood_selectable cd eligible n =
     Option.bind (Option.bind (nt_note n) parse_orchard_note_bytes) (\<lambda>(address_bytes, rho_bytes, rseed_bytes).
     Option.bind (orchard_address_from_bytes cd address_bytes) (\<lambda>address.
     Option.bind (orchard_rho_from_bytes cd rho_bytes) (\<lambda>rho.
     Option.bind (orchard_rseed_from_bytes cd rseed_bytes rho) (\<lambda>rseed.
     Option.bind (u64_try_from (nt_value n)) (\<lambda>val.
     Option.bind (orchard_note_from_parts cd address val rho rseed) (\<lambda>onote.
       let sn = with_key_id (nt_key_id n)
             (new_ironwood val (nt_commitment n) (as_u64 (nt_height n)) (nt_txid n) (word_of_int (nt_output_index n)));
           sn = sn\<lparr>auto_consolidation_eligible := (case nt_address_id n of None \<Rightarrow> False | Some a \<Rightarrow> a \<in> set eligible)\<rparr>;
           sn = with_nullifier_bytes (nt_nullifier n) sn
       in map_option (\<lambda>p. sn\<lparr>ironwood_position := Some (as_u64 p), ironwood_note := Some onote\<rparr>) (nt_position n)))))))"

definition selectable_of :: "note_codec \<Rightarrow> i64 list \<Rightarrow> note_record \<Rightarrow> selectable_note option" where
  "selectable_of cd eligible n =
     (case nt_note_type n of Sapling \<Rightarrow> sapling_selectable cd eligible n | Ironwood \<Rightarrow> ironwood_selectable cd eligible n)"

text \<open>Notes of an address without label and colour may be consolidated.\<close>

definition eligible_address_ids :: "address list \<Rightarrow> i64 list" where
  "eligible_address_ids addrs =
     List.map_filter (\<lambda>a. if (case ad_label a of None \<Rightarrow> True | Some l \<Rightarrow> trim l = []) \<and> ad_color_tag a = ColorNone
       then ad_id a else None) addrs"

definition passes_filters :: "i64 list option \<Rightarrow> i64 list option \<Rightarrow> note_record \<Rightarrow> bool" where
  "passes_filters key_ids address_ids n \<longleftrightarrow>
     key_ids = None \<and> address_ids = None
     \<or> (case (key_ids, nt_key_id n) of (Some ids, Some k) \<Rightarrow> k \<in> set ids | _ \<Rightarrow> False)
     \<or> (case (address_ids, nt_address_id n) of (Some ids, Some a) \<Rightarrow> a \<in> set ids | _ \<Rightarrow> False)"

definition get_unspent_selectable_notes_filtered ::
    "cipher \<Rightarrow> note_codec \<Rightarrow> address_db \<Rightarrow> i64 \<Rightarrow> i64 list option \<Rightarrow> i64 list option \<Rightarrow> note_db \<Rightarrow> storage_error + selectable_note list" where
  "get_unspent_selectable_notes_filtered cr cd adb account_id key_ids address_ids db =
     bind_res (get_unspent_notes cr account_id db) (\<lambda>notes.
     bind_res (get_all_addresses account_id adb) (\<lambda>addrs.
       Inr (List.map_filter (selectable_of cd (eligible_address_ids addrs)) (filter (passes_filters key_ids address_ids) notes))))"

definition get_unspent_selectable_notes where
  "get_unspent_selectable_notes cr cd adb account_id key_id_filter db =
     get_unspent_selectable_notes_filtered cr cd adb account_id (map_option (\<lambda>k. [k]) key_id_filter) None db"

text \<open>The repository as the source of notes the send flow reads.\<close>

definition repository_notes ::
    "cipher \<Rightarrow> note_codec \<Rightarrow> address_db \<Rightarrow> (note_type \<Rightarrow> (i64 \<times> i64 \<times> i64) list)
     \<Rightarrow> (u64 \<Rightarrow> selectable_note list \<Rightarrow> storage_error + selectable_note list) \<Rightarrow> note_db \<Rightarrow> note_source" where
  "repository_notes cr cd adb unscanned witnesses db =
     \<lparr>unspent_selectable_notes = (\<lambda>account kf af. get_unspent_selectable_notes_filtered cr cd adb account kf af db),
      unscanned_ranges = unscanned, construct_anchor_witnesses = witnesses\<rparr>"

section \<open>Which notes are unspent\<close>

text \<open>The pure step the loop makes on a readable row.\<close>

definition plain_step :: "i64 \<Rightarrow> note_record \<Rightarrow> unspent_state \<Rightarrow> unspent_state" where
  "plain_step account n s =
     (if nt_account_id n \<noteq> account then s
      else if nt_spent n then (output_of n # fst s, AList.delete (output_of n) (snd s))
      else if output_of n \<in> set (fst s) \<or> \<not> note_value_is_valid (nt_value n) then s
      else keep_latest n s)"

lemma unspent_candidate_read:
  assumes "note_of cr r = Inr n" "\<not> nt_spent n"
  shows "unspent_candidate cr r (nt_account_id n) (nt_txid n) (nt_output_index n) (nt_value n) = Inr n"
  using assms by (auto simp: note_of_def rest_of_note_def unspent_candidate_def bind_res_Inr_iff)

lemma unspent_step_read:
  assumes "readable cr rows" "r \<in> set rows"
  shows "unspent_step cr account r s = Inr (plain_step account (plain cr r) s)"
  using note_of_readable [OF assms] unspent_candidate_read [OF note_of_readable(11) [OF assms]]
  by (auto simp: unspent_step_def plain_step_def Let_def output_of_def split: prod.splits)

text \<open>A row that counts for its output, and whether a row says the output is spent.\<close>

definition counts :: "i64 \<Rightarrow> note_output \<Rightarrow> note_record \<Rightarrow> bool" where
  "counts account k n \<longleftrightarrow> of_output account k n \<and> \<not> nt_spent n \<and> note_value_is_valid (nt_value n)"

definition settled :: "i64 \<Rightarrow> note_output \<Rightarrow> note_record list \<Rightarrow> bool" where
  "settled account k ns \<longleftrightarrow> (\<exists>n \<in> set ns. of_output account k n \<and> nt_spent n)"

text \<open>
  After the rows \<open>ns\<close> the loop holds the settled outputs, and for every other output the row with
  the highest id that counts.
\<close>

definition unspent_inv :: "i64 \<Rightarrow> note_record list \<Rightarrow> unspent_state \<Rightarrow> bool" where
  "unspent_inv account ns s \<longleftrightarrow> set (fst s) = {k. settled account k ns} \<and> distinct (map fst (snd s)) \<and>
    (\<forall>k n. map_of (snd s) k = Some n \<longrightarrow> output_of n = k \<and> n \<in> set ns \<and> counts account k n \<and> \<not> settled account k ns \<and>
       (\<forall>q \<in> set ns. counts account k q \<longrightarrow> id_or_default q \<le> id_or_default n)) \<and>
    (\<forall>k. map_of (snd s) k = None \<longrightarrow> settled account k ns \<or> (\<forall>q \<in> set ns. \<not> counts account k q))"

lemma unspent_invD:
  assumes "unspent_inv account ns s"
  shows "set (fst s) = {k. settled account k ns}" "distinct (map fst (snd s))"
    "map_of (snd s) k = Some m \<Longrightarrow> output_of m = k \<and> m \<in> set ns \<and> counts account k m \<and> \<not> settled account k ns \<and>
       (\<forall>q \<in> set ns. counts account k q \<longrightarrow> id_or_default q \<le> id_or_default m)"
    "map_of (snd s) k = None \<Longrightarrow> settled account k ns \<or> (\<forall>q \<in> set ns. \<not> counts account k q)"
  using assms unfolding unspent_inv_def by blast+

lemma unspent_inv_skip:
  assumes inv: "unspent_inv account ns s"
    and st: "\<And>k. settled account k (ns @ [n]) \<longleftrightarrow> settled account k ns"
    and n: "\<And>k. \<not> counts account k n \<or> settled account k ns"
  shows "unspent_inv account (ns @ [n]) s"
  unfolding unspent_inv_def st
proof (intro conjI allI impI unspent_invD [OF inv])
  fix k m assume "map_of (snd s) k = Some m"
  from unspent_invD(3) [OF inv this] n [of k] show "output_of m = k" "m \<in> set (ns @ [n])" "counts account k m" "\<not> settled account k ns"
    "\<forall>q \<in> set (ns @ [n]). counts account k q \<longrightarrow> id_or_default q \<le> id_or_default m" by auto
next
  fix k assume "map_of (snd s) k = None"
  from unspent_invD(4) [OF inv this] n [of k] show "settled account k ns \<or> (\<forall>q \<in> set (ns @ [n]). \<not> counts account k q)" by auto
qed

lemma unspent_inv_spent:
  assumes inv: "unspent_inv account ns s" and n: "nt_account_id n = account" "nt_spent n"
  shows "unspent_inv account (ns @ [n]) (output_of n # fst s, AList.delete (output_of n) (snd s))"
proof -
  have st: "settled account k (ns @ [n]) \<longleftrightarrow> settled account k ns \<or> k = output_of n" "\<not> counts account k n" for k
    using n by (auto simp: settled_def counts_def of_output_def)
  show ?thesis unfolding unspent_inv_def
    using st unspent_invD [OF inv] by (auto simp: delete_conv' distinct_delete)
qed

lemma keep_latest_lookup:
  "fst (keep_latest n s) = fst s"
  "distinct (map fst (snd s)) \<Longrightarrow> distinct (map fst (snd (keep_latest n s)))"
  "map_of (snd (keep_latest n s)) k =
     (if k = output_of n \<and> (\<forall>m. map_of (snd s) k = Some m \<longrightarrow> id_or_default m < id_or_default n) then Some n
      else map_of (snd s) k)"
  by (auto simp: keep_latest_def distinct_update update_conv' split: prod.splits option.splits)

lemma unspent_inv_keep:
  assumes inv: "unspent_inv account ns s" and n: "nt_account_id n = account" "\<not> nt_spent n" "note_value_is_valid (nt_value n)"
    and free: "\<not> settled account (output_of n) ns"
  shows "unspent_inv account (ns @ [n]) (keep_latest n s)"
proof -
  let ?newer = "\<lambda>k. k = output_of n \<and> (\<forall>m. map_of (snd s) k = Some m \<longrightarrow> id_or_default m < id_or_default n)"
  have st: "settled account k (ns @ [n]) \<longleftrightarrow> settled account k ns" for k using n by (auto simp: settled_def)
  have c: "counts account k n \<longleftrightarrow> k = output_of n" for k using n by (auto simp: counts_def of_output_def)
  have top: "id_or_default q \<le> id_or_default n" if "?newer k" "q \<in> set ns" "counts account k q" for k q
  proof (cases "map_of (snd s) k")
    case None
    from unspent_invD(4) [OF inv this] show ?thesis using that free by blast
  next
    case (Some m)
    from unspent_invD(3) [OF inv this] that Some show ?thesis by force
  qed
  have some: "output_of m = k \<and> m \<in> set (ns @ [n]) \<and> counts account k m \<and> \<not> settled account k ns \<and>
      (\<forall>q \<in> set (ns @ [n]). counts account k q \<longrightarrow> id_or_default q \<le> id_or_default m)"
    if m: "(if ?newer k then Some n else map_of (snd s) k) = Some m" for k m
  proof (cases "?newer k")
    case True
    with m have "m = n" by simp
    with top [OF True] True free c show ?thesis by auto
  next
    case False
    with m have "map_of (snd s) k = Some m" by (simp split: if_splits)
    with unspent_invD(3) [OF inv this] False c [of k] show ?thesis by auto
  qed
  have none: "settled account k ns \<or> (\<forall>q \<in> set (ns @ [n]). \<not> counts account k q)"
    if "(if ?newer k then Some n else map_of (snd s) k) = None" for k
  proof -
    from that have "map_of (snd s) k = None" "k \<noteq> output_of n" by (auto split: if_splits)
    with unspent_invD(4) [OF inv this(1)] c [of k] show ?thesis by auto
  qed
  show ?thesis unfolding unspent_inv_def keep_latest_lookup st
    by (intro conjI allI impI unspent_invD(1) [OF inv] keep_latest_lookup(2) unspent_invD(2) [OF inv])
      (use some none in blast)+
qed

lemma unspent_inv_step:
  assumes inv: "unspent_inv account ns s"
  shows "unspent_inv account (ns @ [n]) (plain_step account n s)"
proof (cases "nt_account_id n = account \<and> \<not> nt_spent n \<and> output_of n \<notin> set (fst s) \<and> note_value_is_valid (nt_value n)")
  case True
  moreover from this have "\<not> settled account (output_of n) ns" using unspent_invD(1) [OF inv] by blast
  ultimately show ?thesis using unspent_inv_keep [OF inv] by (simp add: plain_step_def)
next
  case False
  show ?thesis
  proof (cases "nt_account_id n = account \<and> nt_spent n")
    case True
    then show ?thesis using unspent_inv_spent [OF inv] by (simp add: plain_step_def)
  next
    case other: False
    then have "plain_step account n s = s" "settled account k (ns @ [n]) \<longleftrightarrow> settled account k ns" for k
      using False by (auto simp: plain_step_def settled_def of_output_def)
    moreover have "\<not> counts account k n \<or> settled account k ns" for k
      using False other unspent_invD(1) [OF inv] by (auto simp: counts_def of_output_def)
    ultimately show ?thesis using unspent_inv_skip [OF inv] by simp
  qed
qed

lemma unspent_inv_steps: "unspent_inv account ns (fold (plain_step account) ns ([], []))"
proof (induction ns rule: rev_induct)
  case Nil
  then show ?case by (simp add: unspent_inv_def settled_def)
next
  case (snoc n ns)
  then show ?case by (simp add: unspent_inv_step)
qed


lemma get_unspent_notes_fold:
  assumes "readable cr (note_rows db)"
  shows "get_unspent_notes cr account db = Inr (map snd (snd (fold (plain_step account) (plain_notes cr db) ([], []))))"
proof -
  have "fold_res (unspent_step cr account) (note_rows db) ([], []) =
      Inr (fold (\<lambda>r. plain_step account (plain cr r)) (note_rows db) ([], []))"
    by (rule fold_res_total) (simp add: unspent_step_read [OF assms])
  then show ?thesis
    by (simp add: get_unspent_notes_def plain_notes_def fold_map comp_def case_prod_beta)
qed

lemma plain_note_id: "table_ok cr db \<Longrightarrow> n \<in> set (plain_notes cr db) \<Longrightarrow> nt_id n = Some (id_or_default n)"
  by (auto simp: table_ok_def plain_notes_def note_of_readable id_or_default_def)

lemma same_id:
  assumes "table_ok cr db" "n \<in> set (plain_notes cr db)" "m \<in> set (plain_notes cr db)" "id_or_default n = id_or_default m"
  shows "n = m"
  using assms table_ok_ids [OF assms(1)] plain_note_id [OF assms(1,2)] plain_note_id [OF assms(1,3)]
  by (metis distinct_map inj_on_def)

text \<open>The notes that are unspent: for each output that no row settles, the newest row that counts.\<close>

definition unspent_in :: "i64 \<Rightarrow> note_record list \<Rightarrow> note_record set" where
  "unspent_in account ns = {n \<in> set ns. counts account (output_of n) n \<and> \<not> settled account (output_of n) ns \<and>
     (\<forall>q \<in> set ns. counts account (output_of n) q \<longrightarrow> id_or_default q \<le> id_or_default n)}"

lemma unspent_notes_set:
  assumes "table_ok cr db"
  obtains ns where "get_unspent_notes cr account db = Inr ns" "distinct (map output_of ns)"
    "set ns = unspent_in account (plain_notes cr db)"
proof
  define ps where "ps = plain_notes cr db"
  define s where "s = fold (plain_step account) ps ([], [])"
  have inv: "unspent_inv account ps s" by (simp add: s_def unspent_inv_steps)
  have dist: "distinct (map fst (snd s))" by (rule unspent_invD(2) [OF inv])
  have out: "output_of n = k" if "(k, n) \<in> set (snd s)" for k n
    using unspent_invD(3) [OF inv] map_of_is_SomeI [OF dist that] by blast
  show "get_unspent_notes cr account db = Inr (map snd (snd s))"
    using assms by (simp add: get_unspent_notes_fold table_ok_def s_def ps_def)
  have "map output_of (map snd (snd s)) = map fst (snd s)" using out by (auto simp: map_eq_conv)
  with dist show "distinct (map output_of (map snd (snd s)))" by (simp only:)
  have "n \<in> set (map snd (snd s)) \<longleftrightarrow> n \<in> unspent_in account ps" for n
  proof
    assume "n \<in> set (map snd (snd s))"
    then obtain k where "(k, n) \<in> set (snd s)" by auto
    from unspent_invD(3) [OF inv map_of_is_SomeI [OF dist this]]
    show "n \<in> unspent_in account ps" by (auto simp: unspent_in_def)
  next
    assume n: "n \<in> unspent_in account ps"
    then have "map_of (snd s) (output_of n) \<noteq> None"
      using unspent_invD(4) [OF inv, of "output_of n"] by (auto simp: unspent_in_def)
    then obtain m where m: "map_of (snd s) (output_of n) = Some m" by blast
    note u = unspent_invD(3) [OF inv m]
    have "id_or_default n \<le> id_or_default m" "id_or_default m \<le> id_or_default n" using u n by (auto simp: unspent_in_def)
    then have "id_or_default m = id_or_default n" by simp
    then have "m = n" using same_id [OF assms] u n by (auto simp: unspent_in_def ps_def)
    with map_of_SomeD [OF m] show "n \<in> set (map snd (snd s))" by force
  qed
  then show "set (map snd (snd s)) = unspent_in account (plain_notes cr db)" unfolding ps_def by blast
qed

text \<open>
  Property C11. The unspent notes of an account are exact: on a readable table the query succeeds and
  returns each output at most once, namely those that some row of the account with a value between 1
  and the money supply describes and no row marks as spent, each with its newest such row.
\<close>

theorem unspent_notes_exact:
  assumes "table_ok cr db"
  shows "\<exists>ns. get_unspent_notes cr account db = Inr ns \<and> distinct (map output_of ns) \<and>
    set ns = {n \<in> set (plain_notes cr db).
      nt_account_id n = account \<and> \<not> nt_spent n \<and> 0 < nt_value n \<and> nt_value n \<le> uint (max_money consensus_mainnet) \<and>
      (\<forall>q \<in> set (plain_notes cr db). nt_account_id q = account \<and> output_of q = output_of n \<longrightarrow>
         \<not> nt_spent q \<and> (note_value_is_valid (nt_value q) \<longrightarrow> the (nt_id q) \<le> the (nt_id n)))}"
proof -
  obtain ns where ns: "get_unspent_notes cr account db = Inr ns" "distinct (map output_of ns)"
    "set ns = unspent_in account (plain_notes cr db)" using unspent_notes_set [OF assms] by blast
  have i: "id_or_default n = the (nt_id n)" if "n \<in> set (plain_notes cr db)" for n
    using plain_note_id [OF assms that] by simp
  show ?thesis
    by (intro exI [of _ ns] conjI ns(1,2), unfold ns(3) unspent_in_def)
      (auto simp: counts_def settled_def of_output_def note_value_is_valid_def i)
qed

section \<open>The balance\<close>

lemma uint_as_u64: "0 \<le> v \<Longrightarrow> v < 2 ^ 64 \<Longrightarrow> uint (as_u64 v) = v"
  by (simp add: as_u64_def uint_word_of_int)

lemma as_u64_negative: "v < 0 \<Longrightarrow> in_i64 v \<Longrightarrow> 2 ^ 63 \<le> uint (as_u64 v)"
proof -
  assume "v < 0" "in_i64 v"
  then have "(v + 2 ^ 64) mod 2 ^ 64 = v + 2 ^ 64" by (intro mod_pos_pos_trivial) (auto simp: in_i64_def)
  then have "v mod 2 ^ 64 = v + 2 ^ 64" by simp
  with \<open>in_i64 v\<close> show ?thesis by (simp add: as_u64_def uint_word_of_int in_i64_def)
qed

text \<open>A note counts as spendable with \<open>depth\<close> confirmations at the tip \<open>current\<close>.\<close>

definition confirmed :: "u64 \<Rightarrow> u64 \<Rightarrow> note_record \<Rightarrow> bool" where
  "confirmed current depth n \<longleftrightarrow> 0 < nt_height n \<and> nt_height n + max (uint depth) 1 - 1 \<le> uint current"

lemma confirmed_threshold:
  assumes "uint current < 2 ^ 63" "in_i64 (nt_height n)"
  shows "0 < as_u64 (nt_height n) \<and>
      as_u64 (nt_height n) \<le> saturating_sub current (saturating_sub (max depth 1) 1) \<longleftrightarrow> confirmed current depth n"
proof -
  let ?t = "saturating_sub current (saturating_sub (max depth 1) 1)"
  have t: "uint ?t = max 0 (uint current - (max (uint depth) 1 - 1))"
  proof -
    have "unat ?t = unat current - (max (unat depth) 1 - 1)" by (simp add: unat_ops)
    then have "int (unat ?t) = max 0 (int (unat current) - (max (int (unat depth)) 1 - 1))" by arith
    then show ?thesis by (simp only: uint_nat)
  qed
  show ?thesis
  proof (cases "0 \<le> nt_height n")
    case True
    with assms(2) have "uint (as_u64 (nt_height n)) = nt_height n" by (simp add: uint_as_u64 in_i64_def)
    then show ?thesis unfolding word_less_def word_le_def t by (auto simp: confirmed_def)
  next
    case False
    with as_u64_negative [OF _ assms(2)] have "2 ^ 63 \<le> uint (as_u64 (nt_height n))" by simp
    with assms(1) False show ?thesis unfolding word_less_def word_le_def t by (auto simp: confirmed_def)
  qed
qed

definition note_value_sum :: "(note_record \<Rightarrow> bool) \<Rightarrow> note_record list \<Rightarrow> int" where
  "note_value_sum P ns = sum_list (map nt_value (filter P ns))"


lemma note_value_sum_split: "note_value_sum P ns + note_value_sum (\<lambda>n. \<not> P n) ns = sum_list (map nt_value ns)"
  by (induction ns) (auto simp: note_value_sum_def)

lemma note_value_sum_nonneg: "\<forall>n \<in> set ns. 0 \<le> nt_value n \<Longrightarrow> 0 \<le> note_value_sum P ns"
  by (auto simp: note_value_sum_def intro!: sum_list_nonneg)

lemma uint_of_int_u64: "0 \<le> a \<Longrightarrow> a < 2 ^ 64 \<Longrightarrow> uint (word_of_int a :: u64) = a"
  by (simp add: uint_word_of_int)

lemma len64: "LENGTH(64) = 64"
  by simp

lemma checked_add_as_u64:
  fixes a :: u64
  assumes "0 \<le> v" "v < 2 ^ 64"
  shows "checked_add a (as_u64 v) = (if uint a + v < 2 ^ 64 then Some (word_of_int (uint a + v)) else None)"
proof -
  have "unat a + unat (as_u64 v) < 2 ^ 64 \<longleftrightarrow> uint a + uint (as_u64 v) < 2 ^ 64"
    by (simp only: uint_nat of_nat_add [symmetric] of_nat_less_numeral_power_cancel_iff)
  then have "unat a + unat (as_u64 v) < 2 ^ 64 \<longleftrightarrow> uint a + v < 2 ^ 64" using assms by (simp only: uint_as_u64)
  moreover have "a + as_u64 v = word_of_int (uint a + v)" by (simp add: as_u64_def)
  moreover note len64
  ultimately show ?thesis unfolding checked_add_def by (simp only:)
qed

lemma balance_loop:
  assumes "\<forall>n \<in> set ns. 0 \<le> nt_value n \<and> nt_value n < 2 ^ 64"
    and "\<And>n. n \<in> set ns \<Longrightarrow> (0 < as_u64 (nt_height n) \<and> as_u64 (nt_height n) \<le> threshold) = P n"
  shows "fold_res (add_balance threshold) ns (s, p) =
    (if uint s + note_value_sum P ns < 2 ^ 64 \<and> uint p + note_value_sum (\<lambda>n. \<not> P n) ns < 2 ^ 64
     then Inr (word_of_int (uint s + note_value_sum P ns), word_of_int (uint p + note_value_sum (\<lambda>n. \<not> P n) ns))
     else Inl (SStorage (Msg ''Balance overflow'' [])))"
  using assms
proof (induction ns arbitrary: s p)
  case Nil
  have "uint s < 2 ^ 64" "uint p < 2 ^ 64" using uint_lt2p [of s] uint_lt2p [of p] by simp_all
  then show ?case by (simp add: note_value_sum_def)
next
  case (Cons n ns)
  have v: "0 \<le> nt_value n" "nt_value n < 2 ^ 64" using Cons.prems(1) by simp_all
  have nn: "0 \<le> note_value_sum Q ns" for Q by (rule note_value_sum_nonneg) (use Cons.prems(1) in simp)
  have u: "uint (word_of_int (uint a + nt_value n) :: u64) = uint a + nt_value n" if "uint a + nt_value n < 2 ^ 64" for a :: u64
    by (rule uint_of_int_u64) (use that v in auto)
  have hd: "(0 < as_u64 (nt_height n) \<and> as_u64 (nt_height n) \<le> threshold) = P n" using Cons.prems(2) by simp
  have IH: "fold_res (add_balance threshold) ns (s, p) =
    (if uint s + note_value_sum P ns < 2 ^ 64 \<and> uint p + note_value_sum (\<lambda>n. \<not> P n) ns < 2 ^ 64
     then Inr (word_of_int (uint s + note_value_sum P ns), word_of_int (uint p + note_value_sum (\<lambda>n. \<not> P n) ns))
     else Inl (SStorage (Msg ''Balance overflow'' [])))" for s p
    by (rule Cons.IH) (use Cons.prems in auto)
  have vs: "note_value_sum Q (n # ns) = (if Q n then nt_value n else 0) + note_value_sum Q ns" for Q by (simp add: note_value_sum_def)
  define over where "over = SStorage (Msg ''Balance overflow'' [])"
  have step: "add_balance threshold n (s, p) =
      (if P n then if uint s + nt_value n < 2 ^ 64 then Inr (word_of_int (uint s + nt_value n), p) else Inl over
       else if uint p + nt_value n < 2 ^ 64 then Inr (s, word_of_int (uint p + nt_value n)) else Inl over)"
    unfolding add_balance_def prod.case hd checked_add_as_u64 [OF v] over_def by (simp del: of_int_add)
  show ?case
    using nn [of P] nn [of "\<lambda>n. \<not> P n"] unfolding fold_res.simps step vs
    by (cases "P n"; cases "uint s + nt_value n < 2 ^ 64"; cases "uint p + nt_value n < 2 ^ 64")
      (simp_all add: IH u add.assoc over_def del: of_int_add)
qed

text \<open>
  Property C14. The balance is exact: the spendable part is the sum of the unspent notes that have at
  least the asked number of confirmations (never less than one), the pending part the sum of the
  others, the total their sum; if the total does not fit in 64 bits the call fails instead of wrapping.
\<close>

theorem balance_exact:
  assumes "table_ok cr db" "uint current < 2 ^ 63"
  shows "\<exists>ns. get_unspent_notes cr account db = Inr ns \<and>
    calculate_balance cr account current depth db =
      (let T = sum_list (map nt_value ns);
           S = sum_list (map nt_value (filter (\<lambda>n. 0 < nt_height n \<and> nt_height n + max (uint depth) 1 - 1 \<le> uint current) ns))
       in if T < 2 ^ 64 then Inr (word_of_int S, word_of_int (T - S), word_of_int T)
          else Inl (SStorage (Msg ''Balance overflow'' [])))"
proof -
  obtain ns where ns: "get_unspent_notes cr account db = Inr ns" "set ns = unspent_in account (plain_notes cr db)"
    by (rule unspent_notes_set [OF assms(1), where account = account])
  let ?P = "confirmed current depth" and ?N = "\<lambda>n. \<not> confirmed current depth n"
  have "uint (max_money consensus_mainnet) < 2 ^ 64" using uint_lt2p [of "max_money consensus_mainnet"] by (simp only: len64)
  then have v: "\<forall>n \<in> set ns. 0 \<le> nt_value n \<and> nt_value n < 2 ^ 64"
    unfolding ns(2) by (simp add: unspent_in_def counts_def note_value_is_valid_def)
  have h: "(0 < as_u64 (nt_height n) \<and> as_u64 (nt_height n) \<le> saturating_sub current (saturating_sub (max depth 1) 1)) = ?P n"
    if "n \<in> set ns" for n
    by (rule confirmed_threshold [OF assms(2)]) (use that assms(1) in \<open>simp add: ns(2) unspent_in_def table_ok_def wf_note_def\<close>)
  define S where "S = note_value_sum ?P ns"
  define N where "N = note_value_sum ?N ns"
  have "\<forall>n \<in> set ns. 0 \<le> nt_value n" using v by blast
  note nn = note_value_sum_nonneg [OF this, of ?P, folded S_def] note_value_sum_nonneg [OF this, of ?N, folded N_def]
  have T: "sum_list (map nt_value ns) = S + N" using note_value_sum_split [of ?P ns] by (simp add: S_def N_def)
  have S': "S = sum_list (map nt_value (filter (\<lambda>n. 0 < nt_height n \<and> nt_height n + max (uint depth) 1 - 1 \<le> uint current) ns))"
    by (simp add: S_def note_value_sum_def confirmed_def [abs_def])
  have u: "uint (word_of_int a :: u64) = a" if "0 \<le> a" "a < 2 ^ 64" for a using that by (rule uint_of_int_u64)
  have loop: "fold_res (add_balance (saturating_sub current (saturating_sub (max depth 1) 1))) ns (0, 0) =
      (if S < 2 ^ 64 \<and> N < 2 ^ 64 then Inr (word_of_int S, word_of_int N) else Inl (SStorage (Msg ''Balance overflow'' [])))"
    using balance_loop [OF v h, where s = 0 and p = 0] unfolding S_def N_def uint_0_eq add_0 .
  have "calculate_balance cr account current depth db =
      (if S + N < 2 ^ 64 then Inr (word_of_int S, word_of_int N, word_of_int (S + N)) else Inl (SStorage (Msg ''Balance overflow'' [])))"
  proof (cases "S < 2 ^ 64 \<and> N < 2 ^ 64")
    case True
    have "checked_add (word_of_int S) (word_of_int N :: u64) = (if S + N < 2 ^ 64 then Some (word_of_int (S + N)) else None)"
      using checked_add_as_u64 [OF nn(2), of "word_of_int S"] True unfolding u [OF nn(1) conjunct1 [OF True]] as_u64_def by blast
    with True show ?thesis by (simp add: calculate_balance_def ns(1) Let_def loop)
  next
    case False
    with nn have "\<not> S + N < 2 ^ 64" by linarith
    then show ?thesis using loop [unfolded if_not_P [OF False]] by (simp add: calculate_balance_def ns(1) Let_def)
  qed
  then show ?thesis unfolding S' [symmetric] Let_def by (intro exI [of _ ns] conjI ns(1)) (simp add: T S' [symmetric])
qed


section \<open>Selectable notes\<close>

lemmas note_builder_defs = new_note_def new_ironwood_def with_key_id_def with_sapling_position_def with_nullifier_def with_nullifier_bytes_def

text \<open>How a selectable note describes the stored note it was made from.\<close>

definition describes :: "note_record \<Rightarrow> selectable_note \<Rightarrow> bool" where
  "describes n sn \<longleftrightarrow> note_type sn = nt_note_type n \<and> uint (note_value sn) = nt_value n \<and> commitment sn = nt_commitment n
     \<and> note_height sn = as_u64 (nt_height n) \<and> note_txid sn = nt_txid n \<and> output_index sn = word_of_int (nt_output_index n)
     \<and> key_id sn = nt_key_id n \<and> nullifier sn = (if nt_nullifier n = [] then None else Some (nt_nullifier n))"

lemma u64_of_valid: "note_value_is_valid v \<Longrightarrow> u64_try_from v = Some w \<Longrightarrow> uint w = v"
  using uint_lt2p [of "max_money consensus_mainnet"]
  by (auto simp: note_value_is_valid_def u64_try_from_def intro!: uint_of_int_u64 split: if_splits)

lemma selectable_of_describes:
  assumes "selectable_of cd eligible n = Some sn" "note_value_is_valid (nt_value n)"
  shows "describes n sn"
proof (cases "nt_note_type n")
  case Sapling
  with assms obtain v where v: "u64_try_from (nt_value n) = Some v" and f: "note_type sn = Sapling" "note_value sn = v"
      "commitment sn = nt_commitment n" "note_height sn = as_u64 (nt_height n)" "note_txid sn = nt_txid n"
      "output_index sn = word_of_int (nt_output_index n)" "key_id sn = nt_key_id n"
      "nullifier sn = (if nt_nullifier n = [] then None else Some (nt_nullifier n))"
    by (auto simp: selectable_of_def sapling_selectable_def Let_def note_builder_defs bind_eq_Some_conv split: option.splits if_splits)
  then show ?thesis using Sapling u64_of_valid [OF assms(2) v] by (simp add: describes_def)
next
  case Ironwood
  with assms obtain v where v: "u64_try_from (nt_value n) = Some v" and f: "note_type sn = Ironwood" "note_value sn = v"
      "commitment sn = nt_commitment n" "note_height sn = as_u64 (nt_height n)" "note_txid sn = nt_txid n"
      "output_index sn = word_of_int (nt_output_index n)" "key_id sn = nt_key_id n"
      "nullifier sn = (if nt_nullifier n = [] then None else Some (nt_nullifier n))"
    by (auto simp: selectable_of_def ironwood_selectable_def Let_def note_builder_defs bind_eq_Some_conv split: if_splits)
  then show ?thesis using Ironwood u64_of_valid [OF assms(2) v] by (simp add: describes_def)
qed

lemma map_filter_set: "y \<in> set (List.map_filter f xs) \<longleftrightarrow> (\<exists>x \<in> set xs. f x = Some y)"
  by (induction xs) (auto simp: List.map_filter_simps split: option.splits)


text \<open>
  Observation. The notes offered for spending are the unspent notes that pass the key and address filters
  and whose stored bytes decode; each carries the value, nullifier, commitment, transaction, output,
  height and key of its note, so nothing spent or of another key is offered.
\<close>

lemma selectable_notes_of_unspent:
  assumes "table_ok cr db" "get_all_addresses account adb = Inr addrs"
  shows "\<exists>ns sns. get_unspent_notes cr account db = Inr ns \<and>
    get_unspent_selectable_notes_filtered cr cd adb account kf af db = Inr sns \<and>
    (\<forall>n \<in> set ns. \<forall>sn. passes_filters kf af n \<and> selectable_of cd (eligible_address_ids addrs) n = Some sn \<longrightarrow> sn \<in> set sns) \<and>
    (\<forall>sn \<in> set sns. \<exists>n \<in> set ns. passes_filters kf af n \<and> describes n sn)"
proof -
  obtain ns where ns: "get_unspent_notes cr account db = Inr ns" "set ns = unspent_in account (plain_notes cr db)"
    by (rule unspent_notes_set [OF assms(1), where account = account])
  define sns where "sns = List.map_filter (selectable_of cd (eligible_address_ids addrs)) (filter (passes_filters kf af) ns)"
  have "get_unspent_selectable_notes_filtered cr cd adb account kf af db = Inr sns"
    using assms(2) ns(1) by (simp add: get_unspent_selectable_notes_filtered_def sns_def)
  moreover have "\<exists>n \<in> set ns. passes_filters kf af n \<and> describes n sn" if sn: "sn \<in> set sns" for sn
  proof -
    from sn obtain n where n: "n \<in> set ns" "passes_filters kf af n" "selectable_of cd (eligible_address_ids addrs) n = Some sn"
      unfolding sns_def map_filter_set by auto
    then have "note_value_is_valid (nt_value n)" using ns(2) by (simp add: unspent_in_def counts_def)
    with n selectable_of_describes show ?thesis by blast
  qed
  moreover have "sn \<in> set sns" if "n \<in> set ns" "passes_filters kf af n" "selectable_of cd (eligible_address_ids addrs) n = Some sn" for n sn
    unfolding sns_def map_filter_set using that by auto
  ultimately show ?thesis by (intro exI [of _ ns] exI [of _ sns] conjI ns(1) ballI allI impI) (elim conjE | assumption)+
qed

section \<open>Examples\<close>

text \<open>A table holding given notes, under the identity cipher.\<close>

definition table_of :: "note_record list \<Rightarrow> note_db" where
  "table_of ns = empty_note_db\<lparr>note_rows := map (\<lambda>k. projr (encrypted_row plain_cipher (int k + 1) (ns ! k))) [0..<length ns],
     note_seq := int (length ns)\<rparr>"

lemma table_of_ok:
  assumes "\<forall>n \<in> set ns. wf_note n"
  shows "table_ok plain_cipher (table_of ns)"
    and "plain_notes plain_cipher (table_of ns) = map (\<lambda>k. stored_note (int k + 1) (ns ! k)) [0..<length ns]"
    and "note_seq (table_of ns) = int (length ns)"
proof -
  define row where "row k = projr (encrypted_row plain_cipher (int k + 1) (ns ! k))" for k
  have r: "note_of plain_cipher (row k) = Inr (stored_note (int k + 1) (ns ! k)) \<and> nr_id (row k) = int k + 1" if "k < length ns" for k
  proof -
    obtain q where q: "encrypted_row plain_cipher (int k + 1) (ns ! k) = Inr q"
      using encrypted_row_exists [OF plain_cipher_ok(2)] by blast
    have "wf_note (ns ! k)" using assms that by simp
    from encrypted_row_read [OF plain_cipher_ok(1) this q] q show ?thesis by (simp add: row_def)
  qed
  have rows: "note_rows (table_of ns) = map row [0..<length ns]" by (simp add: table_of_def row_def)
  show pl: "plain_notes plain_cipher (table_of ns) = map (\<lambda>k. stored_note (int k + 1) (ns ! k)) [0..<length ns]"
    using r by (simp add: plain_notes_def rows plain_def)
  have "distinct (map nr_id (note_rows (table_of ns)))" using r by (auto simp: rows distinct_map inj_on_def)
  then show "table_ok plain_cipher (table_of ns)"
    using r assms by (auto simp: table_ok_def pl) (auto simp: readable_def rows wf_note_def stored_note_def)
  show "note_seq (table_of ns) = int (length ns)" by (simp add: table_of_def)
qed

text \<open>A spent note, its older unspent duplicate, and another output that is unspent.\<close>

definition example_notes :: "note_record list" where
  "example_notes = [example_note_record 50 False, example_note_record 50 True, (example_note_record 60 False)\<lparr>nt_output_index := 3\<rparr>]"

lemma example_notes_wf: "\<forall>n \<in> set example_notes. wf_note n"
  by (simp add: example_notes_def wf_note_def example_note_record_def) (simp add: in_i64_def)

lemmas example_table = table_of_ok [OF example_notes_wf]

lemma example_plain: "plain_notes plain_cipher (table_of example_notes) =
  [stored_note 1 (example_note_record 50 False), stored_note 2 (example_note_record 50 True),
   (stored_note 3 (example_note_record 60 False))\<lparr>nt_output_index := 3\<rparr>]"
  by (simp add: example_table) (simp add: example_notes_def stored_note_def upt_rec)

lemma max_money_mainnet: "60 \<le> uint (max_money consensus_mainnet)"
  by (simp add: consensus_mainnet_def)

lemma singleton_list: "distinct xs \<Longrightarrow> set xs = {x} \<Longrightarrow> xs = [x]"
proof (cases xs)
  case (Cons y ys)
  assume "distinct xs" "set xs = {x}"
  with Cons have "y = x" "set ys \<subseteq> {x}" "x \<notin> set ys" by auto
  then have "set ys = {}" by (auto simp: subset_singleton_iff)
  with \<open>y = x\<close> Cons show ?thesis by simp
qed simp

lemma example_fields:
  fixes k v spent
  defines "n \<equiv> stored_note k (example_note_record v spent)"
  shows "nt_account_id n = 7" "nt_spent n = spent" "nt_value n = v" "nt_id n = Some k" "nt_height n = 100"
    "output_of n = (replicate 32 4, 2, Sapling)" "output_of (n\<lparr>nt_output_index := 3\<rparr>) = (replicate 32 4, 3, Sapling)"
  by (simp_all only: n_def stored_note_def example_note_record_def output_of_def note_record.simps)

theorem unspent_notes_exact_witness:
  "\<exists>ns. get_unspent_notes plain_cipher 7 (table_of example_notes) = Inr ns \<and> map nt_value ns = [60]"
proof -
  let ?m = "(stored_note 3 (example_note_record 60 False))\<lparr>nt_output_index := 3\<rparr>"
  obtain ns where ns: "get_unspent_notes plain_cipher 7 (table_of example_notes) = Inr ns" "distinct (map output_of ns)"
    "set ns = {n \<in> set (plain_notes plain_cipher (table_of example_notes)).
      nt_account_id n = 7 \<and> \<not> nt_spent n \<and> 0 < nt_value n \<and> nt_value n \<le> uint (max_money consensus_mainnet) \<and>
      (\<forall>q \<in> set (plain_notes plain_cipher (table_of example_notes)). nt_account_id q = 7 \<and> output_of q = output_of n \<longrightarrow>
         \<not> nt_spent q \<and> (note_value_is_valid (nt_value q) \<longrightarrow> the (nt_id q) \<le> the (nt_id n)))}"
    using unspent_notes_exact [OF example_table(1), of 7] by (elim exE conjE) (rule that)
  have "set ns = {?m}" unfolding ns(3) example_plain
    using max_money_mainnet by (auto simp: example_fields)
  moreover have "distinct ns" using ns(2) by (simp add: distinct_map)
  ultimately have "ns = [?m]" by (intro singleton_list)
  then show ?thesis using ns(1) by (simp add: example_fields)
qed

lemma example_unspent:
  "get_unspent_notes plain_cipher 7 (table_of example_notes) = Inr [(stored_note 3 (example_note_record 60 False))\<lparr>nt_output_index := 3\<rparr>]"
  using example_table(1) max_money_mainnet
  by (simp add: get_unspent_notes_fold table_ok_def example_plain plain_step_def example_fields keep_latest_def note_value_is_valid_def)

theorem balance_exact_witness:
  "calculate_balance plain_cipher 7 109 10 (table_of example_notes) = Inr (60, 0, 60) \<and>
   calculate_balance plain_cipher 7 108 10 (table_of example_notes) = Inr (0, 60, 60)"
  using balance_exact [OF example_table(1), of 109 7 10] balance_exact [OF example_table(1), of 108 7 10]
  by (simp add: example_unspent example_fields)

text \<open>A note whose 76 bytes decode, under a codec that accepts all bytes.\<close>

definition example_codec :: note_codec where
  "example_codec = \<lparr>sapling_address_from_bytes = (\<lambda>_. Some undefined), sapling_diversifier_of = (\<lambda>_. undefined),
     jubjub_fr_from_bytes = (\<lambda>_. None), sapling_note_from_parts = (\<lambda>_ _ _. undefined), orchard_address_from_bytes = (\<lambda>_. None),
     orchard_rho_from_bytes = (\<lambda>_. None), orchard_rseed_from_bytes = (\<lambda>_ _. None), orchard_note_from_parts = (\<lambda>_ _ _ _. None)\<rparr>"

definition spendable_note :: note_record where
  "spendable_note = (example_note_record 60 False)\<lparr>nt_note := Some (replicate 43 1 @ [2] @ replicate 32 3)\<rparr>"

lemma spendable_note_fields:
  "nt_account_id (stored_note 1 spendable_note) = 7" "nt_spent (stored_note 1 spendable_note) = False"
  "nt_value (stored_note 1 spendable_note) = 60" "nt_note_type (stored_note 1 spendable_note) = Sapling"
  "nt_note (stored_note 1 spendable_note) = Some (replicate 43 1 @ [2] @ replicate 32 3)"
  "nt_key_id (stored_note 1 spendable_note) = Some 3"
  by (simp_all only: spendable_note_def stored_note_def example_note_record_def note_record.simps option.case)

lemma spendable_note_wf: "\<forall>n \<in> set [spendable_note]. wf_note n"
  by (simp add: spendable_note_def wf_note_def example_note_record_def) (simp add: in_i64_def)

lemma spendable_note_unspent: "get_unspent_notes plain_cipher 7 (table_of [spendable_note]) = Inr [stored_note 1 spendable_note]"
  using table_of_ok(1) [OF spendable_note_wf] max_money_mainnet
  by (simp add: get_unspent_notes_fold table_ok_def table_of_ok(2) [OF spendable_note_wf] plain_step_def spendable_note_fields
      keep_latest_def note_value_is_valid_def)

theorem selectable_notes_of_unspent_witness:
  "\<exists>sns. get_unspent_selectable_notes_filtered plain_cipher example_codec \<lparr>address_rows = [], preference_rows = []\<rparr> 7 (Some [3]) None (table_of [spendable_note]) = Inr sns \<and>
     (\<exists>sn \<in> set sns. uint (note_value sn) = 60 \<and> key_id sn = Some 3)"
proof -
  have p: "passes_filters (Some [3]) None (stored_note 1 spendable_note)" by (simp add: passes_filters_def spendable_note_fields)
  have "parse_sapling_note_bytes (replicate 43 1 @ [2] @ replicate 32 3) = Some (replicate 43 1, 2, replicate 32 3)"
    by (simp add: parse_sapling_note_bytes_def slice_def nth_append)
  then obtain sn where sn: "selectable_of example_codec (eligible_address_ids []) (stored_note 1 spendable_note) = Some sn"
    by (simp add: selectable_of_def sapling_selectable_def spendable_note_fields example_codec_def u64_try_from_def Let_def)
  have a: "get_all_addresses 7 \<lparr>address_rows = [], preference_rows = []\<rparr> = Inr []" by (simp add: get_all_addresses_def)
  from selectable_notes_of_unspent [OF table_of_ok(1) [OF spendable_note_wf] a, of example_codec "Some [3]" None]
  obtain sns where sns: "get_unspent_selectable_notes_filtered plain_cipher example_codec \<lparr>address_rows = [], preference_rows = []\<rparr> 7 (Some [3]) None (table_of [spendable_note]) = Inr sns"
    "sn \<in> set sns" "\<forall>sn \<in> set sns. \<exists>n \<in> {stored_note 1 spendable_note}. passes_filters (Some [3]) None n \<and> describes n sn"
    unfolding spendable_note_unspent using p sn by auto
  then show ?thesis by (auto simp: describes_def spendable_note_fields)
qed

end
