(* ===== verification/NoteSpends.thy ===== *)
theory NoteSpends
  imports NoteQueries SendCaches "HOL-Library.List_Lexorder"
begin

text \<open>
  How notes become spent and unspent again (\<open>repository.rs\<close>): marking by nullifier or by row, spends
  seen before their note, the wallet's own outgoing transactions and the release of the notes of one that
  expired, transaction rows and memos.

  A writing loop that stops at an error inside \<open>BEGIN IMMEDIATE\<close> without a rollback leaves its
  changes in the open transaction, where the connection sees them; such an operation returns the
  database beside its result. Operations that roll back return the database only on success. Row counts are natural numbers.
\<close>

section \<open>Marking notes spent\<close>

text \<open>A loop over rows that writes as it goes.\<close>

fun fold_db :: "('r \<Rightarrow> 'a \<Rightarrow> note_db \<Rightarrow> note_db \<times> (storage_error + 'a)) \<Rightarrow> 'r list \<Rightarrow> 'a \<Rightarrow> note_db \<Rightarrow> note_db \<times> (storage_error + 'a)" where
  "fold_db f [] a db = (db, Inr a)"
| "fold_db f (x # xs) a db = (case f x a db of (db', Inl e) \<Rightarrow> (db', Inl e) | (db', Inr a') \<Rightarrow> fold_db f xs a' db')"

definition update_note_row :: "i64 \<Rightarrow> (note_row \<Rightarrow> note_row) \<Rightarrow> note_db \<Rightarrow> note_db" where
  "update_note_row i f db = db\<lparr>note_rows := map (\<lambda>r. if nr_id r = i then f r else r) (note_rows db)\<rparr>"

text \<open>
  The check each loop makes of a row, in the order of the code: account, nullifier, then the flag. \<open>Some\<close>
  carries the nullifier and whether the row is spent.
\<close>

definition wanted_row :: "cipher \<Rightarrow> i64 \<Rightarrow> (bytes \<Rightarrow> bool) \<Rightarrow> note_row \<Rightarrow> storage_error + (bytes \<times> bool) option" where
  "wanted_row cr account_id wanted r =
     bind_res (decrypt_int64 cr (nr_account_id r)) (\<lambda>account.
       if account \<noteq> account_id then Inr None
       else bind_res (decrypt_cell cr (nr_nullifier r)) (\<lambda>nf.
            if \<not> wanted nf then Inr None
            else bind_res (decrypt_bool cr (nr_spent r)) (\<lambda>spent. Inr (Some (nf, spent)))))"

text \<open>One nullifier: the first row already spent ends the loop.\<close>

fun mark_rows_until_spent :: "cipher \<Rightarrow> i64 \<Rightarrow> bytes \<Rightarrow> bytes \<Rightarrow> note_row list \<Rightarrow> bool \<Rightarrow> note_db \<Rightarrow> note_db \<times> (storage_error + bool)" where
  "mark_rows_until_spent cr account_id nf cell [] updated db = (db, Inr updated)"
| "mark_rows_until_spent cr account_id nf cell (r # rs) updated db =
     (case wanted_row cr account_id (\<lambda>v. v = nf) r of
        Inl e \<Rightarrow> (db, Inl e)
      | Inr None \<Rightarrow> mark_rows_until_spent cr account_id nf cell rs updated db
      | Inr (Some (_, spent)) \<Rightarrow>
          if spent then (db, Inr True)
          else mark_rows_until_spent cr account_id nf cell rs True (update_note_row (nr_id r) (\<lambda>r. r\<lparr>nr_spent := cell\<rparr>) db))"

definition mark_note_spent_by_nullifier :: "cipher \<Rightarrow> i64 \<Rightarrow> bytes \<Rightarrow> note_db \<Rightarrow> note_db \<times> (storage_error + bool)" where
  "mark_note_spent_by_nullifier cr account_id nf db =
     (case encrypt_bool cr True of
        Inl e \<Rightarrow> (db, Inl e)
      | Inr cell \<Rightarrow> mark_rows_until_spent cr account_id nf cell (note_rows db) False db)"

text \<open>The row is spent by \<open>txid\<close>; the flag is only written where it was not set.\<close>

definition set_spent_by :: "i64 \<Rightarrow> bool \<Rightarrow> bytes \<Rightarrow> bytes \<Rightarrow> note_db \<Rightarrow> note_db" where
  "set_spent_by i spent cell txid_cell =
     update_note_row i (\<lambda>r. if spent then r\<lparr>nr_spent_txid := Some txid_cell\<rparr> else r\<lparr>nr_spent := cell, nr_spent_txid := Some txid_cell\<rparr>)"

definition mark_note_spent_by_nullifier_with_txid ::
    "cipher \<Rightarrow> i64 \<Rightarrow> bytes \<Rightarrow> bytes \<Rightarrow> note_db \<Rightarrow> note_db \<times> (storage_error + bool)" where
  "mark_note_spent_by_nullifier_with_txid cr account_id nf txid db =
     (case encrypt_bool cr True of
        Inl e \<Rightarrow> (db, Inl e)
      | Inr cell \<Rightarrow> (case encrypt_blob cr txid of
          Inl e \<Rightarrow> (db, Inl e)
        | Inr txid_cell \<Rightarrow>
            fold_db (\<lambda>r updated d. case wanted_row cr account_id (\<lambda>v. v = nf) r of
                Inl e \<Rightarrow> (d, Inl e)
              | Inr None \<Rightarrow> (d, Inr updated)
              | Inr (Some (_, spent)) \<Rightarrow> (set_spent_by (nr_id r) spent cell txid_cell d, Inr True)) (note_rows db) False db))"

definition mark_notes_spent_by_nullifiers :: "cipher \<Rightarrow> i64 \<Rightarrow> bytes list \<Rightarrow> note_db \<Rightarrow> note_db \<times> (storage_error + nat)" where
  "mark_notes_spent_by_nullifiers cr account_id nullifiers db =
     (if nullifiers = [] then (db, Inr 0)
      else case encrypt_bool cr True of
        Inl e \<Rightarrow> (db, Inl e)
      | Inr cell \<Rightarrow>
          fold_db (\<lambda>r k d. case wanted_row cr account_id (\<lambda>v. length v = 32 \<and> v \<in> set nullifiers) r of
              Inl e \<Rightarrow> (d, Inl e)
            | Inr None \<Rightarrow> (d, Inr k)
            | Inr (Some (_, spent)) \<Rightarrow>
                if spent then (d, Inr k)
                else (update_note_row (nr_id r) (\<lambda>r. r\<lparr>nr_spent := cell\<rparr>) d, Inr (k + 1))) (note_rows db) 0 db)"

text \<open>\<open>HashMap::insert\<close> for each entry: the last transaction of a nullifier counts.\<close>

definition spend_map :: "(bytes \<times> bytes) list \<Rightarrow> bytes \<Rightarrow> bytes option" where
  "spend_map entries = map_of (rev entries)"

definition mark_spent_step ::
    "cipher \<Rightarrow> i64 \<Rightarrow> (bytes \<times> bytes) list \<Rightarrow> bytes \<Rightarrow> note_row \<Rightarrow> nat \<Rightarrow> note_db \<Rightarrow> note_db \<times> (storage_error + nat)" where
  "mark_spent_step cr account_id entries cell r k d =
     (case wanted_row cr account_id (\<lambda>v. length v = 32 \<and> spend_map entries v \<noteq> None) r of
        Inl e \<Rightarrow> (d, Inl e)
      | Inr None \<Rightarrow> (d, Inr k)
      | Inr (Some (nf, spent)) \<Rightarrow> (case encrypt_blob cr (the (spend_map entries nf)) of
          Inl e \<Rightarrow> (d, Inl e)
        | Inr txid_cell \<Rightarrow> (set_spent_by (nr_id r) spent cell txid_cell d, Inr (k + 1))))"

definition mark_notes_spent_by_nullifiers_with_txid ::
    "cipher \<Rightarrow> i64 \<Rightarrow> (bytes \<times> bytes) list \<Rightarrow> note_db \<Rightarrow> note_db \<times> (storage_error + nat)" where
  "mark_notes_spent_by_nullifiers_with_txid cr account_id entries db =
     (if entries = [] then (db, Inr 0)
      else case encrypt_bool cr True of
        Inl e \<Rightarrow> (db, Inl e)
      | Inr cell \<Rightarrow> fold_db (mark_spent_step cr account_id entries cell) (note_rows db) 0 db)"

text \<open>By row: the count is of the entries, whether or not the row exists.\<close>

definition mark_id_step :: "cipher \<Rightarrow> bytes \<Rightarrow> i64 \<times> bytes \<Rightarrow> nat \<Rightarrow> note_db \<Rightarrow> note_db \<times> (storage_error + nat)" where
  "mark_id_step cr cell entry k d =
     (case encrypt_blob cr (snd entry) of
        Inl e \<Rightarrow> (d, Inl e)
      | Inr txid_cell \<Rightarrow> (set_spent_by (fst entry) False cell txid_cell d, Inr (k + 1)))"

definition mark_notes_spent_by_ids_with_txid :: "cipher \<Rightarrow> (i64 \<times> bytes) list \<Rightarrow> note_db \<Rightarrow> note_db \<times> (storage_error + nat)" where
  "mark_notes_spent_by_ids_with_txid cr entries db =
     (if entries = [] then (db, Inr 0)
      else case encrypt_bool cr True of
        Inl e \<Rightarrow> (db, Inl e)
      | Inr cell \<Rightarrow> fold_db (mark_id_step cr cell) entries 0 db)"

section \<open>Transactions and memos\<close>

text \<open>An \<open>INTEGER PRIMARY KEY\<close> left out of an insert: one more than the largest.\<close>

definition next_rowid :: "i64 list \<Rightarrow> i64" where
  "next_rowid ids = (if ids = [] then 1 else Max (set ids) + 1)"

definition put_tx :: "(tx_row \<Rightarrow> tx_row) \<Rightarrow> tx_row \<Rightarrow> note_db \<Rightarrow> note_db" where
  "put_tx upd fresh db = db\<lparr>tx_rows :=
     (if list_ex (\<lambda>t. tr_txid t = tr_txid fresh) (tx_rows db)
      then map (\<lambda>t. if tr_txid t = tr_txid fresh then upd t else t) (tx_rows db)
      else tx_rows db @ [fresh\<lparr>tr_id := next_rowid (map tr_id (tx_rows db))\<rparr>])\<rparr>"

definition upsert_transaction :: "str \<Rightarrow> i64 \<Rightarrow> i64 \<Rightarrow> i64 \<Rightarrow> note_db \<Rightarrow> note_db" where
  "upsert_transaction txid height timestamp fee =
     put_tx (\<lambda>t. t\<lparr>tr_height := height, tr_timestamp := timestamp, tr_fee := fee\<rparr>)
       \<lparr>tr_id = 0, tr_txid = txid, tr_height = height, tr_timestamp = timestamp, tr_fee = fee\<rparr>"

definition txid_hex_from_bytes :: "bytes \<Rightarrow> str" where
  "txid_hex_from_bytes bs = hex_encode (rev bs)"

definition reverse_txid_hex :: "str \<Rightarrow> str option" where
  "reverse_txid_hex txid =
     (if str_len txid \<noteq> 64 then None
      else case hex_decode txid of
        None \<Rightarrow> None
      | Some bs \<Rightarrow> if length bs \<noteq> 32 then None else Some (hex_encode (rev bs)))"

text \<open>The chunks the query is split into do not matter for the map it returns.\<close>

definition get_transaction_heights :: "str list \<Rightarrow> note_db \<Rightarrow> (str \<times> i64) list" where
  "get_transaction_heights txids db = map (\<lambda>t. (tr_txid t, tr_height t)) (filter (\<lambda>t. tr_txid t \<in> set txids) (tx_rows db))"

definition upsert_tx_memo :: "cipher \<Rightarrow> i64 \<Rightarrow> str \<Rightarrow> bytes \<Rightarrow> note_db \<Rightarrow> storage_error + note_db" where
  "upsert_tx_memo cr now txid memo db =
     bind_res (encrypt_blob cr memo) (\<lambda>cell.
       let found = find (\<lambda>t. tr_txid t = txid) (tx_rows db);
           i = (case found of Some t \<Rightarrow> tr_id t | None \<Rightarrow> next_rowid (map tr_id (tx_rows db)));
           db1 = (case found of Some _ \<Rightarrow> db
             | None \<Rightarrow> db\<lparr>tx_rows := tx_rows db @ [\<lparr>tr_id = i, tr_txid = txid, tr_height = 0, tr_timestamp = now, tr_fee = 0\<rparr>]\<rparr>);
           kept = filter (\<lambda>m. mr_tx_id m \<noteq> i) (memo_rows db1)
       in Inr (db1\<lparr>memo_rows := kept @ [\<lparr>mr_id = next_rowid (map mr_id kept), mr_tx_id = i, mr_memo = cell\<rparr>]\<rparr>))"

text \<open>The memo of the transaction with the highest id.\<close>

definition lookup_memo :: "str \<Rightarrow> note_db \<Rightarrow> bytes option" where
  "lookup_memo txid db =
     (let hits = filter (\<lambda>m. list_ex (\<lambda>t. tr_id t = mr_tx_id m \<and> tr_txid t = txid) (tx_rows db)) (memo_rows db)
      in if hits = [] then None else Some (mr_memo (last (sort_key mr_id hits))))"

definition get_tx_memo :: "cipher \<Rightarrow> str \<Rightarrow> note_db \<Rightarrow> storage_error + bytes option" where
  "get_tx_memo cr txid db =
     (let found = (case lookup_memo txid db of
          Some c \<Rightarrow> Some c
        | None \<Rightarrow> (case reverse_txid_hex txid of None \<Rightarrow> None | Some alt \<Rightarrow> if alt \<noteq> txid then lookup_memo alt db else None))
      in case found of None \<Rightarrow> Inr None | Some c \<Rightarrow> bind_res (decrypt_cell cr c) (\<lambda>m. Inr (Some m)))"


section \<open>Spend updates of the sync engine\<close>

text \<open>
  One transaction that is rolled back on any error: rows by id, rows by nullifier, then the transactions. The
  counts are of rows that exist.
\<close>

definition apply_id_step :: "cipher \<Rightarrow> bytes \<Rightarrow> i64 \<times> bytes \<Rightarrow> nat \<Rightarrow> note_db \<Rightarrow> note_db \<times> (storage_error + nat)" where
  "apply_id_step cr cell entry k d =
     (case encrypt_blob cr (snd entry) of
        Inl e \<Rightarrow> (d, Inl e)
      | Inr txid_cell \<Rightarrow> (set_spent_by (fst entry) False cell txid_cell d,
          Inr (k + length (filter (\<lambda>r. nr_id r = fst entry) (note_rows d)))))"

definition apply_spend_updates_with_txmeta ::
    "cipher \<Rightarrow> i64 \<Rightarrow> (i64 \<times> bytes) list \<Rightarrow> (bytes \<times> bytes) list \<Rightarrow> (str \<times> i64 \<times> i64 \<times> i64) list \<Rightarrow> note_db
     \<Rightarrow> storage_error + (nat \<times> nat) \<times> note_db" where
  "apply_spend_updates_with_txmeta cr account_id spend_updates fallback_entries tx_meta db =
     (if spend_updates = [] \<and> fallback_entries = [] \<and> tx_meta = [] then Inr ((0, 0), db)
      else bind_res (encrypt_bool cr True) (\<lambda>cell.
        case fold_db (apply_id_step cr cell) spend_updates 0 db of
          (_, Inl e) \<Rightarrow> Inl e
        | (db1, Inr by_id) \<Rightarrow>
            (case (if fallback_entries = [] then (db1, Inr 0)
                   else fold_db (mark_spent_step cr account_id fallback_entries cell) (note_rows db1) 0 db1) of
               (_, Inl e) \<Rightarrow> Inl e
             | (db2, Inr by_nullifier) \<Rightarrow>
                 Inr ((by_id, by_nullifier), fold (\<lambda>(txid, height, timestamp, fee). upsert_transaction txid height timestamp fee) tx_meta db2))))"

section \<open>Spends seen before their note\<close>

type_synonym typed_nullifier = "note_type \<times> bytes"

text \<open>The pool and nullifier of a row of the account; other rows and malformed ones are passed over.\<close>

definition unlinked_key :: "cipher \<Rightarrow> i64 \<Rightarrow> unlinked_row \<Rightarrow> storage_error + typed_nullifier option" where
  "unlinked_key cr account_id r =
     bind_res (decrypt_int64 cr (ur_account_id r)) (\<lambda>account.
       if account \<noteq> account_id then Inr None
       else bind_res (decrypt_cell cr (ur_nullifier r)) (\<lambda>nf.
         Inr (if length nf \<noteq> 32 then None else Some (note_type_from (ur_note_type r), nf))))"

text \<open>The same with the spending transaction, for the rows whose key is wanted.\<close>

definition unlinked_entry :: "cipher \<Rightarrow> i64 \<Rightarrow> (typed_nullifier \<Rightarrow> bool) \<Rightarrow> unlinked_row \<Rightarrow> storage_error + (typed_nullifier \<times> bytes) option" where
  "unlinked_entry cr account_id wanted r =
     bind_res (unlinked_key cr account_id r) (\<lambda>key.
       case key of
         None \<Rightarrow> Inr None
       | Some k \<Rightarrow>
           if \<not> wanted k then Inr None
           else bind_res (decrypt_cell cr (ur_spending_txid r)) (\<lambda>txid.
             Inr (if length txid \<noteq> 32 then None else Some (k, txid))))"

type_synonym unlinked_index = "(typed_nullifier \<times> i64 \<times> bytes) list"

text \<open>The first row of each key, and the ids of the others.\<close>

definition index_unlinked :: "cipher \<Rightarrow> i64 \<Rightarrow> unlinked_row list \<Rightarrow> storage_error + unlinked_index \<times> i64 list" where
  "index_unlinked cr account_id rows =
     fold_res (\<lambda>r acc. bind_res (unlinked_entry cr account_id (\<lambda>_. True) r) (\<lambda>entry.
       case acc of (existing, duplicates) \<Rightarrow>
         Inr (case entry of
            None \<Rightarrow> (existing, duplicates)
          | Some (k, txid) \<Rightarrow>
              if map_of existing k = None then (AList.update k (ur_id r, txid) existing, duplicates)
              else (existing, duplicates @ [ur_id r])))) rows ([], [])"

definition all_zero :: "bytes \<Rightarrow> bool" where
  "all_zero bs \<longleftrightarrow> list_all (\<lambda>b. b = 0) bs"

definition put_unlinked ::
    "cipher \<Rightarrow> bytes \<Rightarrow> note_type \<times> bytes \<times> bytes \<Rightarrow> unlinked_index \<times> nat \<Rightarrow> note_db \<Rightarrow> note_db \<times> (storage_error + unlinked_index \<times> nat)" where
  "put_unlinked cr account_cell entry acc db =
     (case entry of (ty, nf, txid) \<Rightarrow> case acc of (existing, changed) \<Rightarrow>
        if all_zero nf then (db, Inr acc)
        else case map_of existing (ty, nf) of
          Some (rid, current_txid) \<Rightarrow>
            if current_txid = txid then (db, Inr acc)
            else (case encrypt_blob cr txid of
                Inl e \<Rightarrow> (db, Inl e)
              | Inr c \<Rightarrow> (db\<lparr>unlinked_rows := map (\<lambda>r. if ur_id r = rid then r\<lparr>ur_spending_txid := c\<rparr> else r) (unlinked_rows db)\<rparr>,
                  Inr (AList.update (ty, nf) (rid, txid) existing, changed + 1)))
        | None \<Rightarrow>
            (case encrypt_blob cr nf of
               Inl e \<Rightarrow> (db, Inl e)
             | Inr nf_cell \<Rightarrow> (case encrypt_blob cr txid of
                   Inl e \<Rightarrow> (db, Inl e)
                 | Inr c \<Rightarrow> (db\<lparr>unlinked_rows := unlinked_rows db @ [\<lparr>ur_id = unlinked_seq db + 1, ur_account_id = account_cell,
                       ur_note_type = note_type_str ty, ur_nullifier = nf_cell, ur_spending_txid = c\<rparr>],
                       unlinked_seq := unlinked_seq db + 1\<rparr>, Inr (existing, changed + 1)))))"

definition upsert_unlinked_spend_nullifiers_with_txid ::
    "cipher \<Rightarrow> i64 \<Rightarrow> (note_type \<times> bytes \<times> bytes) list \<Rightarrow> note_db \<Rightarrow> note_db \<times> (storage_error + nat)" where
  "upsert_unlinked_spend_nullifiers_with_txid cr account_id entries db =
     (if entries = [] then (db, Inr 0)
      else case index_unlinked cr account_id (unlinked_rows db) of
        Inl e \<Rightarrow> (db, Inl e)
      | Inr (existing, duplicates) \<Rightarrow>
          let db1 = db\<lparr>unlinked_rows := filter (\<lambda>r. ur_id r \<notin> set duplicates) (unlinked_rows db)\<rparr>
          in case encrypt_int64 cr account_id of
               Inl e \<Rightarrow> (db1, Inl e)
             | Inr account_cell \<Rightarrow> (case fold_db (put_unlinked cr account_cell) entries (existing, length duplicates) db1 of
                   (db2, Inl e) \<Rightarrow> (db2, Inl e)
                 | (db2, Inr (_, changed)) \<Rightarrow> (db2, Inr changed)))"

fun pool_rank :: "note_type \<Rightarrow> nat" where
  "pool_rank Sapling = 0"
| "pool_rank Ironwood = 1"

definition list_unlinked_spend_nullifiers_with_txid :: "cipher \<Rightarrow> i64 \<Rightarrow> note_db \<Rightarrow> storage_error + (note_type \<times> bytes \<times> bytes) list" where
  "list_unlinked_spend_nullifiers_with_txid cr account_id db =
     bind_res (fold_res (\<lambda>r out. bind_res (unlinked_entry cr account_id (\<lambda>(_, nf). \<not> all_zero nf) r) (\<lambda>entry.
         Inr (case entry of None \<Rightarrow> out | Some ((ty, nf), txid) \<Rightarrow> out @ [(ty, nf, txid)]))) (unlinked_rows db) []) (\<lambda>out.
       Inr (remdups_adj (sort_key (\<lambda>(ty, nf, txid). (pool_rank ty, nf, txid)) out)))"

text \<open>The keys whose note is now spent by the expected transaction.\<close>

definition resolve_row ::
    "cipher \<Rightarrow> i64 \<Rightarrow> (typed_nullifier \<Rightarrow> bytes option) \<Rightarrow> note_row \<Rightarrow> typed_nullifier list \<Rightarrow> storage_error + typed_nullifier list" where
  "resolve_row cr account_id expected r resolved =
     bind_res (decrypt_int64 cr (nr_account_id r)) (\<lambda>account.
       if account \<noteq> account_id then Inr resolved
       else bind_res (decrypt_cell cr (nr_nullifier r)) (\<lambda>nf.
         if length nf \<noteq> 32 then Inr resolved
         else case expected (note_type_from (nr_note_type r), nf) of
           None \<Rightarrow> Inr resolved
         | Some txid \<Rightarrow>
             bind_res (decrypt_bool cr (nr_spent r)) (\<lambda>spent.
               if \<not> spent then Inr resolved
               else bind_res (decrypt_optional_cell cr (nr_spent_txid r)) (\<lambda>row_txid.
                 Inr (case row_txid of
                     None \<Rightarrow> resolved
                   | Some bs \<Rightarrow> if length bs = 32 \<and> bs = txid then List.insert (note_type_from (nr_note_type r), nf) resolved else resolved)))))"

definition delete_resolved :: "cipher \<Rightarrow> i64 \<Rightarrow> typed_nullifier list \<Rightarrow> unlinked_row \<Rightarrow> nat \<Rightarrow> note_db \<Rightarrow> note_db \<times> (storage_error + nat)" where
  "delete_resolved cr account_id resolved r k db =
     (case unlinked_key cr account_id r of
        Inl e \<Rightarrow> (db, Inl e)
      | Inr key \<Rightarrow>
          if key \<noteq> None \<and> the key \<in> set resolved
          then (db\<lparr>unlinked_rows := filter (\<lambda>q. ur_id q \<noteq> ur_id r) (unlinked_rows db)\<rparr>, Inr (k + 1))
          else (db, Inr k))"

definition reconcile_unlinked_spend_nullifiers_with_notes :: "cipher \<Rightarrow> i64 \<Rightarrow> note_db \<Rightarrow> note_db \<times> (storage_error + nat \<times> nat)" where
  "reconcile_unlinked_spend_nullifiers_with_notes cr account_id db =
     (case list_unlinked_spend_nullifiers_with_txid cr account_id db of
        Inl e \<Rightarrow> (db, Inl e)
      | Inr entries \<Rightarrow>
          if entries = [] then (db, Inr (0, 0))
          else case mark_notes_spent_by_nullifiers_with_txid cr account_id (map snd entries) db of
            (db1, Inl e) \<Rightarrow> (db1, Inl e)
          | (db1, Inr updated) \<Rightarrow>
              (case fold_res (resolve_row cr account_id (map_of (rev (map (\<lambda>(ty, nf, txid). ((ty, nf), txid)) entries)))) (note_rows db1) [] of
                 Inl e \<Rightarrow> (db1, Inl e)
               | Inr resolved \<Rightarrow>
                   if resolved = [] then (db1, Inr (updated, 0))
                   else (case fold_db (delete_resolved cr account_id resolved) (unlinked_rows db1) 0 db1 of
                       (db2, Inl e) \<Rightarrow> (db2, Inl e)
                     | (db2, Inr deleted) \<Rightarrow> (db2, Inr (updated, deleted)))))"

definition consume_unlinked_spends_for_nullifiers ::
    "cipher \<Rightarrow> i64 \<Rightarrow> typed_nullifier list \<Rightarrow> note_db \<Rightarrow> storage_error + (typed_nullifier \<times> bytes) list \<times> note_db" where
  "consume_unlinked_spends_for_nullifiers cr account_id nullifiers db =
     (let wanted = filter (\<lambda>(_, nf). \<not> all_zero nf) nullifiers
      in if wanted = [] then Inr ([], db)
         else bind_res (fold_res (\<lambda>r acc. bind_res (unlinked_entry cr account_id (\<lambda>k. k \<in> set wanted) r) (\<lambda>entry.
             case acc of (matched, ids) \<Rightarrow>
               Inr (case entry of
                  None \<Rightarrow> (matched, ids)
                | Some (k, txid) \<Rightarrow> (if map_of matched k = None then AList.update k txid matched else matched, ids @ [ur_id r]))))
             (unlinked_rows db) ([], [])) (\<lambda>(matched, ids).
           Inr (matched, db\<lparr>unlinked_rows := filter (\<lambda>r. ur_id r \<notin> set ids) (unlinked_rows db)\<rparr>)))"

definition consume_unlinked_spend_for_nullifier ::
    "cipher \<Rightarrow> i64 \<Rightarrow> note_type \<Rightarrow> bytes \<Rightarrow> note_db \<Rightarrow> storage_error + bytes option \<times> note_db" where
  "consume_unlinked_spend_for_nullifier cr account_id ty nf db =
     bind_res (consume_unlinked_spends_for_nullifiers cr account_id [(ty, nf)] db) (\<lambda>(matched, db'). Inr (map_of matched (ty, nf), db'))"

section \<open>Outgoing transactions and their expiry\<close>

record outgoing_intent =
  oi_txid :: str
  oi_account_id :: i64
  oi_amount :: u64
  oi_fee :: u64
  oi_broadcast_at :: i64
  oi_expiry_height :: u32

definition upsert_outgoing_transaction_intent ::
    "cipher \<Rightarrow> i64 \<Rightarrow> str \<Rightarrow> u64 \<Rightarrow> u64 \<Rightarrow> i64 \<Rightarrow> u32 \<Rightarrow> note_db \<Rightarrow> storage_error + note_db" where
  "upsert_outgoing_transaction_intent cr account_id txid_hex amount0 fee0 broadcast_at expiry db =
     (let txid = to_ascii_lowercase (trim txid_hex)
      in if str_len txid \<noteq> 64 \<or> \<not> list_all is_ascii_hexdigit txid
         then Inl (Validation (Msg ''Outgoing transaction ID must be 32-byte hexadecimal'' []))
         else bind_res (ok_or (i64_try_from amount0) (Validation (Msg ''Outgoing amount exceeds storage range'' []))) (\<lambda>amount.
              bind_res (ok_or (i64_try_from fee0) (Validation (Msg ''Transaction fee exceeds storage range'' []))) (\<lambda>fee.
              bind_res (encrypt_int64 cr account_id) (\<lambda>account_cell.
              bind_res (encrypt_int64 cr amount) (\<lambda>amount_cell.
              bind_res (encrypt_int64 cr fee) (\<lambda>fee_cell.
                let row = \<lparr>ir_txid = txid, ir_account_id = account_cell, ir_amount = amount_cell, ir_fee = fee_cell,
                      ir_broadcast_at = broadcast_at, ir_expiry_height = expiry\<rparr>;
                    intents = (if list_ex (\<lambda>r. ir_txid r = txid) (intent_rows db)
                      then map (\<lambda>r. if ir_txid r = txid then row else r) (intent_rows db) else intent_rows db @ [row])
                in Inr (put_tx (\<lambda>t. t\<lparr>tr_timestamp := (if 0 < tr_height t then tr_timestamp t else broadcast_at), tr_fee := fee\<rparr>)
                     \<lparr>tr_id = 0, tr_txid = txid, tr_height = 0, tr_timestamp = broadcast_at, tr_fee = fee\<rparr>
                     (db\<lparr>intent_rows := intents\<rparr>))))))))"

definition read_intent :: "cipher \<Rightarrow> i64 \<Rightarrow> intent_row \<Rightarrow> storage_error + outgoing_intent option" where
  "read_intent cr account_id r =
     bind_res (decrypt_int64 cr (ir_account_id r)) (\<lambda>account.
       if account \<noteq> account_id then Inr None
       else bind_res (decrypt_int64 cr (ir_amount r)) (\<lambda>amount.
            bind_res (decrypt_int64 cr (ir_fee r)) (\<lambda>fee.
            bind_res (ok_or (u64_try_from amount) (SStorage (Msg ''Stored outgoing amount is negative'' []))) (\<lambda>a.
            bind_res (ok_or (u64_try_from fee) (SStorage (Msg ''Stored transaction fee is negative'' []))) (\<lambda>f.
              Inr (Some \<lparr>oi_txid = ir_txid r, oi_account_id = account_id, oi_amount = a, oi_fee = f,
                oi_broadcast_at = ir_broadcast_at r, oi_expiry_height = ir_expiry_height r\<rparr>))))))"

definition get_outgoing_transaction_intents :: "cipher \<Rightarrow> i64 \<Rightarrow> note_db \<Rightarrow> storage_error + outgoing_intent list" where
  "get_outgoing_transaction_intents cr account_id db =
     fold_res (\<lambda>r out. bind_res (read_intent cr account_id r) (\<lambda>i. Inr (out @ (case i of None \<Rightarrow> [] | Some x \<Rightarrow> [x]))))
       (rev (sort_key (\<lambda>r. (ir_broadcast_at r, ir_txid r)) (intent_rows db))) []"

definition outgoing_transaction_is_confirmed :: "str \<Rightarrow> note_db \<Rightarrow> bool" where
  "outgoing_transaction_is_confirmed txid db =
     (let candidates = txid # (case reverse_txid_hex txid of None \<Rightarrow> [] | Some alt \<Rightarrow> if alt \<noteq> txid then [alt] else [])
      in list_ex (\<lambda>(_, height). 0 < height) (get_transaction_heights candidates db))"

definition initialize_legacy_outgoing_expiries :: "cipher \<Rightarrow> i64 \<Rightarrow> u64 \<Rightarrow> u32 \<Rightarrow> note_db \<Rightarrow> storage_error + u64 \<times> note_db" where
  "initialize_legacy_outgoing_expiries cr account_id local_height lifetime db =
     (let expiry = ucast (min (saturating_add local_height (u64_from_u32 lifetime)) (u64_from_u32 (- 1))) :: u32
      in bind_res (get_outgoing_transaction_intents cr account_id db) (\<lambda>intents.
        Inr (fold (\<lambda>i (updated, d).
          if oi_expiry_height i \<noteq> 0 \<or> outgoing_transaction_is_confirmed (oi_txid i) d then (updated, d)
          else (saturating_add updated (of_nat (length (filter (\<lambda>r. ir_txid r = oi_txid i \<and> ir_expiry_height r = 0) (intent_rows d)))),
                d\<lparr>intent_rows := map (\<lambda>r. if ir_txid r = oi_txid i \<and> ir_expiry_height r = 0
                     then r\<lparr>ir_expiry_height := expiry\<rparr> else r) (intent_rows d)\<rparr>)) intents (0, db))))"

text \<open>Both byte orders of the identifier of an intent that expired without a confirmation.\<close>

definition expired_txids_of :: "u64 \<Rightarrow> note_db \<Rightarrow> outgoing_intent \<Rightarrow> bytes list" where
  "expired_txids_of local_height db i =
     (if oi_expiry_height i = 0 \<or> local_height \<le> u64_from_u32 (oi_expiry_height i)
         \<or> outgoing_transaction_is_confirmed (oi_txid i) db
      then []
      else case hex_decode (oi_txid i) of
        None \<Rightarrow> []
      | Some direct \<Rightarrow> if length direct \<noteq> 32 then [] else [direct, rev direct])"

definition expired_row :: "cipher \<Rightarrow> i64 \<Rightarrow> bytes list \<Rightarrow> note_row \<Rightarrow> storage_error + bool" where
  "expired_row cr account_id expired r =
     (if nr_spent_txid r = None then Inr False
      else bind_res (decrypt_int64 cr (nr_account_id r)) (\<lambda>account.
        if account \<noteq> account_id then Inr False
        else bind_res (decrypt_bool cr (nr_spent r)) (\<lambda>spent.
          if \<not> spent then Inr False
          else bind_res (decrypt_optional_cell cr (nr_spent_txid r)) (\<lambda>txid.
            Inr (case txid of None \<Rightarrow> False | Some t \<Rightarrow> length t = 32 \<and> t \<in> set expired)))))"

definition release_expired_outgoing_notes :: "cipher \<Rightarrow> i64 \<Rightarrow> u64 \<Rightarrow> note_db \<Rightarrow> storage_error + nat \<times> note_db" where
  "release_expired_outgoing_notes cr account_id local_height db =
     bind_res (get_outgoing_transaction_intents cr account_id db) (\<lambda>intents.
       let expired = concat (map (expired_txids_of local_height db) intents)
       in if expired = [] then Inr (0, db)
          else bind_res (fold_res (\<lambda>r ids. bind_res (expired_row cr account_id expired r) (\<lambda>hit.
              Inr (if hit then ids @ [nr_id r] else ids))) (note_rows db) []) (\<lambda>release_ids.
            if release_ids = [] then Inr (0, db)
            else bind_res (encrypt_bool cr False) (\<lambda>cell.
              Inr (length release_ids, fold (\<lambda>i. update_note_row i (\<lambda>r. r\<lparr>nr_spent := cell, nr_spent_txid := None\<rparr>)) release_ids db))))"


section \<open>Loops over the rows of the table\<close>

text \<open>
  The generic fact behind every marking loop: a loop over the rows of the table that touches at most
  the row it is at ends with each row changed on its own.
\<close>

lemma fold_db_suffix:
  assumes "\<And>r a d. r \<in> set todo \<Longrightarrow> step r a d = (if P r then update_note_row (nr_id r) (f r) d else d, Inr (h r a))"
    and "distinct (map nr_id (pre @ todo))"
    and "\<And>r. nr_id (f r r) = nr_id r"
  shows "fold_db step todo a (db\<lparr>note_rows := pre @ todo\<rparr>) =
    (db\<lparr>note_rows := pre @ map (\<lambda>r. if P r then f r r else r) todo\<rparr>, Inr (fold h todo a))"
  using assms(1,2)
proof (induction todo arbitrary: pre a)
  case (Cons r rs)
  let ?r = "if P r then f r r else r"
  have "nr_id r \<notin> set (map nr_id (pre @ rs))" using Cons.prems(2) by simp
  then have other: "nr_id q \<noteq> nr_id r" if "q \<in> set (pre @ rs)" for q using that by (metis image_eqI set_map)
  have "map (\<lambda>q. if nr_id q = nr_id r then f r q else q) pre = pre" "map (\<lambda>q. if nr_id q = nr_id r then f r q else q) rs = rs"
    by (rule map_idI, simp add: other)+
  then have eq: "(if P r then update_note_row (nr_id r) (f r) (db\<lparr>note_rows := pre @ r # rs\<rparr>) else db\<lparr>note_rows := pre @ r # rs\<rparr>) =
      db\<lparr>note_rows := (pre @ [?r]) @ rs\<rparr>"
    by (simp add: update_note_row_def)
  have st: "step r a d = (if P r then update_note_row (nr_id r) (f r) d else d, Inr (h r a))" for d by (rule Cons.prems(1)) simp
  have "fold_db step (r # rs) a (db\<lparr>note_rows := pre @ r # rs\<rparr>) = fold_db step rs (h r a) (db\<lparr>note_rows := (pre @ [?r]) @ rs\<rparr>)"
    unfolding fold_db.simps st prod.case sum.case eq ..
  moreover have "distinct (map nr_id ((pre @ [?r]) @ rs))" using Cons.prems(2) assms(3) by auto
  ultimately show ?case using Cons.IH [of "pre @ [?r]"] Cons.prems(1) by simp
qed simp

lemma fold_db_rows:
  assumes "\<And>r a d. r \<in> set (note_rows db) \<Longrightarrow> step r a d = (if P r then update_note_row (nr_id r) (f r) d else d, Inr (h r a))"
    and "distinct (map nr_id (note_rows db))" and "\<And>r. nr_id (f r r) = nr_id r"
  shows "fold_db step (note_rows db) a db =
    (db\<lparr>note_rows := map (\<lambda>r. if P r then f r r else r) (note_rows db)\<rparr>, Inr (fold h (note_rows db) a))"
  using fold_db_suffix [where pre = "[]" and todo = "note_rows db" and db = db and step = step and P = P and f = f and h = h and a = a]
    assms by simp

lemma wanted_row_read:
  assumes "readable cr rows" "r \<in> set rows"
  shows "wanted_row cr account wanted r =
    Inr (if nt_account_id (plain cr r) = account \<and> wanted (nt_nullifier (plain cr r))
         then Some (nt_nullifier (plain cr r), nt_spent (plain cr r)) else None)"
  by (simp add: wanted_row_def note_of_readable [OF assms])

text \<open>The flag and the spending transaction of a row, read back.\<close>

lemma decrypt_encrypt_bool: "cipher_ok cr \<Longrightarrow> encrypt_bool cr b = Inr c \<Longrightarrow> decrypt_bool cr c = Inr b"
  by (auto simp: cipher_ok_def encrypt_bool_def encrypt_blob_def decrypt_bool_def decrypt_cell_def)

lemma decrypt_encrypt_blob: "cipher_ok cr \<Longrightarrow> encrypt_blob cr d = Inr c \<Longrightarrow> decrypt_cell cr c = Inr d"
  by (auto simp: cipher_ok_def encrypt_blob_def decrypt_cell_def)

lemma note_of_spent_row:
  assumes "note_of cr r = Inr n" "decrypt_bool cr cell = Inr b" "decrypt_optional_cell cr tcell = Inr t"
  shows "note_of cr (r\<lparr>nr_spent := cell, nr_spent_txid := tcell\<rparr>) = Inr (n\<lparr>nt_spent := b, nt_spent_txid := t\<rparr>)"
  using assms by (auto simp: note_of_def rest_of_note_def bind_res_Inr_iff)

lemma note_of_txid_row:
  assumes "note_of cr r = Inr n" "decrypt_optional_cell cr tcell = Inr t"
  shows "note_of cr (r\<lparr>nr_spent_txid := tcell\<rparr>) = Inr (n\<lparr>nt_spent_txid := t\<rparr>)"
  using assms by (auto simp: note_of_def rest_of_note_def bind_res_Inr_iff)

text \<open>Replacing rows by readable ones with the same id keeps the table well-formed.\<close>

lemma table_map_rows:
  assumes ok: "table_ok cr db"
    and g: "\<And>r. r \<in> set (note_rows db) \<Longrightarrow> note_of cr (g r) = Inr (G (plain cr r)) \<and> nr_id (g r) = nr_id r"
    and wf: "\<And>n. n \<in> set (plain_notes cr db) \<Longrightarrow> wf_note (G n)"
  shows "table_ok cr (db\<lparr>note_rows := map g (note_rows db)\<rparr>) \<and>
    plain_notes cr (db\<lparr>note_rows := map g (note_rows db)\<rparr>) = map G (plain_notes cr db)"
proof -
  have pl: "plain_notes cr (db\<lparr>note_rows := map g (note_rows db)\<rparr>) = map G (plain_notes cr db)"
    using g by (simp add: plain_notes_def plain_def)
  have "map nr_id (map g (note_rows db)) = map nr_id (note_rows db)" using g by simp
  then show ?thesis using ok g wf pl by (auto simp: table_ok_def readable_def pl simp del: map_map)
qed

section \<open>Marking is exact\<close>

definition spent_by :: "bytes \<Rightarrow> note_record \<Rightarrow> note_record" where
  "spent_by txid n = n\<lparr>nt_spent := True, nt_spent_txid := Some txid\<rparr>"

text \<open>The transaction that spends a note, according to a list of nullifiers.\<close>

definition spender :: "i64 \<Rightarrow> (bytes \<times> bytes) list \<Rightarrow> note_record \<Rightarrow> bytes option" where
  "spender account entries n = (if nt_account_id n = account \<and> length (nt_nullifier n) = 32 then spend_map entries (nt_nullifier n) else None)"

definition mark_note :: "i64 \<Rightarrow> (bytes \<times> bytes) list \<Rightarrow> note_record \<Rightarrow> note_record" where
  "mark_note account entries n = (case spender account entries n of None \<Rightarrow> n | Some txid \<Rightarrow> spent_by txid n)"

lemma spent_by_simps [simp]:
  "nt_id (spent_by t n) = nt_id n" "nt_account_id (spent_by t n) = nt_account_id n" "nt_value (spent_by t n) = nt_value n"
  "nt_nullifier (spent_by t n) = nt_nullifier n" "output_of (spent_by t n) = output_of n" "nt_spent (spent_by t n)"
  "nt_note_type (spent_by t n) = nt_note_type n" "nt_spent_txid (spent_by t n) = Some t" "wf_note (spent_by t n) = wf_note n"
  by (simp_all add: spent_by_def output_of_def wf_note_def)

lemma mark_note_simps [simp]:
  "nt_id (mark_note a es n) = nt_id n" "nt_account_id (mark_note a es n) = nt_account_id n" "nt_value (mark_note a es n) = nt_value n"
  "nt_nullifier (mark_note a es n) = nt_nullifier n" "output_of (mark_note a es n) = output_of n"
  "nt_note_type (mark_note a es n) = nt_note_type n" "wf_note (mark_note a es n) = wf_note n"
  "nt_spent (mark_note a es n) \<longleftrightarrow> nt_spent n \<or> spender a es n \<noteq> None"
  by (auto simp: mark_note_def split: option.splits)

lemma set_spent_by_read:
  assumes "cipher_ok cr" "encrypt_bool cr True = Inr cell" "encrypt_blob cr txid = Inr tcell" "note_of cr r = Inr n" "nt_spent n = s"
  shows "note_of cr (if s then r\<lparr>nr_spent_txid := Some tcell\<rparr> else r\<lparr>nr_spent := cell, nr_spent_txid := Some tcell\<rparr>) = Inr (spent_by txid n)"
proof -
  have t: "decrypt_optional_cell cr (Some tcell) = Inr (Some txid)"
    using decrypt_encrypt_blob [OF assms(1,3)] by (simp add: decrypt_optional_cell_def)
  show ?thesis
    using note_of_spent_row [OF assms(4) decrypt_encrypt_bool [OF assms(1,2)] t] note_of_txid_row [OF assms(4) t] assms(5)
    by (auto simp: spent_by_def)
qed

lemma cipher_total_encrypt:
  assumes "cipher_total cr"
  shows "\<exists>c. encrypt_blob cr d = Inr c" "\<exists>c. encrypt_bool cr b = Inr c" "\<exists>c. encrypt_int64 cr v = Inr c"
  using assms by (auto simp: cipher_total_def encrypt_blob_def encrypt_bool_def encrypt_int64_def)

lemma mark_spent_loop:
  assumes ok: "cipher_ok cr" "cipher_total cr" "table_ok cr db" and cell: "encrypt_bool cr True = Inr cell"
  obtains db' where "fold_db (mark_spent_step cr account entries cell) (note_rows db) 0 db =
      (db', Inr (length (filter (\<lambda>n. spender account entries n \<noteq> None) (plain_notes cr db))))"
    "table_ok cr db'" "plain_notes cr db' = map (mark_note account entries) (plain_notes cr db)"
    "\<exists>rows. db' = db\<lparr>note_rows := rows\<rparr>"
proof -
  have rd: "readable cr (note_rows db)" and dist: "distinct (map nr_id (note_rows db))" using ok(3) by (auto simp: table_ok_def)
  let ?P = "\<lambda>r. spender account entries (plain cr r) \<noteq> None"
  define tc where "tc r = projr (encrypt_blob cr (the (spender account entries (plain cr r))))" for r
  define f where "f r q = (if nt_spent (plain cr r) then q\<lparr>nr_spent_txid := Some (tc r)\<rparr>
      else q\<lparr>nr_spent := cell, nr_spent_txid := Some (tc r)\<rparr>)" for r and q :: note_row
  have tc: "encrypt_blob cr (the (spender account entries (plain cr r))) = Inr (tc r)" for r
    using cipher_total_encrypt(1) [OF ok(2), of "the (spender account entries (plain cr r))"] by (auto simp: tc_def)
  have step: "mark_spent_step cr account entries cell r a d =
      (if ?P r then update_note_row (nr_id r) (f r) d else d, Inr (if ?P r then a + 1 else a))" if "r \<in> set (note_rows db)" for r a d
  proof (cases "?P r")
    case True
    then have "spend_map entries (nt_nullifier (plain cr r)) = spender account entries (plain cr r)"
      "nt_account_id (plain cr r) = account" "length (nt_nullifier (plain cr r)) = 32"
      by (auto simp: spender_def split: if_splits)
    then show ?thesis using True tc [of r]
      by (simp add: mark_spent_step_def wanted_row_read [OF rd that] set_spent_by_def f_def [abs_def])
  next
    case False
    then show ?thesis by (auto simp: mark_spent_step_def wanted_row_read [OF rd that] spender_def split: if_splits)
  qed
  let ?db = "db\<lparr>note_rows := map (\<lambda>r. if ?P r then f r r else r) (note_rows db)\<rparr>"
  have "fold_db (mark_spent_step cr account entries cell) (note_rows db) 0 db =
      (?db, Inr (fold (\<lambda>r a. if ?P r then a + 1 else a) (note_rows db) 0))"
    by (rule fold_db_rows [OF step dist]) (simp_all add: f_def)
  moreover have "fold (\<lambda>r a. if ?P r then a + 1 else a) rows k = k + length (filter ?P rows)" for rows and k :: nat
    by (induction rows arbitrary: k) auto
  ultimately have fold: "fold_db (mark_spent_step cr account entries cell) (note_rows db) 0 db =
      (?db, Inr (length (filter (\<lambda>n. spender account entries n \<noteq> None) (plain_notes cr db))))"
    by (simp add: plain_notes_def filter_map comp_def)
  have "note_of cr (if ?P r then f r r else r) = Inr (mark_note account entries (plain cr r)) \<and>
      nr_id (if ?P r then f r r else r) = nr_id r" if "r \<in> set (note_rows db)" for r
    using set_spent_by_read [OF ok(1) cell tc note_of_readable(11) [OF rd that] refl] note_of_readable(11) [OF rd that]
    by (auto simp: f_def mark_note_def split: option.splits)
  from table_map_rows [OF ok(3) this] have "table_ok cr ?db \<and> plain_notes cr ?db = map (mark_note account entries) (plain_notes cr db)"
    using ok(3) by (auto simp: table_ok_def)
  then show ?thesis using that [OF fold] by blast
qed


lemma marking_read:
  assumes ok: "cipher_ok cr" "cipher_total cr" "table_ok cr db"
  obtains db' where "mark_notes_spent_by_nullifiers_with_txid cr account entries db =
      (db', Inr (length (filter (\<lambda>n. spender account entries n \<noteq> None) (plain_notes cr db))))"
    "table_ok cr db'" "plain_notes cr db' = map (mark_note account entries) (plain_notes cr db)"
    "\<exists>rows. db' = db\<lparr>note_rows := rows\<rparr>"
proof (cases "entries = []")
  case True
  have "spender account [] n = None" for n by (simp add: spender_def spend_map_def)
  moreover from this have "mark_note account [] = id" by (auto simp: mark_note_def)
  moreover have "\<exists>rows. db = db\<lparr>note_rows := rows\<rparr>" by (rule exI [of _ "note_rows db"]) simp
  ultimately show ?thesis using that [of db] True ok(3) by (simp add: mark_notes_spent_by_nullifiers_with_txid_def)
next
  case False
  obtain cell where cell: "encrypt_bool cr True = Inr cell" using cipher_total_encrypt(2) [OF ok(2)] by blast
  from mark_spent_loop [OF ok cell, of account entries] obtain db'
    where f: "fold_db (mark_spent_step cr account entries cell) (note_rows db) 0 db =
        (db', Inr (length (filter (\<lambda>n. spender account entries n \<noteq> None) (plain_notes cr db))))"
      and r: "table_ok cr db'" "plain_notes cr db' = map (mark_note account entries) (plain_notes cr db)"
        "\<exists>rows. db' = db\<lparr>note_rows := rows\<rparr>" by metis
  have "mark_notes_spent_by_nullifiers_with_txid cr account entries db =
      (db', Inr (length (filter (\<lambda>n. spender account entries n \<noteq> None) (plain_notes cr db))))"
    using False cell f by (simp add: mark_notes_spent_by_nullifiers_with_txid_def)
  then show ?thesis using r by (rule that)
qed

lemma spender_listed: "spender account entries n \<noteq> None \<longleftrightarrow>
    nt_account_id n = account \<and> length (nt_nullifier n) = 32 \<and> nt_nullifier n \<in> fst ` set entries"
  using dom_map_of_conv_image_fst [of "rev entries"] by (auto simp: spender_def spend_map_def)

lemma mark_note_listed:
  "mark_note account entries n = (if nt_account_id n = account \<and> length (nt_nullifier n) = 32 \<and> nt_nullifier n \<in> fst ` set entries
     then n\<lparr>nt_spent := True, nt_spent_txid := map_of (rev entries) (nt_nullifier n)\<rparr> else n)"
  using spender_listed [of account entries n] by (auto simp: mark_note_def spent_by_def spender_def spend_map_def split: option.splits if_splits)

text \<open>
  Property C12. Marking by nullifier is exact: on a readable table it succeeds, marks as spent every note of the
  account whose 32-byte nullifier is listed, with the last transaction listed for it, whether it was
  spent before or not, leaves all other notes as they are, and returns how many it marked.
\<close>

theorem spends_marked_exactly:
  assumes "cipher_ok cr" "cipher_total cr" "table_ok cr db"
  shows "\<exists>db'. mark_notes_spent_by_nullifiers_with_txid cr account entries db =
      (db', Inr (length (filter (\<lambda>n. nt_account_id n = account \<and> length (nt_nullifier n) = 32 \<and>
         nt_nullifier n \<in> fst ` set entries) (plain_notes cr db)))) \<and>
    table_ok cr db' \<and>
    plain_notes cr db' = map (\<lambda>n. if nt_account_id n = account \<and> length (nt_nullifier n) = 32 \<and> nt_nullifier n \<in> fst ` set entries
      then n\<lparr>nt_spent := True, nt_spent_txid := map_of (rev entries) (nt_nullifier n)\<rparr> else n) (plain_notes cr db)"
proof -
  obtain db' where "mark_notes_spent_by_nullifiers_with_txid cr account entries db =
      (db', Inr (length (filter (\<lambda>n. spender account entries n \<noteq> None) (plain_notes cr db))))"
    "table_ok cr db'" "plain_notes cr db' = map (mark_note account entries) (plain_notes cr db)"
    by (rule marking_read [OF assms, of account entries])
  then show ?thesis unfolding spender_listed mark_note_listed [abs_def] by blast
qed

text \<open>
  After marking, the unspent notes are the earlier ones less every output that has a row with a listed
  nullifier.
\<close>

lemma unspent_after_mark:
  "unspent_in account (map (mark_note account entries) ns) =
     {n \<in> unspent_in account ns. \<forall>q \<in> set ns. of_output account (output_of n) q \<longrightarrow> spender account entries q = None}"
proof -
  let ?m = "mark_note account entries"
  have o: "of_output account k (?m q) = of_output account k q" for k q by (simp add: of_output_def)
  have st: "settled account k (map ?m ns) \<longleftrightarrow>
      settled account k ns \<or> (\<exists>q \<in> set ns. of_output account k q \<and> spender account entries q \<noteq> None)" for k
    by (auto simp: settled_def o)
  have c: "counts account k (?m q) \<longleftrightarrow> counts account k q \<and> spender account entries q = None" for k q
    by (auto simp: counts_def o)
  have i: "id_or_default (?m q) = id_or_default q" for q by (simp add: id_or_default_def)
  have id: "?m q = q" if "spender account entries q = None" for q using that by (simp add: mark_note_def)
  show ?thesis
  proof (intro set_eqI iffI)
    fix n assume n: "n \<in> unspent_in account (map ?m ns)"
    then obtain q where q: "q \<in> set ns" "n = ?m q" and cn: "counts account (output_of n) n"
      and ns: "\<not> settled account (output_of n) (map ?m ns)"
      and mx: "\<And>p. p \<in> set ns \<Longrightarrow> counts account (output_of n) (?m p) \<Longrightarrow> id_or_default (?m p) \<le> id_or_default n"
      by (auto simp: unspent_in_def)
    have nq: "n = q" using cn q(2) by (simp add: c id)
    have none: "\<forall>p \<in> set ns. of_output account (output_of n) p \<longrightarrow> spender account entries p = None"
      and ns': "\<not> settled account (output_of n) ns"
      using ns unfolding st by blast+
    have "id_or_default p \<le> id_or_default n" if "p \<in> set ns" "counts account (output_of n) p" for p
      using mx [OF that(1)] that none by (simp add: c i) (simp add: counts_def)
    then show "n \<in> {n \<in> unspent_in account ns. \<forall>q \<in> set ns. of_output account (output_of n) q \<longrightarrow> spender account entries q = None}"
      using nq q cn ns' none by (simp add: unspent_in_def)
  next
    fix n assume "n \<in> {n \<in> unspent_in account ns. \<forall>q \<in> set ns. of_output account (output_of n) q \<longrightarrow> spender account entries q = None}"
    then have n: "n \<in> set ns" "counts account (output_of n) n" "\<not> settled account (output_of n) ns"
      and mx: "\<forall>q \<in> set ns. counts account (output_of n) q \<longrightarrow> id_or_default q \<le> id_or_default n"
      and none: "\<forall>q \<in> set ns. of_output account (output_of n) q \<longrightarrow> spender account entries q = None"
      by (simp_all add: unspent_in_def)
    have "spender account entries n = None" using n none by (simp add: counts_def)
    then have e: "?m n = n" by (rule id)
    have "n \<in> set (map ?m ns)" using n(1) e by (metis image_eqI set_map)
    moreover have "\<not> settled account (output_of n) (map ?m ns)" using n(3) none by (simp add: st)
    moreover have "\<forall>q \<in> set (map ?m ns). counts account (output_of n) q \<longrightarrow> id_or_default q \<le> id_or_default n"
      using mx by (simp add: c i)
    ultimately show "n \<in> unspent_in account (map ?m ns)" using n(2) unfolding unspent_in_def by blast
  qed
qed

section \<open>Releasing the notes of an expired transaction\<close>

definition released :: "i64 \<Rightarrow> bytes list \<Rightarrow> note_record \<Rightarrow> bool" where
  "released account expired n \<longleftrightarrow> nt_account_id n = account \<and> nt_spent n \<and>
     (\<exists>t. nt_spent_txid n = Some t \<and> length t = 32 \<and> t \<in> set expired)"

lemma expired_row_read:
  assumes "readable cr rows" "r \<in> set rows"
  shows "expired_row cr account expired r = Inr (released account expired (plain cr r))"
  using note_of_readable(7) [OF assms]
  by (auto simp: expired_row_def released_def note_of_readable [OF assms] decrypt_optional_cell_def bind_res_Inr_iff
      split: option.splits)

lemma fold_update_rows:
  assumes "\<And>r. nr_id (f r) = nr_id r" "\<And>r. f (f r) = f r"
  shows "fold (\<lambda>i. update_note_row i f) ids db =
    db\<lparr>note_rows := map (\<lambda>r. if nr_id r \<in> set ids then f r else r) (note_rows db)\<rparr>"
proof (induction ids arbitrary: db)
  case (Cons i ids)
  then show ?case by (simp add: update_note_row_def comp_def assms cong: if_cong)
qed simp

lemma released_rows:
  assumes "table_ok cr db"
  shows "fold_res (\<lambda>r ids. bind_res (expired_row cr account expired r) (\<lambda>hit. Inr (if hit then ids @ [nr_id r] else ids))) (note_rows db) []
    = Inr (map nr_id (filter (\<lambda>r. released account expired (plain cr r)) (note_rows db)))"
proof -
  have rd: "readable cr (note_rows db)" using assms by (simp add: table_ok_def)
  have "fold_res (\<lambda>r ids. bind_res (expired_row cr account expired r) (\<lambda>hit. Inr (if hit then ids @ [nr_id r] else ids))) (note_rows db) []
    = Inr (fold (\<lambda>r ids. if released account expired (plain cr r) then ids @ [nr_id r] else ids) (note_rows db) [])"
    by (rule fold_res_total) (simp add: expired_row_read [OF rd])
  then show ?thesis by (simp add: fold_snoc_filter)
qed

lemma release_read:
  fixes height :: u64
  assumes ok: "cipher_ok cr" "cipher_total cr" "table_ok cr db"
    and intents: "get_outgoing_transaction_intents cr account db = Inr intents"
  defines "expired \<equiv> concat (map (expired_txids_of height db) intents)"
  obtains db' where "release_expired_outgoing_notes cr account height db =
      Inr (length (filter (released account expired) (plain_notes cr db)), db')"
    "table_ok cr db'" "plain_notes cr db' =
      map (\<lambda>n. if released account expired n then n\<lparr>nt_spent := False, nt_spent_txid := None\<rparr> else n) (plain_notes cr db)"
    "\<exists>rows. db' = db\<lparr>note_rows := rows\<rparr>"
proof -
  let ?hit = "\<lambda>r. released account expired (plain cr r)"
  let ?G = "\<lambda>n. if released account expired n then n\<lparr>nt_spent := False, nt_spent_txid := None\<rparr> else n"
  have rd: "readable cr (note_rows db)" and dist: "distinct (map nr_id (note_rows db))" using ok(3) by (auto simp: table_ok_def)
  obtain cell where cell: "encrypt_bool cr False = Inr cell" using cipher_total_encrypt(2) [OF ok(2)] by blast
  define f where "f r = r\<lparr>nr_spent := cell, nr_spent_txid := None\<rparr>" for r :: note_row
  define db' where "db' = db\<lparr>note_rows := map (\<lambda>r. if ?hit r then f r else r) (note_rows db)\<rparr>"
  have ids: "nr_id r \<in> set (map nr_id (filter ?hit (note_rows db))) \<longleftrightarrow> ?hit r" if "r \<in> set (note_rows db)" for r
    using dist that by (auto simp: distinct_map dest: inj_onD)
  have upd: "fold (\<lambda>i. update_note_row i f) (map nr_id (filter ?hit (note_rows db))) db = db'"
  proof -
    have "map (\<lambda>r. if nr_id r \<in> set (map nr_id (filter ?hit (note_rows db))) then f r else r) (note_rows db) =
        map (\<lambda>r. if ?hit r then f r else r) (note_rows db)" by (rule map_cong [OF refl]) (simp only: ids)
    moreover have "nr_id (f r) = nr_id r" "f (f r) = f r" for r by (simp_all add: f_def)
    ultimately show ?thesis unfolding db'_def by (simp only: fold_update_rows)
  qed
  have none: "db' = db" if "\<forall>r \<in> set (note_rows db). \<not> ?hit r"
  proof -
    have "map (\<lambda>r. if ?hit r then f r else r) (note_rows db) = note_rows db" by (rule map_idI) (use that in simp)
    then show ?thesis by (simp add: db'_def)
  qed
  have "release_expired_outgoing_notes cr account height db = Inr (length (filter ?hit (note_rows db)), db')"
  proof (cases "filter ?hit (note_rows db) = []")
    case True
    then have n: "\<forall>r \<in> set (note_rows db). \<not> ?hit r" by (simp add: filter_empty_conv)
    show ?thesis
      unfolding release_expired_outgoing_notes_def intents bind_res_simps Let_def expired_def [symmetric] released_rows [OF ok(3)]
      using True none [OF n] by simp
  next
    case False
    then have "expired \<noteq> []" by (auto simp: filter_empty_conv released_def)
    then show ?thesis
      unfolding release_expired_outgoing_notes_def intents bind_res_simps Let_def expired_def [symmetric] released_rows [OF ok(3)] cell
      using False upd by (simp add: f_def [abs_def])
  qed
  moreover have "length (filter ?hit (note_rows db)) = length (filter (released account expired) (plain_notes cr db))"
    by (simp add: plain_notes_def filter_map comp_def)
  moreover have g: "note_of cr (if ?hit r then f r else r) = Inr (?G (plain cr r)) \<and> nr_id (if ?hit r then f r else r) = nr_id r"
    if "r \<in> set (note_rows db)" for r
    using note_of_spent_row [OF note_of_readable(11) [OF rd that] decrypt_encrypt_bool [OF ok(1) cell], of None None] note_of_readable(11) [OF rd that]
    by (cases "?hit r") (simp_all add: f_def decrypt_optional_cell_def)
  have w: "wf_note (?G n)" if "n \<in> set (plain_notes cr db)" for n using ok(3) that by (auto simp: table_ok_def wf_note_def)
  note table_map_rows [OF ok(3) g w, folded db'_def]
  moreover have "\<exists>rows. db' = db\<lparr>note_rows := rows\<rparr>" unfolding db'_def by blast
  ultimately show ?thesis using that [of db'] by simp
qed


lemma expired_txids_of_iff:
  "t \<in> set (expired_txids_of height db i) \<longleftrightarrow>
     oi_expiry_height i \<noteq> 0 \<and> unat (oi_expiry_height i) < unat height \<and> \<not> outgoing_transaction_is_confirmed (oi_txid i) db \<and>
     (\<exists>bs. hex_decode (oi_txid i) = Some bs \<and> length bs = 32 \<and> (t = bs \<or> t = rev bs))"
proof -
  have "height \<le> u64_from_u32 (oi_expiry_height i) \<longleftrightarrow> unat height \<le> unat (oi_expiry_height i)"
    by (simp add: word_le_nat_alt unat_ops)
  then show ?thesis by (cases "hex_decode (oi_txid i)") (auto simp: expired_txids_of_def)
qed

text \<open>
  Property C15. The notes of an expired transaction are released, and no others: a note becomes unspent again
  exactly if it is marked as spent by a transaction of the account, in either byte order of its
  identifier, whose expiry height is set and below the scanned height and that has no confirmed row. Nothing else of the notes changes.
\<close>

theorem expired_notes_released:
  assumes "cipher_ok cr" "cipher_total cr" "table_ok cr db"
    and "get_outgoing_transaction_intents cr account db = Inr intents"
  shows "\<exists>k db'. release_expired_outgoing_notes cr account height db = Inr (k, db') \<and> table_ok cr db' \<and>
    plain_notes cr db' = map (\<lambda>n.
      if nt_account_id n = account \<and> nt_spent n \<and>
         (\<exists>i \<in> set intents. oi_expiry_height i \<noteq> 0 \<and> unat (oi_expiry_height i) < unat height \<and>
            \<not> outgoing_transaction_is_confirmed (oi_txid i) db \<and>
            (\<exists>bs. hex_decode (oi_txid i) = Some bs \<and> length bs = 32 \<and> nt_spent_txid n \<in> {Some bs, Some (rev bs)}))
      then n\<lparr>nt_spent := False, nt_spent_txid := None\<rparr> else n) (plain_notes cr db)"
proof -
  let ?expired = "concat (map (expired_txids_of height db) intents)"
  have rel: "released account ?expired n \<longleftrightarrow> nt_account_id n = account \<and> nt_spent n \<and>
      (\<exists>i \<in> set intents. oi_expiry_height i \<noteq> 0 \<and> unat (oi_expiry_height i) < unat height \<and>
         \<not> outgoing_transaction_is_confirmed (oi_txid i) db \<and>
         (\<exists>bs. hex_decode (oi_txid i) = Some bs \<and> length bs = 32 \<and> nt_spent_txid n \<in> {Some bs, Some (rev bs)}))" for n
    unfolding released_def set_concat set_map UN_iff image_iff bex_simps expired_txids_of_iff
    by (cases "nt_spent_txid n") (auto simp: expired_txids_of_iff)
  obtain db' where "release_expired_outgoing_notes cr account height db =
      Inr (length (filter (released account ?expired) (plain_notes cr db)), db')"
    "table_ok cr db'" "plain_notes cr db' =
      map (\<lambda>n. if released account ?expired n then n\<lparr>nt_spent := False, nt_spent_txid := None\<rparr> else n) (plain_notes cr db)"
    by (rule release_read [OF assms, where height = height])
  then show ?thesis unfolding rel by blast
qed

section \<open>Intents are read back\<close>

lemma fold_res_collect:
  assumes "\<And>r. r \<in> set rows \<Longrightarrow> f r = Inr (g r)"
  shows "fold_res (\<lambda>r out. bind_res (f r) (\<lambda>i. Inr (out @ (case i of None \<Rightarrow> [] | Some x \<Rightarrow> [x])))) rows acc = Inr (acc @ List.map_filter g rows)"
  using assms by (induction rows arbitrary: acc) (auto simp: List.map_filter_simps split: option.splits)

lemma fold_res_collect_fails:
  assumes "fold_res (\<lambda>r out. bind_res (f r) (\<lambda>i. Inr (out @ (case i of None \<Rightarrow> [] | Some x \<Rightarrow> [x])))) rows acc = Inr res" "r \<in> set rows"
  shows "\<exists>i. f r = Inr i"
  using assms by (induction rows arbitrary: acc) (auto simp: bind_res_Inr_iff)

text \<open>The query succeeds exactly if every row of the table can be read; the order does not matter for that.\<close>

lemma intents_read:
  "get_outgoing_transaction_intents cr account db = Inr intents \<Longrightarrow>
     (\<forall>r \<in> set (intent_rows db). \<exists>i. read_intent cr account r = Inr i) \<and>
     set intents = {i. \<exists>r \<in> set (intent_rows db). read_intent cr account r = Inr (Some i)}"
proof -
  assume g: "get_outgoing_transaction_intents cr account db = Inr intents"
  let ?rows = "rev (sort_key (\<lambda>r. (ir_broadcast_at r, ir_txid r)) (intent_rows db))"
  have all: "\<exists>i. read_intent cr account r = Inr i" if "r \<in> set (intent_rows db)" for r
    using fold_res_collect_fails [OF g [unfolded get_outgoing_transaction_intents_def], of r] that by simp
  then have "read_intent cr account r = Inr (projr (read_intent cr account r))" if "r \<in> set ?rows" for r using that by force
  from fold_res_collect [where rows = ?rows and acc = "[]" and f = "read_intent cr account", OF this] g
  have "intents = List.map_filter (\<lambda>r. projr (read_intent cr account r)) ?rows" by (simp add: get_outgoing_transaction_intents_def)
  have "i \<in> set intents \<longleftrightarrow> (\<exists>r \<in> set (intent_rows db). read_intent cr account r = Inr (Some i))" for i
  proof -
    have "projr (read_intent cr account r) = Some i \<longleftrightarrow> read_intent cr account r = Inr (Some i)" if "r \<in> set (intent_rows db)" for r
      using all [OF that] by auto
    then show ?thesis by (simp add: \<open>intents = _\<close> map_filter_set)
  qed
  then show ?thesis using all by blast
qed

lemma intents_readable:
  assumes "\<forall>r \<in> set (intent_rows db). \<exists>i. read_intent cr account r = Inr i"
  shows "\<exists>intents. get_outgoing_transaction_intents cr account db = Inr intents"
proof -
  let ?rows = "rev (sort_key (\<lambda>r. (ir_broadcast_at r, ir_txid r)) (intent_rows db))"
  have "read_intent cr account r = Inr (projr (read_intent cr account r))" if "r \<in> set ?rows" for r using that assms by force
  from fold_res_collect [where rows = ?rows and acc = "[]" and f = "read_intent cr account", OF this] show ?thesis unfolding get_outgoing_transaction_intents_def by blast
qed


lemma upsert_intent_shape:
  assumes "upsert_outgoing_transaction_intent cr account txid_hex amount0 fee0 broadcast_at expiry db = Inr db'"
  obtains row amount fee where "ir_txid row = to_ascii_lowercase (trim txid_hex)" "encrypt_int64 cr account = Inr (ir_account_id row)"
    "encrypt_int64 cr amount = Inr (ir_amount row)" "encrypt_int64 cr fee = Inr (ir_fee row)" "i64_try_from amount0 = Some amount"
    "i64_try_from fee0 = Some fee" "ir_broadcast_at row = broadcast_at" "ir_expiry_height row = expiry"
    "set (intent_rows db') = {r \<in> set (intent_rows db). ir_txid r \<noteq> ir_txid row} \<union> {row}"
    "db' = put_tx (\<lambda>t. t\<lparr>tr_timestamp := (if 0 < tr_height t then tr_timestamp t else broadcast_at), tr_fee := fee\<rparr>)
       \<lparr>tr_id = 0, tr_txid = ir_txid row, tr_height = 0, tr_timestamp = broadcast_at, tr_fee = fee\<rparr> (db\<lparr>intent_rows := intent_rows db'\<rparr>)"
proof -
  let ?txid = "to_ascii_lowercase (trim txid_hex)"
  from assms obtain amount fee ac am fc where e: "i64_try_from amount0 = Some amount" "i64_try_from fee0 = Some fee"
      "encrypt_int64 cr account = Inr ac" "encrypt_int64 cr amount = Inr am" "encrypt_int64 cr fee = Inr fc"
    by (auto simp: upsert_outgoing_transaction_intent_def Let_def bind_res_Inr_iff split: if_splits)
  define row where "row = \<lparr>ir_txid = ?txid, ir_account_id = ac, ir_amount = am, ir_fee = fc,
    ir_broadcast_at = broadcast_at, ir_expiry_height = expiry\<rparr>"
  define irs where "irs = (if list_ex (\<lambda>r. ir_txid r = ?txid) (intent_rows db)
    then map (\<lambda>r. if ir_txid r = ?txid then row else r) (intent_rows db) else intent_rows db @ [row])"
  have d: "db' = put_tx (\<lambda>t. t\<lparr>tr_timestamp := (if 0 < tr_height t then tr_timestamp t else broadcast_at), tr_fee := fee\<rparr>)
      \<lparr>tr_id = 0, tr_txid = ?txid, tr_height = 0, tr_timestamp = broadcast_at, tr_fee = fee\<rparr> (db\<lparr>intent_rows := irs\<rparr>)"
    using assms e unfolding upsert_outgoing_transaction_intent_def Let_def irs_def row_def
    by (simp split: if_split_asm)
  then have i: "intent_rows db' = irs" by (simp add: put_tx_def)
  have "set irs = {r \<in> set (intent_rows db). ir_txid r \<noteq> ?txid} \<union> {row}"
    by (auto simp: irs_def list_ex_iff)
  with that [of row amount fee] e d i show ?thesis by (simp add: row_def)
qed

lemma put_tx_heights:
  assumes "\<And>t. tr_height (upd t) = tr_height t" "\<And>t. tr_txid (upd t) = tr_txid t" "tr_height fresh = 0"
  shows "outgoing_transaction_is_confirmed txid (put_tx upd fresh db) = outgoing_transaction_is_confirmed txid db"
proof -
  have "map (\<lambda>t. (tr_txid t, tr_height t)) (tx_rows (put_tx upd fresh db)) = map (\<lambda>t. (tr_txid t, tr_height t)) (tx_rows db) \<or>
      map (\<lambda>t. (tr_txid t, tr_height t)) (tx_rows (put_tx upd fresh db)) = map (\<lambda>t. (tr_txid t, tr_height t)) (tx_rows db) @ [(tr_txid fresh, 0)]"
    using assms by (auto simp: put_tx_def)
  moreover have "get_transaction_heights cs d = filter (\<lambda>(t, _). t \<in> set cs) (map (\<lambda>t. (tr_txid t, tr_height t)) (tx_rows d))" for cs d
    by (simp add: get_transaction_heights_def filter_map comp_def)
  ultimately show ?thesis unfolding outgoing_transaction_is_confirmed_def Let_def by (elim disjE) simp_all
qed

text \<open>
  Observation. An outgoing transaction is on record after its broadcast: the account's intents are the
  earlier ones, less an older entry with the same identifier, and the one recorded, with its amount, fee, time and expiry
  height; and recording it does not change which transactions count as confirmed.
\<close>

lemma outgoing_intent_read_back:
  assumes "cipher_ok cr" "in_i64 account"
    and old: "get_outgoing_transaction_intents cr account db = Inr intents"
    and up: "upsert_outgoing_transaction_intent cr account txid_hex amount fee broadcast_at expiry db = Inr db'"
  shows "(\<exists>intents'. get_outgoing_transaction_intents cr account db' = Inr intents' \<and>
      set intents' = {i \<in> set intents. oi_txid i \<noteq> to_ascii_lowercase (trim txid_hex)} \<union>
        {\<lparr>oi_txid = to_ascii_lowercase (trim txid_hex), oi_account_id = account, oi_amount = amount, oi_fee = fee,
          oi_broadcast_at = broadcast_at, oi_expiry_height = expiry\<rparr>}) \<and>
    outgoing_transaction_is_confirmed txid db' = outgoing_transaction_is_confirmed txid db"
proof -
  let ?txid = "to_ascii_lowercase (trim txid_hex)"
  let ?new = "\<lparr>oi_txid = ?txid, oi_account_id = account, oi_amount = amount, oi_fee = fee,
    oi_broadcast_at = broadcast_at, oi_expiry_height = expiry\<rparr>"
  obtain row a f where r: "ir_txid row = ?txid" "encrypt_int64 cr account = Inr (ir_account_id row)"
      "encrypt_int64 cr a = Inr (ir_amount row)" "encrypt_int64 cr f = Inr (ir_fee row)" "i64_try_from amount = Some a"
      "i64_try_from fee = Some f" "ir_broadcast_at row = broadcast_at" "ir_expiry_height row = expiry"
    and rows: "set (intent_rows db') = {r \<in> set (intent_rows db). ir_txid r \<noteq> ir_txid row} \<union> {row}"
    and d: "db' = put_tx (\<lambda>t. t\<lparr>tr_timestamp := (if 0 < tr_height t then tr_timestamp t else broadcast_at), tr_fee := f\<rparr>)
       \<lparr>tr_id = 0, tr_txid = ir_txid row, tr_height = 0, tr_timestamp = broadcast_at, tr_fee = f\<rparr> (db\<lparr>intent_rows := intent_rows db'\<rparr>)"
    by (rule upsert_intent_shape [OF up])
  have "in_i64 a" "in_i64 f" using r(5,6) by (auto simp: i64_try_from_Some_iff in_i64_def intro: order_trans [OF _ uint_ge_0])
  then have new: "read_intent cr account row = Inr (Some ?new)"
    using r assms(1,2) u64_try_from_i64_try_from [OF r(5)] u64_try_from_i64_try_from [OF r(6)]
    by (simp add: read_intent_def decrypt_encrypted)
  note o = intents_read [OF old]
  have id: "oi_txid i = ir_txid r" if "read_intent cr account r = Inr (Some i)" for r i
    using that by (auto simp: read_intent_def bind_res_Inr_iff split: if_splits)
  obtain intents' where n: "get_outgoing_transaction_intents cr account db' = Inr intents'"
    using intents_readable [of db' cr account] o new by (auto simp: rows)
  have "set intents' = {i \<in> set intents. oi_txid i \<noteq> ?txid} \<union> {?new}"
    using intents_read [OF n] o new id by (auto simp: rows r(1))
  moreover have "outgoing_transaction_is_confirmed txid db' = outgoing_transaction_is_confirmed txid db"
    by (subst d, subst put_tx_heights) (simp_all add: outgoing_transaction_is_confirmed_def get_transaction_heights_def)
  ultimately show ?thesis using n by blast
qed


section \<open>Reconciling spends seen before their note\<close>

lemma fold_res_each:
  assumes "fold_res (\<lambda>r s. bind_res (f r) (\<lambda>x. Inr (h r x s))) rows s = Inr res" "r \<in> set rows"
  shows "\<exists>x. f r = Inr x"
  using assms by (induction rows arbitrary: s) (auto simp: bind_res_Inr_iff)

lemma unlinked_keys_read:
  assumes "list_unlinked_spend_nullifiers_with_txid cr account db = Inr entries" "r \<in> set (unlinked_rows db)"
  shows "\<exists>k. unlinked_key cr account r = Inr k"
proof -
  from assms(1) obtain out where "fold_res (\<lambda>r out. bind_res (unlinked_entry cr account (\<lambda>(_, nf). \<not> all_zero nf) r) (\<lambda>entry.
      Inr (case entry of None \<Rightarrow> out | Some ((ty, nf), txid) \<Rightarrow> out @ [(ty, nf, txid)]))) (unlinked_rows db) [] = Inr out"
    by (auto simp: list_unlinked_spend_nullifiers_with_txid_def bind_res_Inr_iff)
  from fold_res_each [OF this assms(2)] show ?thesis by (auto simp: unlinked_entry_def bind_res_Inr_iff)
qed

text \<open>A note that answers for an entry, and its key.\<close>

definition resolves :: "i64 \<Rightarrow> (typed_nullifier \<Rightarrow> bytes option) \<Rightarrow> note_record \<Rightarrow> bool" where
  "resolves account expected n \<longleftrightarrow> nt_account_id n = account \<and> length (nt_nullifier n) = 32 \<and> nt_spent n \<and>
     (\<exists>t. expected (nt_note_type n, nt_nullifier n) = Some t \<and> nt_spent_txid n = Some t \<and> length t = 32)"

definition key_of :: "note_record \<Rightarrow> typed_nullifier" where
  "key_of n = (nt_note_type n, nt_nullifier n)"

lemma resolve_rows:
  assumes "readable cr rows"
  obtains resolved where "fold_res (resolve_row cr account expected) rows [] = Inr resolved"
    "\<forall>k \<in> set resolved. \<exists>n \<in> plain cr ` set rows. resolves account expected n \<and> k = key_of n"
proof -
  let ?g = "\<lambda>r acc. if resolves account expected (plain cr r) then List.insert (key_of (plain cr r)) acc else acc"
  have "resolve_row cr account expected r acc = Inr (?g r acc)" if "r \<in> set rows" for r acc
  proof (cases "expected (nt_note_type (plain cr r), nt_nullifier (plain cr r))")
    case None
    then show ?thesis using note_of_readable(1-5,7-9) [OF assms that] by (simp add: resolve_row_def resolves_def)
  next
    case (Some t)
    then show ?thesis using note_of_readable(1-5,7-9) [OF assms that]
      by (cases "nt_spent_txid (plain cr r)") (auto simp: resolve_row_def resolves_def key_of_def)
  qed
  then have "fold_res (resolve_row cr account expected) rows [] = Inr (fold ?g rows [])" by (rule fold_res_total)
  moreover have "k \<in> set (fold ?g xs acc) \<Longrightarrow> k \<in> set acc \<or> (\<exists>r \<in> set xs. resolves account expected (plain cr r) \<and> k = key_of (plain cr r))" for xs acc k
  proof (induction xs arbitrary: acc)
    case (Cons x xs)
    from Cons.IH [of "?g x acc"] Cons.prems have "k \<in> set (?g x acc) \<or> (\<exists>r \<in> set xs. resolves account expected (plain cr r) \<and> k = key_of (plain cr r))"
      by simp
    moreover have "k \<in> set acc \<or> resolves account expected (plain cr x) \<and> k = key_of (plain cr x)" if "k \<in> set (?g x acc)"
      using that by (cases "resolves account expected (plain cr x)") auto
    ultimately show ?case unfolding list.set bex_simps by blast
  qed simp
  from this [of _ rows "[]"] have "\<exists>n \<in> plain cr ` set rows. resolves account expected n \<and> k = key_of n" if "k \<in> set (fold ?g rows [])" for k
    using that by auto
  ultimately show ?thesis using that [of "fold ?g rows []"] by blast
qed

lemma delete_resolved_loop:
  fixes resolved :: "typed_nullifier list"
  assumes "\<And>r. r \<in> set rows \<Longrightarrow> \<exists>k. unlinked_key cr account r = Inr k"
  defines "gone \<equiv> \<lambda>r. \<exists>key \<in> set resolved. unlinked_key cr account r = Inr (Some key)"
  shows "\<exists>k'. fold_db (delete_resolved cr account resolved) rows k db =
    (db\<lparr>unlinked_rows := filter (\<lambda>q. \<forall>r \<in> set rows. gone r \<longrightarrow> ur_id q \<noteq> ur_id r) (unlinked_rows db)\<rparr>, Inr k')"
  using assms(1)
proof (induction rows arbitrary: k db)
  case (Cons r rs)
  from Cons.prems [of r] obtain key where key: "unlinked_key cr account r = Inr key" by auto
  have step: "delete_resolved cr account resolved r k db = (if gone r
      then (db\<lparr>unlinked_rows := filter (\<lambda>q. ur_id q \<noteq> ur_id r) (unlinked_rows db)\<rparr>, Inr (k + 1)) else (db, Inr k))"
    using key by (cases key) (auto simp: delete_resolved_def gone_def)
  have IH: "\<exists>k'. fold_db (delete_resolved cr account resolved) rs k db =
    (db\<lparr>unlinked_rows := filter (\<lambda>q. \<forall>r \<in> set rs. gone r \<longrightarrow> ur_id q \<noteq> ur_id r) (unlinked_rows db)\<rparr>, Inr k')" for k db
    by (rule Cons.IH) (simp add: Cons.prems)
  show ?case
  proof (cases "gone r")
    case True
    from IH [of "k + 1" "db\<lparr>unlinked_rows := filter (\<lambda>q. ur_id q \<noteq> ur_id r) (unlinked_rows db)\<rparr>"] True show ?thesis
      by (simp add: step conj_commute)
  next
    case False
    with IH [of k db] show ?thesis by (simp add: step)
  qed
qed simp



section \<open>Memos are read back\<close>

lemma insort_key_snoc: "f y \<le> f x \<Longrightarrow> insort_key f y (zs @ [x]) = insort_key f y zs @ [x]"
  by (induction zs) auto

lemma sort_key_snoc: "\<forall>y \<in> set xs. f y \<le> f x \<Longrightarrow> sort_key f (xs @ [x]) = sort_key f xs @ [x]"
  by (induction xs) (auto simp: insort_key_snoc)

lemma next_rowid_greater: "i \<in> set ids \<Longrightarrow> i < next_rowid ids"
  using Max_ge [of "set ids" i] by (auto simp: next_rowid_def)

text \<open>
  Observation. The memo stored with a transaction is the memo read for it, whether or not the transaction had
  a row or other memos before.
\<close>

lemma tx_memo_read_back:
  assumes "cipher_ok cr" "upsert_tx_memo cr now txid memo db = Inr db'"
  shows "get_tx_memo cr txid db' = Inr (Some memo)"
proof -
  from assms(2) obtain cell where cell: "encrypt_blob cr memo = Inr cell" by (auto simp: upsert_tx_memo_def bind_res_Inr_iff)
  define found where "found = find (\<lambda>t. tr_txid t = txid) (tx_rows db)"
  define i where "i = (case found of Some t \<Rightarrow> tr_id t | None \<Rightarrow> next_rowid (map tr_id (tx_rows db)))"
  define kept where "kept = filter (\<lambda>m. mr_tx_id m \<noteq> i) (memo_rows db)"
  define new where "new = \<lparr>mr_id = next_rowid (map mr_id kept), mr_tx_id = i, mr_memo = cell\<rparr>"
  have d: "memo_rows db' = kept @ [new]" "\<exists>t \<in> set (tx_rows db'). tr_id t = i \<and> tr_txid t = txid"
  proof -
    define db1 where "db1 = (case found of Some _ \<Rightarrow> db
      | None \<Rightarrow> db\<lparr>tx_rows := tx_rows db @ [\<lparr>tr_id = i, tr_txid = txid, tr_height = 0, tr_timestamp = now, tr_fee = 0\<rparr>]\<rparr>)"
    have "memo_rows db1 = memo_rows db" by (simp add: db1_def split: option.splits)
    then have "db' = db1\<lparr>memo_rows := kept @ [new]\<rparr>"
      using assms(2) unfolding upsert_tx_memo_def cell bind_res_simps Let_def found_def [symmetric] i_def [symmetric] db1_def [symmetric]
      by (simp add: kept_def new_def)
    moreover have "\<exists>t \<in> set (tx_rows db1). tr_id t = i \<and> tr_txid t = txid"
    proof (cases found)
      case (Some t)
      then have "t \<in> set (tx_rows db)" "tr_txid t = txid" by (auto simp: found_def find_Some_iff)
      with Some show ?thesis by (auto simp: db1_def i_def)
    qed (simp add: db1_def)
    ultimately show "memo_rows db' = kept @ [new]" "\<exists>t \<in> set (tx_rows db'). tr_id t = i \<and> tr_txid t = txid" by simp_all
  qed
  let ?P = "\<lambda>m. list_ex (\<lambda>t. tr_id t = mr_tx_id m \<and> tr_txid t = txid) (tx_rows db')"
  have "?P new" using d(2) by (auto simp: list_ex_iff new_def)
  then have hits: "filter ?P (memo_rows db') = filter ?P kept @ [new]" by (simp add: d(1))
  have "\<forall>m \<in> set (filter ?P kept). mr_id m \<le> mr_id new"
    by (auto simp: new_def intro!: less_imp_le next_rowid_greater)
  then have "lookup_memo txid db' = Some cell"
    unfolding lookup_memo_def Let_def hits by (simp add: sort_key_snoc new_def)
  then show ?thesis using decrypt_encrypted(1) [OF assms(1) cell] by (simp add: get_tx_memo_def)
qed

section \<open>Examples\<close>

lemma spendable_note_plain: "plain_notes plain_cipher (table_of [spendable_note]) = [stored_note 1 spendable_note]"
  by (simp add: table_of_ok(2) [OF spendable_note_wf])

theorem tx_memo_read_back_witness:
  "\<exists>db'. upsert_tx_memo plain_cipher 0 [0x61] [7] empty_note_db = Inr db' \<and> get_tx_memo plain_cipher [0x61] db' = Inr (Some [7])"
proof -
  have "\<exists>db'. upsert_tx_memo plain_cipher 0 [0x61] [7] empty_note_db = Inr db'"
    by (simp add: upsert_tx_memo_def Let_def encrypt_blob_def plain_cipher_def)
  then show ?thesis using tx_memo_read_back [OF plain_cipher_ok(1)] by blast
qed

theorem spends_marked_exactly_witness:
  "\<exists>db'. mark_notes_spent_by_nullifiers_with_txid plain_cipher 7 [(replicate 32 9, replicate 32 1)] (table_of [spendable_note]) = (db', Inr 1) \<and>
     map nt_spent (plain_notes plain_cipher db') = [True]"
proof -
  have f: "nt_account_id (stored_note 1 spendable_note) = 7" "nt_nullifier (stored_note 1 spendable_note) = replicate 32 9"
    by (simp_all only: spendable_note_def stored_note_def example_note_record_def note_record.simps)
  show ?thesis
    using spends_marked_exactly [OF plain_cipher_ok table_of_ok(1) [OF spendable_note_wf], of 7 "[(replicate 32 9, replicate 32 1)]"]
    unfolding spendable_note_plain by (auto simp: f)
qed

text \<open>A note spent by a transaction that expired at height 50.\<close>

definition expired_note :: note_record where
  "expired_note = (example_note_record 60 True)\<lparr>nt_spent_txid := Some (replicate 32 0)\<rparr>"

definition expired_intent :: intent_row where
  "expired_intent = \<lparr>ir_txid = replicate 64 0x30, ir_account_id = i64_to_le_bytes 7, ir_amount = i64_to_le_bytes 10, ir_fee = i64_to_le_bytes 1,
     ir_broadcast_at = 5, ir_expiry_height = 50\<rparr>"

definition expired_db :: note_db where
  "expired_db = (table_of [expired_note])\<lparr>intent_rows := [expired_intent]\<rparr>"

lemma expired_note_wf: "\<forall>n \<in> set [expired_note]. wf_note n"
  by (simp add: expired_note_def wf_note_def example_note_record_def) (simp add: in_i64_def)

lemma table_ok_other_tables: "table_ok cr (db\<lparr>intent_rows := is'\<rparr>) = table_ok cr db"
  "plain_notes cr (db\<lparr>intent_rows := is'\<rparr>) = plain_notes cr db"
  "table_ok cr (db\<lparr>unlinked_rows := us\<rparr>) = table_ok cr db" "plain_notes cr (db\<lparr>unlinked_rows := us\<rparr>) = plain_notes cr db"
  by (simp_all add: table_ok_def plain_notes_def)

lemma expired_db_ok: "table_ok plain_cipher expired_db" "plain_notes plain_cipher expired_db = [stored_note 1 expired_note]"
  using table_of_ok(1,2) [OF expired_note_wf] by (simp_all add: expired_db_def table_ok_other_tables)

lemma plain_int: "in_i64 v \<Longrightarrow> decrypt_int64 plain_cipher (i64_to_le_bytes v) = Inr v"
  using decrypt_encrypted(2) [OF plain_cipher_ok(1), of v "i64_to_le_bytes v"]
  by (simp add: encrypt_int64_def encrypt_blob_def plain_cipher_def)

lemma plain_cell: "decrypt_cell plain_cipher c = Inr c"
  by (simp add: decrypt_cell_def plain_cipher_def)

lemma expired_db_intents:
  "get_outgoing_transaction_intents plain_cipher 7 expired_db =
     Inr [\<lparr>oi_txid = replicate 64 0x30, oi_account_id = 7, oi_amount = 10, oi_fee = 1, oi_broadcast_at = 5, oi_expiry_height = 50\<rparr>]"
  by (simp add: get_outgoing_transaction_intents_def expired_db_def read_intent_def expired_intent_def plain_int in_i64_def u64_try_from_def)

theorem expired_notes_released_witness:
  "\<exists>k db'. release_expired_outgoing_notes plain_cipher 7 100 expired_db = Inr (k, db') \<and> map nt_spent (plain_notes plain_cipher db') = [False]"
proof -
  have f: "nt_account_id (stored_note 1 expired_note) = 7" "nt_spent (stored_note 1 expired_note)"
    "nt_spent_txid (stored_note 1 expired_note) = Some (replicate 32 0)"
    by (simp_all only: expired_note_def stored_note_def example_note_record_def note_record.simps)
  have h: "hex_decode (replicate 64 0x30) = Some (replicate 32 0)" by (simp add: numeral_eq_Suc hex_digit_def)
  have c: "\<not> outgoing_transaction_is_confirmed t expired_db" for t
    by (simp add: outgoing_transaction_is_confirmed_def get_transaction_heights_def expired_db_def table_of_def empty_note_db_def)
  show ?thesis
    using expired_notes_released [OF plain_cipher_ok expired_db_ok(1) expired_db_intents, of 100]
    unfolding expired_db_ok(2) by (auto simp: f h c)
qed

text \<open>Recording the same transaction again with a later expiry.\<close>

theorem outgoing_intent_read_back_witness:
  "\<exists>db' intents'. upsert_outgoing_transaction_intent plain_cipher 7 (replicate 64 0x30) 10 1 6 90 expired_db = Inr db' \<and>
     get_outgoing_transaction_intents plain_cipher 7 db' = Inr intents' \<and> map oi_expiry_height (remdups intents') = [90]"
proof -
  let ?t = "replicate 64 0x30 :: str"
  have t: "to_ascii_lowercase (trim ?t) = ?t"
  proof -
    have "trim ?t = ?t" by (rule trim_id) (simp_all add: is_whitespace_def)
    then show ?thesis by (simp add: to_ascii_lowercase_def)
  qed
  have "str_len ?t = 64" "list_all is_ascii_hexdigit ?t"
    by (simp_all add: str_len_def len_utf8_def is_ascii_hexdigit_def hex_digit_def list_all_iff
        utf8_def encode_char_def length_concat sum_list_replicate)
  then obtain db' where up: "upsert_outgoing_transaction_intent plain_cipher 7 ?t 10 1 6 90 expired_db = Inr db'"
    unfolding upsert_outgoing_transaction_intent_def t Let_def
    by (simp add: i64_try_from_def encrypt_int64_def encrypt_blob_def plain_cipher_def)
  have i: "in_i64 7" by (simp add: in_i64_def)
  let ?new = "\<lparr>oi_txid = ?t, oi_account_id = 7, oi_amount = 10, oi_fee = 1, oi_broadcast_at = 6, oi_expiry_height = 90\<rparr>"
  let ?old = "\<lparr>oi_txid = ?t, oi_account_id = 7, oi_amount = 10, oi_fee = 1, oi_broadcast_at = 5, oi_expiry_height = 50\<rparr>"
  from conjunct1 [OF outgoing_intent_read_back [OF plain_cipher_ok(1) i expired_db_intents up, of ?t]]
  obtain intents' where n: "get_outgoing_transaction_intents plain_cipher 7 db' = Inr intents'"
      and st: "set intents' = {i \<in> set [?old]. oi_txid i \<noteq> ?t} \<union> {?new}"
    unfolding t by blast
  have "set intents' = {?new}" unfolding st by auto
  then have "remdups intents' = [?new]" by (intro singleton_list) simp_all
  then show ?thesis using up n by auto
qed

text \<open>A spend on the list and its note in the table.\<close>

definition unlinked_db :: note_db where
  "unlinked_db = (table_of [spendable_note])\<lparr>unlinked_rows := [\<lparr>ur_id = 1, ur_account_id = i64_to_le_bytes 7, ur_note_type = ''Sapling'',
     ur_nullifier = replicate 32 9, ur_spending_txid = replicate 32 1\<rparr>]\<rparr>"


end
