(* ===== verification/AnchorWitness.thy ===== *)
theory AnchorWitness
  imports NoteSpends
begin

text \<open>
  Witnesses for spends at an anchor (\<open>frontier_witness.rs\<close>): the checkpoint of a note commitment tree
  that stands for an anchor height, the anchor of each pool there, and the notes that can be given a Merkle
  path which leads to that anchor.

  The trees themselves are those of the \<open>shardtree\<close> crate over the tables of the database; what the
  code asks of them is the record \<open>tree_queries\<close>, and what it asks of the \<open>sapling\<close> and \<open>orchard\<close> crates the
  record \<open>tree_lib\<close>. The tables of checkpoints are modelled, since the code reads them with SQL.
\<close>

section \<open>Checkpoints\<close>

record checkpoint_row =
  ck_id :: u32
  ck_position :: "i64 option"

definition checkpoint_depth_at_or_below :: "checkpoint_row list \<Rightarrow> u64 \<Rightarrow> storage_error + (u32 \<times> nat) option" where
  "checkpoint_depth_at_or_below table anchor_height =
     (if anchor_height = 0 then Inr None
      else bind_res (ok_or (u32_try_from anchor_height)
             (SStorage (Msg ''anchor_height {} exceeds u32::MAX'' [uint anchor_height]))) (\<lambda>anchor.
        let below = filter (\<lambda>i. i \<le> anchor) (map ck_id table)
        in if below = [] then Inr None
           else let i = Max (set below) in Inr (Some (i, length (filter (\<lambda>j. i < j) (map ck_id table))))))"

section \<open>Queries of the trees\<close>

typedecl sapling_node
typedecl orchard_node
typedecl orchard_leaf

datatype shardtree_error = TreeQuery | TreeOther msg

record orchard_tree_path =
  op_elems :: "orchard_node list"
  op_position :: u64

record tree_queries =
  sapling_witness_query :: "u64 \<Rightarrow> nat \<Rightarrow> shardtree_error + sapling_merkle_path option"
  sapling_root_query :: "nat \<Rightarrow> shardtree_error + sapling_node option"
  orchard_witness_query :: "u64 \<Rightarrow> nat \<Rightarrow> shardtree_error + orchard_tree_path option"
  orchard_root_query :: "nat \<Rightarrow> shardtree_error + orchard_node option"

record tree_lib =
  sapling_leaf :: "bytes \<Rightarrow> sapling_node option"
  sapling_path_root :: "sapling_merkle_path \<Rightarrow> sapling_node \<Rightarrow> sapling_node"
  sapling_node_bytes :: "sapling_node \<Rightarrow> bytes"
  orchard_anchor_of_root :: "orchard_node \<Rightarrow> orchard_anchor option"
  orchard_path_from_parts :: "u32 \<Rightarrow> orchard_node list \<Rightarrow> orchard_merkle_path"
  orchard_note_leaf :: "orchard_note \<Rightarrow> orchard_leaf"
  orchard_path_root :: "orchard_merkle_path \<Rightarrow> orchard_leaf \<Rightarrow> orchard_anchor"
  orchard_anchor_bytes :: "orchard_anchor \<Rightarrow> bytes"

definition NOTE_COMMITMENT_TREE_DEPTH :: nat where "NOTE_COMMITMENT_TREE_DEPTH = 32"

text \<open>A query the tree cannot answer is no error, it is \<open>None\<close>.\<close>

definition tree_answer :: "string \<Rightarrow> shardtree_error + 'a option \<Rightarrow> storage_error + 'a option" where
  "tree_answer context r =
     (case r of Inr x \<Rightarrow> Inr x | Inl TreeQuery \<Rightarrow> Inr None | Inl (TreeOther m) \<Rightarrow> Inl (SStorage (Msg context [])))"

definition sapling_witness_for_position :: "tree_queries \<Rightarrow> u64 \<Rightarrow> nat \<Rightarrow> storage_error + sapling_merkle_path option" where
  "sapling_witness_for_position tq pos depth =
     tree_answer ''Failed to compute Sapling witness from shardtree: {}'' (sapling_witness_query tq pos depth)"

definition sapling_anchor_root_at_depth :: "tree_queries \<Rightarrow> nat \<Rightarrow> storage_error + sapling_node option" where
  "sapling_anchor_root_at_depth tq depth =
     tree_answer ''Failed to compute Sapling root at checkpoint from shardtree: {}'' (sapling_root_query tq depth)"

definition orchard_witness_for_position :: "tree_lib \<Rightarrow> tree_queries \<Rightarrow> u64 \<Rightarrow> nat \<Rightarrow> storage_error + orchard_merkle_path option" where
  "orchard_witness_for_position lib tq pos depth =
     bind_res (tree_answer ''Failed to compute Orchard witness from shardtree: {}'' (orchard_witness_query tq pos depth)) (\<lambda>path.
       case path of
         None \<Rightarrow> Inr None
       | Some p \<Rightarrow>
           if length (op_elems p) \<noteq> NOTE_COMMITMENT_TREE_DEPTH
           then Inl (SStorage (Msg ''Unexpected Orchard auth path depth from shardtree: {}'' [int (length (op_elems p))]))
           else bind_res (ok_or (u32_try_from (op_position p))
                  (SStorage (Msg ''Orchard witness position {} exceeds u32::MAX'' [uint (op_position p)]))) (\<lambda>pos32.
                Inr (Some (orchard_path_from_parts lib pos32 (op_elems p)))))"

definition orchard_anchor_at_depth :: "tree_lib \<Rightarrow> tree_queries \<Rightarrow> nat \<Rightarrow> storage_error + orchard_anchor option" where
  "orchard_anchor_at_depth lib tq depth =
     bind_res (tree_answer ''Failed to compute Orchard root at checkpoint from shardtree: {}'' (orchard_root_query tq depth)) (\<lambda>root.
       Inr (Option.bind root (orchard_anchor_of_root lib)))"

record tree_state =
  ts_sapling_checkpoints :: "checkpoint_row list"
  ts_orchard_checkpoints :: "checkpoint_row list"
  ts_queries :: tree_queries

definition resolve_orchard_anchor_from_db_state :: "tree_lib \<Rightarrow> tree_state \<Rightarrow> u64 \<Rightarrow> storage_error + orchard_anchor option" where
  "resolve_orchard_anchor_from_db_state lib ts anchor_height =
     bind_res (checkpoint_depth_at_or_below (ts_orchard_checkpoints ts) anchor_height) (\<lambda>ck.
       case ck of None \<Rightarrow> Inr None | Some (_, depth) \<Rightarrow> orchard_anchor_at_depth lib (ts_queries ts) depth)"

definition resolve_sapling_root_from_db_state :: "tree_state \<Rightarrow> u64 \<Rightarrow> storage_error + sapling_node option" where
  "resolve_sapling_root_from_db_state ts anchor_height =
     bind_res (checkpoint_depth_at_or_below (ts_sapling_checkpoints ts) anchor_height) (\<lambda>ck.
       case ck of None \<Rightarrow> Inr None | Some (_, depth) \<Rightarrow> sapling_anchor_root_at_depth (ts_queries ts) depth)"

section \<open>Notes ready to be spent\<close>

text \<open>What the loop knows of each pool: the checkpoint and the anchor there.\<close>

definition accept_sapling_witness :: "tree_lib \<Rightarrow> sapling_node option \<Rightarrow> selectable_note \<Rightarrow> sapling_merkle_path \<Rightarrow> selectable_note option" where
  "accept_sapling_witness lib root_opt n witness =
     Option.bind (if length (commitment n) = 32 then sapling_leaf lib (commitment n) else None) (\<lambda>leaf.
     Option.bind root_opt (\<lambda>root.
       if sapling_node_bytes lib (sapling_path_root lib witness leaf) \<noteq> sapling_node_bytes lib root then None
       else Some (n\<lparr>merkle_path := Some witness\<rparr>)))"

definition hydrate_sapling ::
    "tree_lib \<Rightarrow> tree_queries \<Rightarrow> (u32 \<times> nat) option \<Rightarrow> sapling_node option \<Rightarrow> selectable_note \<Rightarrow> storage_error + selectable_note option" where
  "hydrate_sapling lib tq ck root_opt n =
     (if diversifier n = None \<or> the_note n = None then Inr None
      else if merkle_path n \<noteq> None then Inr (Some n)
      else case (sapling_position n, ck) of
        (Some pos, Some (_, depth)) \<Rightarrow>
          bind_res (sapling_witness_for_position tq pos depth) (\<lambda>witness_opt.
            Inr (Option.bind witness_opt (accept_sapling_witness lib root_opt n)))
      | _ \<Rightarrow> Inr None)"

definition accept_ironwood_witness :: "tree_lib \<Rightarrow> orchard_anchor \<Rightarrow> orchard_note \<Rightarrow> selectable_note \<Rightarrow> orchard_merkle_path \<Rightarrow> selectable_note option" where
  "accept_ironwood_witness lib anchor onote n path =
     (if orchard_anchor_bytes lib (orchard_path_root lib path (orchard_note_leaf lib onote)) \<noteq> orchard_anchor_bytes lib anchor then None
      else Some (n\<lparr>ironwood_merkle_path := Some path, ironwood_anchor := Some anchor\<rparr>))"

definition hydrate_ironwood ::
    "tree_lib \<Rightarrow> tree_queries \<Rightarrow> (u32 \<times> nat) option \<Rightarrow> orchard_anchor option \<Rightarrow> selectable_note \<Rightarrow> storage_error + selectable_note option" where
  "hydrate_ironwood lib tq ck anchor_opt n =
     (case (ironwood_position n, ironwood_note n) of
        (Some pos, Some onote) \<Rightarrow>
          if ironwood_merkle_path n \<noteq> None \<and> ironwood_anchor n \<noteq> None then Inr (Some n)
          else (case (ck, anchor_opt) of
             (Some (_, depth), Some anchor) \<Rightarrow>
               bind_res (orchard_witness_for_position lib tq pos depth) (\<lambda>path_opt.
                 Inr (Option.bind path_opt (accept_ironwood_witness lib anchor onote n)))
           | _ \<Rightarrow> Inr None)
      | _ \<Rightarrow> Inr None)"

definition construct_anchor_witnesses_from_db_state ::
    "tree_lib \<Rightarrow> tree_state \<Rightarrow> u64 \<Rightarrow> selectable_note list \<Rightarrow> storage_error + selectable_note list" where
  "construct_anchor_witnesses_from_db_state lib ts anchor_height notes =
     (if notes = [] \<or> anchor_height = 0 then Inr []
      else bind_res (checkpoint_depth_at_or_below (ts_sapling_checkpoints ts) anchor_height) (\<lambda>sapling_checkpoint.
           bind_res (checkpoint_depth_at_or_below (ts_orchard_checkpoints ts) anchor_height) (\<lambda>orchard_checkpoint.
           bind_res (case orchard_checkpoint of None \<Rightarrow> Inr None | Some (_, depth) \<Rightarrow> orchard_anchor_at_depth lib (ts_queries ts) depth) (\<lambda>orchard_anchor.
           bind_res (case sapling_checkpoint of None \<Rightarrow> Inr None | Some (_, depth) \<Rightarrow> sapling_anchor_root_at_depth (ts_queries ts) depth) (\<lambda>sapling_root.
             fold_res (\<lambda>n ready.
               bind_res (case note_type n of
                   Sapling \<Rightarrow> hydrate_sapling lib (ts_queries ts) sapling_checkpoint sapling_root n
                 | Ironwood \<Rightarrow> hydrate_ironwood lib (ts_queries ts) orchard_checkpoint orchard_anchor n) (\<lambda>h.
                 Inr (ready @ (case h of None \<Rightarrow> [] | Some m \<Rightarrow> [m])))) notes [])))))"


section \<open>The checkpoint of an anchor\<close>

lemma filter_greater_take:
  assumes "sorted_wrt (>) (xs :: u32 list)" "d < length xs"
  shows "length (filter (\<lambda>j. xs ! d < j) xs) = d"
  using assms
proof (induction xs arbitrary: d)
  case (Cons x xs)
  show ?case
  proof (cases d)
    case 0
    have "filter (\<lambda>j. x < j) xs = []" using Cons.prems(1) by (auto simp: filter_empty_conv dest: less_asym)
    with 0 show ?thesis by simp
  next
    case (Suc e)
    with Cons have "length (filter (\<lambda>j. xs ! e < j) xs) = e" "xs ! e < x" by auto
    with Suc show ?thesis by simp
  qed
qed simp

text \<open>
  Observation. The tree is asked at the right checkpoint. When checkpoint ids are unique, the checkpoint found
  for an anchor is the greatest one at or below it, its depth is its place counting from the newest, and
  there is none exactly if all checkpoints are above the anchor; only an anchor beyond 32 bits is an error.
\<close>

lemma checkpoint_of_anchor:
  assumes "distinct (map ck_id table)" "unat anchor < 2 ^ 32"
  shows "(\<exists>c. checkpoint_depth_at_or_below table anchor = Inr c \<and>
    (case c of
       None \<Rightarrow> anchor = 0 \<or> (\<forall>r \<in> set table. unat anchor < unat (ck_id r))
     | Some (i, depth) \<Rightarrow> i \<in> ck_id ` set table \<and> unat i \<le> unat anchor \<and>
         (\<forall>r \<in> set table. unat (ck_id r) \<le> unat anchor \<longrightarrow> ck_id r \<le> i) \<and>
         depth < length table \<and> rev (sort (map ck_id table)) ! depth = i))"
proof (cases "anchor = 0")
  case True
  then show ?thesis by (simp add: checkpoint_depth_at_or_below_def)
next
  case False
  define ids where "ids = map ck_id table"
  obtain a where a: "u32_try_from anchor = Some a" using assms(2) by (auto simp: u32_try_from_def)
  have ua: "unat a = unat anchor" using a by (simp add: u32_try_from_Some_iff unat_ops)
  define below where "below = filter (\<lambda>i. i \<le> a) ids"
  have le: "i \<le> a \<longleftrightarrow> unat i \<le> unat anchor" for i by (simp add: word_le_nat_alt ua)
  show ?thesis
  proof (cases "below = []")
    case True
    then have "checkpoint_depth_at_or_below table anchor = Inr None"
      using False a by (simp add: checkpoint_depth_at_or_below_def below_def ids_def)
    moreover have "\<forall>r \<in> set table. unat anchor < unat (ck_id r)"
      using True by (auto simp: below_def ids_def filter_empty_conv le not_le)
    ultimately show ?thesis by simp
  next
    case ne: False
    define i where "i = Max (set below)"
    have i: "i \<in> set below" using ne by (simp add: i_def)
    have mx: "j \<le> i" if "j \<in> set below" for j using that by (simp add: i_def)
    have ck: "checkpoint_depth_at_or_below table anchor = Inr (Some (i, length (filter (\<lambda>j. i < j) ids)))"
      using False a ne by (simp add: checkpoint_depth_at_or_below_def below_def ids_def i_def Let_def)
    define ds where "ds = rev (sort ids)"
    have set_ds: "set ds = set ids" and len: "length ds = length table" by (simp_all add: ds_def ids_def)
    have "sorted_wrt (<) (sort ids)" using assms(1) by (simp add: strict_sorted_iff ids_def)
    then have srt: "sorted_wrt (>) ds" by (simp add: ds_def sorted_wrt_rev)
    obtain d where d: "d < length ds" "ds ! d = i" 
    proof -
      have "i \<in> set ds" using i set_ds by (simp add: below_def)
      then show ?thesis using that by (auto simp: in_set_conv_nth)
    qed
    have "length (filter (\<lambda>j. i < j) ids) = length (filter (\<lambda>j. i < j) ds)"
      by (metis ds_def filter_sort length_rev length_sort rev_filter)
    also have "\<dots> = d" using filter_greater_take [OF srt d(1)] d(2) by simp
    finally have depth: "length (filter (\<lambda>j. i < j) ids) = d" .
    show ?thesis
      unfolding ck depth using d i mx len by (auto simp: ds_def ids_def below_def le)
  qed
qed

section \<open>Witnesses lead to the anchor\<close>

text \<open>The same note but for its witness.\<close>

definition same_note :: "selectable_note \<Rightarrow> selectable_note \<Rightarrow> bool" where
  "same_note n m \<longleftrightarrow> m\<lparr>merkle_path := merkle_path n, ironwood_merkle_path := ironwood_merkle_path n, ironwood_anchor := ironwood_anchor n\<rparr> = n"

text \<open>
  A note is ready if it has everything a spend needs and its path, unless it came with one, leads from its
  commitment to the anchor of its pool.
\<close>

definition witness_ready ::
    "tree_lib \<Rightarrow> sapling_node option \<Rightarrow> orchard_anchor option \<Rightarrow> selectable_note \<Rightarrow> selectable_note \<Rightarrow> bool" where
  "witness_ready lib root anchor n m \<longleftrightarrow> (case note_type m of
     Sapling \<Rightarrow> diversifier m \<noteq> None \<and> the_note m \<noteq> None \<and> (\<exists>path. merkle_path m = Some path \<and> (merkle_path n = Some path \<or>
       (\<exists>leaf r. sapling_leaf lib (commitment m) = Some leaf \<and> root = Some r \<and>
          sapling_node_bytes lib (sapling_path_root lib path leaf) = sapling_node_bytes lib r)))
   | Ironwood \<Rightarrow> ironwood_position m \<noteq> None \<and> (\<exists>path a onote. ironwood_merkle_path m = Some path \<and> ironwood_anchor m = Some a \<and>
       ironwood_note m = Some onote \<and> (ironwood_merkle_path n = Some path \<and> ironwood_anchor n = Some a \<or>
       anchor = Some a \<and> orchard_anchor_bytes lib (orchard_path_root lib path (orchard_note_leaf lib onote)) = orchard_anchor_bytes lib a)))"

lemma hydrate_sapling_ready:
  assumes "hydrate_sapling lib tq ck root n = Inr (Some m)" "note_type n = Sapling"
  shows "same_note n m \<and> witness_ready lib root anchor n m"
proof (cases "merkle_path n")
  case (Some p)
  with assms have "m = n" "diversifier n \<noteq> None" "the_note n \<noteq> None" by (auto simp: hydrate_sapling_def split: if_splits)
  with Some assms(2) show ?thesis by (simp add: same_note_def witness_ready_def)
next
  case None
  with assms(1) obtain w leaf r where "diversifier n \<noteq> None" "the_note n \<noteq> None" "m = n\<lparr>merkle_path := Some w\<rparr>"
      "sapling_leaf lib (commitment n) = Some leaf" "root = Some r"
      "sapling_node_bytes lib (sapling_path_root lib w leaf) = sapling_node_bytes lib r"
    by (auto simp: hydrate_sapling_def accept_sapling_witness_def bind_res_Inr_iff bind_eq_Some_conv split: if_split_asm option.split_asm)
  with None assms(2) show ?thesis by (simp add: same_note_def witness_ready_def)
qed

lemma hydrate_ironwood_ready:
  assumes "hydrate_ironwood lib tq ck anchor n = Inr (Some m)" "note_type n = Ironwood"
  shows "same_note n m \<and> witness_ready lib root anchor n m"
proof (cases "ironwood_merkle_path n \<noteq> None \<and> ironwood_anchor n \<noteq> None")
  case True
  with assms have "m = n" "ironwood_position n \<noteq> None" "ironwood_note n \<noteq> None"
    by (auto simp: hydrate_ironwood_def split: option.splits)
  with True assms(2) show ?thesis by (auto simp: same_note_def witness_ready_def)
next
  case False
  with assms(1) obtain path a onote where "ironwood_position n \<noteq> None" "ironwood_note n = Some onote" "anchor = Some a"
      "m = n\<lparr>ironwood_merkle_path := Some path, ironwood_anchor := Some a\<rparr>"
      "orchard_anchor_bytes lib (orchard_path_root lib path (orchard_note_leaf lib onote)) = orchard_anchor_bytes lib a"
    by (auto simp: hydrate_ironwood_def accept_ironwood_witness_def bind_res_Inr_iff bind_eq_Some_conv split: if_split_asm option.split_asm)
  with assms(2) show ?thesis by (simp add: same_note_def witness_ready_def)
qed

lemma collect_in:
  assumes "fold_res (\<lambda>n ready. bind_res (f n) (\<lambda>h. Inr (ready @ (case h of None \<Rightarrow> [] | Some m \<Rightarrow> [m])))) ns acc = Inr res" "m \<in> set res"
  shows "m \<in> set acc \<or> (\<exists>n \<in> set ns. f n = Inr (Some m))"
  using assms(1)
proof (induction ns arbitrary: acc)
  case (Cons n ns)
  from Cons.prems obtain h where h: "f n = Inr h" by (auto simp: bind_res_Inr_iff)
  with Cons.prems Cons.IH [of "acc @ (case h of None \<Rightarrow> [] | Some m \<Rightarrow> [m])"] show ?case by (cases h) auto
qed (use assms(2) in simp)

lemma constructed_ready:
  assumes "construct_anchor_witnesses_from_db_state lib ts height notes = Inr ready" "m \<in> set ready"
  shows "\<exists>n \<in> set notes. \<exists>root anchor. same_note n m \<and> witness_ready lib root anchor n m \<and>
    resolve_sapling_root_from_db_state ts height = Inr root \<and> resolve_orchard_anchor_from_db_state lib ts height = Inr anchor"
proof -
  from assms obtain sck ock anchor root where c: "checkpoint_depth_at_or_below (ts_sapling_checkpoints ts) height = Inr sck"
      "checkpoint_depth_at_or_below (ts_orchard_checkpoints ts) height = Inr ock"
      "(case ock of None \<Rightarrow> Inr None | Some (_, depth) \<Rightarrow> orchard_anchor_at_depth lib (ts_queries ts) depth) = Inr anchor"
      "(case sck of None \<Rightarrow> Inr None | Some (_, depth) \<Rightarrow> sapling_anchor_root_at_depth (ts_queries ts) depth) = Inr root"
    and f: "fold_res (\<lambda>n ready. bind_res (case note_type n of
          Sapling \<Rightarrow> hydrate_sapling lib (ts_queries ts) sck root n
        | Ironwood \<Rightarrow> hydrate_ironwood lib (ts_queries ts) ock anchor n) (\<lambda>h.
        Inr (ready @ (case h of None \<Rightarrow> [] | Some m \<Rightarrow> [m])))) notes [] = Inr ready"
    by (auto simp: construct_anchor_witnesses_from_db_state_def bind_res_Inr_iff split: if_splits)
  from collect_in [OF f assms(2)] obtain n where n: "n \<in> set notes" "(case note_type n of
      Sapling \<Rightarrow> hydrate_sapling lib (ts_queries ts) sck root n
    | Ironwood \<Rightarrow> hydrate_ironwood lib (ts_queries ts) ock anchor n) = Inr (Some m)" by auto
  have "same_note n m \<and> witness_ready lib root anchor n m"
    using n(2) hydrate_sapling_ready hydrate_ironwood_ready by (cases "note_type n") auto
  moreover have "resolve_sapling_root_from_db_state ts height = Inr root" "resolve_orchard_anchor_from_db_state lib ts height = Inr anchor"
    using c by (simp_all add: resolve_sapling_root_from_db_state_def resolve_orchard_anchor_from_db_state_def)
  ultimately show ?thesis using n(1) by blast
qed

text \<open>
  Property C16. No note is offered with a wrong witness. Each note that leaves the witness construction is one
  of the notes that entered it, changed only in its witness; it has the material its pool needs; and
  a path made for it leads from its commitment to the root of its pool's tree at the checkpoint of the anchor.
\<close>

theorem witnesses_lead_to_anchor:
  assumes "construct_anchor_witnesses_from_db_state lib ts height notes = Inr ready" "m \<in> set ready"
  shows "\<exists>n \<in> set notes. \<exists>root anchor. same_note n m \<and> witness_ready lib root anchor n m \<and>
    resolve_sapling_root_from_db_state ts height = Inr root \<and> resolve_orchard_anchor_from_db_state lib ts height = Inr anchor"
  using assms by (rule constructed_ready)

section \<open>Examples\<close>

definition example_table_ids :: "checkpoint_row list" where
  "example_table_ids = map (\<lambda>i. \<lparr>ck_id = i, ck_position = None\<rparr>) [100, 101, 105, 110]"

theorem checkpoint_of_anchor_witness:
  "checkpoint_depth_at_or_below example_table_ids 109 = Inr (Some (105, 1)) \<and> rev (sort (map ck_id example_table_ids)) ! 1 = 105"
proof -
  have ck: "checkpoint_depth_at_or_below example_table_ids 109 = Inr (Some (105, 1))"
    by (simp add: checkpoint_depth_at_or_below_def example_table_ids_def u32_try_from_def)
  have d: "distinct (map ck_id example_table_ids)" "unat (109 :: u64) < 2 ^ 32" by (simp_all add: example_table_ids_def)
  from checkpoint_of_anchor [OF d] ck show ?thesis by simp
qed


text \<open>A tree that answers every query and a Sapling note at position 5.\<close>

definition example_tree_lib :: tree_lib where
  "example_tree_lib = \<lparr>sapling_leaf = (\<lambda>_. Some undefined), sapling_path_root = (\<lambda>_ _. undefined), sapling_node_bytes = (\<lambda>_. [1]),
     orchard_anchor_of_root = (\<lambda>_. None), orchard_path_from_parts = (\<lambda>_ _. undefined), orchard_note_leaf = (\<lambda>_. undefined),
     orchard_path_root = (\<lambda>_ _. undefined), orchard_anchor_bytes = (\<lambda>_. [])\<rparr>"

definition example_tree_state :: tree_state where
  "example_tree_state = \<lparr>ts_sapling_checkpoints = example_table_ids, ts_orchard_checkpoints = [],
     ts_queries = \<lparr>sapling_witness_query = (\<lambda>_ _. Inr (Some undefined)), sapling_root_query = (\<lambda>_. Inr (Some undefined)),
       orchard_witness_query = (\<lambda>_ _. Inl TreeQuery), orchard_root_query = (\<lambda>_. Inl TreeQuery)\<rparr>\<rparr>"

definition tree_note :: selectable_note where
  "tree_note = (new_note 60 (replicate 32 1) 100 (replicate 32 4) 2)\<lparr>sapling_position := Some 5, diversifier := Some undefined, the_note := Some undefined\<rparr>"

theorem witnesses_lead_to_anchor_witness:
  "\<exists>m. construct_anchor_witnesses_from_db_state example_tree_lib example_tree_state 109 [tree_note] = Inr [m] \<and>
     note_value m = 60 \<and> merkle_path m \<noteq> None"
proof -
  let ?m = "tree_note\<lparr>merkle_path := Some undefined\<rparr>"
  have "checkpoint_depth_at_or_below example_table_ids 109 = Inr (Some (105, 1))" "checkpoint_depth_at_or_below [] 109 = Inr None"
    by (simp_all add: checkpoint_depth_at_or_below_def example_table_ids_def u32_try_from_def)
  then have c: "construct_anchor_witnesses_from_db_state example_tree_lib example_tree_state 109 [tree_note] = Inr [?m]"
    by (simp add: construct_anchor_witnesses_from_db_state_def example_tree_state_def sapling_anchor_root_at_depth_def
        tree_answer_def tree_note_def new_note_def hydrate_sapling_def sapling_witness_for_position_def accept_sapling_witness_def
        example_tree_lib_def)
  have "note_value ?m = 60" "note_type ?m = Sapling" by (simp_all add: tree_note_def new_note_def)
  moreover from witnesses_lead_to_anchor [OF c] this have "merkle_path ?m \<noteq> None" by (auto simp: witness_ready_def)
  ultimately show ?thesis using c by blast
qed

end
