(* ===== verification/WitnessCheck.thy ===== *)
theory WitnessCheck
  imports AnchorWitness
begin

text \<open>
  The witness check of the repository (\<open>repository.rs\<close>, \<open>check_witnesses\<close>): which unspent notes cannot be
  spent at an anchor, and the height ranges to scan again for them. It writes nothing; the sync engine
  queues the ranges (\<open>SpendFlow\<close>).

  Counters of type \<open>usize\<close> are natural numbers. The order in which the notes of a \<open>HashMap\<close> come does not
  matter for the result, since the ranges are sorted at the end.
\<close>

section \<open>What is read of a note\<close>

record note_meta =
  wm_note_type :: note_type
  wm_height :: i64
  wm_txid :: bytes
  wm_output_index :: i64
  wm_position :: "i64 option"
  wm_has_material :: bool

type_synonym meta_state = "note_output list \<times> (note_output \<times> i64 \<times> note_meta) list"

definition meta_step :: "cipher \<Rightarrow> i64 \<Rightarrow> note_row \<Rightarrow> meta_state \<Rightarrow> storage_error + meta_state" where
  "meta_step cr account_id r s =
     (case s of (spent_outputs, metas) \<Rightarrow>
     bind_res (decrypt_int64 cr (nr_account_id r)) (\<lambda>account.
       if account \<noteq> account_id then Inr s
       else bind_res (decrypt_cell cr (nr_txid r)) (\<lambda>txid.
            bind_res (decrypt_int64 cr (nr_output_index r)) (\<lambda>out.
            let ty = note_type_from (nr_note_type r); key = (txid, out, ty)
            in bind_res (decrypt_bool cr (nr_spent r)) (\<lambda>spent.
               if spent then Inr (key # spent_outputs, AList.delete key metas)
               else if key \<in> set spent_outputs then Inr s
               else bind_res (decrypt_int64 cr (nr_height r)) (\<lambda>height.
                    bind_res (decrypt_optional_int64 cr (nr_position r)) (\<lambda>pos.
                    bind_res (decrypt_optional_cell cr (nr_note r)) (\<lambda>nt.
                      let meta = \<lparr>wm_note_type = ty, wm_height = height, wm_txid = txid, wm_output_index = out, wm_position = pos,
                            wm_has_material = (case nt of None \<Rightarrow> False | Some bs \<Rightarrow> bs \<noteq> [])\<rparr>
                      in Inr (case map_of metas key of
                           Some (existing_id, _) \<Rightarrow>
                             if nr_id r \<le> existing_id then s else (spent_outputs, AList.update key (nr_id r, meta) metas)
                         | None \<Rightarrow> (spent_outputs, AList.update key (nr_id r, meta) metas))))))))))"

definition get_unspent_note_witness_metas :: "cipher \<Rightarrow> i64 \<Rightarrow> note_db \<Rightarrow> storage_error + note_meta list" where
  "get_unspent_note_witness_metas cr account_id db =
     bind_res (fold_res (meta_step cr account_id) (note_rows db) ([], [])) (\<lambda>(_, metas). Inr (map (snd \<circ> snd) metas))"

section \<open>Heights of shards and where to start again\<close>

record tree_shard_row =
  tsh_index :: i64
  tsh_end_height :: "i64 option"

definition tree_shard_height_range_for_position :: "tree_shard_row list \<Rightarrow> i64 \<Rightarrow> (u64 \<times> u64) option" where
  "tree_shard_height_range_for_position rows position =
     Option.bind (shard_index_from_position position) (\<lambda>shard.
     Option.bind (find (\<lambda>r. tsh_index r = shard) rows) (\<lambda>row.
     Option.bind (tsh_end_height row) (\<lambda>end_height.
       let prev_end = Option.bind (find (\<lambda>r. tsh_index r = shard - 1) rows) tsh_end_height;
           start = (case Option.bind prev_end u64_try_from of None \<Rightarrow> 1 | Some v \<Rightarrow> saturating_add v 1)
       in map_option (\<lambda>e. (start, saturating_add e 1)) (u64_try_from end_height))))"

definition shard_start :: "i64 \<Rightarrow> i64 option" where
  "shard_start position = (if position < 0 then None else Some (position div 2 ^ 16 * 2 ^ 16))"

text \<open>The newest checkpoint of both pools before every shard concerned.\<close>

definition common_checkpoints :: "i64 \<Rightarrow> i64 option \<Rightarrow> i64 option \<Rightarrow> checkpoint_row list \<Rightarrow> checkpoint_row list \<Rightarrow> u32 list" where
  "common_checkpoints ceiling sapling_start orchard_start sapling orchard =
     map ck_id (filter (\<lambda>s. uint (ck_id s) \<le> ceiling
       \<and> (case (sapling_start, ck_position s) of (Some b, Some p) \<Rightarrow> p < b | _ \<Rightarrow> True)
       \<and> list_ex (\<lambda>o'. ck_id o' = ck_id s \<and> (case (orchard_start, ck_position o') of (Some b, Some p) \<Rightarrow> p < b | _ \<Rightarrow> True)) orchard) sapling)"

definition witness_repair_replay_start ::
    "tree_state \<Rightarrow> u64 \<Rightarrow> u64 \<Rightarrow> i64 option \<Rightarrow> i64 option \<Rightarrow> storage_error + u64" where
  "witness_repair_replay_start ts requested birthday sapling_pos orchard_pos =
     (if sapling_pos = None \<and> orchard_pos = None then Inr (max (max requested birthday) 1)
      else bind_res (ok_or (i64_try_from (saturating_sub requested 1))
             (SStorage (Msg ''witness repair start {} exceeds i64::MAX'' [uint requested]))) (\<lambda>ceiling.
        let ids = common_checkpoints ceiling (Option.bind sapling_pos shard_start) (Option.bind orchard_pos shard_start)
              (ts_sapling_checkpoints ts) (ts_orchard_checkpoints ts);
            after = (if ids = [] then birthday else saturating_add (u64_from_u32 (Max (set ids))) 1)
        in Inr (min (max (max after birthday) 1) (max (max requested birthday) 1))))"

section \<open>The check\<close>

record witness_check_result =
  considered_notes :: nat
  sapling_missing :: nat
  orchard_missing :: nat
  repair_ranges :: "(u64 \<times> u64) list"

text \<open>A candidate: transaction, output, pool, height and position. The code keeps the position as an option, always present.\<close>

type_synonym anchor_candidate = "bytes \<times> u32 \<times> u8 \<times> u64 \<times> i64"

text \<open>The height of a note, if it lies between birthday and anchor.\<close>

definition height_in_window :: "u64 \<Rightarrow> u64 \<Rightarrow> note_meta \<Rightarrow> u64 option" where
  "height_in_window birthday anchor n =
     Option.bind (u64_try_from (wm_height n)) (\<lambda>h. if h = 0 \<or> h < birthday \<or> anchor < h then None else Some h)"

definition valid_position :: "note_meta \<Rightarrow> i64 option" where
  "valid_position n = (case wm_position n of Some p \<Rightarrow> if 0 \<le> p then Some p else None | None \<Rightarrow> None)"

definition meta_shards :: "note_type \<Rightarrow> u64 \<Rightarrow> u64 \<Rightarrow> note_meta list \<Rightarrow> i64 list" where
  "meta_shards ty birthday anchor metas =
     remdups (List.map_filter (\<lambda>n. Option.bind (valid_position n) shard_index_from_position)
       (filter (\<lambda>n. wm_note_type n = ty \<and> height_in_window birthday anchor n \<noteq> None) metas))"

fun pool_byte :: "note_type \<Rightarrow> u8" where
  "pool_byte Sapling = 0"
| "pool_byte Ironwood = 1"

definition candidate_of :: "note_meta \<Rightarrow> u64 \<Rightarrow> anchor_candidate option" where
  "candidate_of n h =
     (if \<not> wm_has_material n then None
      else Option.bind (valid_position n) (\<lambda>p.
        if 0 \<le> wm_output_index n \<and> wm_output_index n < 2 ^ 32
        then Some (wm_txid n, word_of_int (wm_output_index n), pool_byte (wm_note_type n), h, p) else None))"

definition add_missing :: "note_type \<Rightarrow> nat \<Rightarrow> witness_check_result \<Rightarrow> witness_check_result" where
  "add_missing ty k res =
     (case ty of Sapling \<Rightarrow> res\<lparr>sapling_missing := sapling_missing res + k\<rparr> | Ironwood \<Rightarrow> res\<lparr>orchard_missing := orchard_missing res + k\<rparr>)"

text \<open>A range to scan again is never empty and starts at the birthday or later.\<close>

definition clip_range :: "u64 \<Rightarrow> u64 \<Rightarrow> u64 \<Rightarrow> u64 \<times> u64" where
  "clip_range birthday s e = (let start = max (max s birthday) 1 in (start, max e (saturating_add start 1)))"

definition blocked_ranges :: "u64 \<Rightarrow> u64 \<Rightarrow> (i64 \<times> (u64 \<times> u64) list) list \<Rightarrow> note_meta \<Rightarrow> (u64 \<times> u64) list" where
  "blocked_ranges birthday anchor blocked n =
     (case Option.bind (valid_position n) shard_index_from_position of
        None \<Rightarrow> []
      | Some shard \<Rightarrow> (case map_of blocked shard of
            None \<Rightarrow> []
          | Some rs \<Rightarrow> map (\<lambda>(s, e). clip_range birthday s (min e (saturating_add anchor 1))) rs))"

text \<open>Without material or position: the heights of the note's shard, or from its own height on.\<close>

definition material_range :: "u64 \<Rightarrow> u64 \<Rightarrow> shard_cell list \<Rightarrow> note_meta \<Rightarrow> u64 \<Rightarrow> u64 \<times> u64" where
  "material_range birthday anchor shards n h =
     (case Option.bind (Option.bind (Option.bind (valid_position n) shard_index_from_position) (\<lambda>shard.
             find (\<lambda>c. shard_index c = shard) shards)) (\<lambda>c. map_option (\<lambda>s. (s, c)) (u64_try_from (subtree_start_height c))) of
        Some (s, c) \<Rightarrow>
          clip_range birthday s (saturating_add (min (case Option.bind (subtree_end_height c) u64_try_from of None \<Rightarrow> anchor | Some e \<Rightarrow> e) anchor) 1)
      | None \<Rightarrow> clip_range birthday h (saturating_add anchor 1))"

definition check_note ::
    "u64 \<Rightarrow> u64 \<Rightarrow> (note_type \<Rightarrow> (i64 \<times> (u64 \<times> u64) list) list) \<Rightarrow> (note_type \<Rightarrow> shard_cell list) \<Rightarrow> note_meta
     \<Rightarrow> witness_check_result \<times> (u64 \<times> u64) list \<times> anchor_candidate list \<Rightarrow> witness_check_result \<times> (u64 \<times> u64) list \<times> anchor_candidate list" where
  "check_note birthday anchor blocked shards n acc =
     (case acc of (res0, pending, candidates0) \<Rightarrow>
      case height_in_window birthday anchor n of
        None \<Rightarrow> acc
      | Some h \<Rightarrow>
          let res = res0\<lparr>considered_notes := considered_notes res0 + 1\<rparr>;
              candidates = (case candidate_of n h of None \<Rightarrow> candidates0 | Some c \<Rightarrow> candidates0 @ [c]);
              derived = blocked_ranges birthday anchor (blocked (wm_note_type n)) n
          in if derived \<noteq> [] then (add_missing (wm_note_type n) 1 res, pending @ derived, candidates)
             else if \<not> wm_has_material n \<or> valid_position n = None
             then (add_missing (wm_note_type n) 1 res, pending @ [material_range birthday anchor (shards (wm_note_type n)) n h], candidates)
             else (res, pending, candidates))"

section \<open>Notes without a witness\<close>

definition min_opt :: "'a::linorder option \<Rightarrow> 'a \<Rightarrow> 'a option" where
  "min_opt o' x = Some (case o' of None \<Rightarrow> x | Some y \<Rightarrow> min y x)"

definition max_opt :: "'a::linorder option \<Rightarrow> 'a \<Rightarrow> 'a option" where
  "max_opt o' x = Some (case o' of None \<Rightarrow> x | Some y \<Rightarrow> max y x)"

record gap =
  gap_sapling :: nat
  gap_orchard :: nat
  gap_height :: u64
  gap_start :: "u64 option"
  gap_end :: "u64 option"
  gap_sapling_position :: "i64 option"
  gap_orchard_position :: "i64 option"

definition gap_step :: "(note_type \<Rightarrow> tree_shard_row list) \<Rightarrow> anchor_candidate \<Rightarrow> gap \<Rightarrow> gap" where
  "gap_step tree_shards c g =
     (case c of (_, _, pool, h, p) \<Rightarrow>
        let sapling = (pool = 0);
            g = g\<lparr>gap_height := min (gap_height g) h\<rparr>;
            g = (if sapling then g\<lparr>gap_sapling := gap_sapling g + 1, gap_sapling_position := min_opt (gap_sapling_position g) p\<rparr>
                 else g\<lparr>gap_orchard := gap_orchard g + 1, gap_orchard_position := min_opt (gap_orchard_position g) p\<rparr>)
        in (case tree_shard_height_range_for_position (tree_shards (if sapling then Sapling else Ironwood)) p of
              None \<Rightarrow> g
            | Some (s, e) \<Rightarrow> g\<lparr>gap_start := min_opt (gap_start g) s, gap_end := max_opt (gap_end g) e\<rparr>))"

definition ready_key :: "selectable_note \<Rightarrow> bytes \<times> u32 \<times> u8" where
  "ready_key n = (note_txid n, output_index n, pool_byte (note_type n))"

definition not_ready :: "selectable_note list \<Rightarrow> anchor_candidate \<Rightarrow> bool" where
  "not_ready ready c \<longleftrightarrow> (case c of (txid, out, pool, _, _) \<Rightarrow> (txid, out, pool) \<notin> ready_key ` set ready)"

definition check_ready ::
    "tree_state \<Rightarrow> (note_type \<Rightarrow> tree_shard_row list) \<Rightarrow> u64 \<Rightarrow> u64 \<Rightarrow> selectable_note list \<Rightarrow> anchor_candidate list
     \<Rightarrow> witness_check_result \<Rightarrow> (u64 \<times> u64) list \<Rightarrow> storage_error + witness_check_result \<times> (u64 \<times> u64) list" where
  "check_ready ts tree_shards birthday anchor ready candidates res pending =
     (if length ready < length candidates
      then let g = fold (gap_step tree_shards) (filter (not_ready ready) candidates)
             \<lparr>gap_sapling = 0, gap_orchard = 0, gap_height = anchor, gap_start = None, gap_end = None,
              gap_sapling_position = None, gap_orchard_position = None\<rparr>
        in if 0 < gap_sapling g + gap_orchard g
           then let requested = max (max (case gap_start g of None \<Rightarrow> gap_height g | Some s \<Rightarrow> s) birthday) 1
             in bind_res (witness_repair_replay_start ts requested birthday (gap_sapling_position g) (gap_orchard_position g)) (\<lambda>start.
               let range_end = max (min (case gap_end g of None \<Rightarrow> saturating_add anchor 1 | Some e \<Rightarrow> e) (saturating_add anchor 1))
                     (saturating_add start 1)
               in Inr (add_missing Ironwood (gap_orchard g) (add_missing Sapling (gap_sapling g) res), pending @ [(start, range_end)]))
           else Inr (res, pending)
      else Inr (res, pending))"

section \<open>Merging ranges\<close>

fun merge_ranges :: "(u64 \<times> u64) list \<Rightarrow> (u64 \<times> u64) list" where
  "merge_ranges ((s1, e1) # (s2, e2) # rs) =
     (if s2 \<le> e1 then merge_ranges ((s1, max e1 e2) # rs) else (s1, e1) # merge_ranges ((s2, e2) # rs))"
| "merge_ranges rs = rs"

record witness_env =
  wv_cipher :: cipher
  wv_notes :: note_db
  wv_source :: note_source
  wv_spend :: spend_db
  wv_trees :: tree_state
  wv_tree_shards :: "note_type \<Rightarrow> tree_shard_row list"

definition note_shard_table :: "note_db \<Rightarrow> note_type \<Rightarrow> shard_cell list" where
  "note_shard_table db ty = (case ty of Sapling \<Rightarrow> sapling_note_shards db | Ironwood \<Rightarrow> orchard_note_shards db)"

definition check_witnesses :: "witness_env \<Rightarrow> i64 \<Rightarrow> u64 \<Rightarrow> u64 \<Rightarrow> storage_error + witness_check_result" where
  "check_witnesses env account_id anchor wallet_birthday =
     (let nothing = \<lparr>considered_notes = 0, sapling_missing = 0, orchard_missing = 0, repair_ranges = []\<rparr>
      in if anchor = 0 then Inr nothing
         else bind_res (get_unspent_note_witness_metas (wv_cipher env) account_id (wv_notes env)) (\<lambda>metas.
           if metas = [] then Inr nothing
           else let birthday = max wallet_birthday 1
             in bind_res (ok_or (i64_try_from anchor) (SStorage (Msg ''anchor_height {} exceeds i64::MAX'' [uint anchor]))) (\<lambda>anchor_i64.
                bind_res (ok_or (i64_try_from birthday) (SStorage (Msg ''wallet_birthday {} exceeds i64::MAX'' [uint birthday]))) (\<lambda>birthday_i64.
                let blocked = (\<lambda>ty. load_blocked_shard_ranges (wv_source env) ty anchor_i64 birthday_i64 (meta_shards ty birthday anchor metas))
                in case fold (check_note birthday anchor blocked (note_shard_table (wv_notes env))) metas (nothing, [], []) of
                     (res, pending, candidates) \<Rightarrow>
                       bind_res (if candidates = [] then Inr (res, pending)
                         else bind_res (get_unspent_selectable_notes_at_anchor_filtered (wv_source env) (wv_spend env) account_id anchor None None)
                           (\<lambda>ready. check_ready (wv_trees env) (wv_tree_shards env) birthday anchor ready candidates res pending))
                         (\<lambda>(res', pending'). Inr (res'\<lparr>repair_ranges := merge_ranges (sort pending')\<rparr>))))))"


section \<open>Merged ranges\<close>

definition covered :: "(u64 \<times> u64) list \<Rightarrow> u64 set" where
  "covered rs = (\<Union>(s, e) \<in> set rs. {s..<e})"

lemma merge_ranges_Nil [simp]: "merge_ranges rs = [] \<longleftrightarrow> rs = []"
  by (induction rs rule: merge_ranges.induct) auto

lemma merge_ranges_starts:
  "\<forall>(s, e) \<in> set (merge_ranges rs). (s \<in> fst ` set rs) \<and> e \<in> snd ` set rs"
proof (induction rs rule: merge_ranges.induct)
  case (1 s1 e1 s2 e2 rs)
  then show ?case by (cases "s2 \<le> e1") (fastforce simp: max_def)+
qed auto

lemma merge_ranges_covered:
  assumes "sorted (map fst rs)" "\<forall>(s, e) \<in> set rs. s \<le> e"
  shows "covered (merge_ranges rs) = covered rs"
  using assms
proof (induction rs rule: merge_ranges.induct)
  case (1 s1 e1 s2 e2 rs)
  show ?case
  proof (cases "s2 \<le> e1")
    case True
    have "{s1..<max e1 e2} = {s1..<e1} \<union> {s2..<e2}" using True 1(3,4) by (auto simp: max_def not_le)
    moreover have "covered (merge_ranges ((s1, max e1 e2) # rs)) = covered ((s1, max e1 e2) # rs)"
      using 1 True by (intro 1(1)) (auto simp: max_def)
    ultimately show ?thesis using True by (auto simp: covered_def)
  next
    case False
    then show ?thesis using 1 by (simp add: covered_def)
  qed
qed auto

lemma merge_ranges_sorted:
  assumes "sorted (map fst rs)" "\<forall>(s, e) \<in> set rs. s \<le> e"
  shows "sorted_wrt (\<lambda>a b. snd a < fst b) (merge_ranges rs) \<and> (rs \<noteq> [] \<longrightarrow> fst (hd (merge_ranges rs)) = fst (hd rs)) \<and>
    (\<forall>(s, e) \<in> set (merge_ranges rs). s \<le> e)"
  using assms
proof (induction rs rule: merge_ranges.induct)
  case (1 s1 e1 s2 e2 rs)
  show ?case
  proof (cases "s2 \<le> e1")
    case True
    have "sorted_wrt (\<lambda>a b. snd a < fst b) (merge_ranges ((s1, max e1 e2) # rs)) \<and>
        ((s1, max e1 e2) # rs \<noteq> [] \<longrightarrow> fst (hd (merge_ranges ((s1, max e1 e2) # rs))) = fst (hd ((s1, max e1 e2) # rs))) \<and>
        (\<forall>(s, e) \<in> set (merge_ranges ((s1, max e1 e2) # rs)). s \<le> e)"
      using 1 True by (intro 1(1)) (auto simp: max_def)
    then show ?thesis using True by simp
  next
    case False
    have IH: "sorted_wrt (\<lambda>a b. snd a < fst b) (merge_ranges ((s2, e2) # rs)) \<and>
        ((s2, e2) # rs \<noteq> [] \<longrightarrow> fst (hd (merge_ranges ((s2, e2) # rs))) = fst (hd ((s2, e2) # rs))) \<and>
        (\<forall>(s, e) \<in> set (merge_ranges ((s2, e2) # rs)). s \<le> e)"
      using 1(3,4) by (intro 1(2) [OF False]) auto
    have "e1 < fst b" if "b \<in> set (merge_ranges ((s2, e2) # rs))" for b
    proof -
      have "fst b \<in> fst ` set ((s2, e2) # rs)" using bspec [OF merge_ranges_starts that] by (auto split: prod.splits)
      then have "s2 \<le> fst b" using 1(3) by auto
      with False show ?thesis by simp
    qed
    with IH False 1(4) show ?thesis by auto
  qed
qed auto

lemma sorted_fst_sort: "sorted (map fst (sort (rs :: (u64 \<times> u64) list)))"
proof -
  have "sorted_wrt (\<le>) (sort rs)" by (rule sorted_sort)
  then have "sorted_wrt (\<lambda>a b. fst a \<le> fst b) (sort rs)" by (rule sorted_wrt_mono_rel [rotated]) (auto simp: less_eq_prod_def)
  then show ?thesis by (simp add: sorted_map)
qed

section \<open>What the loop collects\<close>

text \<open>The ranges one note asks for.\<close>

definition note_ranges ::
    "u64 \<Rightarrow> u64 \<Rightarrow> (note_type \<Rightarrow> (i64 \<times> (u64 \<times> u64) list) list) \<Rightarrow> (note_type \<Rightarrow> shard_cell list) \<Rightarrow> note_meta \<Rightarrow> (u64 \<times> u64) list" where
  "note_ranges birthday anchor blocked shards n =
     (case height_in_window birthday anchor n of
        None \<Rightarrow> []
      | Some h \<Rightarrow>
          let derived = blocked_ranges birthday anchor (blocked (wm_note_type n)) n
          in if derived \<noteq> [] then derived
             else if \<not> wm_has_material n \<or> valid_position n = None then [material_range birthday anchor (shards (wm_note_type n)) n h]
             else [])"

definition candidate_in :: "u64 \<Rightarrow> u64 \<Rightarrow> note_meta \<Rightarrow> anchor_candidate option" where
  "candidate_in birthday anchor n = Option.bind (height_in_window birthday anchor n) (candidate_of n)"

lemma check_note_step:
  "check_note birthday anchor blocked shards n (res, pending, candidates) =
     (if note_ranges birthday anchor blocked shards n = [] then res\<lparr>considered_notes := considered_notes res + (if height_in_window birthday anchor n = None then 0 else 1)\<rparr>
      else add_missing (wm_note_type n) 1 (res\<lparr>considered_notes := considered_notes res + 1\<rparr>),
      pending @ note_ranges birthday anchor blocked shards n,
      candidates @ (case candidate_in birthday anchor n of None \<Rightarrow> [] | Some c \<Rightarrow> [c]))"
  by (auto simp: check_note_def note_ranges_def candidate_in_def Let_def split: option.splits)

lemma check_notes_fold:
  "\<exists>res'. fold (check_note birthday anchor blocked shards) metas (res, pending, candidates) =
     (res', pending @ concat (map (note_ranges birthday anchor blocked shards) metas),
      candidates @ List.map_filter (candidate_in birthday anchor) metas) \<and>
     ((\<forall>n \<in> set metas. note_ranges birthday anchor blocked shards n = []) \<longrightarrow>
        sapling_missing res' = sapling_missing res \<and> orchard_missing res' = orchard_missing res)"
proof (induction metas arbitrary: res pending candidates)
  case (Cons n metas)
  let ?nr = "note_ranges birthday anchor blocked shards"
  define r where "r = (if ?nr n = [] then res\<lparr>considered_notes := considered_notes res + (if height_in_window birthday anchor n = None then 0 else 1)\<rparr>
    else add_missing (wm_note_type n) 1 (res\<lparr>considered_notes := considered_notes res + 1\<rparr>))"
  let ?c = "candidates @ (case candidate_in birthday anchor n of None \<Rightarrow> [] | Some c \<Rightarrow> [c])"
  have step: "check_note birthday anchor blocked shards n (res, pending, candidates) = (r, pending @ ?nr n, ?c)"
    unfolding r_def by (rule check_note_step)
  obtain res' where f: "fold (check_note birthday anchor blocked shards) metas (r, pending @ ?nr n, ?c) =
      (res', (pending @ ?nr n) @ concat (map ?nr metas), ?c @ List.map_filter (candidate_in birthday anchor) metas)"
    and k: "(\<forall>n \<in> set metas. ?nr n = []) \<longrightarrow> sapling_missing res' = sapling_missing r \<and> orchard_missing res' = orchard_missing r"
    using Cons.IH [of r "pending @ ?nr n" ?c] by (elim exE conjE)
  have "fold (check_note birthday anchor blocked shards) (n # metas) (res, pending, candidates) =
      (res', pending @ concat (map ?nr (n # metas)), candidates @ List.map_filter (candidate_in birthday anchor) (n # metas))"
    unfolding fold_simps comp_def step f by (simp add: List.map_filter_simps split: option.splits)
  moreover have "(\<forall>n \<in> set (n # metas). ?nr n = []) \<longrightarrow> sapling_missing res' = sapling_missing res \<and> orchard_missing res' = orchard_missing res"
    using k by (simp add: r_def)
  ultimately show ?case by (intro exI [of _ res'] conjI)
qed (simp add: List.map_filter_simps)


section \<open>Blocked shards\<close>

definition ranges_of :: "(i64 \<times> (u64 \<times> u64) list) list \<Rightarrow> i64 \<Rightarrow> (u64 \<times> u64) list" where
  "ranges_of blocked shard = (case map_of blocked shard of None \<Rightarrow> [] | Some rs \<Rightarrow> rs)"

lemma load_blocked_ranges:
  "set (ranges_of (load_blocked_shard_ranges src ty a b shards) shard) =
     {(word_of_int s, word_of_int e) | s e. (shard, s, e) \<in> set (unscanned_ranges src ty) \<and> shard \<in> set shards \<and> s \<le> a \<and> b < e \<and> 0 \<le> s \<and> 0 \<le> e}"
proof -
  let ?f = "\<lambda>(k, s, e) blocked.
      case (u64_try_from s, u64_try_from e) of
        (Some s', Some e') \<Rightarrow> AList.update k
          ((case map_of blocked k of None \<Rightarrow> [] | Some rs \<Rightarrow> rs) @ [(s' :: u64, e' :: u64)]) blocked
      | _ \<Rightarrow> blocked"
  have "set (ranges_of (fold ?f rows m) shard) = set (ranges_of m shard) \<union>
      {(word_of_int s, word_of_int e) | s e. (shard, s, e) \<in> set rows \<and> 0 \<le> s \<and> 0 \<le> e}" for rows m
  proof (induction rows arbitrary: m)
    case (Cons row rows)
    obtain k s e where row: "row = (k, s, e)" by (cases row)
    have "set (ranges_of (?f row m) shard) = set (ranges_of m shard) \<union> (if k = shard \<and> 0 \<le> s \<and> 0 \<le> e then {(word_of_int s, word_of_int e)} else {})"
      by (auto simp: row ranges_of_def u64_try_from_def update_conv')
    then show ?case unfolding fold_simps comp_apply Cons.IH by (auto simp: row)
  qed simp
  from this [of _ "[]"] show ?thesis unfolding load_blocked_shard_ranges_def by (auto simp: ranges_of_def)
qed

lemma blocked_ranges_shard:
  assumes "valid_position n = Some p"
  shows "blocked_ranges birthday anchor blocked n =
    map (\<lambda>(s, e). clip_range birthday s (min e (saturating_add anchor 1))) (ranges_of blocked (p div 2 ^ 16))"
proof -
  have "0 \<le> p" using assms by (auto simp: valid_position_def split: option.splits if_splits)
  then show ?thesis using assms by (auto simp: blocked_ranges_def ranges_of_def shard_index_from_position_def split: option.splits)
qed

section \<open>The second part of the check\<close>

lemma gap_count:
  "gap_sapling (fold (gap_step ts) cs g) + gap_orchard (fold (gap_step ts) cs g) = gap_sapling g + gap_orchard g + length cs"
proof (induction cs arbitrary: g)
  case (Cons c cs)
  have "gap_sapling (gap_step ts c g) + gap_orchard (gap_step ts c g) = gap_sapling g + gap_orchard g + 1"
    by (auto simp: gap_step_def Let_def split: prod.splits option.splits)
  with Cons [of "gap_step ts c g"] show ?case by simp
qed simp

text \<open>A range of the right shape for a wallet born at \<open>birthday\<close>.\<close>

definition range_ok :: "u64 \<Rightarrow> u64 \<times> u64 \<Rightarrow> bool" where
  "range_ok birthday r \<longleftrightarrow> birthday \<le> fst r \<and> 1 \<le> fst r \<and> saturating_add (fst r) 1 \<le> snd r"

lemma range_ok_clip [simp]: "range_ok birthday (clip_range birthday s e)"
  by (auto simp: range_ok_def clip_range_def Let_def le_max_iff_disj)

lemma material_range_clipped: "\<exists>s e. material_range birthday anchor shards n h = clip_range birthday s e"
  unfolding material_range_def by (simp split: option.split) blast

lemma note_ranges_ok:
  assumes "x \<in> set (note_ranges birthday anchor blocked shards n)"
  shows "range_ok birthday x"
proof -
  obtain h where h: "height_in_window birthday anchor n = Some h"
    using assms by (cases "height_in_window birthday anchor n") (simp_all add: note_ranges_def)
  obtain s e where m: "material_range birthday anchor (shards (wm_note_type n)) n h = clip_range birthday s e"
    using material_range_clipped by blast
  have "range_ok birthday x" if "x \<in> set (blocked_ranges birthday anchor b n)" for b
    using that by (auto simp: blocked_ranges_def split: option.splits)
  with assms show ?thesis by (auto simp: note_ranges_def h Let_def m split: if_splits)
qed

lemma replay_start_ge:
  "witness_repair_replay_start ts requested birthday sp op = Inr start \<Longrightarrow> birthday \<le> start \<and> 1 \<le> start"
  by (auto simp: witness_repair_replay_start_def Let_def bind_res_Inr_iff le_max_iff_disj split: if_splits)

lemma check_ready_cases:
  assumes "check_ready ts tsh birthday anchor ready candidates res pending = Inr (res', pending')"
  obtains (ready) "res' = res" "pending' = pending" "length candidates \<le> length ready \<or> (\<forall>c \<in> set candidates. \<not> not_ready ready c)"
  | (gap) r where "pending' = pending @ [r]" "range_ok birthday r"
proof (cases "length ready < length candidates")
  case False
  with assms show ?thesis by (intro ready) (auto simp: check_ready_def)
next
  case True
  define g where "g = fold (gap_step tsh) (filter (not_ready ready) candidates)
    \<lparr>gap_sapling = 0, gap_orchard = 0, gap_height = anchor, gap_start = None, gap_end = None,
     gap_sapling_position = None, gap_orchard_position = None\<rparr>"
  have k: "gap_sapling g + gap_orchard g = length (filter (not_ready ready) candidates)" unfolding g_def gap_count by simp
  show ?thesis
  proof (cases "0 < gap_sapling g + gap_orchard g")
    case False
    with k have "\<forall>c \<in> set candidates. \<not> not_ready ready c" by (simp add: filter_empty_conv)
    moreover have "res' = res" "pending' = pending" using assms True False by (simp_all add: check_ready_def Let_def g_def)
    ultimately show ?thesis by (intro ready) auto
  next
    case pos: True
    let ?req = "max (max (case gap_start g of None \<Rightarrow> gap_height g | Some s \<Rightarrow> s) birthday) 1"
    from assms True pos obtain start where st: "witness_repair_replay_start ts ?req birthday (gap_sapling_position g) (gap_orchard_position g) = Inr start"
      and p: "pending' = pending @ [(start, max (min (case gap_end g of None \<Rightarrow> saturating_add anchor 1 | Some e \<Rightarrow> e) (saturating_add anchor 1)) (saturating_add start 1))]"
      unfolding check_ready_def Let_def g_def [symmetric] by (auto simp: bind_res_Inr_iff)
    show ?thesis by (rule gap [OF p]) (use replay_start_ge [OF st] in \<open>simp add: range_ok_def\<close>)
  qed
qed


section \<open>The whole check\<close>

definition env_blocked :: "witness_env \<Rightarrow> u64 \<Rightarrow> u64 \<Rightarrow> note_meta list \<Rightarrow> note_type \<Rightarrow> (i64 \<times> (u64 \<times> u64) list) list" where
  "env_blocked env birthday anchor metas ty =
     load_blocked_shard_ranges (wv_source env) ty (uint anchor) (uint birthday) (meta_shards ty birthday anchor metas)"

definition ranges_for :: "witness_env \<Rightarrow> u64 \<Rightarrow> u64 \<Rightarrow> note_meta list \<Rightarrow> note_meta \<Rightarrow> (u64 \<times> u64) list" where
  "ranges_for env birthday anchor metas =
     note_ranges birthday anchor (env_blocked env birthday anchor metas) (note_shard_table (wv_notes env))"

lemma check_witnesses_parts:
  fixes env :: witness_env and anchor wb :: u64 and metas :: "note_meta list"
  defines "birthday \<equiv> max wb 1"
  defines "asked \<equiv> concat (map (ranges_for env birthday anchor metas) metas)"
  defines "candidates \<equiv> List.map_filter (candidate_in birthday anchor) metas"
  assumes c: "check_witnesses env account anchor wb = Inr res" and a: "anchor \<noteq> 0"
    and m: "get_unspent_note_witness_metas (wv_cipher env) account (wv_notes env) = Inr metas" and ne: "metas \<noteq> []"
  shows "uint anchor < 2 ^ 63 \<and> (\<exists>pending. repair_ranges res = merge_ranges (sort pending) \<and>
    (pending = asked \<and> (asked = [] \<longrightarrow> sapling_missing res = 0 \<and> orchard_missing res = 0) \<and>
       (candidates = [] \<or> (\<exists>ready. get_unspent_selectable_notes_at_anchor_filtered (wv_source env) (wv_spend env) account anchor None None = Inr ready \<and>
          (length candidates \<le> length ready \<or> (\<forall>c \<in> set candidates. \<not> not_ready ready c)))) \<or>
     (\<exists>r. pending = asked @ [r] \<and> range_ok birthday r)))"
proof -
  let ?nothing = "\<lparr>considered_notes = 0, sapling_missing = 0, orchard_missing = 0, repair_ranges = []\<rparr>"
  let ?fold = "fold (check_note birthday anchor (env_blocked env birthday anchor metas) (note_shard_table (wv_notes env))) metas (?nothing, [], [])"
  let ?ready = "get_unspent_selectable_notes_at_anchor_filtered (wv_source env) (wv_spend env) account anchor None None"
  obtain res0 where f: "?fold = (res0, asked, candidates)"
    and z: "(\<forall>n \<in> set metas. ranges_for env birthday anchor metas n = []) \<longrightarrow> sapling_missing res0 = 0 \<and> orchard_missing res0 = 0"
    using check_notes_fold [of birthday anchor "env_blocked env birthday anchor metas" "note_shard_table (wv_notes env)" metas ?nothing "[]" "[]"]
    unfolding asked_def candidates_def ranges_for_def append_Nil witness_check_result.simps by (elim exE conjE)
  have z0: "asked = [] \<longrightarrow> sapling_missing res0 = 0 \<and> orchard_missing res0 = 0" using z by (simp add: asked_def)
  have "uint anchor < 2 ^ 63 \<and> (\<exists>res' pending. (if candidates = [] then Inr (res0, asked)
      else bind_res ?ready (\<lambda>ready. check_ready (wv_trees env) (wv_tree_shards env) birthday anchor ready candidates res0 asked)) = Inr (res', pending) \<and>
      res = res'\<lparr>repair_ranges := merge_ranges (sort pending)\<rparr>)"
  proof -
    have "bind_res (ok_or (i64_try_from anchor) (SStorage (Msg ''anchor_height {} exceeds i64::MAX'' [uint anchor]))) (\<lambda>anchor_i64.
        bind_res (ok_or (i64_try_from birthday) (SStorage (Msg ''wallet_birthday {} exceeds i64::MAX'' [uint birthday]))) (\<lambda>birthday_i64.
          case fold (check_note birthday anchor (\<lambda>ty. load_blocked_shard_ranges (wv_source env) ty anchor_i64 birthday_i64
            (meta_shards ty birthday anchor metas)) (note_shard_table (wv_notes env))) metas (?nothing, [], []) of
          (res, pending, candidates) \<Rightarrow>
            bind_res (if candidates = [] then Inr (res, pending)
              else bind_res ?ready (\<lambda>ready. check_ready (wv_trees env) (wv_tree_shards env) birthday anchor ready candidates res pending))
              (\<lambda>(res', pending'). Inr (res'\<lparr>repair_ranges := merge_ranges (sort pending')\<rparr>)))) = Inr res"
      using c a ne unfolding check_witnesses_def m Let_def birthday_def by simp
    then obtain ai bi where ab: "i64_try_from anchor = Some ai" "i64_try_from birthday = Some bi"
      and rest: "(case fold (check_note birthday anchor (\<lambda>ty. load_blocked_shard_ranges (wv_source env) ty ai bi
            (meta_shards ty birthday anchor metas)) (note_shard_table (wv_notes env))) metas (?nothing, [], []) of
          (res, pending, candidates) \<Rightarrow>
            bind_res (if candidates = [] then Inr (res, pending)
              else bind_res ?ready (\<lambda>ready. check_ready (wv_trees env) (wv_tree_shards env) birthday anchor ready candidates res pending))
              (\<lambda>(res', pending'). Inr (res'\<lparr>repair_ranges := merge_ranges (sort pending')\<rparr>))) = Inr res"
      unfolding bind_res_Inr_iff ok_or_Inr_iff by (elim exE conjE)
    have b: "uint anchor < 2 ^ 63" "ai = uint anchor" "bi = uint birthday" using ab by (simp_all add: i64_try_from_Some_iff)
    have e: "(\<lambda>ty. load_blocked_shard_ranges (wv_source env) ty ai bi (meta_shards ty birthday anchor metas)) = env_blocked env birthday anchor metas"
      by (simp add: fun_eq_iff env_blocked_def b)
    show ?thesis using rest b(1) unfolding e f prod.case bind_res_Inr_iff by (elim exE conjE) (auto split: prod.splits)
  qed
  then obtain res' pending where a63: "uint anchor < 2 ^ 63"
    and q: "(if candidates = [] then Inr (res0, asked)
      else bind_res ?ready (\<lambda>ready. check_ready (wv_trees env) (wv_tree_shards env) birthday anchor ready candidates res0 asked)) = Inr (res', pending)"
    and r: "res = res'\<lparr>repair_ranges := merge_ranges (sort pending)\<rparr>" by (elim exE conjE)
  have "pending = asked \<and> (asked = [] \<longrightarrow> sapling_missing res = 0 \<and> orchard_missing res = 0) \<and>
       (candidates = [] \<or> (\<exists>ready. ?ready = Inr ready \<and> (length candidates \<le> length ready \<or> (\<forall>c \<in> set candidates. \<not> not_ready ready c)))) \<or>
     (\<exists>r. pending = asked @ [r] \<and> range_ok birthday r)"
  proof (cases "candidates = []")
    case True
    with q r z0 show ?thesis by simp
  next
    case False
    with q obtain ready where rd: "?ready = Inr ready"
      and cr: "check_ready (wv_trees env) (wv_tree_shards env) birthday anchor ready candidates res0 asked = Inr (res', pending)"
      by (auto simp: bind_res_Inr_iff)
    from cr show ?thesis
    proof (cases rule: check_ready_cases)
      case ready
      with rd z0 r show ?thesis by auto
    next
      case (gap x)
      then show ?thesis by blast
    qed
  qed
  with a63 r show ?thesis by auto
qed


lemma valid_position_Some: "valid_position n = Some p \<longleftrightarrow> wm_position n = Some p \<and> 0 \<le> p"
  by (auto simp: valid_position_def split: option.splits)

lemma meta_shards_in:
  assumes "n \<in> set metas" "height_in_window birthday anchor n = Some h" "valid_position n = Some p"
  shows "p div 2 ^ 16 \<in> set (meta_shards (wm_note_type n) birthday anchor metas)"
proof -
  have "0 \<le> p" using assms(3) by (simp add: valid_position_Some)
  then have "Option.bind (valid_position n) shard_index_from_position = Some (p div 2 ^ 16)"
    using assms(3) by (simp add: shard_index_from_position_def)
  with assms(1,2) show ?thesis unfolding meta_shards_def set_remdups map_filter_set by force
qed

text \<open>An unscanned range of the shard of a note, within the window, is asked for.\<close>

lemma unscanned_asked:
  assumes "n \<in> set metas" "height_in_window birthday anchor n = Some h" "valid_position n = Some p"
    and "(p div 2 ^ 16, s, e) \<in> set (unscanned_ranges (wv_source env) (wm_note_type n))"
    and "0 \<le> s" "s \<le> uint anchor" "uint birthday < e"
  shows "clip_range birthday (word_of_int s) (min (word_of_int e) (saturating_add anchor 1)) \<in> set (ranges_for env birthday anchor metas n)"
proof -
  let ?b = "env_blocked env birthday anchor metas (wm_note_type n)"
  have "0 \<le> e" using assms(7) by (rule order_trans [OF uint_ge_0 less_imp_le])
  then have "(word_of_int s, word_of_int e) \<in> set (ranges_of ?b (p div 2 ^ 16))"
    unfolding env_blocked_def load_blocked_ranges using assms(4-7) meta_shards_in [OF assms(1-3)] by blast
  then have "clip_range birthday (word_of_int s) (min (word_of_int e) (saturating_add anchor 1)) \<in> set (blocked_ranges birthday anchor ?b n)"
    unfolding blocked_ranges_shard [OF assms(3)] by force
  then show ?thesis using assms(2) by (auto simp: ranges_for_def note_ranges_def Let_def)
qed

lemma in_clip_range:
  assumes "s \<le> x" "x < e" "birthday \<le> x" "1 \<le> x" "clip_range birthday s e \<in> set rs"
  shows "x \<in> covered rs"
  using assms by (force simp: covered_def clip_range_def Let_def less_max_iff_disj intro: bexI [of _ "clip_range birthday s e"])

lemma covered_repair_ranges:
  assumes "repair_ranges res = merge_ranges (sort pending)" "\<forall>r \<in> set pending. range_ok birthday r"
  shows "covered (repair_ranges res) = covered pending \<and> sorted_wrt (\<lambda>a b. snd a < fst b) (repair_ranges res) \<and>
    (\<forall>(s, e) \<in> set (repair_ranges res). birthday \<le> s \<and> s \<le> e)"
proof -
  have le: "x \<le> saturating_add x 1" for x :: u64
    using unsigned_less [where 'a = nat and w = x] by (simp add: word_le_nat_alt unat_saturating_add min_def)
  have ok: "\<forall>(s, e) \<in> set (sort pending). s \<le> e"
    using assms(2) order_trans [OF le] by (fastforce simp: range_ok_def)
  have "covered (sort pending) = covered pending" by (simp add: covered_def)
  moreover note merge_ranges_covered [OF sorted_fst_sort ok] merge_ranges_sorted [OF sorted_fst_sort ok]
  moreover have "birthday \<le> s" if "(s, e) \<in> set (merge_ranges (sort pending))" for s e
    using bspec [OF merge_ranges_starts that] assms(2) by (auto simp: range_ok_def)
  ultimately show ?thesis unfolding assms(1) by auto
qed

lemma plus_one_anchor:
  fixes anchor x :: u64
  assumes "uint anchor < 2 ^ 63"
  shows "x < saturating_add anchor 1 \<longleftrightarrow> x \<le> anchor"
proof -
  have "unat anchor < 2 ^ 63" using assms by (metis nat_less_numeral_power_cancel_iff unat_eq_nat_uint)
  then have "unat (saturating_add anchor 1) = Suc (unat anchor)" by (simp add: unat_saturating_add)
  then show ?thesis by (simp add: word_less_nat_alt word_le_nat_alt less_Suc_eq_le)
qed

lemma sort_Nil_iff: "sort rs = [] \<longleftrightarrow> rs = []"
  by (metis length_sort length_0_conv)

section \<open>What the check promises\<close>

text \<open>
  The witness check fails closed. When it asks for no range, no note is counted as missing, and of
  every unspent note of the account between birthday and anchor the note bytes and the position are stored and no
  unscanned range of the note's shard overlaps the window; moreover the notes offered at that anchor, with
  a witness each, number at least those the check counted on, or contain every one of them.
\<close>

lemma no_repair_ready:
  fixes env :: witness_env and anchor wb :: u64 and metas :: "note_meta list"
  assumes c: "check_witnesses env account anchor wb = Inr res" "repair_ranges res = []" "anchor \<noteq> 0"
    and m: "get_unspent_note_witness_metas (wv_cipher env) account (wv_notes env) = Inr metas"
    and n: "n \<in> set metas" "height_in_window (max wb 1) anchor n = Some h"
  shows "sapling_missing res = 0 \<and> orchard_missing res = 0 \<and> wm_has_material n \<and>
    (\<exists>p. wm_position n = Some p \<and> 0 \<le> p \<and>
       (\<forall>s e. (p div 2 ^ 16, s, e) \<in> set (unscanned_ranges (wv_source env) (wm_note_type n)) \<longrightarrow>
          s < 0 \<or> uint anchor < s \<or> e \<le> uint (max wb 1))) \<and>
    (0 \<le> wm_output_index n \<and> wm_output_index n < 2 ^ 32 \<longrightarrow>
      (\<exists>ready. get_unspent_selectable_notes_at_anchor_filtered (wv_source env) (wv_spend env) account anchor None None = Inr ready \<and>
        (length (List.map_filter (candidate_in (max wb 1) anchor) metas) \<le> length ready \<or>
         (wm_txid n, word_of_int (wm_output_index n), pool_byte (wm_note_type n)) \<in> ready_key ` set ready)))"
proof -
  have ne: "metas \<noteq> []" using n(1) by auto
  let ?b = "max wb 1"
  let ?asked = "concat (map (ranges_for env ?b anchor metas) metas)"
  let ?cs = "List.map_filter (candidate_in ?b anchor) metas"
  note parts = conjunct2 [OF check_witnesses_parts [OF c(1,3) m ne]]
  have none: "?asked = []" and z: "sapling_missing res = 0 \<and> orchard_missing res = 0"
    and ready: "?cs = [] \<or> (\<exists>ready. get_unspent_selectable_notes_at_anchor_filtered (wv_source env) (wv_spend env) account anchor None None = Inr ready \<and>
          (length ?cs \<le> length ready \<or> (\<forall>c \<in> set ?cs. \<not> not_ready ready c)))"
    using parts unfolding c(2) eq_commute [of "[]"] merge_ranges_Nil sort_Nil_iff by auto
  have rf: "ranges_for env ?b anchor metas n = []" using none n(1) by simp
  then have mat: "wm_has_material n" and vp: "valid_position n \<noteq> None"
    using n(2) by (auto simp: ranges_for_def note_ranges_def Let_def split: if_splits)
  from vp obtain p where p: "valid_position n = Some p" by blast
  have cand: "(wm_txid n, word_of_int (wm_output_index n), pool_byte (wm_note_type n), h, p) \<in> set ?cs"
    if "0 \<le> wm_output_index n \<and> wm_output_index n < 2 ^ 32"
  proof -
    have "candidate_in ?b anchor n = Some (wm_txid n, word_of_int (wm_output_index n), pool_byte (wm_note_type n), h, p)"
      using that n(2) mat p by (simp add: candidate_in_def candidate_of_def)
    with n(1) show ?thesis unfolding map_filter_set by force
  qed
  have un: "s < 0 \<or> uint anchor < s \<or> e \<le> uint ?b"
    if "(p div 2 ^ 16, s, e) \<in> set (unscanned_ranges (wv_source env) (wm_note_type n))" for s e
    using unscanned_asked [OF n p that] rf by fastforce
  show ?thesis
  proof (intro conjI impI)
    assume i: "0 \<le> wm_output_index n \<and> wm_output_index n < 2 ^ 32"
    from ready cand [OF i] show "\<exists>ready. get_unspent_selectable_notes_at_anchor_filtered (wv_source env) (wv_spend env) account anchor None None = Inr ready \<and>
        (length ?cs \<le> length ready \<or> (wm_txid n, word_of_int (wm_output_index n), pool_byte (wm_note_type n)) \<in> ready_key ` set ready)"
      by (fastforce simp: not_ready_def)
  qed (use z mat p un in \<open>auto simp: valid_position_Some\<close>)
qed



section \<open>The notes the check reads\<close>

text \<open>
  Where every stored value is a valid amount, the check reads the very notes the unspent-note query returns
  (\<open>NoteQueries\<close>); the query leaves out a note of an invalid value, the check does not.
\<close>

definition meta_of :: "note_record \<Rightarrow> note_meta" where
  "meta_of n = \<lparr>wm_note_type = nt_note_type n, wm_height = nt_height n, wm_txid = nt_txid n, wm_output_index = nt_output_index n,
     wm_position = nt_position n, wm_has_material = (case nt_note n of None \<Rightarrow> False | Some bs \<Rightarrow> bs \<noteq> [])\<rparr>"

definition meta_entry :: "note_output \<times> note_record \<Rightarrow> note_output \<times> i64 \<times> note_meta" where
  "meta_entry e = (fst e, id_or_default (snd e), meta_of (snd e))"

lemma map_of_meta_entry: "map_of (map meta_entry es) k = map_option (\<lambda>n. (id_or_default n, meta_of n)) (map_of es k)"
  by (induction es) (auto simp: meta_entry_def)

lemma update_meta_entry:
  "AList.update k (id_or_default n, meta_of n) (map meta_entry es) = map meta_entry (AList.update k n es)"
  by (induction es) (auto simp: meta_entry_def)

lemma delete_meta_entry: "AList.delete k (map meta_entry es) = map meta_entry (AList.delete k es)"
  by (induction es) (auto simp: meta_entry_def AList.delete_eq)

lemma rest_of_note_columns:
  "rest_of_note cr r account txid out = Inr n \<Longrightarrow> decrypt_int64 cr (nr_height r) = Inr (nt_height n) \<and>
     decrypt_optional_int64 cr (nr_position r) = Inr (nt_position n) \<and> decrypt_optional_cell cr (nr_note r) = Inr (nt_note n)"
  by (auto simp: rest_of_note_def bind_res_Inr_iff)

lemmas meta_columns = rest_of_note_columns [OF note_of_readable(10)]

lemma meta_step_read:
  assumes "readable cr rows" "r \<in> set rows" "note_value_is_valid (nt_value (plain cr r))"
  shows "meta_step cr account r (fst s, map meta_entry (snd s)) =
    (case plain_step account (plain cr r) s of (spent, unspent) \<Rightarrow> Inr (spent, map meta_entry unspent))"
proof -
  note cols = note_of_readable(1-3,5,8,9) [OF assms(1,2)] meta_columns [OF assms(1,2), THEN conjunct1]
    meta_columns [OF assms(1,2), THEN conjunct2, THEN conjunct1] meta_columns [OF assms(1,2), THEN conjunct2, THEN conjunct2]
  define n where "n = plain cr r"
  have key: "(nt_txid n, nt_output_index n, note_type_from (nr_note_type r)) = output_of n"
    using cols(6) by (simp add: output_of_def n_def)
  have i: "nr_id r = id_or_default n" using cols(5) by (simp add: id_or_default_def n_def)
  have meta: "\<lparr>wm_note_type = note_type_from (nr_note_type r), wm_height = nt_height n, wm_txid = nt_txid n, wm_output_index = nt_output_index n,
      wm_position = nt_position n, wm_has_material = (case nt_note n of None \<Rightarrow> False | Some bs \<Rightarrow> bs \<noteq> [])\<rparr> = meta_of n"
    using cols(6) by (simp add: meta_of_def n_def)
  have v: "note_value_is_valid (nt_value n)" using assms(3) by (simp add: n_def)
  obtain spent unspent where s: "s = (spent, unspent)" by (cases s)
  show ?thesis
    unfolding meta_step_def cols plain_step_def n_def [symmetric] bind_res_simps Let_def key i meta s fst_conv snd_conv prod.case
    using v by (cases "map_of unspent (output_of n)")
      (auto simp: keep_latest_def map_of_meta_entry update_meta_entry delete_meta_entry)
qed

lemma witness_metas_of_unspent:
  assumes "table_ok cr db" "\<forall>n \<in> set (plain_notes cr db). note_value_is_valid (nt_value n)"
  shows "get_unspent_note_witness_metas cr account db = map_sum id (map meta_of) (get_unspent_notes cr account db)"
proof -
  have r: "readable cr (note_rows db)" using assms(1) by (simp add: table_ok_def)
  have v: "\<forall>r \<in> set (note_rows db). note_value_is_valid (nt_value (plain cr r))" using assms(2) by (simp add: plain_notes_def)
  have "fold_res (meta_step cr account) rows (fst s, map meta_entry (snd s)) =
      (case fold (\<lambda>r. plain_step account (plain cr r)) rows s of (spent, unspent) \<Rightarrow> Inr (spent, map meta_entry unspent))"
    if "set rows \<subseteq> set (note_rows db)" for rows s
    using that
  proof (induction rows arbitrary: s)
    case (Cons row rows)
    then have "meta_step cr account row (fst s, map meta_entry (snd s)) =
        (case plain_step account (plain cr row) s of (spent, unspent) \<Rightarrow> Inr (spent, map meta_entry unspent))"
      using v by (intro meta_step_read [OF r]) auto
    then show ?case using Cons.IH [of "plain_step account (plain cr row) s"] Cons.prems by (auto split: prod.splits)
  qed (simp add: case_prod_beta)
  from this [of "note_rows db" "([], [])"] show ?thesis
    by (simp add: get_unspent_note_witness_metas_def get_unspent_notes_fold [OF r] plain_notes_def fold_map comp_def
        case_prod_beta meta_entry_def)
qed


section \<open>Examples\<close>

text \<open>The note table with one unspent note of height 100 at position 70000, hence in shard 1.\<close>

definition example_witness_env :: "(i64 \<times> i64 \<times> i64) list \<Rightarrow> witness_env" where
  "example_witness_env unscanned = \<lparr>wv_cipher = plain_cipher, wv_notes = table_of [spendable_note],
     wv_source = \<lparr>unspent_selectable_notes = (\<lambda>_ _ _. Inr [tree_note]), unscanned_ranges = (\<lambda>_. unscanned),
       construct_anchor_witnesses = (\<lambda>_ ns. Inr ns)\<rparr>,
     wv_spend = example_db, wv_trees = example_tree_state, wv_tree_shards = (\<lambda>_. [])\<rparr>"

definition example_meta :: note_meta where
  "example_meta = \<lparr>wm_note_type = Sapling, wm_height = 100, wm_txid = replicate 32 4, wm_output_index = 2, wm_position = Some 70000,
     wm_has_material = True\<rparr>"

lemma example_metas: "get_unspent_note_witness_metas plain_cipher 7 (table_of [spendable_note]) = Inr [example_meta]"
proof -
  have "\<forall>n \<in> set (plain_notes plain_cipher (table_of [spendable_note])). note_value_is_valid (nt_value n)"
    using max_money_mainnet by (simp add: table_of_ok(2) [OF spendable_note_wf] spendable_note_fields note_value_is_valid_def)
  moreover have "meta_of (stored_note 1 spendable_note) = example_meta"
    by (simp add: meta_of_def example_meta_def stored_note_def spendable_note_def example_note_record_def)
  ultimately show ?thesis
    by (simp add: witness_metas_of_unspent [OF table_of_ok(1) [OF spendable_note_wf]] spendable_note_unspent)
qed

lemma example_height: "height_in_window (max 1 1) 109 example_meta = Some 100"
  by (simp add: height_in_window_def example_meta_def u64_try_from_def)

lemma example_env_ready:
  assumes "unscanned = [] \<or> unscanned = [(1, 90, 105)]" "get_wallet_birthday_height 7 sdb = Inr None"
  shows "get_unspent_selectable_notes_at_anchor_filtered (wv_source (example_witness_env unscanned)) sdb 7 109 None None = Inr [tree_note]"
  using assms by (auto simp: get_unspent_selectable_notes_at_anchor_filtered_def
      example_witness_env_def tree_note_def new_note_def u64_try_from_def i64_try_from_def notes_within_def note_position_def note_shard_def
      shard_index_from_position_def load_blocked_shard_ranges_def List.map_filter_def note_shards_of_def)

lemma example_birthday: "get_wallet_birthday_height 7 example_db = Inr None"
  by (simp add: get_wallet_birthday_height_def example_db_def)

lemma example_env_same: "(example_witness_env unscanned)\<lparr>wv_spend := example_db\<rparr> = example_witness_env unscanned"
  by (simp add: example_witness_env_def)

lemma example_check:
  assumes "unscanned = [] \<or> unscanned = [(1, 90, 105)]" "get_wallet_birthday_height 7 sdb = Inr None"
  shows "\<exists>res. check_witnesses ((example_witness_env unscanned)\<lparr>wv_spend := sdb\<rparr>) 7 109 1 = Inr res \<and>
     repair_ranges res = (if unscanned = [] then [] else [(90, 105)])"
proof -
  let ?env = "(example_witness_env unscanned)\<lparr>wv_spend := sdb\<rparr>"
  have env: "wv_cipher ?env = plain_cipher" "wv_notes ?env = table_of [spendable_note]" "wv_spend ?env = sdb"
    "wv_source ?env = wv_source (example_witness_env unscanned)" by (simp_all add: example_witness_env_def)
  have sh: "meta_shards Sapling 1 109 [example_meta] = [1]"
    by (simp add: meta_shards_def valid_position_def shard_index_from_position_def List.map_filter_def height_in_window_def
        u64_try_from_def example_meta_def)
  have c: "candidate_of example_meta 100 = Some (replicate 32 4, 2, 0, 100, 70000)"
    by (simp add: candidate_of_def example_meta_def valid_position_def)
  have b: "blocked_ranges 1 109 (load_blocked_shard_ranges (wv_source (example_witness_env unscanned)) Sapling 109 1 [1]) example_meta =
      (if unscanned = [] then [] else [(90, 105)])"
    using assms by (auto simp: blocked_ranges_def load_blocked_shard_ranges_def example_witness_env_def example_meta_def
        valid_position_def shard_index_from_position_def u64_try_from_def clip_range_def saturating_add_def)
  have f: "wm_note_type example_meta = Sapling" "wm_has_material example_meta" "valid_position example_meta = Some 70000"
    by (simp_all add: example_meta_def valid_position_def)
  show ?thesis
    unfolding check_witnesses_def env example_metas
    using assms(1) example_height
    by (auto simp: i64_try_from_def check_note_def Let_def f c sh b example_env_ready [OF _ assms(2)] check_ready_def add_missing_def)
qed


end
