(* ===== verification/SpendSafety.thy ===== *)
theory SpendSafety
  imports TxFlow WitnessCheck
begin

text \<open>
  Signing, broadcasting and the note tables together: what the send flow (\<open>TxFlow\<close>) asks of the repository is
  carried out on the note tables (\<open>NoteSpends\<close>), and the next send reads its notes from them (\<open>NoteQueries\<close>,
  \<open>AnchorWitness\<close>). The result is that an accepted transaction is not built a second time from the same notes.
\<close>

section \<open>Requests carried out\<close>

text \<open>An error of a request is logged and dropped.\<close>

definition keep_on_error :: "note_db \<Rightarrow> storage_error + note_db \<Rightarrow> note_db" where
  "keep_on_error db r = (case r of Inl _ \<Rightarrow> db | Inr db' \<Rightarrow> db')"

fun run_db_call :: "cipher \<Rightarrow> i64 \<Rightarrow> db_call \<Rightarrow> note_db \<Rightarrow> note_db" where
  "run_db_call cr clock (UpsertTxMemo txid memo) db = keep_on_error db (upsert_tx_memo cr clock txid memo db)"
| "run_db_call cr clock (MarkNotesSpent account entries) db = fst (mark_notes_spent_by_nullifiers_with_txid cr account entries db)"
| "run_db_call cr clock (UpsertOutgoingIntent account txid amount fee broadcast_at expiry) db =
     keep_on_error db (upsert_outgoing_transaction_intent cr account txid amount fee broadcast_at expiry db)"

text \<open>The requests made between two states of the flow.\<close>

definition run_new_calls :: "cipher \<Rightarrow> i64 \<Rightarrow> flow_state \<Rightarrow> flow_state \<Rightarrow> note_db \<Rightarrow> note_db" where
  "run_new_calls cr clock st st' db = fold (run_db_call cr clock) (drop (length (fs_calls st)) (fs_calls st')) db"

section \<open>What the requests do to the notes\<close>

lemma same_rows:
  assumes "note_rows db' = note_rows db"
  shows "plain_notes cr db' = plain_notes cr db" "table_ok cr db' = table_ok cr db"
  using assms by (simp_all add: plain_notes_def table_ok_def)

lemma memo_keeps_rows: "note_rows (keep_on_error db (upsert_tx_memo cr clock txid memo db)) = note_rows db"
proof (cases "encrypt_blob cr memo")
  case (Inr cell)
  then show ?thesis by (simp add: keep_on_error_def upsert_tx_memo_def Let_def split: option.split)
qed (simp add: keep_on_error_def upsert_tx_memo_def)

lemma intent_keeps_rows:
  "note_rows (keep_on_error db (upsert_outgoing_transaction_intent cr account txid amount fee broadcast_at expiry db)) = note_rows db"
proof (cases "upsert_outgoing_transaction_intent cr account txid amount fee broadcast_at expiry db")
  case (Inr db')
  have put: "note_rows (put_tx upd fresh (db\<lparr>intent_rows := x\<rparr>)) = note_rows db" for upd fresh x by (simp add: put_tx_def)
  have "note_rows db' = note_rows db"
  proof (rule upsert_intent_shape [OF Inr])
    fix row and amt f :: i64
    assume "db' = put_tx (\<lambda>t. t\<lparr>tr_timestamp := (if 0 < tr_height t then tr_timestamp t else broadcast_at), tr_fee := f\<rparr>)
      \<lparr>tr_id = 0, tr_txid = ir_txid row, tr_height = 0, tr_timestamp = broadcast_at, tr_fee = f\<rparr> (db\<lparr>intent_rows := intent_rows db'\<rparr>)"
    from arg_cong [OF this, of note_rows] show ?thesis unfolding put .
  qed
  with Inr show ?thesis by (simp add: keep_on_error_def)
qed (simp add: keep_on_error_def)

text \<open>The marks an accepted transaction leaves.\<close>

definition marks :: "broadcast_context \<Rightarrow> bytes \<Rightarrow> (bytes \<times> bytes) list" where
  "marks ctx txid = map (\<lambda>nf. (nf, txid)) (filter (\<lambda>nf. length nf = 32) (bc_spent_nullifiers ctx))"

lemma record_calls:
  assumes "map_of (fs_broadcast_cache st) (stx_txid tx) = Some ctx"
  shows "\<exists>txid at. fs_calls (record_accepted_broadcast now now_intent (Inr u) tx st) = fs_calls st @
    [MarkNotesSpent (bc_account_id ctx) (marks ctx txid),
     UpsertOutgoingIntent (bc_account_id ctx) (stx_txid tx) (bc_sent_amount ctx) (bc_fee ctx) at (bc_expiry_height ctx)]"
  using assms unfolding record_accepted_broadcast_def take_broadcast_context_def marks_def Let_def by auto

lemma calls_mark:
  assumes ok: "cipher_ok cr" "cipher_total cr" "table_ok cr db"
    and calls: "calls = memos @ [MarkNotesSpent account entries, UpsertOutgoingIntent account txid amount fee at expiry]"
    and memos: "memos = [] \<or> (\<exists>t m. memos = [UpsertTxMemo t m])"
  shows "table_ok cr (fold (run_db_call cr clock) calls db) \<and>
    plain_notes cr (fold (run_db_call cr clock) calls db) = map (mark_note account entries) (plain_notes cr db)"
proof -
  define db1 where "db1 = fold (run_db_call cr clock) memos db"
  have "note_rows db1 = note_rows db" using memos by (auto simp: db1_def memo_keeps_rows)
  note r1 = same_rows [OF this, of cr]
  obtain db2 where db2: "mark_notes_spent_by_nullifiers_with_txid cr account entries db1 =
      (db2, Inr (length (filter (\<lambda>n. spender account entries n \<noteq> None) (plain_notes cr db1))))"
    "table_ok cr db2" "plain_notes cr db2 = map (mark_note account entries) (plain_notes cr db1)"
    using ok r1(2) by (rule_tac marking_read [of cr db1 account entries]) auto
  have "fold (run_db_call cr clock) calls db =
      keep_on_error db2 (upsert_outgoing_transaction_intent cr account txid amount fee at expiry db2)"
    by (simp add: calls db1_def [symmetric] db2(1))
  then have "note_rows (fold (run_db_call cr clock) calls db) = note_rows db2" by (simp add: intent_keeps_rows)
  from same_rows [OF this, of cr] db2(2,3) r1(1) show ?thesis by simp
qed

section \<open>What is offered next\<close>

lemma offered_unspent:
  assumes ok: "table_ok cr db" and q: "get_unspent_selectable_notes_filtered cr cd adb account kf af db = Inr sns" and sn: "sn \<in> set sns"
  shows "\<exists>n \<in> unspent_in account (plain_notes cr db). describes n sn"
proof -
  obtain ns where ns: "get_unspent_notes cr account db = Inr ns" "set ns = unspent_in account (plain_notes cr db)"
    by (rule unspent_notes_set [OF ok, where account = account])
  from q ns(1) obtain eligible where "sns = List.map_filter (selectable_of cd eligible) (filter (passes_filters kf af) ns)"
    by (auto simp: get_unspent_selectable_notes_filtered_def bind_res_Inr_iff)
  with sn obtain n where n: "n \<in> set ns" "selectable_of cd eligible n = Some sn" by (auto simp: map_filter_set)
  then have "note_value_is_valid (nt_value n)" using ns(2) by (simp add: unspent_in_def counts_def)
  with n ns(2) selectable_of_describes show ?thesis by blast
qed

lemma offered_not_marked:
  assumes ok: "table_ok cr db'" and p: "plain_notes cr db' = map (mark_note account entries) ns"
    and q: "get_unspent_selectable_notes_filtered cr cd adb account kf af db' = Inr sns" "sn \<in> set sns" "nullifier sn = Some nf" "length nf = 32"
  shows "nf \<notin> fst ` set entries"
proof -
  obtain n where n: "n \<in> unspent_in account (map (mark_note account entries) ns)" "describes n sn"
    using offered_unspent [OF ok q(1,2)] unfolding p by blast
  then have "n \<in> set ns" "of_output account (output_of n) n" "spender account entries n = None"
    unfolding unspent_after_mark by (auto simp: unspent_in_def counts_def)
  moreover have "nt_nullifier n = nf" using n(2) q(3) by (auto simp: describes_def split: if_splits)
  ultimately show ?thesis using spender_listed [of account entries n] q(4) by (auto simp: of_output_def)
qed

lemma loaded_from_query:
  assumes "load_selectable_notes_for_send src sdb account anchors kf af = Inr sns" "m \<in> set sns"
  obtains h all within ready where "unspent_selectable_notes src account kf af = Inr all" "set within \<subseteq> set all"
    "construct_anchor_witnesses src h within = Inr ready" "m \<in> set ready"
proof -
  have at: "\<exists>all within. unspent_selectable_notes src account kf af = Inr all \<and> set within \<subseteq> set all \<and>
      construct_anchor_witnesses src h within = Inr ready"
    if r: "get_unspent_selectable_notes_at_anchor_filtered src sdb account h kf af = Inr ready" "m \<in> set ready" for h ready
  proof -
    from r obtain all a w b where "unspent_selectable_notes src account kf af = Inr all"
        "construct_anchor_witnesses src h (notes_within src h a w b all) = Inr ready"
      unfolding get_unspent_selectable_notes_at_anchor_filtered_def Let_def
      by (auto simp: bind_res_Inr_iff split: if_split_asm)
    moreover have "set (notes_within src h a w b all) \<subseteq> set all" by (auto simp: notes_within_def Let_def)
    ultimately show ?thesis by blast
  qed
  have "\<exists>h ready. get_unspent_selectable_notes_at_anchor_filtered src sdb account h kf af = Inr ready \<and> m \<in> set ready"
  proof (cases "sa_sapling_anchor_height anchors = sa_ironwood_anchor_height anchors")
    case True
    with assms show ?thesis by (auto simp: load_selectable_notes_for_send_def)
  next
    case False
    from selectable_notes_by_pool [OF assms(1) False] assms(2) show ?thesis unfolding list_all_iff by blast
  qed
  with at that show ?thesis by metis
qed

text \<open>
  A provider of notes that never offers a given nullifier: what is offered to a send, with witnesses of any kind that change only the
  witness of a note, does not have it either.
\<close>

lemma loaded_nullifier:
  assumes load: "load_selectable_notes_for_send (repository_notes cr cd adb unscanned (construct_anchor_witnesses_from_db_state lib ts) db)
      sdb account anchors kf af = Inr sns" and m: "m \<in> set sns"
  obtains all n where "get_unspent_selectable_notes_filtered cr cd adb account kf af db = Inr all" "n \<in> set all" "nullifier n = nullifier m"
proof -
  obtain h all within ready where q: "get_unspent_selectable_notes_filtered cr cd adb account kf af db = Inr all" "set within \<subseteq> set all"
    "construct_anchor_witnesses_from_db_state lib ts h within = Inr ready" "m \<in> set ready"
    by (rule loaded_from_query [OF load m]) (simp add: repository_notes_def)
  from constructed_ready [OF q(3,4)] obtain n where n: "n \<in> set within" "same_note n m" by blast
  have "nullifier n = nullifier m" using arg_cong [OF n(2) [unfolded same_note_def], of nullifier] by simp
  with that q(1,2) n(1) show ?thesis by blast
qed

lemma signed_context:
  assumes rq: "open_sign_request lib env pending kf af (fs_addresses st) = Inr rq"
    and sign: "sign_tx_internal lib env wallet pending kf af (created, now_take, created_ms, now_store, in_time) st = (st1, Inr tx)"
  shows "\<exists>b inp core bctx memos. build_and_sign_multi (fl_tx lib) b inp = Inr core \<and> stx_raw tx = tx_raw core \<and>
    fs_broadcast_cache st1 = store_broadcast_context now_store (stx_txid tx) bctx (fs_broadcast_cache st) \<and>
    bc_account_id bctx = ws_account_id (rq_secret rq) \<and> bc_created_at_ms bctx = created_ms \<and>
    bc_spent_nullifiers bctx = List.map_filter ref_nullifier (spent_notes core) \<and>
    fs_calls st1 = fs_calls st @ memos \<and> (memos = [] \<or> (\<exists>t m. memos = [UpsertTxMemo t m]))"
proof -
  obtain r c where t: "take_pending_sign_context now_take (ptx_id (rq_pending rq)) wallet (rq_required rq) (rq_effective_ids rq)
      (rq_address_ids rq) (fs_sign_cache st) = (r, c)" by force
  with sign rq obtain ctx where ctx: "r = Some ctx" by (auto simp: sign_tx_internal_def split: option.splits)
  from sign rq t ctx obtain p entry where p: "plan_signing lib env rq (psc_selected_notes ctx) (fs_addresses st) = Inr p"
      "change_address_entry lib rq p created = Inr entry"
    by (auto simp: sign_tx_internal_def Let_def bind_res_Inr_iff split: sum.splits)
  from sign rq t ctx p obtain core where core: "build_and_sign_multi (fl_tx lib) (sp_builder p) (sp_inputs p) = Inr core"
    by (auto simp: sign_tx_internal_def Let_def split: sum.splits if_splits)
  let ?memos = "case outgoing_memo (ptx_outputs (rq_pending rq)) of
     None \<Rightarrow> [] | Some m \<Rightarrow> [UpsertTxMemo (txid_to_string lib (tx_txid core)) (encode_memo (from_text_truncated m))]"
  let ?bctx = "\<lparr>bc_wallet_id = wallet, bc_account_id = ws_account_id (rq_secret rq),
     bc_spent_nullifiers = List.map_filter ref_nullifier (spent_notes core),
     bc_sent_amount = ptx_total_amount (rq_pending rq), bc_fee = ptx_fee (rq_pending rq),
     bc_change_amount = ptx_change (rq_pending rq),
     bc_expiry_height = ptx_expiry_height (rq_pending rq), bc_created_at_ms = created_ms\<rparr>"
  have "fs_broadcast_cache st1 = store_broadcast_context now_store (stx_txid tx) ?bctx (fs_broadcast_cache st) \<and>
      fs_calls st1 = fs_calls st @ ?memos \<and> stx_raw tx = tx_raw core"
    using sign rq t ctx p core by (auto simp: sign_tx_internal_def Let_def split: if_split_asm)
  with core show ?thesis
    by - (rule exI [of _ "sp_builder p"], rule exI [of _ "sp_inputs p"], rule exI [of _ core], rule exI [of _ ?bctx], rule exI [of _ ?memos], simp split: option.split)
qed

section \<open>No second spend\<close>

text \<open>
  Property C3. The wallet does not spend a note twice. Once a transaction was signed, which the crates built from a plan,
  and the network has accepted it, and the requests of signing and of recording were carried out on the note tables, the
  tables are still well formed, and no note that the next send of the account may select, at whatever anchors and
  with whatever filters, has the nullifier of a note of that plan. The record made at signing
  is found again as long as it is the newest of the broadcast cache.
\<close>

theorem signed_notes_not_offered_again:
  assumes ok: "cipher_ok cr" "cipher_total cr" "table_ok cr db"
    and cache: "distinct (map fst (fs_broadcast_cache st))"
      "\<forall>(k, v) \<in> set (fs_broadcast_cache st). k \<noteq> stx_txid tx \<longrightarrow> bc_created_at_ms v < created_ms"
    and rq: "open_sign_request lib env pending kf af (fs_addresses st) = Inr rq"
    and sign: "sign_tx_internal lib env wallet pending kf af (created, now_take, created_ms, now_store, in_time) st = (st1, Inr tx)"
    and db': "db' = run_new_calls cr clock st (record_accepted_broadcast now now_intent (Inr u) tx st1) db"
  shows "table_ok cr db' \<and> (\<exists>b inp plan txid. plan_transaction (fl_tx lib) b inp = Inr plan \<and>
    tx_lib.build_tx (fl_tx lib) (plan_config plan) (st_calls (plan_state plan)) (st_extsks (plan_state plan))
      (st_saks (plan_state plan)) (plan_fee plan) = Some (txid, stx_raw tx) \<and>
    (\<forall>cd adb unscanned tlib ts sdb anchors kf' af' offered.
      load_selectable_notes_for_send (repository_notes cr cd adb unscanned (construct_anchor_witnesses_from_db_state tlib ts) db')
        sdb (ws_account_id (rq_secret rq)) anchors kf' af' = Inr offered \<longrightarrow>
      (\<forall>m \<in> set offered. \<forall>n \<in> set (plan_notes plan). \<forall>nf. nullifier n = Some nf \<and> length nf = 32 \<longrightarrow> nullifier m \<noteq> Some nf)))"
proof -
  from signed_context [OF rq sign] obtain bd inp core bctx memos
    where core: "build_and_sign_multi (fl_tx lib) bd inp = Inr core" "stx_raw tx = tx_raw core"
      and store: "fs_broadcast_cache st1 = store_broadcast_context now_store (stx_txid tx) bctx (fs_broadcast_cache st)"
      and b: "bc_account_id bctx = ws_account_id (rq_secret rq)" "bc_created_at_ms bctx = created_ms"
        "bc_spent_nullifiers bctx = List.map_filter ref_nullifier (spent_notes core)"
      and memos: "fs_calls st1 = fs_calls st @ memos" "memos = [] \<or> (\<exists>t m. memos = [UpsertTxMemo t m])" by blast
  have "map_of (fs_broadcast_cache st1) (stx_txid tx) = Some bctx"
    unfolding store by (rule broadcasting.store_found [OF cache(1)]) (use cache(2) b(2) in auto)
  from record_calls [OF this] obtain txid at
    where calls: "fs_calls (record_accepted_broadcast now now_intent (Inr u) tx st1) = fs_calls st1 @
      [MarkNotesSpent (bc_account_id bctx) (marks bctx txid),
       UpsertOutgoingIntent (bc_account_id bctx) (stx_txid tx) (bc_sent_amount bctx) (bc_fee bctx) at (bc_expiry_height bctx)]" by blast
  from calls_mark [OF ok refl memos(2)]
  have d: "table_ok cr db'" "plain_notes cr db' = map (mark_note (bc_account_id bctx) (marks bctx txid)) (plain_notes cr db)"
    unfolding db' run_new_calls_def calls memos(1) by simp_all
  from core obtain plan txid' where plan: "plan_transaction (fl_tx lib) bd inp = Inr plan" "spent_notes core = map spent_ref (plan_notes plan)"
      "tx_lib.build_tx (fl_tx lib) (plan_config plan) (st_calls (plan_state plan)) (st_extsks (plan_state plan))
        (st_saks (plan_state plan)) (plan_fee plan) = Some (txid', stx_raw tx)"
    by (auto simp: build_and_sign_multi_def bind_res_Inr_iff split: option.splits)
  have "nullifier m \<noteq> Some nf"
    if load: "load_selectable_notes_for_send (repository_notes cr cd adb unscanned (construct_anchor_witnesses_from_db_state tlib ts) db')
        sdb (ws_account_id (rq_secret rq)) anchors kf' af' = Inr offered" "m \<in> set offered"
      and n: "n \<in> set (plan_notes plan)" "nullifier n = Some nf" "length nf = 32"
    for cd adb unscanned tlib ts sdb anchors kf' af' offered m n nf
  proof
    assume eq: "nullifier m = Some nf"
    obtain all k where k: "get_unspent_selectable_notes_filtered cr cd adb (bc_account_id bctx) kf' af' db' = Inr all" "k \<in> set all" "nullifier k = nullifier m"
      unfolding b(1) by (rule loaded_nullifier [OF load])
    have "nf \<in> set (bc_spent_nullifiers bctx)" using n(1,2) unfolding b(3) plan(2) map_filter_set by (force simp: spent_ref_def)
    then have "nf \<in> fst ` set (marks bctx txid)" using n(3) by (force simp: marks_def)
    with offered_not_marked [OF d k(1,2) _ n(3)] k(3) eq show False by simp
  qed
  with d(1) plan(1,3) show ?thesis by blast
qed

section \<open>Spendable means ready\<close>

text \<open>The check of the sync engine over the repository's own check.\<close>

definition repository_check :: "witness_env \<Rightarrow> spend_db \<Rightarrow> i64 \<Rightarrow> u64 \<Rightarrow> u64 \<Rightarrow> storage_error + (u64 \<times> u64) list" where
  "repository_check env db account anchor birthday =
     map_sum id repair_ranges (check_witnesses (env\<lparr>wv_spend := db\<rparr>) account anchor birthday)"

lemma check_with_db_checked:
  assumes "check_witnesses_with_db check account current already db = (db', Inr out)" "checked out"
  shows "\<exists>b target anchor ranges. get_wallet_birthday_height account db = Inr b \<and>
    check account (max anchor 1) (max (case b of None \<Rightarrow> 1 | Some v \<Rightarrow> v) 1) = Inr ranges \<and>
    settle_witness_check current (max target 1) (max anchor 1) (max (case b of None \<Rightarrow> 1 | Some v \<Rightarrow> v) 1) ranges db = (db', Inr out)"
proof -
  from assms(1) obtain b hs where b: "get_wallet_birthday_height account db = Inr b"
      and hs: "get_target_and_anchor_heights_for_account SPENDABILITY_MIN_CONFIRMATIONS account db = Inr hs"
    by (auto simp: check_witnesses_with_db_def then_db_Inr Let_def)
  show ?thesis
  proof (cases hs)
    case None
    with assms b hs show ?thesis by (auto simp: check_witnesses_with_db_def then_db_Inr Let_def)
  next
    case (Some ta)
    obtain t a where ta: "ta = (t, a)" by (cases ta)
    let ?b = "max (case b of None \<Rightarrow> 1 | Some v \<Rightarrow> v) 1"
    from assms b hs Some ta obtain ranges where "check account (max a 1) ?b = Inr ranges"
        "settle_witness_check current (max t 1) (max a 1) ?b ranges db = (db', Inr out)"
      by (auto simp: check_witnesses_with_db_def then_db_Inr Let_def split: if_split_asm)
    with b show ?thesis by blast
  qed
qed

text \<open>
  Property C17. A wallet the witness check leaves spendable can spend its notes. If the sync engine has run the
  repository's check and the status then says spendable, every unspent note of the account between the wallet's birthday and
  the validated anchor has its note bytes and its position stored, and no range of its shard that is still to be scanned
  overlaps that window.
\<close>

theorem spendable_means_notes_ready:
  assumes db: "spend_inv db" "spend_state db = Some r"
    and run: "check_witnesses_with_db (repository_check env db) account current already db = (db', Inr out)" "checked out"
    and st: "load_spendability_status_internal db' = Inr st" "st_spendable st"
    and b: "get_wallet_birthday_height account db = Inr bo" "birthday = max (case bo of None \<Rightarrow> 1 | Some v \<Rightarrow> v) 1"
    and m: "get_unspent_note_witness_metas (wv_cipher env) account (wv_notes env) = Inr metas"
    and n: "n \<in> set metas" "height_in_window birthday (st_validated_anchor_height st) n = Some h"
  shows "wm_has_material n \<and> (\<exists>p. wm_position n = Some p \<and> 0 \<le> p \<and>
    (\<forall>s e. (p div 2 ^ 16, s, e) \<in> set (unscanned_ranges (wv_source env) (wm_note_type n)) \<longrightarrow>
       s < 0 \<or> uint (st_validated_anchor_height st) < s \<or> e \<le> uint birthday))"
proof -
  from check_with_db_checked [OF run] b obtain target anchor ranges where
      c: "repository_check env db account (max anchor 1) birthday = Inr ranges"
      and s: "settle_witness_check current (max target 1) (max anchor 1) birthday ranges db = (db', Inr out)" by auto
  from witness_check_settles [OF db s] st have none: "ranges = []" and a: "st_validated_anchor_height st = max anchor 1" by auto
  from c none obtain res where res: "check_witnesses (env\<lparr>wv_spend := db\<rparr>) account (max anchor 1) birthday = Inr res" "repair_ranges res = []"
    by (cases "check_witnesses (env\<lparr>wv_spend := db\<rparr>) account (max anchor 1) birthday") (simp_all add: repository_check_def)
  have m': "get_unspent_note_witness_metas (wv_cipher (env\<lparr>wv_spend := db\<rparr>)) account (wv_notes (env\<lparr>wv_spend := db\<rparr>)) = Inr metas"
    using m by simp
  have bm: "max birthday 1 = birthday" using b(2) by simp
  have nz: "max anchor 1 \<noteq> 0" by (metis max.cobounded2 one_neq_zero word_le_0_iff)
  from no_repair_ready [OF res nz m' n(1), unfolded bm, OF n(2) [unfolded a]] show ?thesis unfolding a by simp
qed

section \<open>Examples\<close>

theorem signed_notes_not_offered_again_witness:
  "\<exists>st1 tx. sign_tx_internal flow_lib_example flow_env [] flow_pending None None (0, 6, 6, 6, True)
       (flow_start\<lparr>fs_sign_cache := [([2], flow_context)]\<rparr>) = (st1, Inr tx) \<and>
     table_ok plain_cipher (run_new_calls plain_cipher 8 (flow_start\<lparr>fs_sign_cache := [([2], flow_context)]\<rparr>)
       (record_accepted_broadcast 7 7 (Inr ()) tx st1) (table_of [spendable_note]))"
proof -
  let ?st = "flow_start\<lparr>fs_sign_cache := [([2], flow_context)]\<rparr>"
  obtain st1 tx where signs: "sign_tx_internal flow_lib_example flow_env [] flow_pending None None (0, 6, 6, 6, True) ?st = (st1, Inr tx)"
    using flow_signed by blast
  have rq: "open_sign_request flow_lib_example flow_env flow_pending None None (fs_addresses ?st) = Inr flow_request_rq"
    using flow_opened by (simp add: flow_start_def)
  have cache: "distinct (map fst (fs_broadcast_cache ?st))"
    "\<forall>(k, v) \<in> set (fs_broadcast_cache ?st). k \<noteq> stx_txid tx \<longrightarrow> bc_created_at_ms v < 6" by (simp_all add: flow_start_def)
  from signed_notes_not_offered_again [OF plain_cipher_ok table_of_ok(1) [OF spendable_note_wf] cache rq signs refl] signs
  show ?thesis by blast
qed

text \<open>A wallet scanned to height 109, without checkpoints.\<close>

definition scanned_db :: spend_db where
  "scanned_db = example_db\<lparr>queue_table := \<lparr>scan_rows = [\<lparr>row_id = 1, range_start = 1, range_end = 110, row_priority = 10,
     row_status = Done, row_reason = None\<rparr>], next_row_id = 2\<rparr>, sapling_checkpoints := [], orchard_checkpoints := []\<rparr>"

lemma scanned_db_facts: "spend_inv scanned_db" "spend_state scanned_db = Some (validated_row 90)" "get_wallet_birthday_height 7 scanned_db = Inr None"
  by (simp_all add: scanned_db_def spend_inv_def example_db_def on_row_def wf_row_def validated_row_def initial_row_def scan_inv_def
      get_wallet_birthday_height_def)

lemma scanned_db_heights: "get_target_and_anchor_heights_for_account SPENDABILITY_MIN_CONFIRMATIONS 7 scanned_db = Inr (Some (110, 109))"
proof -
  have ext: "scan_queue_extrema scanned_db = Inr (Some (1, 109))"
    by (simp add: scan_queue_extrema_def scanned_db_def min_start_def max_end_def SCAN_PRIORITY_HISTORIC_def u64_try_from_def
        saturating_sub_def word_le_nat_alt word_less_nat_alt max_def)
  have birthday: "birthday_height_for_account 7 scanned_db = Inr 0"
    by (simp add: birthday_height_for_account_def scanned_db_def example_db_def)
  have snap: "snap_to_checkpoint 109 1 scanned_db = None"
    by (simp add: snap_to_checkpoint_def snap_to_checkpoint_for_table_def u32_try_from_def scanned_db_def)
  have num: "saturating_add 109 1 = (110 :: u64)" "saturating_sub 110 (u64_from_u32 1) = (109 :: u64)" "max (0 :: u64) 1 = 1"
      "max (1 :: u64) 1 = 1" "max (109 :: u64) 1 = 109" "\<not> (110 :: u64) < 109" "max 1 1 = (1 :: u32)"
    by (simp_all add: saturating_add_def saturating_sub_def u64_from_u32_def word_le_nat_alt word_less_nat_alt max_def)
  show ?thesis
    by (simp add: get_target_and_anchor_heights_for_account_def get_target_and_anchor_heights_for_account_opt_def
        SPENDABILITY_MIN_CONFIRMATIONS_def ext birthday snap num Let_def)
qed

lemma scanned_db_check:
  obtains db' st where "check_witnesses_with_db (repository_check (example_witness_env []) scanned_db) 7 109 False scanned_db =
      (db', Inr \<lparr>repair_range = None, checked = True\<rparr>)" "load_spendability_status_internal db' = Inr st" "st_spendable st"
    "st_validated_anchor_height st = 109"
proof -
  let ?h = "max (saturating_add 109 1) (saturating_add 109 1) :: u64"
  have retired: "queue_table (retire_through ?h scanned_db) = queue_table scanned_db"
    by (simp add: retire_through_def mark_found_note_done_through_def to_sql_i64_def i64_try_from_def saturating_add_def
        update_status_def done_through_def scanned_db_def SCAN_PRIORITY_FOUND_NOTE_def)
  have none: "next_found_note_range (queue_table scanned_db) = Inr None"
    by (simp add: next_found_note_range_def found_note_work_def scanned_db_def SCAN_PRIORITY_FOUND_NOTE_def)
  obtain db' where db': "settle_witness_check 109 110 109 1 [] scanned_db = (db', Inr \<lparr>repair_range = None, checked = True\<rparr>)"
    using retired none by (simp add: settle_witness_check_def Let_def lift_db_def mark_validated_def to_sql_i64_def i64_try_from_def)
  have work: "repair_work (retire_through ?h scanned_db) = {}"
    unfolding retired by (simp add: active_heights_def scanned_db_def SCAN_PRIORITY_FOUND_NOTE_def)
  obtain res where "check_witnesses ((example_witness_env [])\<lparr>wv_spend := scanned_db\<rparr>) 7 109 1 = Inr res" "repair_ranges res = []"
    using example_check [of "[]", OF _ scanned_db_facts(3)] by auto
  then have c: "repository_check (example_witness_env []) scanned_db 7 109 1 = Inr []" by (simp add: repository_check_def)
  have state: "\<not> ss_rescan_required (load_state_or_default scanned_db)"
    by (simp add: load_state_or_default_def load_state_def scanned_db_def example_db_def validated_row_def initial_row_def load_row_def
        row_u64_def u64_try_from_def)
  have run: "check_witnesses_with_db (repository_check (example_witness_env []) scanned_db) 7 109 False scanned_db =
      (db', Inr \<lparr>repair_range = None, checked = True\<rparr>)"
    using db' c state by (simp add: check_witnesses_with_db_def scanned_db_facts(3) scanned_db_heights then_db_def Let_def)
  from witness_check_settles [OF scanned_db_facts(1,2) db'] work that [OF run] show ?thesis
    by (auto simp: validated_row_def initial_row_def)
qed

theorem spendable_means_notes_ready_witness:
  "\<exists>db' st. check_witnesses_with_db (repository_check (example_witness_env []) scanned_db) 7 109 False scanned_db =
      (db', Inr \<lparr>repair_range = None, checked = True\<rparr>) \<and> load_spendability_status_internal db' = Inr st \<and> st_spendable st \<and>
      wm_has_material example_meta"
proof -
  obtain db' st where run: "check_witnesses_with_db (repository_check (example_witness_env []) scanned_db) 7 109 False scanned_db =
      (db', Inr \<lparr>repair_range = None, checked = True\<rparr>)" and st: "load_spendability_status_internal db' = Inr st" "st_spendable st"
      and a: "st_validated_anchor_height st = 109" by (rule scanned_db_check)
  have m: "get_unspent_note_witness_metas (wv_cipher (example_witness_env [])) 7 (wv_notes (example_witness_env [])) = Inr [example_meta]"
    using example_metas by (simp add: example_witness_env_def)
  have n: "example_meta \<in> set [example_meta]" "height_in_window (max 1 1) (st_validated_anchor_height st) example_meta = Some 100"
    using example_height by (simp_all add: a)
  have b: "max 1 1 = max (case None of None \<Rightarrow> 1 | Some v \<Rightarrow> v) (1 :: u64)" by simp
  have "checked \<lparr>repair_range = None, checked = True\<rparr>" by simp
  from spendable_means_notes_ready [OF scanned_db_facts(1,2) run this st scanned_db_facts(3) b m n] run st show ?thesis by blast
qed


end
