(* ===== verification/Qortal.thy ===== *)
theory Qortal
  imports Builder
begin

text \<open>
  Transactions for the script contracts of the Qortal exchange (\<open>pirate-core/src/qortal_p2sh.rs\<close>): one that funds a
  contract from shielded notes and one that redeems or refunds it through its script.

  These builders do not use the transaction builder of the Zcash crates, which balances a transaction by itself: they fill the
  Sapling and Ironwood bundle builders and the transparent outputs and combine them. Opaque values and crate
  operations are those of \<open>Builder\<close>, with the record \<open>qortal_lib\<close> for the rest: the script of a transparent address, whether
  the network's branch at a height has version 6 transactions, the addition of block heights, the signature of the transparent
  input, and the proving, signing and serialising of the finished parts. What the bundle builders have
  accepted is again a list of calls. A script is its bytes; the flags returned by \<open>add_outputs_and_script\<close> are not used
  by its callers and left out.
\<close>

section \<open>Recipients\<close>

datatype transparent_address = PublicKeyHash bytes | ScriptHash bytes
typedecl secp_secret_key

datatype qortal_recipient =
    QSapling sapling_address u64 "memo option"
  | QIronwood orchard_address u64 "memo option"
  | QTransparent transparent_address u64

fun recipient_amount :: "qortal_recipient \<Rightarrow> u64" where
  "recipient_amount (QSapling _ amount _) = amount"
| "recipient_amount (QIronwood _ amount _) = amount"
| "recipient_amount (QTransparent _ amount) = amount"

fun is_ironwood_recipient :: "qortal_recipient \<Rightarrow> bool" where
  "is_ironwood_recipient (QIronwood _ _ _) = True"
| "is_ironwood_recipient _ = False"

fun add_amounts :: "qortal_recipient list \<Rightarrow> u64 \<Rightarrow> core_error + u64" where
  "add_amounts [] tot = Inr tot"
| "add_amounts (r # rs) tot =
     bind_res (ok_or (checked_add tot (recipient_amount r)) (AmountOverflow (Msg ''Output amount overflow'' []))) (add_amounts rs)"

definition recipient_total :: "qortal_recipient list \<Rightarrow> core_error + u64" where
  "recipient_total rs = add_amounts rs 0"

section \<open>Scripts\<close>

definition build_script_pubkey :: "bytes \<Rightarrow> core_error + bytes" where
  "build_script_pubkey script_bytes =
     (if script_bytes = [] then Inl (TransactionBuild (Msg ''Script pubkey bytes are empty'' [])) else Inr script_bytes)"

definition len_bytes :: "nat \<Rightarrow> nat \<Rightarrow> bytes" where
  "len_bytes k n = map (\<lambda>i. word_of_nat (n div 256 ^ i)) [0..<k]"

definition push_script_data :: "bytes \<Rightarrow> bytes \<Rightarrow> bytes" where
  "push_script_data script data =
     (let n = length data
      in script @ (if n \<le> 75 then [word_of_nat n]
           else if n \<le> 0xff then [0x4c, word_of_nat n]
           else if n \<le> 0xffff then 0x4d # len_bytes 2 n
           else 0x4e # len_bytes 4 n) @ data)"

definition build_p2sh_script_sig :: "bytes \<Rightarrow> bytes \<Rightarrow> bytes \<Rightarrow> bytes" where
  "build_p2sh_script_sig sig_bytes secret redeem_script =
     (if secret = []
      then push_script_data (push_script_data (push_script_data [] sig_bytes) [0x51]) redeem_script
      else push_script_data (push_script_data (push_script_data (push_script_data [] sig_bytes) secret) [0x00]) redeem_script)"

section \<open>The parts of a transaction\<close>

record tx_out =
  txo_value :: u64
  txo_script :: bytes

record tx_in =
  txi_txid :: bytes
  txi_index :: u32
  txi_script_sig :: bytes
  txi_sequence :: u32

record transparent_part =
  tp_vin :: "tx_in list"
  tp_vout :: "tx_out list"
  tp_lock_time :: u32
  tp_expiry_height :: u32
  tp_v6 :: bool

record qortal_lib =
  ql_tx :: tx_lib
  transparent_script :: "transparent_address \<Rightarrow> bytes"
  zero_ovk :: sapling_ovk
  v6_at :: "pirate_network \<Rightarrow> u32 \<Rightarrow> bool"
  height_plus :: "u32 \<Rightarrow> u32 \<Rightarrow> u32"
  ironwood_builder_ok :: "orchard_anchor \<Rightarrow> bool"
  amount_add :: "u64 \<Rightarrow> u64 \<Rightarrow> u64 option"
  sign_transparent :: "build_config \<Rightarrow> transparent_part \<Rightarrow> builder_call list \<Rightarrow> bytes \<Rightarrow> tx_out \<Rightarrow> secp_secret_key \<Rightarrow> core_error + bytes"
  assemble :: "build_config \<Rightarrow> transparent_part \<Rightarrow> builder_call list \<Rightarrow> sapling_extsk list \<Rightarrow> spend_authorizing_key list
    \<Rightarrow> core_error + bytes \<times> bytes"

section \<open>Anchors and builders\<close>

definition sapling_anchor_from_note :: "tx_lib \<Rightarrow> selectable_note \<Rightarrow> core_error + sapling_anchor" where
  "sapling_anchor_from_note lib n =
     bind_res (ok_or (the_note n) (TransactionBuild (Msg ''Missing Sapling note'' []))) (\<lambda>nt.
     bind_res (ok_or (merkle_path n) (TransactionBuild (Msg ''Missing Sapling merkle path'' []))) (\<lambda>path.
       Inr (note_root lib nt path)))"

fun qortal_sapling_anchor :: "tx_lib \<Rightarrow> selectable_note list \<Rightarrow> sapling_anchor option \<Rightarrow> core_error + sapling_anchor option" where
  "qortal_sapling_anchor lib [] acc = Inr acc"
| "qortal_sapling_anchor lib (n # ns) acc =
     (if note_type n \<noteq> Sapling then qortal_sapling_anchor lib ns acc
      else bind_res (sapling_anchor_from_note lib n) (\<lambda>note_anchor.
        case acc of
          Some existing \<Rightarrow>
            if existing \<noteq> note_anchor
            then Inl (TransactionBuild (Msg ''Selected Sapling spend notes are not anchored to a single root'' []))
            else qortal_sapling_anchor lib ns acc
        | None \<Rightarrow> qortal_sapling_anchor lib ns (Some note_anchor)))"

text \<open>The anchor of the Ironwood builder, if one is needed.\<close>

definition new_ironwood_builder :: "qortal_lib \<Rightarrow> bool \<Rightarrow> orchard_anchor option \<Rightarrow> core_error + orchard_anchor option" where
  "new_ironwood_builder lib needed provided =
     (if \<not> needed then Inr None
      else bind_res (ok_or provided (TransactionBuild (Msg ''Missing Ironwood anchor'' []))) (\<lambda>anchor.
        if ironwood_builder_ok lib anchor then Inr (Some anchor)
        else Inl (TransactionBuild (Msg ''Failed to create Ironwood builder: {:?}'' []))))"

section \<open>Outputs\<close>

record output_options =
  oo_script_pubkey :: "bytes option"
  oo_script_each_recipient :: bool
  oo_sapling_ovk :: sapling_ovk
  oo_orchard_ovk :: "orchard_ovk option"

definition add_recipient ::
    "qortal_lib \<Rightarrow> build_config \<Rightarrow> output_options \<Rightarrow> qortal_recipient \<Rightarrow> spend_state \<times> tx_out list \<Rightarrow> core_error + spend_state \<times> tx_out list" where
  "add_recipient lib cfg opts r s =
     (case s of (st, vout) \<Rightarrow>
      case r of
        QSapling address amount memo \<Rightarrow>
          bind_res (output_memo (ql_tx lib) memo) (\<lambda>mb.
          bind_res (add_call (ql_tx lib) cfg ''Failed to add Sapling output: {:?}''
            (AddSaplingOutput (Some (oo_sapling_ovk opts)) address amount mb) st) (\<lambda>st'. Inr (st', vout)))
      | QIronwood address amount memo \<Rightarrow>
          bind_res (ok_or (cfg_ironwood_anchor cfg) (TransactionBuild (Msg ''Ironwood builder not initialized'' []))) (\<lambda>_.
          bind_res (output_memo (ql_tx lib) memo) (\<lambda>mb.
          bind_res (add_call (ql_tx lib) cfg ''Failed to add Ironwood output: {:?}''
            (AddIronwoodOutput (oo_orchard_ovk opts) address amount mb) st) (\<lambda>st'. Inr (st', vout))))
      | QTransparent address amount \<Rightarrow>
          bind_res (check_amount (ql_tx lib) ''Transparent amount out of range'' amount) (\<lambda>a.
            Inr (st, vout @ [\<lparr>txo_value = a, txo_script = transparent_script lib address\<rparr>])))"

fun add_recipients ::
    "qortal_lib \<Rightarrow> build_config \<Rightarrow> output_options \<Rightarrow> qortal_recipient list \<Rightarrow> spend_state \<times> tx_out list \<Rightarrow> core_error + spend_state \<times> tx_out list" where
  "add_recipients lib cfg opts [] s = Inr s"
| "add_recipients lib cfg opts (r # rs) s =
     bind_res (add_recipient lib cfg opts r s) (\<lambda>(st, vout).
       if oo_script_each_recipient opts
       then bind_res (ok_or (oo_script_pubkey opts) (TransactionBuild (Msg ''Missing script output bytes'' []))) (\<lambda>script.
              add_recipients lib cfg opts rs (st, vout @ [\<lparr>txo_value = 0, txo_script = script\<rparr>]))
       else add_recipients lib cfg opts rs (st, vout))"

definition add_outputs_and_script ::
    "qortal_lib \<Rightarrow> build_config \<Rightarrow> qortal_recipient list \<Rightarrow> output_options \<Rightarrow> spend_state \<times> tx_out list \<Rightarrow> core_error + spend_state \<times> tx_out list" where
  "add_outputs_and_script lib cfg recipients opts s =
     bind_res (add_recipients lib cfg opts recipients s) (\<lambda>(st, vout).
       Inr (st, vout @ (if oo_script_each_recipient opts then []
         else case oo_script_pubkey opts of None \<Rightarrow> [] | Some script \<Rightarrow> [\<lparr>txo_value = 0, txo_script = script\<rparr>])))"

section \<open>Funding a contract\<close>

text \<open>Keys, notes, height, anchor and change index of the plan are the inputs of \<open>Builder\<close>.\<close>

record funding_plan =
  fp_network_type :: network_type
  fp_inputs :: multi_inputs
  fp_ironwood_activation_height :: "u32 option"
  fp_recipients :: "qortal_recipient list"
  fp_fee :: u64
  fp_script_pubkey :: bytes
  fp_script_each_recipient :: bool

definition fund_sapling_note ::
    "tx_lib \<Rightarrow> build_config \<Rightarrow> multi_inputs \<Rightarrow> selectable_note \<Rightarrow> spend_state \<Rightarrow> core_error + spend_state" where
  "fund_sapling_note lib cfg inp n st =
     bind_res (ok_or (diversifier n) (TransactionBuild (Msg ''Missing Sapling diversifier'' []))) (\<lambda>d.
     bind_res (ok_or (the_note n) (TransactionBuild (Msg ''Missing Sapling note'' []))) (\<lambda>nt.
     bind_res (ok_or (merkle_path n) (TransactionBuild (Msg ''Missing Sapling merkle path'' []))) (\<lambda>path.
     let base = base_sapling_key inp n;
         st1 = (if st_legacy_change st = None
           then st\<lparr>st_legacy_change := Some (sapling_ovk_of lib base, note_recipient lib nt)\<rparr> else st);
         key = sapling_key_for lib base d (note_recipient lib nt)
     in bind_res (add_call lib cfg ''Failed to add Sapling spend: {:?}'' (AddSaplingSpend (sapling_fvk_of lib key) nt path) st1)
          (\<lambda>st2. Inr (st2\<lparr>st_extsks := st_extsks st2 @ [sapling_inner lib key]\<rparr>)))))"

definition fund_ironwood_note ::
    "tx_lib \<Rightarrow> build_config \<Rightarrow> multi_inputs \<Rightarrow> selectable_note \<Rightarrow> spend_state \<Rightarrow> core_error + spend_state" where
  "fund_ironwood_note lib cfg inp n st =
     bind_res (ok_or (ironwood_note n) (TransactionBuild (Msg ''Missing Ironwood note'' []))) (\<lambda>nt.
     bind_res (ok_or (ironwood_merkle_path n) (TransactionBuild (Msg ''Missing Ironwood merkle path'' []))) (\<lambda>path.
     bind_res (ok_or (ironwood_key_for inp n) (TransactionBuild (Msg ''Missing Ironwood spending key'' []))) (\<lambda>key.
     bind_res (add_call lib cfg ''Failed to add Ironwood spend: {:?}'' (AddIronwoodSpend (ironwood_fvk_of lib key) nt path)
         (st\<lparr>st_saks := st_saks st @ [spend_auth_of lib key]\<rparr>)) Inr)))"

fun fund_spends ::
    "tx_lib \<Rightarrow> build_config \<Rightarrow> multi_inputs \<Rightarrow> selectable_note list \<Rightarrow> spend_state \<Rightarrow> core_error + spend_state" where
  "fund_spends lib cfg inp [] st = Inr st"
| "fund_spends lib cfg inp (n # ns) st =
     bind_res (case note_type n of Sapling \<Rightarrow> fund_sapling_note lib cfg inp n st
               | Ironwood \<Rightarrow> fund_ironwood_note lib cfg inp n st)
       (fund_spends lib cfg inp ns)"

definition fund_change ::
    "tx_lib \<Rightarrow> build_config \<Rightarrow> multi_inputs \<Rightarrow> bool \<Rightarrow> bool \<Rightarrow> u64 \<Rightarrow> spend_state \<Rightarrow> core_error + spend_state" where
  "fund_change lib cfg inp use_orchard_change use_sapling_internal_change change st =
     (if change < CHANGE_DUST_THRESHOLD then Inr st
      else if use_orchard_change then
        bind_res (ok_or (default_ironwood_key inp)
          (TransactionBuild (Msg ''Missing Ironwood spending key for change'' []))) (\<lambda>key.
        add_call lib cfg ''Failed to add Ironwood change: {:?}''
          (AddIronwoodOutput (map_option (ironwood_ovk_of lib) (default_ironwood_key inp))
            (ironwood_internal_address lib key (change_diversifier_index inp)) change (empty_memo_bytes lib)) st)
      else if use_sapling_internal_change then
        add_call lib cfg ''Failed to add Sapling change: {:?}''
          (AddSaplingOutput (Some (sapling_ovk_of lib (default_sapling_key inp)))
            (sapling_internal_address lib (default_sapling_key inp) (change_diversifier_index inp)) change
            (empty_memo_bytes lib)) st
      else
        bind_res (ok_or (st_legacy_change st)
          (TransactionBuild (Msg ''Sapling legacy change requires a selected Sapling spend'' []))) (\<lambda>(ovk, address).
        add_call lib cfg ''Failed to add legacy Sapling change: {:?}''
          (AddSaplingOutput (Some ovk) address change (empty_memo_bytes lib)) st))"

text \<open>The amounts: what is selected, and the fee and change that remain after the dust rule.\<close>

definition fund_amounts :: "funding_plan \<Rightarrow> core_error + selection_result \<times> effective_fee_and_change" where
  "fund_amounts plan =
     bind_res (recipient_total (fp_recipients plan)) (\<lambda>total_val.
     bind_res (ok_or (checked_add total_val (fp_fee plan)) (AmountOverflow (Msg ''Output + fee overflow'' []))) (\<lambda>target_total.
     bind_res (select_notes SmallestFirst (available_notes (fp_inputs plan)) total_val (fp_fee plan)) (\<lambda>selection.
     bind_res (ok_or (checked_sub (total_value selection) target_total)
       (InsufficientFunds (Msg ''Insufficient funds for Qortal P2SH funding'' []))) (\<lambda>change.
     bind_res (apply_dust_policy_add_to_fee (fp_fee plan) change) (\<lambda>effective. Inr (selection, effective))))))"

record funding =
  fu_config :: build_config
  fu_state :: spend_state
  fu_transparent :: transparent_part
  fu_fee :: u64
  fu_notes :: "selectable_note list"

definition plan_funding :: "qortal_lib \<Rightarrow> funding_plan \<Rightarrow> core_error + funding" where
  "plan_funding lib plan =
     bind_res (build_script_pubkey (fp_script_pubkey plan)) (\<lambda>script.
     bind_res (fund_amounts plan) (\<lambda>(selection, effective).
     let tx = ql_tx lib; inp = fp_inputs plan; notes = sel_notes selection;
         network = with_ironwood_activation_height (fp_network_type plan) (fp_ironwood_activation_height plan);
         has_orchard_spends = list_ex (\<lambda>n. note_type n = Ironwood) notes;
         has_sapling_spends = list_ex (\<lambda>n. note_type n = Sapling) notes;
         has_orchard_outputs = list_ex is_ironwood_recipient (fp_recipients plan);
         use_orchard_change = (has_orchard_spends \<or> has_orchard_outputs);
         use_sapling_internal_change = sapling_internal_change_active_with_resolved_height (fp_network_type plan)
           (u64_from_u32 (target_height inp)) (fp_ironwood_activation_height plan);
         v6 = v6_at lib network (target_height inp)
     in if (has_orchard_spends \<or> has_orchard_outputs) \<and> \<not> v6
        then Inl (TransactionBuild (Msg ''Ironwood is not active at the target height'' []))
        else bind_res (if has_sapling_spends
               then bind_res (qortal_sapling_anchor tx notes None) (\<lambda>a.
                 ok_or a (TransactionBuild (Msg ''Missing Sapling anchor for selected spends'' [])))
               else Inr (empty_tree_anchor tx)) (\<lambda>sapling_anchor.
             bind_res (new_ironwood_builder lib (has_orchard_spends \<or> has_orchard_outputs \<or> use_orchard_change)
               (provided_ironwood_anchor inp)) (\<lambda>ironwood.
             let cfg = \<lparr>cfg_network = network, cfg_height = target_height inp, cfg_sapling_anchor = Some sapling_anchor,
                   cfg_ironwood_anchor = ironwood\<rparr>;
                 st0 = \<lparr>st_calls = [], st_extsks = [], st_saks = [], st_legacy_change = None\<rparr>
             in bind_res (fund_spends tx cfg inp notes st0) (\<lambda>st1.
                bind_res (add_outputs_and_script lib cfg (fp_recipients plan)
                  \<lparr>oo_script_pubkey = Some script, oo_script_each_recipient = fp_script_each_recipient plan,
                   oo_sapling_ovk = sapling_ovk_of tx (default_sapling_key inp),
                   oo_orchard_ovk = map_option (ironwood_ovk_of tx) (default_ironwood_key inp)\<rparr> (st1, [])) (\<lambda>(st2, vout).
                bind_res (fund_change tx cfg inp use_orchard_change use_sapling_internal_change (eff_change effective) st2) (\<lambda>st3.
                bind_res (sapling_prover tx) (\<lambda>_.
                  Inr \<lparr>fu_config = cfg, fu_state = st3,
                    fu_transparent = \<lparr>tp_vin = [], tp_vout = vout, tp_lock_time = 0,
                      tp_expiry_height = height_plus lib (target_height inp) 20, tp_v6 = v6\<rparr>,
                    fu_fee = eff_fee effective, fu_notes = notes\<rparr>))))))))"

definition build_qortal_p2sh_funding_transaction :: "qortal_lib \<Rightarrow> funding_plan \<Rightarrow> core_error + signed_shielded_transaction" where
  "build_qortal_p2sh_funding_transaction lib plan =
     bind_res (plan_funding lib plan) (\<lambda>f.
     bind_res (assemble lib (fu_config f) (fu_transparent f) (st_calls (fu_state f)) (st_extsks (fu_state f)) (st_saks (fu_state f)))
       (\<lambda>(txid, raw). Inr \<lparr>tx_txid = txid, tx_raw = raw, tx_size = length raw, spent_notes = map spent_ref (fu_notes f)\<rparr>))"

section \<open>Redeeming or refunding a contract\<close>

record redeem_plan =
  rp_network_type :: network_type
  rp_target_height :: u32
  rp_ironwood_activation_height :: "u32 option"
  rp_ironwood_anchor :: "orchard_anchor option"
  rp_funding_txid :: bytes
  rp_funding_coin :: tx_out
  rp_recipients :: "qortal_recipient list"
  rp_fee :: u64
  rp_redeem_script :: bytes
  rp_lock_time :: u32
  rp_secret :: bytes
  rp_privkey :: secp_secret_key

definition SIGHASH_ALL :: "8 word" where "SIGHASH_ALL = 1"

text \<open>The checks of the amounts: the coin must be spent exactly.\<close>

definition check_redeem_amounts :: "qortal_lib \<Rightarrow> redeem_plan \<Rightarrow> core_error + unit" where
  "check_redeem_amounts lib plan =
     bind_res (check_amount (ql_tx lib) ''Invalid fee'' (rp_fee plan)) (\<lambda>fee_amount.
     bind_res (recipient_total (rp_recipients plan)) (\<lambda>tot.
     bind_res (check_amount (ql_tx lib) ''Invalid output amount'' tot) (\<lambda>outputs_total.
     bind_res (ok_or (amount_add lib outputs_total fee_amount) (AmountOverflow (Msg ''Transparent output + fee overflow'' []))) (\<lambda>required_total.
       if txo_value (rp_funding_coin plan) < required_total
       then Inl (InsufficientFunds (Msg ''Funding output value is less than outputs plus fee'' []))
       else if required_total < txo_value (rp_funding_coin plan)
       then Inl (TransactionBuild (Msg ''Funding output value exceeds outputs plus fee; refusing to burn the remainder'' []))
       else Inr ()))))"

record redemption =
  re_config :: build_config
  re_state :: spend_state
  re_transparent :: transparent_part

definition plan_redeem :: "qortal_lib \<Rightarrow> redeem_plan \<Rightarrow> core_error + redemption" where
  "plan_redeem lib plan =
     bind_res (build_script_pubkey (rp_redeem_script plan)) (\<lambda>script_code.
     let sequence = (if 0 < rp_lock_time plan then 0xFFFFFFFE else 0xFFFFFFFF);
         network = with_ironwood_activation_height (rp_network_type plan) (rp_ironwood_activation_height plan);
         v6 = v6_at lib network (rp_target_height plan);
         has_orchard_outputs = list_ex is_ironwood_recipient (rp_recipients plan)
     in if has_orchard_outputs \<and> \<not> v6
        then Inl (TransactionBuild (Msg ''Ironwood is not active at the target height'' []))
        else bind_res (new_ironwood_builder lib has_orchard_outputs (rp_ironwood_anchor plan)) (\<lambda>ironwood.
             let cfg = \<lparr>cfg_network = network, cfg_height = rp_target_height plan,
                   cfg_sapling_anchor = Some (empty_tree_anchor (ql_tx lib)), cfg_ironwood_anchor = ironwood\<rparr>
             in bind_res (add_outputs_and_script lib cfg (rp_recipients plan)
                  \<lparr>oo_script_pubkey = None, oo_script_each_recipient = False, oo_sapling_ovk = zero_ovk lib, oo_orchard_ovk = None\<rparr>
                  (\<lparr>st_calls = [], st_extsks = [], st_saks = [], st_legacy_change = None\<rparr>, [])) (\<lambda>(st, vout).
                bind_res (check_redeem_amounts lib plan) (\<lambda>_.
                bind_res (sapling_prover (ql_tx lib)) (\<lambda>_.
                let unsigned_part = \<lparr>tp_vin = [\<lparr>txi_txid = rp_funding_txid plan, txi_index = 0, txi_script_sig = [], txi_sequence = sequence\<rparr>],
                      tp_vout = vout, tp_lock_time = rp_lock_time plan,
                      tp_expiry_height = height_plus lib (rp_target_height plan) 20, tp_v6 = v6\<rparr>
                in bind_res (sign_transparent lib cfg unsigned_part (st_calls st) script_code (rp_funding_coin plan) (rp_privkey plan)) (\<lambda>der.
                   let script_sig = build_p2sh_script_sig (der @ [SIGHASH_ALL]) (rp_secret plan) (rp_redeem_script plan)
                   in Inr \<lparr>re_config = cfg, re_state = st, re_transparent = unsigned_part\<lparr>tp_vin :=
                        [\<lparr>txi_txid = rp_funding_txid plan, txi_index = 0, txi_script_sig = script_sig, txi_sequence = sequence\<rparr>]\<rparr>\<rparr>))))))"

definition build_qortal_p2sh_redeem_transaction :: "qortal_lib \<Rightarrow> redeem_plan \<Rightarrow> core_error + bytes \<times> bytes \<times> nat" where
  "build_qortal_p2sh_redeem_transaction lib plan =
     bind_res (plan_redeem lib plan) (\<lambda>r.
     bind_res (assemble lib (re_config r) (re_transparent r) (st_calls (re_state r)) [] []) (\<lambda>(txid, raw). Inr (txid, raw, length raw)))"

section \<open>What the script pushes\<close>

text \<open>Reading a script that only pushes data, as a node does.\<close>

definition bytes_len :: "bytes \<Rightarrow> nat" where
  "bytes_len bs = foldr (\<lambda>b acc. unat b + 256 * acc) bs 0"

definition push_header :: "bytes \<Rightarrow> (nat \<times> bytes) option" where
  "push_header script =
     (case script of
        [] \<Rightarrow> None
      | b # rest \<Rightarrow>
          if unat b \<le> 75 then Some (unat b, rest)
          else let k = (if b = 0x4c then 1 else if b = 0x4d then 2 else if b = 0x4e then 4 else 0)
            in if k = 0 \<or> length rest < k then None else Some (bytes_len (take k rest), drop k rest))"

lemma push_header_shorter: "push_header script = Some (n, rest) \<Longrightarrow> length rest < length script"
  by (auto simp: push_header_def Let_def split: list.splits if_splits)

function read_pushes :: "bytes \<Rightarrow> bytes list option" where
  "read_pushes script =
     (if script = [] then Some []
      else case push_header script of
        None \<Rightarrow> None
      | Some (n, rest) \<Rightarrow> if length rest < n then None else map_option ((#) (take n rest)) (read_pushes (drop n rest)))"
  by pat_completeness auto
termination by (relation "measure length") (use push_header_shorter in force)+

declare read_pushes.simps [simp del]

lemma bytes_len_bytes: "n < 256 ^ k \<Longrightarrow> bytes_len (len_bytes k n) = n"
proof -
  have "foldr (\<lambda>b acc. unat b + 256 * acc) (map (\<lambda>i. word_of_nat (n div 256 ^ i) :: 8 word) [m..<m + j]) 0 = (n div 256 ^ m) mod 256 ^ j" for m j
  proof (induction j arbitrary: m)
    case (Suc j)
    have "[m..<m + Suc j] = m # [Suc m..<Suc m + j]" by (simp add: upt_conv_Cons)
    then have "foldr (\<lambda>b acc. unat b + 256 * acc) (map (\<lambda>i. word_of_nat (n div 256 ^ i) :: 8 word) [m..<m + Suc j]) 0 =
        (n div 256 ^ m) mod 256 + 256 * ((n div 256 ^ Suc m) mod 256 ^ j)"
      using Suc.IH [of "Suc m"] by (simp add: unat_of_nat)
    also have "n div 256 ^ Suc m = n div 256 ^ m div 256" by (metis div_mult2_eq power_Suc2)
    also have "(n div 256 ^ m) mod 256 + 256 * (n div 256 ^ m div 256 mod 256 ^ j) = (n div 256 ^ m) mod 256 ^ Suc j"
      by (simp add: mod_mult2_eq)
    finally show ?case .
  qed simp
  from this [of 0 k] show "n < 256 ^ k \<Longrightarrow> bytes_len (len_bytes k n) = n" by (simp add: bytes_len_def len_bytes_def)
qed

lemma length_len_bytes [simp]: "length (len_bytes k n) = k"
  by (simp add: len_bytes_def)

definition push_bytes :: "bytes \<Rightarrow> bytes" where
  "push_bytes data = push_script_data [] data"

lemma push_script_data_append: "push_script_data script data = script @ push_bytes data"
  by (simp add: push_bytes_def push_script_data_def Let_def)

lemma push_header_push:
  assumes "length data < 2 ^ 32"
  shows "push_header (push_bytes data @ rest) = Some (length data, data @ rest)"
proof -
  have one: "unat (word_of_nat n :: 8 word) = n" if "n < 256" for n using that by (simp add: unat_of_nat)
  show ?thesis
  proof (cases "length data \<le> 75")
    case True
    then show ?thesis by (simp add: push_bytes_def push_script_data_def push_header_def one)
  next
    case False
    then show ?thesis
      using bytes_len_bytes [of "length data" 2] bytes_len_bytes [of "length data" 4] assms one [of "length data"]
      by (auto simp: push_bytes_def push_script_data_def push_header_def Let_def bytes_len_def not_le)
  qed
qed

lemma push_bytes_nonempty [simp]: "push_bytes data \<noteq> []"
  by (simp add: push_bytes_def push_script_data_def Let_def)

lemma read_pushes_push:
  assumes "length data < 2 ^ 32"
  shows "read_pushes (push_bytes data @ rest) = map_option ((#) data) (read_pushes rest)"
  by (subst read_pushes.simps) (simp add: push_header_push [OF assms])

lemma read_pushes_Nil [simp]: "read_pushes [] = Some []"
  by (simp add: read_pushes.simps)

text \<open>
  The script that spends a contract's coin is read back as what it was made of: the signature, the secret where there
  is one, the branch selector and the contract itself, whatever their lengths up to the limit of 32 bits.
\<close>

lemma script_sig_read_back:
  assumes "length sig < 2 ^ 32" "length secret < 2 ^ 32" "length redeem < 2 ^ 32"
  shows "read_pushes (build_p2sh_script_sig sig secret redeem) =
    Some (if secret = [] then [sig, [0x51], redeem] else [sig, secret, [0x00], redeem])"
proof -
  have last: "read_pushes (push_bytes redeem) = Some [redeem]" using read_pushes_push [OF assms(3), of "[]"] by simp
  have one: "read_pushes (push_bytes [b] @ rest) = map_option ((#) [b]) (read_pushes rest)" for b rest
    by (rule read_pushes_push) simp
  show ?thesis
    unfolding build_p2sh_script_sig_def push_script_data_append append_Nil append_assoc
    by (simp add: read_pushes_push [OF assms(1)] read_pushes_push [OF assms(2)] one last)
qed

section \<open>What the recipients get\<close>

definition recipient_calls :: "tx_lib \<Rightarrow> output_options \<Rightarrow> qortal_recipient \<Rightarrow> builder_call list" where
  "recipient_calls lib opts r = (case r of
     QSapling address amount memo \<Rightarrow> [AddSaplingOutput (Some (oo_sapling_ovk opts)) address amount (projr (output_memo lib memo))]
   | QIronwood address amount memo \<Rightarrow> [AddIronwoodOutput (oo_orchard_ovk opts) address amount (projr (output_memo lib memo))]
   | QTransparent _ _ \<Rightarrow> [])"

definition recipient_outs :: "qortal_lib \<Rightarrow> qortal_recipient \<Rightarrow> tx_out list" where
  "recipient_outs lib r = (case r of QTransparent address amount \<Rightarrow> [\<lparr>txo_value = amount, txo_script = transparent_script lib address\<rparr>] | _ \<Rightarrow> [])"

definition script_out :: "bytes \<Rightarrow> tx_out" where
  "script_out script = \<lparr>txo_value = 0, txo_script = script\<rparr>"

text \<open>All transparent outputs: those of the recipients, and the script after each of them or once at the end.\<close>

definition transparent_outs :: "qortal_lib \<Rightarrow> output_options \<Rightarrow> qortal_recipient list \<Rightarrow> tx_out list" where
  "transparent_outs lib opts rs =
     (case oo_script_pubkey opts of
        None \<Rightarrow> concat (map (recipient_outs lib) rs)
      | Some script \<Rightarrow>
          if oo_script_each_recipient opts then concat (map (\<lambda>r. recipient_outs lib r @ [script_out script]) rs)
          else concat (map (recipient_outs lib) rs) @ [script_out script])"

lemma add_recipient_Inr:
  assumes "add_recipient lib cfg opts r (st, vout) = Inr s"
  shows "s = (st\<lparr>st_calls := st_calls st @ recipient_calls (ql_tx lib) opts r\<rparr>, vout @ recipient_outs lib r)"
  using assms
  by (cases r) (auto simp: add_recipient_def bind_res_Inr_iff add_call_Inr check_amount_def recipient_calls_def recipient_outs_def split: if_splits)

lemma add_recipients_Inr:
  assumes "add_recipients lib cfg opts rs (st, vout) = Inr s"
  shows "s = (st\<lparr>st_calls := st_calls st @ concat (map (recipient_calls (ql_tx lib) opts) rs)\<rparr>,
      vout @ concat (map (\<lambda>r. recipient_outs lib r @
        (if oo_script_each_recipient opts then [script_out (the (oo_script_pubkey opts))] else [])) rs)) \<and>
    (oo_script_each_recipient opts \<and> rs \<noteq> [] \<longrightarrow> oo_script_pubkey opts \<noteq> None)"
  using assms
proof (induction rs arbitrary: st vout)
  case (Cons r rs)
  from Cons.prems obtain st1 vout1 where r: "add_recipient lib cfg opts r (st, vout) = Inr (st1, vout1)"
    by (auto simp: bind_res_Inr_iff)
  note step = add_recipient_Inr [OF r]
  show ?case
  proof (cases "oo_script_each_recipient opts")
    case True
    with Cons.prems r obtain script where script: "oo_script_pubkey opts = Some script"
      and rest: "add_recipients lib cfg opts rs (st1, vout1 @ [script_out script]) = Inr s"
      by (auto simp: bind_res_Inr_iff script_out_def)
    from Cons.IH [OF rest] step True script show ?thesis by simp
  next
    case False
    with Cons.prems r have "add_recipients lib cfg opts rs (st1, vout1) = Inr s" by simp
    from Cons.IH [OF this] step False show ?thesis by simp
  qed
qed simp

lemma add_outputs_and_script_Inr:
  assumes "add_outputs_and_script lib cfg rs opts (st, vout) = Inr s"
    and "oo_script_each_recipient opts \<longrightarrow> oo_script_pubkey opts \<noteq> None"
  shows "s = (st\<lparr>st_calls := st_calls st @ concat (map (recipient_calls (ql_tx lib) opts) rs)\<rparr>, vout @ transparent_outs lib opts rs)"
proof -
  from assms(1) obtain st1 vout1 where r: "add_recipients lib cfg opts rs (st, vout) = Inr (st1, vout1)"
      and s: "s = (st1, vout1 @ (if oo_script_each_recipient opts then []
         else case oo_script_pubkey opts of None \<Rightarrow> [] | Some script \<Rightarrow> [\<lparr>txo_value = 0, txo_script = script\<rparr>]))"
    by (auto simp: add_outputs_and_script_def bind_res_Inr_iff)
  from add_recipients_Inr [OF r] s assms(2) show ?thesis
    by (cases "oo_script_each_recipient opts"; cases "oo_script_pubkey opts") (auto simp: transparent_outs_def script_out_def)
qed

text \<open>The outputs pay the recipients what they are due: scripts carry no value.\<close>

lemma recipient_pay:
  "sum_list (map call_amount (recipient_calls lib opts r)) + sum_list (map (unat \<circ> txo_value) (recipient_outs qlib r)) =
     unat (recipient_amount r)"
  by (cases r) (simp_all add: recipient_calls_def recipient_outs_def)

lemma recipients_paid:
  "sum_list (map call_amount (concat (map (recipient_calls lib opts) rs))) + sum_list (map (unat \<circ> txo_value) (transparent_outs qlib opts rs)) =
     sum_list (map (unat \<circ> recipient_amount) rs)"
proof -
  have s: "unat (txo_value (script_out script)) = 0" for script by (simp add: script_out_def)
  have v: "sum_list (map (unat \<circ> txo_value) (transparent_outs qlib opts rs)) =
      sum_list (map (unat \<circ> txo_value) (concat (map (recipient_outs qlib) rs)))"
  proof (cases "oo_script_pubkey opts")
    case (Some script)
    have "sum_list (map (unat \<circ> txo_value) (concat (map (\<lambda>r. recipient_outs qlib r @ [script_out script]) rs))) =
        sum_list (map (unat \<circ> txo_value) (concat (map (recipient_outs qlib) rs)))"
      by (induction rs) (simp_all add: s)
    with Some show ?thesis by (simp add: transparent_outs_def s)
  qed (simp add: transparent_outs_def)
  have "sum_list (map call_amount (concat (map (recipient_calls lib opts) rs))) +
      sum_list (map (unat \<circ> txo_value) (concat (map (recipient_outs qlib) rs))) = sum_list (map (unat \<circ> recipient_amount) rs)"
  proof (induction rs)
    case (Cons r rs)
    then show ?case using recipient_pay [of lib opts r qlib] by (simp add: comp_def)
  qed simp
  with v show ?thesis by simp
qed

lemma add_amounts_Inr: "add_amounts rs t = Inr s \<Longrightarrow> unat s = unat t + sum_list (map (unat \<circ> recipient_amount) rs)"
proof (induction rs arbitrary: t)
  case (Cons r rs)
  from Cons.prems obtain u where "checked_add t (recipient_amount r) = Some u" "add_amounts rs u = Inr s" by (auto simp: bind_res_Inr_iff)
  with Cons.IH [of u] show ?case by (simp add: checked_add_Some_iff)
qed simp

lemma recipient_total_Inr: "recipient_total rs = Inr s \<Longrightarrow> unat s = sum_list (map (unat \<circ> recipient_amount) rs)"
  using add_amounts_Inr [of rs 0 s] by (simp add: recipient_total_def)

section \<open>What a funding spends and pays\<close>

lemma fund_sapling_note_Inr:
  assumes "fund_sapling_note lib cfg inp n st = Inr st'" "note_type n = Sapling"
  shows "has_spend_data inp n \<and> st' = st\<lparr>st_calls := st_calls st @ [spend_call lib inp n],
     st_extsks := st_extsks st @ [sapling_inner lib (spend_key lib inp n)],
     st_legacy_change := (if st_legacy_change st = None then legacy_change lib inp [n] else st_legacy_change st)\<rparr>"
  using assms
  by (auto simp: fund_sapling_note_def bind_res_Inr_iff add_call_Inr Let_def has_spend_data_def spend_call_def
      spend_key_def legacy_change_def)

lemma fund_ironwood_note_Inr:
  assumes "fund_ironwood_note lib cfg inp n st = Inr st'" "note_type n = Ironwood"
  shows "has_spend_data inp n \<and> st' = st\<lparr>st_calls := st_calls st @ [spend_call lib inp n],
     st_saks := st_saks st @ [spend_auth_of lib (the (ironwood_key_for inp n))]\<rparr>"
  using assms
  by (auto simp: fund_ironwood_note_def bind_res_Inr_iff add_call_Inr has_spend_data_def spend_call_def)

lemma fund_spends_Inr:
  assumes "fund_spends lib cfg inp ns st = Inr st'"
  shows "list_all (has_spend_data inp) ns \<and> st_calls st' = st_calls st @ map (spend_call lib inp) ns \<and>
    st_extsks st' = st_extsks st @ map (\<lambda>n. sapling_inner lib (spend_key lib inp n)) (filter (\<lambda>n. note_type n = Sapling) ns) \<and>
    st_saks st' = st_saks st @ map (\<lambda>n. spend_auth_of lib (the (ironwood_key_for inp n))) (filter (\<lambda>n. note_type n = Ironwood) ns) \<and>
    st_legacy_change st' = (if st_legacy_change st = None then legacy_change lib inp ns else st_legacy_change st)"
  using assms
proof (induction ns arbitrary: st)
  case Nil
  then show ?case by (auto simp: legacy_change_def)
next
  case (Cons n ns)
  from Cons.prems obtain st1 where st1: "(case note_type n of Sapling \<Rightarrow> fund_sapling_note lib cfg inp n st
      | Ironwood \<Rightarrow> fund_ironwood_note lib cfg inp n st) = Inr st1" "fund_spends lib cfg inp ns st1 = Inr st'"
    by (auto simp: bind_res_Inr_iff)
  show ?case
  proof (cases "note_type n")
    case Sapling
    with st1(1) fund_sapling_note_Inr [of lib cfg inp n st st1] Cons.IH [OF st1(2)] show ?thesis by (auto simp: legacy_change_def)
  next
    case Ironwood
    with st1(1) fund_ironwood_note_Inr [of lib cfg inp n st st1] Cons.IH [OF st1(2)] show ?thesis by (auto simp: legacy_change_def)
  qed
qed

lemma fund_change_Inr:
  assumes "fund_change lib cfg inp to_ironwood internal change st = Inr st'"
  shows "st' = st\<lparr>st_calls := st_calls st @ change_calls lib inp to_ironwood internal (st_legacy_change st) change\<rparr>"
  using assms
  by (auto simp: fund_change_def change_calls_def bind_res_Inr_iff add_call_Inr split: if_splits)

lemma fund_amounts_Inr:
  assumes "fund_amounts plan = Inr (sel, eff)"
  shows "mset (sel_notes sel) \<subseteq># mset (available_notes (fp_inputs plan)) \<and>
    value_sum (sel_notes sel) = sum_list (map (unat \<circ> recipient_amount) (fp_recipients plan)) + unat (eff_fee eff) + unat (eff_change eff) \<and>
    (eff_change eff = 0 \<or> CHANGE_DUST_THRESHOLD \<le> eff_change eff) \<and>
    (unat (eff_fee eff) = unat (fp_fee plan) \<or> unat (eff_fee eff) < unat (fp_fee plan) + unat CHANGE_DUST_THRESHOLD \<and> eff_change eff = 0)"
proof -
  from assms obtain tot target change where a: "recipient_total (fp_recipients plan) = Inr tot" "checked_add tot (fp_fee plan) = Some target"
      "select_notes SmallestFirst (available_notes (fp_inputs plan)) tot (fp_fee plan) = Inr sel"
      "checked_sub (total_value sel) target = Some change" "apply_dust_policy_add_to_fee (fp_fee plan) change = Inr eff"
    by (auto simp: fund_amounts_def bind_res_Inr_iff)
  have "mset (sel_notes sel) \<subseteq># mset (available_notes (fp_inputs plan))" using a(3) by (rule plain_sel.select_from)
  moreover have "value_sum (sel_notes sel) = sum_list (map (unat \<circ> recipient_amount) (fp_recipients plan)) + unat (eff_fee eff) + unat (eff_change eff)"
    using plain_sel.select_total [OF a(3)] a(2,4) dust_policy_conserves [OF a(5)] recipient_total_Inr [OF a(1)]
    unfolding checked_add_Some_iff checked_sub_Some_iff by linarith
  moreover have "unat (eff_fee eff) = unat (fp_fee plan) \<or> unat (eff_fee eff) < unat (fp_fee plan) + unat CHANGE_DUST_THRESHOLD \<and> eff_change eff = 0"
    using a(5) by (auto simp: apply_dust_policy_add_to_fee_def bind_res_Inr_iff checked_add_Some_iff word_less_nat_alt not_le split: if_splits option.splits)
  ultimately show ?thesis using dust_policy_no_dust [OF a(5)] by blast
qed

lemma qortal_sapling_anchor_Inr:
  assumes "qortal_sapling_anchor lib ns acc = Inr r"
  shows "(acc \<noteq> None \<longrightarrow> r = acc) \<and> (\<forall>n \<in> set ns. note_type n = Sapling \<longrightarrow> r = Some (note_root lib (the (the_note n)) (the (merkle_path n))))"
  using assms
proof (induction ns arbitrary: acc)
  case (Cons n ns)
  show ?case
  proof (cases "note_type n = Sapling")
    case False
    with Cons.prems Cons.IH [of acc] show ?thesis by auto
  next
    case True
    with Cons.prems obtain a where a: "sapling_anchor_from_note lib n = Inr a" by (auto simp: bind_res_Inr_iff)
    then have root: "a = note_root lib (the (the_note n)) (the (merkle_path n))"
      by (auto simp: sapling_anchor_from_note_def bind_res_Inr_iff)
    from Cons.prems True a have "qortal_sapling_anchor lib ns (Some a) = Inr r" "acc = None \<or> acc = Some a"
      by (auto split: option.splits if_splits)
    with Cons.IH [of "Some a"] root show ?thesis by auto
  qed
qed simp

definition funding_options :: "qortal_lib \<Rightarrow> funding_plan \<Rightarrow> output_options" where
  "funding_options lib plan =
     \<lparr>oo_script_pubkey = Some (fp_script_pubkey plan), oo_script_each_recipient = fp_script_each_recipient plan,
      oo_sapling_ovk = sapling_ovk_of (ql_tx lib) (default_sapling_key (fp_inputs plan)),
      oo_orchard_ovk = map_option (ironwood_ovk_of (ql_tx lib)) (default_ironwood_key (fp_inputs plan))\<rparr>"

text \<open>The stages of a funding: what the amounts, the spends, the outputs and the change leave.\<close>

lemma plan_funding_steps:
  assumes "plan_funding lib plan = Inr f"
  obtains sel eff cfg st1 st2 vout st3 toi int where "fund_amounts plan = Inr (sel, eff)"
    "fund_spends (ql_tx lib) cfg (fp_inputs plan) (sel_notes sel) \<lparr>st_calls = [], st_extsks = [], st_saks = [], st_legacy_change = None\<rparr> = Inr st1"
    "add_outputs_and_script lib cfg (fp_recipients plan) (funding_options lib plan) (st1, []) = Inr (st2, vout)"
    "fund_change (ql_tx lib) cfg (fp_inputs plan) toi int (eff_change eff) st2 = Inr st3"
    "list_ex (\<lambda>n. note_type n = Sapling) (sel_notes sel) \<longrightarrow> qortal_sapling_anchor (ql_tx lib) (sel_notes sel) None = Inr (cfg_sapling_anchor cfg)"
    "fu_config f = cfg" "fu_state f = st3" "tp_vin (fu_transparent f) = []" "tp_vout (fu_transparent f) = vout" "fu_fee f = eff_fee eff" "fu_notes f = sel_notes sel"
  using assms unfolding plan_funding_def Let_def funding_options_def
  by (auto simp: bind_res_Inr_iff build_script_pubkey_def split: if_split_asm)

lemma funding_notes:
  assumes "plan_funding lib plan = Inr f"
  shows "set (fu_notes f) \<subseteq> set (available_notes (fp_inputs plan))" "list_all (has_spend_data (fp_inputs plan)) (fu_notes f)"
    "sum_list (map (unat \<circ> recipient_amount) (fp_recipients plan)) \<le> value_sum (fu_notes f)"
proof -
  from plan_funding_steps [OF assms] obtain sel eff cfg st1 where a: "fund_amounts plan = Inr (sel, eff)"
    and s: "fund_spends (ql_tx lib) cfg (fp_inputs plan) (sel_notes sel) \<lparr>st_calls = [], st_extsks = [], st_saks = [], st_legacy_change = None\<rparr> = Inr st1"
    and f: "fu_notes f = sel_notes sel" .
  note am = fund_amounts_Inr [OF a]
  from am have "mset (sel_notes sel) \<subseteq># mset (available_notes (fp_inputs plan))" by blast
  from set_mset_mono [OF this] f show "set (fu_notes f) \<subseteq> set (available_notes (fp_inputs plan))" by simp
  show "list_all (has_spend_data (fp_inputs plan)) (fu_notes f)" using fund_spends_Inr [OF s] f by simp
  show "sum_list (map (unat \<circ> recipient_amount) (fp_recipients plan)) \<le> value_sum (fu_notes f)" using am f by simp
qed

text \<open>
  Property C23. A funding transaction balances. It spends some of the available notes, each once and with the data a spend needs; the
  shielded and transparent outputs are exactly those of the recipients, a script output of value zero after each of them or one at the end,
  and at most one change output to the wallet; the Sapling bundle is anchored at the root of every Sapling note spent; and the notes are worth the outputs plus the fee, which is
  the fee of the plan or, without change, less than the dust threshold above it.
\<close>

theorem funding_balanced:
  assumes "plan_funding lib plan = Inr f"
  shows "mset (fu_notes f) \<subseteq># mset (available_notes (fp_inputs plan)) \<and> list_all (has_spend_data (fp_inputs plan)) (fu_notes f) \<and>
    value_sum (fu_notes f) = sum_list (map call_amount (st_calls (fu_state f))) +
      sum_list (map (unat \<circ> txo_value) (tp_vout (fu_transparent f))) + unat (fu_fee f) \<and>
    (\<forall>n \<in> set (fu_notes f). note_type n = Sapling \<longrightarrow>
       cfg_sapling_anchor (fu_config f) = Some (note_root (ql_tx lib) (the (the_note n)) (the (merkle_path n)))) \<and>
    tp_vin (fu_transparent f) = [] \<and>
    tp_vout (fu_transparent f) = transparent_outs lib (funding_options lib plan) (fp_recipients plan) \<and>
    (\<exists>to_ironwood internal change. st_calls (fu_state f) = map (spend_call (ql_tx lib) (fp_inputs plan)) (fu_notes f) @
      concat (map (recipient_calls (ql_tx lib) (funding_options lib plan)) (fp_recipients plan)) @
      change_calls (ql_tx lib) (fp_inputs plan) to_ironwood internal (legacy_change (ql_tx lib) (fp_inputs plan) (fu_notes f)) change \<and>
      (fu_fee f = fp_fee plan \<or> change = 0 \<and> unat (fu_fee f) < unat (fp_fee plan) + unat CHANGE_DUST_THRESHOLD))"
proof -
  let ?tx = "ql_tx lib" and ?inp = "fp_inputs plan" and ?opts = "funding_options lib plan"
  from plan_funding_steps [OF assms] obtain sel eff cfg st1 st2 vout st3 toi int where a: "fund_amounts plan = Inr (sel, eff)"
    and s1: "fund_spends ?tx cfg ?inp (sel_notes sel) \<lparr>st_calls = [], st_extsks = [], st_saks = [], st_legacy_change = None\<rparr> = Inr st1"
    and s2: "add_outputs_and_script lib cfg (fp_recipients plan) ?opts (st1, []) = Inr (st2, vout)"
    and s3: "fund_change ?tx cfg ?inp toi int (eff_change eff) st2 = Inr st3"
    and anchor: "list_ex (\<lambda>n. note_type n = Sapling) (sel_notes sel) \<longrightarrow> qortal_sapling_anchor ?tx (sel_notes sel) None = Inr (cfg_sapling_anchor cfg)"
    and f: "fu_config f = cfg" "fu_state f = st3" "tp_vin (fu_transparent f) = []" "tp_vout (fu_transparent f) = vout" "fu_fee f = eff_fee eff" "fu_notes f = sel_notes sel" .
  note amounts = fund_amounts_Inr [OF a]
  note sp = fund_spends_Inr [OF s1]
  have o: "st2 = st1\<lparr>st_calls := st_calls st1 @ concat (map (recipient_calls ?tx ?opts) (fp_recipients plan))\<rparr>"
    "vout = transparent_outs lib ?opts (fp_recipients plan)"
    using add_outputs_and_script_Inr [OF s2] by (simp_all add: funding_options_def)
  have ch: "st_calls st3 = map (spend_call ?tx ?inp) (sel_notes sel) @ concat (map (recipient_calls ?tx ?opts) (fp_recipients plan)) @
      change_calls ?tx ?inp toi int (legacy_change ?tx ?inp (sel_notes sel)) (eff_change eff)"
    using fund_change_Inr [OF s3] o(1) sp by simp
  have zero: "sum_list (map call_amount (map (spend_call ?tx ?inp) ns)) = 0" for ns by (induction ns) simp_all
  have "value_sum (sel_notes sel) = sum_list (map call_amount (st_calls st3)) + sum_list (map (unat \<circ> txo_value) vout) + unat (eff_fee eff)"
    using amounts recipients_paid [of ?tx ?opts "fp_recipients plan" lib] call_amount_change [of "eff_change eff" ?tx ?inp toi int]
    unfolding ch map_append sum_list_append zero o(2) by simp
  moreover have "fu_fee f = fp_fee plan \<or> eff_change eff = 0 \<and> unat (fu_fee f) < unat (fp_fee plan) + unat CHANGE_DUST_THRESHOLD"
    using amounts f(5) by (auto intro: unat_eqI)
  moreover have "cfg_sapling_anchor (fu_config f) = Some (note_root ?tx (the (the_note n)) (the (merkle_path n)))"
    if "n \<in> set (sel_notes sel)" "note_type n = Sapling" for n
  proof -
    have "list_ex (\<lambda>n. note_type n = Sapling) (sel_notes sel)" using that by (auto simp: list_ex_iff)
    with anchor qortal_sapling_anchor_Inr [of ?tx "sel_notes sel" None] that f(1) show ?thesis by auto
  qed
  ultimately show ?thesis using amounts sp ch f o(2) by auto
qed

section \<open>What a redemption spends and pays\<close>

definition redeem_options :: "qortal_lib \<Rightarrow> output_options" where
  "redeem_options lib = \<lparr>oo_script_pubkey = None, oo_script_each_recipient = False, oo_sapling_ovk = zero_ovk lib, oo_orchard_ovk = None\<rparr>"

text \<open>What the crates promise of their sum of two amounts.\<close>

definition amount_add_exact :: "qortal_lib \<Rightarrow> bool" where
  "amount_add_exact lib \<longleftrightarrow> (\<forall>a b c. amount_add lib a b = Some c \<longrightarrow> unat c = unat a + unat b)"

lemma check_redeem_amounts_Inr:
  assumes "amount_add_exact lib" "check_redeem_amounts lib plan = Inr u"
  shows "unat (txo_value (rp_funding_coin plan)) = sum_list (map (unat \<circ> recipient_amount) (rp_recipients plan)) + unat (rp_fee plan)"
proof -
  from assms(2) obtain tot req where t: "recipient_total (rp_recipients plan) = Inr tot" "amount_add lib tot (rp_fee plan) = Some req"
      "txo_value (rp_funding_coin plan) = req"
    by (auto simp: check_redeem_amounts_def bind_res_Inr_iff check_amount_def split: if_splits)
  with assms(1) recipient_total_Inr [OF t(1)] show ?thesis by (auto simp: amount_add_exact_def)
qed

text \<open>
  A redemption spends the contract's coin and burns nothing. The transaction has that coin as its only input, unlocked by a
  script sig over the signature made for exactly these outputs; its outputs are exactly those of the recipients and no note is spent; and the
  coin is worth the outputs plus the fee, to the last unit. A lock time is enforced by a sequence number that is not final.
\<close>

lemma redeem_exact:
  assumes lib: "amount_add_exact lib" and r: "plan_redeem lib plan = Inr r"
  shows "unat (txo_value (rp_funding_coin plan)) = sum_list (map call_amount (st_calls (re_state r))) +
      sum_list (map (unat \<circ> txo_value) (tp_vout (re_transparent r))) + unat (rp_fee plan) \<and>
    st_calls (re_state r) = concat (map (recipient_calls (ql_tx lib) (redeem_options lib)) (rp_recipients plan)) \<and>
    tp_vout (re_transparent r) = concat (map (recipient_outs lib) (rp_recipients plan)) \<and>
    tp_lock_time (re_transparent r) = rp_lock_time plan \<and>
    (\<exists>der sequence. sign_transparent lib (re_config r) ((re_transparent r)\<lparr>tp_vin := [\<lparr>txi_txid = rp_funding_txid plan, txi_index = 0,
        txi_script_sig = [], txi_sequence = sequence\<rparr>]\<rparr>) (st_calls (re_state r)) (rp_redeem_script plan) (rp_funding_coin plan) (rp_privkey plan) = Inr der \<and>
      tp_vin (re_transparent r) = [\<lparr>txi_txid = rp_funding_txid plan, txi_index = 0,
        txi_script_sig = build_p2sh_script_sig (der @ [SIGHASH_ALL]) (rp_secret plan) (rp_redeem_script plan), txi_sequence = sequence\<rparr>] \<and>
      (sequence = 0xFFFFFFFF \<longleftrightarrow> rp_lock_time plan = 0))"
proof -
  let ?st0 = "\<lparr>st_calls = [], st_extsks = [], st_saks = [], st_legacy_change = None\<rparr>"
  let ?seq = "if 0 < rp_lock_time plan then 0xFFFFFFFE else 0xFFFFFFFF :: u32"
  define inp where "inp s = \<lparr>txi_txid = rp_funding_txid plan, txi_index = 0, txi_script_sig = s, txi_sequence = ?seq\<rparr>" for s
  from r obtain cfg st vout der ex v6 where o: "add_outputs_and_script lib cfg (rp_recipients plan) (redeem_options lib) (?st0, []) = Inr (st, vout)"
    and c: "check_redeem_amounts lib plan = Inr ()"
    and s: "sign_transparent lib cfg \<lparr>tp_vin = [inp []], tp_vout = vout, tp_lock_time = rp_lock_time plan, tp_expiry_height = ex, tp_v6 = v6\<rparr>
      (st_calls st) (rp_redeem_script plan) (rp_funding_coin plan) (rp_privkey plan) = Inr der"
    and e: "r = \<lparr>re_config = cfg, re_state = st, re_transparent =
      \<lparr>tp_vin = [inp (build_p2sh_script_sig (der @ [SIGHASH_ALL]) (rp_secret plan) (rp_redeem_script plan))], tp_vout = vout,
       tp_lock_time = rp_lock_time plan, tp_expiry_height = ex, tp_v6 = v6\<rparr>\<rparr>"
    unfolding plan_redeem_def Let_def redeem_options_def inp_def
    by (auto simp: bind_res_Inr_iff build_script_pubkey_def split: if_split_asm)
  have out: "st_calls st = concat (map (recipient_calls (ql_tx lib) (redeem_options lib)) (rp_recipients plan))"
    "vout = transparent_outs lib (redeem_options lib) (rp_recipients plan)"
    using add_outputs_and_script_Inr [OF o] by (simp_all add: redeem_options_def)
  have t: "transparent_outs lib (redeem_options lib) (rp_recipients plan) = concat (map (recipient_outs lib) (rp_recipients plan))"
    by (simp add: transparent_outs_def redeem_options_def)
  have "unat (txo_value (rp_funding_coin plan)) = sum_list (map call_amount (st_calls st)) + sum_list (map (unat \<circ> txo_value) vout) + unat (rp_fee plan)"
    using check_redeem_amounts_Inr [OF lib c] recipients_paid [of "ql_tx lib" "redeem_options lib" "rp_recipients plan" lib] unfolding out by simp
  moreover have "(?seq = 0xFFFFFFFF) = (rp_lock_time plan = 0)" by (auto simp: word_gt_0)
  ultimately show ?thesis using out t s unfolding e inp_def by auto
qed

section \<open>Examples\<close>

definition example_qortal_lib :: qortal_lib where
  "example_qortal_lib = \<lparr>ql_tx = example_lib, transparent_script = (\<lambda>_. [9]), zero_ovk = undefined, v6_at = (\<lambda>_ _. False),
     height_plus = (+), ironwood_builder_ok = (\<lambda>_. True), amount_add = checked_add, sign_transparent = (\<lambda>_ _ _ _ _ _. Inr [4]),
     assemble = (\<lambda>_ _ _ _ _. Inr ([1], [2, 3]))\<rparr>"

definition example_funding_plan :: funding_plan where
  "example_funding_plan = \<lparr>fp_network_type = Mainnet, fp_inputs = example_inputs, fp_ironwood_activation_height = None,
     fp_recipients = [QTransparent undefined 100000], fp_fee = 10000, fp_script_pubkey = [7], fp_script_each_recipient = True\<rparr>"

lemma example_funding_amounts:
  "fund_amounts example_funding_plan = Inr (\<lparr>sel_notes = available_notes example_inputs, total_value = 120000, sel_change = 10000\<rparr>,
     \<lparr>eff_fee = 10000, eff_change = 10000, dust_added_to_fee = 0\<rparr>)"
proof -
  have t: "recipient_total [QTransparent undefined 100000] = Inr 100000" by (simp add: recipient_total_def checked_add_def)
  have sel: "select_notes SmallestFirst (available_notes example_inputs) 100000 10000 =
      Inr \<lparr>sel_notes = available_notes example_inputs, total_value = 120000, sel_change = 10000\<rparr>"
    by (simp add: select_notes_def checked_add_def finish_selection_def example_defs word_le_nat_alt)
  show ?thesis
    using t sel by (simp add: fund_amounts_def example_funding_plan_def checked_add_def checked_sub_def apply_dust_policy_add_to_fee_def fee_consts)
qed

lemma example_funding: "\<exists>f. plan_funding example_qortal_lib example_funding_plan = Inr f"
proof -
  have nts: "available_notes example_inputs = map (\<lambda>i. with_witness undefined undefined undefined (new_note 60000 [] 5 [i] 0)) [7, 8]"
    by (simp add: example_inputs_def)
  show ?thesis
    unfolding plan_funding_def
    by (simp add: example_funding_amounts)
      (auto simp: example_funding_plan_def build_script_pubkey_def nts with_witness_def new_note_def example_qortal_lib_def Let_def
        sapling_anchor_from_note_def new_ironwood_builder_def fund_sapling_note_def add_call_def example_lib_def
        add_outputs_and_script_def add_recipient_def check_amount_def fund_change_def example_inputs_def)
qed

theorem funding_balanced_witness:
  "\<exists>f. plan_funding example_qortal_lib example_funding_plan = Inr f \<and> tp_vin (fu_transparent f) = [] \<and>
     tp_vout (fu_transparent f) = [\<lparr>txo_value = 100000, txo_script = [9]\<rparr>, \<lparr>txo_value = 0, txo_script = [7]\<rparr>]"
proof -
  obtain f where f: "plan_funding example_qortal_lib example_funding_plan = Inr f" using example_funding by blast
  have "transparent_outs example_qortal_lib (funding_options example_qortal_lib example_funding_plan) (fp_recipients example_funding_plan) =
      [\<lparr>txo_value = 100000, txo_script = [9]\<rparr>, \<lparr>txo_value = 0, txo_script = [7]\<rparr>]"
    by (simp add: transparent_outs_def funding_options_def example_funding_plan_def recipient_outs_def script_out_def example_qortal_lib_def)
  with funding_balanced [OF f] f show ?thesis by auto
qed

end
