(* ===== verification/QortalFlow.thy ===== *)
theory QortalFlow
  imports Qortal TxFlow NoteQueries
begin

text \<open>
  The contract transactions as the wallet service offers them (\<open>pirate-wallet-service/src/api/qortal_p2sh.rs\<close>, and the source key of
  \<open>qortal.rs\<close>): the checks of a request, the parsing of its outputs, the funding of a contract from the wallet's notes and the redemption
  of one. The wallet is the record \<open>wallet_env\<close> of \<open>TxFlow\<close>; Base58, the address decoder of the Zcash crates, the script
  hash, and the answers of the server are the record \<open>qortal_codec\<close> and arguments. Broadcasting what was built is left out.
\<close>

section \<open>Requests\<close>

record p2sh_send_request =
  qs_input :: str
  qs_output :: "tx_output list"
  qs_script :: str
  qs_fee :: u64

record p2sh_redeem_request =
  qr_input :: str
  qr_output :: "tx_output list"
  qr_fee :: u64
  qr_script :: str
  qr_txid :: str
  qr_locktime :: u64
  qr_secret :: str
  qr_privkey :: str

text \<open>A unified address: its Orchard receiver, and whether it has a Sapling, a transparent or an unknown one.\<close>

datatype recipient_address =
    RSapling sapling_address
  | RTransparent transparent_address
  | RUnified "orchard_address option" bool bool bool
  | RTex

record qortal_codec =
  base58_decode :: "str \<Rightarrow> bytes option"
  decode_ironwood_any_network :: "str \<Rightarrow> orchard_address option"
  decode_recipient :: "network_type \<Rightarrow> str \<Rightarrow> recipient_address option"
  hash160 :: "bytes \<Rightarrow> bytes"
  secret_key_from_slice :: "bytes \<Rightarrow> secp_secret_key option"

definition anyhow :: "string \<Rightarrow> flow_error" where
  "anyhow m = Anyhow (Msg m [])"

definition decode_base58_field :: "qortal_codec \<Rightarrow> str \<Rightarrow> bool \<Rightarrow> flow_error + bytes" where
  "decode_base58_field cd field allow_empty =
     (if allow_empty \<and> field = [] then Inr [] else ok_or (base58_decode cd field) (anyhow ''Invalid {} base58: {}''))"

definition ensure_non_empty :: "str \<Rightarrow> flow_error + unit" where
  "ensure_non_empty field = (if trim field = [] then Inl (anyhow ''{} must not be empty'') else Inr ())"

definition ensure_non_empty_bytes :: "bytes \<Rightarrow> flow_error + unit" where
  "ensure_non_empty_bytes bs = (if bs = [] then Inl (anyhow ''{} decoded to empty bytes'') else Inr ())"

definition decode_base58_field_exact :: "qortal_codec \<Rightarrow> str \<Rightarrow> nat \<Rightarrow> flow_error + bytes" where
  "decode_base58_field_exact cd field expected_len =
     bind_res (decode_base58_field cd field False) (\<lambda>bs.
       if length bs \<noteq> expected_len
       then Inl (Anyhow (Msg ''{} must decode to exactly {} bytes (got {})'' [int expected_len, int (length bs)])) else Inr bs)"

definition validate_script_bytes :: "bytes \<Rightarrow> flow_error + unit" where
  "validate_script_bytes bs =
     bind_res (ensure_non_empty_bytes bs) (\<lambda>_.
       if length bs < 2
       then Inl (Anyhow (Msg ''{} is too short to be a valid output script ({} bytes)'' [int (length bs)])) else Inr ())"

definition orchard_prefix :: "network_type \<Rightarrow> string" where
  "orchard_prefix ty = (case ty of Mainnet \<Rightarrow> ''pirate1'' | Testnet \<Rightarrow> ''pirate-test1'' | Regtest \<Rightarrow> ''pirate-regtest1'')"

definition decode_pirate_orchard_address :: "qortal_codec \<Rightarrow> network_type \<Rightarrow> str \<Rightarrow> flow_error + orchard_address option" where
  "decode_pirate_orchard_address cd ty address =
     (if \<not> starts_with (orchard_prefix ty) address then Inr None
      else bind_res (ok_or (decode_ironwood_any_network cd address) (anyhow ''Invalid Ironwood address: {}'')) (\<lambda>a. Inr (Some a)))"

definition validate_qortal_funding_input_address :: "qortal_codec \<Rightarrow> network_type \<Rightarrow> str \<Rightarrow> flow_error + unit" where
  "validate_qortal_funding_input_address cd ty input =
     bind_res (ensure_non_empty input) (\<lambda>_.
     bind_res (decode_pirate_orchard_address cd ty input) (\<lambda>orchard.
       if orchard \<noteq> None then Inr ()
       else case decode_recipient cd ty input of
         Some (RSapling _) \<Rightarrow> Inr ()
       | Some _ \<Rightarrow> Inl (anyhow ''Input address must be a shielded wallet address for Qortal P2SH funding'')
       | None \<Rightarrow> Inl (anyhow ''Invalid input address: {}'')))"

definition validate_qortal_redeem_input_address :: "qortal_codec \<Rightarrow> network_type \<Rightarrow> str \<Rightarrow> flow_error + transparent_address" where
  "validate_qortal_redeem_input_address cd ty input =
     bind_res (ensure_non_empty input) (\<lambda>_.
       case decode_recipient cd ty input of
         Some (RTransparent (ScriptHash h)) \<Rightarrow> Inr (ScriptHash h)
       | Some (RTransparent (PublicKeyHash _)) \<Rightarrow>
           Inl (anyhow ''Input address must be a P2SH transparent address for Qortal redemption'')
       | Some _ \<Rightarrow> Inl (anyhow ''Input address must be a transparent address for Qortal P2SH commands'')
       | None \<Rightarrow> bind_res (decode_pirate_orchard_address cd ty input) (\<lambda>orchard.
           if orchard \<noteq> None then Inl (anyhow ''Input address must be a transparent address for Qortal P2SH commands'')
           else Inl (anyhow ''Invalid input address: {}'')))"

section \<open>Recipients\<close>

definition parse_qortal_recipient :: "qortal_codec \<Rightarrow> network_type \<Rightarrow> nat \<Rightarrow> tx_output \<Rightarrow> flow_error + qortal_recipient" where
  "parse_qortal_recipient cd ty i out =
     (if o_amount out = 0 then Inl (Anyhow (Msg ''output #{} has zero amount'' [int i]))
      else let memo = output_memo_of out
      in bind_res (decode_pirate_orchard_address cd ty (o_addr out)) (\<lambda>orchard.
           case orchard of
             Some address \<Rightarrow> Inr (QIronwood address (o_amount out) memo)
           | None \<Rightarrow>
               bind_res (ok_or (decode_recipient cd ty (o_addr out))
                 (Anyhow (Msg ''Invalid recipient address in output #{}: {}'' [int i]))) (\<lambda>recipient.
                 case recipient of
                   RSapling address \<Rightarrow> Inr (QSapling address (o_amount out) memo)
                 | RTransparent address \<Rightarrow> Inr (QTransparent address (o_amount out))
                 | RUnified orchard has_sapling has_transparent has_unknown \<Rightarrow>
                     (case (orchard, has_sapling \<or> has_transparent \<or> has_unknown) of
                        (Some address, False) \<Rightarrow> Inr (QIronwood address (o_amount out) memo)
                      | _ \<Rightarrow> Inl (anyhow ''Unified addresses are not supported for Qortal P2SH commands''))
                 | RTex \<Rightarrow> Inl (anyhow ''TEX addresses are not supported for Qortal P2SH commands''))))"

fun parse_recipients_from :: "qortal_codec \<Rightarrow> network_type \<Rightarrow> nat \<Rightarrow> tx_output list \<Rightarrow> flow_error + qortal_recipient list" where
  "parse_recipients_from cd ty i [] = Inr []"
| "parse_recipients_from cd ty i (out # outs) =
     (if trim (o_addr out) = [] then Inl (anyhow ''Output address must not be empty'')
      else if o_amount out = 0 then Inl (anyhow ''Output amount must be greater than zero'')
      else bind_res (parse_qortal_recipient cd ty i out) (\<lambda>r.
           bind_res (parse_recipients_from cd ty (i + 1) outs) (\<lambda>rs. Inr (r # rs))))"

definition parse_qortal_recipients :: "qortal_codec \<Rightarrow> network_type \<Rightarrow> tx_output list \<Rightarrow> flow_error + qortal_recipient list" where
  "parse_qortal_recipients cd ty outputs =
     (if outputs = [] then Inl (anyhow ''At least one output is required'') else parse_recipients_from cd ty 0 outputs)"

section \<open>Checks of a request\<close>

definition validate_send_request :: "qortal_codec \<Rightarrow> network_type \<Rightarrow> p2sh_send_request \<Rightarrow> flow_error + bytes" where
  "validate_send_request cd ty rq =
     bind_res (validate_qortal_funding_input_address cd ty (qs_input rq)) (\<lambda>_.
     bind_res (decode_base58_field cd (qs_script rq) False) (\<lambda>script.
     bind_res (validate_script_bytes script) (\<lambda>_. Inr script)))"

record redeem_validation =
  rv_script :: bytes
  rv_txid :: bytes
  rv_secret :: bytes
  rv_privkey :: bytes
  rv_address :: transparent_address

definition validate_redeem_request :: "qortal_codec \<Rightarrow> network_type \<Rightarrow> p2sh_redeem_request \<Rightarrow> flow_error + redeem_validation" where
  "validate_redeem_request cd ty rq =
     bind_res (validate_qortal_redeem_input_address cd ty (qr_input rq)) (\<lambda>input_address.
     bind_res (decode_base58_field cd (qr_script rq) False) (\<lambda>redeem_script.
     bind_res (validate_script_bytes redeem_script) (\<lambda>_.
     if ScriptHash (hash160 cd redeem_script) \<noteq> input_address
     then Inl (anyhow ''Redeem script does not match the P2SH input address'')
     else bind_res (decode_base58_field_exact cd (qr_txid rq) 32) (\<lambda>txid.
          bind_res (decode_base58_field cd (qr_secret rq) True) (\<lambda>secret.
          if qr_locktime rq = 0 \<and> secret = [] then Inl (anyhow ''secret must be provided for redeem flow (locktime = 0)'')
          else if 0 < qr_locktime rq \<and> secret \<noteq> [] then Inl (anyhow ''secret must be empty for refund flow (locktime > 0)'')
          else bind_res (decode_base58_field_exact cd (qr_privkey rq) 32) (\<lambda>privkey.
            Inr \<lparr>rv_script = redeem_script, rv_txid = txid, rv_secret = secret, rv_privkey = privkey, rv_address = input_address\<rparr>))))))"

section \<open>Funding a contract\<close>

definition resolve_qortal_source_key_id :: "key_source \<Rightarrow> address_db \<Rightarrow> i64 \<Rightarrow> str \<Rightarrow> flow_error + i64" where
  "resolve_qortal_source_key_id src adb account input =
     bind_res (from_storage (get_address_by_string account input adb)) (\<lambda>opt.
     bind_res (ok_or opt (anyhow ''Input address {} is not owned by wallet {}'')) (\<lambda>source.
     bind_res (ok_or (ad_id source) (anyhow ''Input address row id is missing'')) (\<lambda>address_id.
     bind_res (resolve_spend_key_id src adb account None (Some [address_id])) (\<lambda>key.
       ok_or key (anyhow ''Input address {} is missing key metadata'')))))"

definition resolve_fixed_internal_change_index :: "address_db \<Rightarrow> i64 \<Rightarrow> i64 \<Rightarrow> flow_error + u32" where
  "resolve_fixed_internal_change_index adb account key =
     bind_res (from_storage (get_addresses_by_key account key adb)) (\<lambda>addresses.
       case map ad_diversifier_index (filter (\<lambda>a. ad_address_scope a = Internal) addresses) of
         [] \<Rightarrow> Inr 0 | i # is \<Rightarrow> Inr (foldl min i is))"

text \<open>The keys the request pays with: those of the source's group, or else the wallet's own.\<close>

record p2sh_source =
  pq_secret :: wallet_secret
  pq_key_id :: i64
  pq_sapling_key :: sapling_spending_key
  pq_ironwood_key :: "ironwood_spending_key option"
  pq_account_keys :: "account_key list"
  pq_notes :: "selectable_note list"

definition p2sh_source_of :: "flow_lib \<Rightarrow> wallet_env \<Rightarrow> address_db \<Rightarrow> p2sh_send_request \<Rightarrow> flow_error + p2sh_source" where
  "p2sh_source_of lib env adb rq =
     bind_res (we_open env) (\<lambda>_.
     bind_res (from_storage (we_secret env)) (\<lambda>secret_opt.
     bind_res (ok_or secret_opt (anyhow ''Wallet secret not found for {}'')) (\<lambda>secret.
     bind_res (resolve_qortal_source_key_id (we_keys env) adb (ws_account_id secret) (qs_input rq)) (\<lambda>source_key.
     bind_res (from_storage (get_account_key_by_id (ks_crypto (we_keys env)) (ks_rows (we_keys env)) source_key)) (\<lambda>key_opt.
     bind_res (ok_or key_opt (anyhow ''Key group not found'')) (\<lambda>key.
     bind_res (ok_or (sapling_key_from_bytes lib (case ak_sapling_extsk key of Some b \<Rightarrow> b | None \<Rightarrow> ws_extsk secret))
       (anyhow ''Invalid Sapling spending key bytes: {}'')) (\<lambda>sapling.
     bind_res (case coalesce (ak_orchard_extsk key) (ws_orchard_extsk secret) of
         None \<Rightarrow> Inr None
       | Some b \<Rightarrow> bind_res (ok_or (ironwood_key_from_bytes lib b) (anyhow ''Invalid Ironwood spending key bytes: {}'')) (\<lambda>k. Inr (Some k)))
       (\<lambda>ironwood.
     bind_res (from_storage (get_account_keys (ks_crypto (we_keys env)) (ks_rows (we_keys env)) (ws_account_id secret))) (\<lambda>keys.
     bind_res (from_storage (unspent_selectable_notes (we_notes env) (ws_account_id secret) (Some [source_key]) None)) (\<lambda>notes.
       if notes = [] then Inl (anyhow ''Input address {} belongs to a key group with no spendable shielded notes'')
       else Inr \<lparr>pq_secret = secret, pq_key_id = source_key, pq_sapling_key = sapling, pq_ironwood_key = ironwood,
         pq_account_keys = keys, pq_notes = notes\<rparr>))))))))))"

record p2sh_send =
  ps_plan :: funding_plan
  ps_use_orchard_change :: bool
  ps_use_sapling_internal_change :: bool

definition plan_p2sh_send :: "qortal_codec \<Rightarrow> flow_lib \<Rightarrow> wallet_env \<Rightarrow> address_db \<Rightarrow> network_type \<Rightarrow> bytes \<Rightarrow> p2sh_send_request \<Rightarrow> p2sh_source \<Rightarrow> flow_error + p2sh_send" where
  "plan_p2sh_send cd lib env adb network script rq src =
     bind_res (gate env) (\<lambda>status.
     let has_orchard_spends = list_ex (\<lambda>n. note_type n = Ironwood) (pq_notes src);
         has_orchard_outputs = list_ex (\<lambda>out. is_orchard_addr (o_addr out)) (qs_output rq);
         use_orchard_change = (has_orchard_spends \<or> has_orchard_outputs)
     in bind_res (if has_orchard_spends \<or> has_orchard_outputs
          then map_sum (\<lambda>_. anyhow ''Failed to resolve Ironwood anchor: {}'') id (we_orchard_anchor env (st_anchor_height status)) else Inr None) (\<lambda>anchor.
        bind_res (parse_qortal_recipients cd network (qs_output rq)) (\<lambda>recipients.
        bind_res (ok_or (u32_try_from (st_target_height status)) (anyhow ''Target height exceeds u32'')) (\<lambda>height.
        bind_res (from_storage (load_sync_state_once (we_sync_db env))) (\<lambda>sync.
        let activation = coalesce (network.ironwood_activation_height (from_type network)) (sync_state_row.ironwood_activation_height sync);
            internal = (\<not> use_orchard_change \<and> sapling_internal_change_active_with_resolved_height network (u64_from_u32 height) activation)
        in bind_res (resolve_fixed_internal_change_index adb (ws_account_id (pq_secret src)) (pq_key_id src)) (\<lambda>change_index.
             Inr \<lparr>ps_plan = \<lparr>fp_network_type = network,
                 fp_inputs = \<lparr>default_sapling_key = pq_sapling_key src, default_ironwood_key = pq_ironwood_key src,
                   sapling_keys_by_id = map_of (parsed_keys_by_id (sapling_key_from_bytes lib) ak_sapling_extsk (pq_account_keys src)),
                   ironwood_keys_by_id = map_of (parsed_keys_by_id (ironwood_key_from_bytes lib) ak_orchard_extsk (pq_account_keys src)),
                   available_notes = pq_notes src, target_height = height, provided_ironwood_anchor = anchor,
                   change_diversifier_index = change_index\<rparr>,
                 fp_ironwood_activation_height = activation, fp_recipients = recipients, fp_fee = qs_fee rq,
                 fp_script_pubkey = script, fp_script_each_recipient = True\<rparr>,
               ps_use_orchard_change = use_orchard_change, ps_use_sapling_internal_change = internal\<rparr>))))))"

text \<open>The change address is stored before the transaction is built; an error there ends the request.\<close>

definition p2sh_change_address :: "flow_lib \<Rightarrow> p2sh_source \<Rightarrow> p2sh_send \<Rightarrow> i64 \<Rightarrow> flow_error + address option" where
  "p2sh_change_address lib src p created_at =
     (let plan = ps_plan p; index = change_diversifier_index (fp_inputs plan);
          entry = (\<lambda>a ty i88. Some \<lparr>ad_id = None, ad_key_id = Some (pq_key_id src), ad_account_id = ws_account_id (pq_secret src),
            ad_diversifier_index = index, ad_diversifier_index_88 = Some i88, ad_address = a, ad_address_type = ty, ad_label = None,
            ad_created_at = created_at, ad_color_tag = ColorNone, ad_address_scope = Internal\<rparr>)
      in if ps_use_orchard_change p
         then bind_res (ok_or (pq_ironwood_key src) (anyhow ''Ironwood spending key required for Ironwood change'')) (\<lambda>key.
              bind_res (from_core '''' (ironwood_change_string lib key index (fp_network_type plan))) (\<lambda>a.
                Inr (entry a IronwoodAddr (u32_le_bytes index @ replicate 7 0))))
         else if ps_use_sapling_internal_change p
         then bind_res (ok_or (sapling_change_entry lib (pq_sapling_key src) index (fp_network_type plan))
                (anyhow ''Unable to recover Sapling change address index'')) (\<lambda>(a, i88). Inr (entry a SaplingAddr i88))
         else Inr None)"

text \<open>Everything before the builder: the plan, and the address table with the change address.\<close>

definition prepare_p2sh_send ::
    "qortal_codec \<Rightarrow> flow_lib \<Rightarrow> wallet_env \<Rightarrow> p2sh_send_request \<Rightarrow> i64 \<Rightarrow> address_db \<Rightarrow> flow_error + p2sh_send \<times> address_db" where
  "prepare_p2sh_send cd lib env rq created_at adb =
     bind_res (require_wallet_signing_session env) (\<lambda>_.
     bind_res (we_network env) (\<lambda>network_str.
     bind_res (validate_send_request cd (network_of network_str) rq) (\<lambda>script.
     bind_res (p2sh_source_of lib env adb rq) (\<lambda>src.
     bind_res (plan_p2sh_send cd lib env adb (network_of network_str) script rq src) (\<lambda>p.
     bind_res (p2sh_change_address lib src p created_at) (\<lambda>entry.
     bind_res (case entry of None \<Rightarrow> Inr adb | Some a \<Rightarrow> from_storage (upsert_address a adb)) (\<lambda>adb'. Inr (p, adb'))))))))"

definition qortal_send_p2sh ::
    "qortal_codec \<Rightarrow> qortal_lib \<Rightarrow> flow_lib \<Rightarrow> wallet_env \<Rightarrow> p2sh_send_request \<Rightarrow> i64 \<Rightarrow> address_db \<Rightarrow> address_db \<times> (flow_error + signed_tx)" where
  "qortal_send_p2sh cd ql lib env rq created_at adb =
     (case prepare_p2sh_send cd lib env rq created_at adb of
        Inl e \<Rightarrow> (adb, Inl e)
      | Inr (p, adb') \<Rightarrow>
          (adb', bind_res (from_core '''' (build_qortal_p2sh_funding_transaction ql (ps_plan p))) (\<lambda>core.
             Inr \<lparr>stx_txid = txid_to_string lib (tx_txid core), stx_raw = tx_raw core, stx_size = tx_size core\<rparr>)))"

section \<open>Redeeming a contract\<close>

text \<open>
  After the request was checked: the coin is output 0 of the transaction the server returned; height, activation and
  anchor are what it said.
\<close>

definition qortal_redeem_p2sh ::
    "qortal_codec \<Rightarrow> qortal_lib \<Rightarrow> network_type \<Rightarrow> p2sh_redeem_request \<Rightarrow> u64 \<Rightarrow> u32 option \<Rightarrow> (bytes \<Rightarrow> flow_error + tx_out list) \<Rightarrow> (unit \<Rightarrow> flow_error + orchard_anchor)
     \<Rightarrow> flow_error + redeem_plan" where
  "qortal_redeem_p2sh cd ql network rq latest_height activation funding_vout anchor_of =
     bind_res (validate_redeem_request cd network rq) (\<lambda>v.
     bind_res (ok_or (u32_try_from latest_height) (anyhow ''Latest block height exceeds u32'')) (\<lambda>height.
     bind_res (funding_vout (rv_txid v)) (\<lambda>vout.
     bind_res (ok_or (case vout of [] \<Rightarrow> None | out # _ \<Rightarrow> Some out) (anyhow ''Funding transaction is missing transparent output 0'')) (\<lambda>coin.
     if txo_script coin \<noteq> transparent_script ql (rv_address v)
     then Inl (anyhow ''Funding transaction output 0 does not match the P2SH input address'')
     else bind_res (if list_ex (\<lambda>out. is_orchard_addr (o_addr out)) (qr_output rq)
            then bind_res (anchor_of ()) (\<lambda>a. Inr (Some a)) else Inr None) (\<lambda>anchor.
          bind_res (parse_qortal_recipients cd network (qr_output rq)) (\<lambda>recipients.
          bind_res (ok_or (secret_key_from_slice cd (rv_privkey v)) (anyhow ''Invalid privkey: {}'')) (\<lambda>privkey.
          bind_res (ok_or (u32_try_from (qr_locktime rq)) (anyhow ''locktime out of range'')) (\<lambda>lock_time.
            Inr \<lparr>rp_network_type = network, rp_target_height = height, rp_ironwood_activation_height = activation,
              rp_ironwood_anchor = anchor, rp_funding_txid = rv_txid v, rp_funding_coin = coin, rp_recipients = recipients,
              rp_fee = qr_fee rq, rp_redeem_script = rv_script v, rp_lock_time = lock_time, rp_secret = rv_secret v,
              rp_privkey = privkey\<rparr>))))))))"

section \<open>What a funding request can spend\<close>

lemma stored_note_without_path:
  assumes "selectable_of cd eligible n = Some sn"
  shows "\<not> has_spend_data inp sn"
  using assms
  by (cases "nt_note_type n")
    (auto simp: selectable_of_def sapling_selectable_def ironwood_selectable_def has_spend_data_def new_note_def new_ironwood_def
      with_key_id_def with_sapling_position_def with_nullifier_bytes_def with_nullifier_def Let_def
      split: bind_split_asm option.splits if_splits)

lemma query_without_paths:
  assumes "get_unspent_selectable_notes_filtered cr cd adb account kf af db = Inr ns" "n \<in> set ns"
  shows "\<not> has_spend_data inp n"
  using assms stored_note_without_path [of cd _ _ n inp]
  by (auto simp: get_unspent_selectable_notes_filtered_def bind_res_Inr_iff List.map_filter_def)

lemma parse_qortal_recipient_amount:
  assumes "parse_qortal_recipient cd ty i out = Inr r"
  shows "recipient_amount r = o_amount out \<and> o_amount out \<noteq> 0"
proof -
  from assms have nz: "o_amount out \<noteq> 0" by (auto simp: parse_qortal_recipient_def)
  with assms obtain orchard where d: "decode_pirate_orchard_address cd ty (o_addr out) = Inr orchard"
    by (auto simp: parse_qortal_recipient_def Let_def bind_res_Inr_iff)
  show ?thesis
  proof (cases orchard)
    case None
    with assms nz d obtain recipient where "decode_recipient cd ty (o_addr out) = Some recipient"
      by (auto simp: parse_qortal_recipient_def Let_def bind_res_Inr_iff)
    with assms nz d None show ?thesis
      by (cases recipient) (auto simp: parse_qortal_recipient_def split: option.split_asm bool.split_asm)
  qed (use assms nz d in \<open>auto simp: parse_qortal_recipient_def\<close>)
qed

lemma parse_recipients_from_amounts:
  "parse_recipients_from cd ty i outs = Inr rs \<Longrightarrow> map recipient_amount rs = map o_amount outs \<and> list_all (\<lambda>out. o_amount out \<noteq> 0) outs"
proof (induction outs arbitrary: i rs)
  case (Cons out outs)
  from Cons.prems obtain r rs' where r: "parse_qortal_recipient cd ty i out = Inr r" "parse_recipients_from cd ty (i + 1) outs = Inr rs'" "rs = r # rs'"
    by (auto simp: bind_res_Inr_iff split: if_splits)
  from Cons.IH [OF r(2)] parse_qortal_recipient_amount [OF r(1)] r(3) show ?case by simp
qed simp

lemma parsed_recipients:
  assumes "parse_qortal_recipients cd ty outs = Inr rs"
  shows "map recipient_amount rs = map o_amount outs" "0 < sum_list (map (unat \<circ> recipient_amount) rs)"
proof -
  from assms have ne: "outs \<noteq> []" and f: "parse_recipients_from cd ty 0 outs = Inr rs"
    by (auto simp: parse_qortal_recipients_def split: if_splits)
  note a = parse_recipients_from_amounts [OF f]
  then show m: "map recipient_amount rs = map o_amount outs" by blast
  have "map (unat \<circ> recipient_amount) rs = map (unat \<circ> o_amount) outs"
    unfolding map_map [symmetric] m ..
  with ne a show "0 < sum_list (map (unat \<circ> recipient_amount) rs)" by (cases outs) (auto simp: unat_gt_0)
qed

lemma plan_p2sh_send_notes:
  assumes "plan_p2sh_send cd lib env adb network script rq src = Inr p"
  shows "available_notes (fp_inputs (ps_plan p)) = pq_notes src \<and> 0 < sum_list (map (unat \<circ> recipient_amount) (fp_recipients (ps_plan p)))"
  using assms parsed_recipients(2) [of cd network "qs_output rq"]
  by (auto simp: plan_p2sh_send_def Let_def bind_res_Inr_iff)

lemma p2sh_source_notes:
  assumes "p2sh_source_of lib env adb rq = Inr src"
  shows "unspent_selectable_notes (we_notes env) (ws_account_id (pq_secret src)) (Some [pq_key_id src]) None = Inr (pq_notes src)"
  using assms unfolding p2sh_source_of_def bind_res_Inr_iff from_storage_Inr by (elim exE conjE) (auto split: if_split_asm)

lemma unwitnessed_funding_fails:
  assumes "\<And>n. n \<in> set (available_notes (fp_inputs plan)) \<Longrightarrow> \<not> has_spend_data (fp_inputs plan) n"
    and "0 < sum_list (map (unat \<circ> recipient_amount) (fp_recipients plan))"
  shows "\<exists>e. build_qortal_p2sh_funding_transaction ql plan = Inl e"
proof (cases "plan_funding ql plan")
  case (Inl e)
  then show ?thesis by (simp add: build_qortal_p2sh_funding_transaction_def)
next
  case (Inr f)
  note fn = funding_notes [OF Inr]
  from fn(1,2) assms(1) have "fu_notes f = []" by (cases "fu_notes f") auto
  then have "value_sum (fu_notes f) = 0" by simp
  with fn(3) assms(2) show ?thesis by linarith
qed

text \<open>
  Property C24. As written, a request to fund a contract never signs a transaction. The notes it offers come straight from the unspent notes
  of the store, which carry no Merkle path (the paths of an ordinary payment are added by the query at an anchor); every output is worth
  more than nothing, so at least one note is selected; and the builder refuses a note without its path. Whatever the wallet holds, the request ends in an
  error.
\<close>

theorem p2sh_send_never_signs:
  assumes "we_notes env = repository_notes cr ncd ndb unscanned witnesses db"
  shows "\<exists>e. snd (qortal_send_p2sh cd ql lib env rq created_at adb) = Inl e"
proof (cases "prepare_p2sh_send cd lib env rq created_at adb")
  case (Inl e)
  then show ?thesis by (simp add: qortal_send_p2sh_def)
next
  case (Inr pa)
  obtain p adb' where pa: "pa = (p, adb')" by (cases pa)
  with Inr obtain network script src where s: "p2sh_source_of lib env adb rq = Inr src"
    and p: "plan_p2sh_send cd lib env adb network script rq src = Inr p"
    by (auto simp: prepare_p2sh_send_def bind_res_Inr_iff)
  from p2sh_source_notes [OF s] assms
  have "get_unspent_selectable_notes_filtered cr ncd ndb (ws_account_id (pq_secret src)) (Some [pq_key_id src]) None db = Inr (pq_notes src)"
    by (simp add: repository_notes_def)
  from query_without_paths [OF this] plan_p2sh_send_notes [OF p] unwitnessed_funding_fails [of "ps_plan p" ql]
  obtain e where "build_qortal_p2sh_funding_transaction ql (ps_plan p) = Inl e" by auto
  with Inr pa show ?thesis by (simp add: qortal_send_p2sh_def from_core_def)
qed

section \<open>What a redemption request yields\<close>

lemma validate_redeem_request_Inr:
  assumes "validate_redeem_request cd ty rq = Inr v"
  shows "rv_address v = ScriptHash (hash160 cd (rv_script v)) \<and> length (rv_txid v) = 32 \<and> length (rv_privkey v) = 32 \<and>
    (qr_locktime rq = 0 \<longleftrightarrow> rv_secret v \<noteq> [])"
  using assms unfolding validate_redeem_request_def bind_res_Inr_iff
  by (elim exE conjE) (auto simp: decode_base58_field_exact_def bind_res_Inr_iff word_gt_0 split: if_split_asm)

lemma qortal_redeem_p2sh_Inr:
  assumes "qortal_redeem_p2sh cd ql network rq latest activation funding_vout anchor_of = Inr plan"
  obtains v rest where "validate_redeem_request cd network rq = Inr v" "funding_vout (rv_txid v) = Inr (rp_funding_coin plan # rest)"
    "txo_script (rp_funding_coin plan) = transparent_script ql (rv_address v)"
    "parse_qortal_recipients cd network (qr_output rq) = Inr (rp_recipients plan)" "u32_try_from (qr_locktime rq) = Some (rp_lock_time plan)"
    "rp_funding_txid plan = rv_txid v" "rp_fee plan = qr_fee rq" "rp_redeem_script plan = rv_script v" "rp_secret plan = rv_secret v"
  using assms unfolding qortal_redeem_p2sh_def bind_res_Inr_iff
  by (elim exE conjE) (auto simp: bind_res_Inr_iff split: if_split_asm list.split_asm)

text \<open>What the signing library promises: a DER signature has at most 72 bytes.\<close>

definition der_signatures :: "qortal_lib \<Rightarrow> bool" where
  "der_signatures ql \<longleftrightarrow> (\<forall>cfg part calls script coin key der. sign_transparent ql cfg part calls script coin key = Inr der \<longrightarrow> length der \<le> 72)"

section \<open>Examples\<close>

text \<open>A wallet whose key group 3 owns the address ``zs1'' and one stored Sapling note, and a request to fund a contract from it.\<close>

definition contract_codec :: qortal_codec where
  "contract_codec = \<lparr>base58_decode = (\<lambda>s. Some (map word_of_nat s)), decode_ironwood_any_network = (\<lambda>_. None),
     decode_recipient = (\<lambda>_ a. if a = [116] then Some (RTransparent (ScriptHash [5])) else Some (RSapling undefined)),
     hash160 = (\<lambda>_. [5]), secret_key_from_slice = (\<lambda>_. Some undefined)\<rparr>"

definition contract_addresses :: address_db where
  "contract_addresses = \<lparr>address_rows = [\<lparr>ar_id = 1, ar_account_id = 7, ar_key_id = Some 3, ar_diversifier_index = 0, ar_address = lit ''zs1'',
     ar_address_type = ''Sapling'', ar_label = None, ar_created_at = 0, ar_color_tag = 0, ar_address_scope = ''external'',
     ar_diversifier_index_be = None\<rparr>], preference_rows = []\<rparr>"

definition contract_env :: wallet_env where
  "contract_env = flow_env\<lparr>we_secret := Inr (Some \<lparr>ws_account_id = 7, ws_extsk = [], ws_orchard_extsk = None\<rparr>),
     we_keys := \<lparr>ks_crypto = \<lparr>reveal_spending_blob = (\<lambda>b. Inr (Some b)), decrypt_blob = Inr\<rparr>,
       ks_rows = [\<lparr>kr_id = 3, kr_account_id = 7, kr_key_type = ''seed'', kr_key_scope = ''account'', kr_label = None, kr_birthday_height = 1,
         kr_created_at = 0, kr_spendable = 1, kr_sapling_extsk = Some [1], kr_sapling_dfvk = None, kr_orchard_extsk = None,
         kr_orchard_fvk = None, kr_encrypted_mnemonic = None\<rparr>]\<rparr>,
     we_notes := repository_notes plain_cipher example_codec \<lparr>address_rows = [], preference_rows = []\<rparr> (\<lambda>_. []) (\<lambda>_. Inr) (table_of [spendable_note])\<rparr>"

definition contract_request :: p2sh_send_request where
  "contract_request = \<lparr>qs_input = lit ''zs1'', qs_output = [\<lparr>o_addr = lit ''zs1'', o_amount = 20, o_memo = None\<rparr>], qs_script = [1, 2], qs_fee = 10\<rparr>"

lemma contract_source: "\<exists>src. p2sh_source_of flow_lib_example contract_env contract_addresses contract_request = Inr src \<and>
    list_all (\<lambda>n. note_type n = Sapling) (pq_notes src) \<and> pq_key_id src = 3 \<and> ws_account_id (pq_secret src) = 7"
proof -
  have "parse_sapling_note_bytes (replicate 43 1 @ [2] @ replicate 32 3) = Some (replicate 43 1, 2, replicate 32 3)"
    by (simp add: parse_sapling_note_bytes_def slice_def nth_append)
  then obtain sn where sn: "selectable_of example_codec (eligible_address_ids []) (stored_note 1 spendable_note) = Some sn" "note_type sn = Sapling"
    by (simp add: selectable_of_def sapling_selectable_def spendable_note_fields example_codec_def u64_try_from_def Let_def
        new_note_def with_key_id_def with_sapling_position_def with_nullifier_bytes_def with_nullifier_def split: option.splits)
  have "passes_filters (Some [3]) None (stored_note 1 spendable_note)" by (simp add: passes_filters_def spendable_note_fields)
  with sn have q: "get_unspent_selectable_notes_filtered plain_cipher example_codec \<lparr>address_rows = [], preference_rows = []\<rparr> 7 (Some [3]) None (table_of [spendable_note]) = Inr [sn]"
    by (simp add: get_unspent_selectable_notes_filtered_def spendable_note_unspent get_all_addresses_def List.map_filter_def)
  have k: "resolve_qortal_source_key_id (we_keys contract_env) contract_addresses 7 (qs_input contract_request) = Inr 3"
    by (simp add: resolve_qortal_source_key_id_def get_address_by_string_def first_row_def contract_addresses_def contract_request_def
        decode_address_row_def resolve_spend_key_id_def resolve_by_keys_def resolve_by_addresses_def get_all_addresses_def
        validate_spendable_key_def contract_env_def get_account_key_by_id_def account_key_of_def reveal_optional_spending_blob_def
        decrypt_optional_blob_def from_storage_def)
  show ?thesis using q k sn(2)
    by (simp add: p2sh_source_of_def contract_env_def flow_env_def repository_notes_def from_storage_def get_account_key_by_id_def
        account_key_of_def reveal_optional_spending_blob_def decrypt_optional_blob_def flow_lib_example_def get_account_keys_def coalesce_def)
qed

lemma contract_address: "\<not> starts_with (orchard_prefix ty) (lit ''zs1'')" "\<not> is_orchard_addr (lit ''zs1'')" "trim (lit ''zs1'') \<noteq> []"
    "decode_recipient contract_codec ty (lit ''zs1'') = Some (RSapling undefined)"
  by (cases ty; simp add: orchard_prefix_def starts_with_def lit_def is_orchard_addr_def trim_def is_whitespace_def contract_codec_def)+

lemma contract_recipients: "parse_qortal_recipients contract_codec ty (qs_output contract_request) = Inr [QSapling undefined 20 None]"
  by (simp add: parse_qortal_recipients_def contract_request_def contract_address parse_qortal_recipient_def output_memo_of_def
      decode_pirate_orchard_address_def)

lemma contract_prepared: "\<exists>p. prepare_p2sh_send contract_codec flow_lib_example contract_env contract_request 0 contract_addresses = Inr p"
proof -
  from contract_source obtain src where src: "p2sh_source_of flow_lib_example contract_env contract_addresses contract_request = Inr src"
    "list_all (\<lambda>n. note_type n = Sapling) (pq_notes src)" "pq_key_id src = 3" "ws_account_id (pq_secret src) = 7" by blast
  have g: "gate contract_env = Inr flow_status" using flow_gate by (simp add: gate_def contract_env_def)
  have v: "validate_send_request contract_codec ty contract_request = Inr [1, 2]" for ty
    by (simp add: validate_send_request_def validate_qortal_funding_input_address_def contract_request_def ensure_non_empty_def contract_address
        decode_pirate_orchard_address_def decode_base58_field_def validate_script_bytes_def ensure_non_empty_bytes_def)
      (simp add: contract_codec_def)
  have i: "resolve_fixed_internal_change_index contract_addresses 7 3 = Inr 0"
    by (simp add: resolve_fixed_internal_change_index_def get_addresses_by_key_def contract_addresses_def decode_address_row_def
        from_storage_def decode_address_scope_def)
  have o: "\<not> list_ex (\<lambda>n. note_type n = Ironwood) (pq_notes src)" using src(2) by (induction "pq_notes src") (auto simp: list_ex_iff list_all_iff)
  have act: "sapling_internal_change_active_with_resolved_height Mainnet 91 None = False"
    by (simp add: sapling_internal_change_active_with_resolved_height_def u32_try_from_def is_ironwood_active_with_resolved_height_def network_defs)
  have outs: "\<not> list_ex (\<lambda>out. is_orchard_addr (o_addr out)) (qs_output contract_request)" by (simp add: contract_request_def contract_address)
  have h: "st_target_height flow_status = 91" by (simp add: flow_status_def)
  have "\<exists>p. plan_p2sh_send contract_codec flow_lib_example contract_env contract_addresses Mainnet [1, 2] contract_request src = Inr p \<and>
      \<not> ps_use_orchard_change p \<and> \<not> ps_use_sapling_internal_change p"
    by (simp add: plan_p2sh_send_def g contract_recipients o outs h i src(3,4) Let_def u32_try_from_def from_storage_def act load_sync_state_once_def
        u64_from_u32_def network_defs coalesce_def)
      (simp add: contract_env_def flow_env_def default_sync_state_def act)
  then obtain p where p: "plan_p2sh_send contract_codec flow_lib_example contract_env contract_addresses Mainnet [1, 2] contract_request src = Inr p"
    and ch: "\<not> ps_use_orchard_change p" "\<not> ps_use_sapling_internal_change p" by blast
  show ?thesis
    using src v p ch by (simp add: prepare_p2sh_send_def p2sh_change_address_def contract_env_def flow_env_def require_wallet_signing_session_def from_storage_def network_of_def)
qed

theorem p2sh_send_never_signs_witness:
  "(\<exists>p. prepare_p2sh_send contract_codec flow_lib_example contract_env contract_request 0 contract_addresses = Inr p) \<and>
   (\<exists>e. snd (qortal_send_p2sh contract_codec example_qortal_lib flow_lib_example contract_env contract_request 0 contract_addresses) = Inl e)"
proof
  have "we_notes contract_env = repository_notes plain_cipher example_codec \<lparr>address_rows = [], preference_rows = []\<rparr> (\<lambda>_. []) (\<lambda>_. Inr) (table_of [spendable_note])"
    by (simp add: contract_env_def)
  from p2sh_send_never_signs [OF this]
  show "\<exists>e. snd (qortal_send_p2sh contract_codec example_qortal_lib flow_lib_example contract_env contract_request 0 contract_addresses) = Inl e" .
qed (rule contract_prepared)

text \<open>A contract worth 30, redeemed with its secret.\<close>

definition contract_redeem :: p2sh_redeem_request where
  "contract_redeem = \<lparr>qr_input = [116], qr_output = [\<lparr>o_addr = lit ''zs1'', o_amount = 20, o_memo = None\<rparr>], qr_fee = 10, qr_script = [1, 2],
     qr_txid = replicate 32 1, qr_locktime = 0, qr_secret = [8], qr_privkey = replicate 32 1\<rparr>"

definition contract_plan :: redeem_plan where
  "contract_plan = \<lparr>rp_network_type = Mainnet, rp_target_height = 91, rp_ironwood_activation_height = None, rp_ironwood_anchor = None,
     rp_funding_txid = replicate 32 1, rp_funding_coin = \<lparr>txo_value = 30, txo_script = [9]\<rparr>, rp_recipients = [QSapling undefined 20 None],
     rp_fee = 10, rp_redeem_script = [1, 2], rp_lock_time = 0, rp_secret = [8], rp_privkey = undefined\<rparr>"

lemma contract_redeem_plan:
  "qortal_redeem_p2sh contract_codec example_qortal_lib Mainnet contract_redeem 91 None (\<lambda>_. Inr [\<lparr>txo_value = 30, txo_script = [9]\<rparr>]) anchor_of = Inr contract_plan"
proof -
  have trim: "trim [116] \<noteq> []" by (simp add: trim_def is_whitespace_def)
  have dec: "decode_recipient contract_codec ty [116] = Some (RTransparent (ScriptHash [5]))" for ty by (simp add: contract_codec_def)
  have b58: "base58_decode contract_codec x = Some (map word_of_nat x)" for x by (simp add: contract_codec_def)
  have v: "validate_redeem_request contract_codec Mainnet contract_redeem = Inr \<lparr>rv_script = [1, 2], rv_txid = replicate 32 1, rv_secret = [8],
      rv_privkey = replicate 32 1, rv_address = ScriptHash [5]\<rparr>"
    by (simp add: validate_redeem_request_def validate_qortal_redeem_input_address_def contract_redeem_def ensure_non_empty_def trim dec
        decode_base58_field_def decode_base58_field_exact_def validate_script_bytes_def ensure_non_empty_bytes_def b58)
      (simp add: contract_codec_def)
  have key: "secret_key_from_slice contract_codec k = Some undefined" for k by (simp add: contract_codec_def)
  have r: "parse_qortal_recipients contract_codec ty (qr_output contract_redeem) = Inr [QSapling undefined 20 None]" for ty
    using contract_recipients [of ty] by (simp add: contract_request_def contract_redeem_def)
  show ?thesis
    using contract_address(2)
    by (simp add: qortal_redeem_p2sh_def v r u32_try_from_def)
      (simp add: contract_redeem_def example_qortal_lib_def u32_try_from_def contract_plan_def key)
qed

lemma contract_redeemed: "\<exists>r. plan_redeem example_qortal_lib contract_plan = Inr r"
  unfolding plan_redeem_def
  by (simp add: contract_plan_def build_script_pubkey_def example_qortal_lib_def Let_def new_ironwood_builder_def add_outputs_and_script_def
      add_recipient_def output_memo_def add_call_def example_lib_def check_redeem_amounts_def check_amount_def recipient_total_def checked_add_def)


end
