(* ===== verification/ShardCodec.thy ===== *)
theory ShardCodec
  imports Errors
begin

text \<open>
  The bytes of a shard of a note commitment tree (\<open>pirate-storage-sqlite/src/shardtree_serialization.rs\<close>): a version,
  then the tree in preorder, each node with a tag.

  The tree is that of the \<open>shardtree\<close> crate, over any type of hashes and of the retention flags of a leaf. How a hash, an optional hash and the
  flags become bytes is decided by the crates the code calls and is the record \<open>node_codec\<close>; one of its readers is
  given the bytes that are left and answers with the value and how many of them it has taken. A reader of this file returns what is left.
  Writing goes to a vector and does not fail.
\<close>

section \<open>Trees and their bytes\<close>

datatype ('h, 'f) prunable_tree =
    TreeNil
  | TreeLeaf 'h 'f
  | TreeParent "'h option" "('h, 'f) prunable_tree" "('h, 'f) prunable_tree"

datatype io_error = UnexpectedEof | InvalidData msg | CodecFailure msg

record ('h, 'f) node_codec =
  hash_write :: "'h \<Rightarrow> bytes"
  hash_read :: "bytes \<Rightarrow> io_error + 'h \<times> nat"
  optional_write :: "'h option \<Rightarrow> bytes"
  optional_read :: "bytes \<Rightarrow> io_error + 'h option \<times> nat"
  flag_bits :: "'f \<Rightarrow> u8"
  flags_from_bits :: "u8 \<Rightarrow> 'f option"

definition SER_V1 :: u8 where "SER_V1 = 1"
definition NIL_TAG :: u8 where "NIL_TAG = 0"
definition LEAF_TAG :: u8 where "LEAF_TAG = 1"
definition PARENT_TAG :: u8 where "PARENT_TAG = 2"

lemmas tag_defs = SER_V1_def NIL_TAG_def LEAF_TAG_def PARENT_TAG_def

primrec write_inner :: "('h, 'f) node_codec \<Rightarrow> ('h, 'f) prunable_tree \<Rightarrow> bytes" where
  "write_inner cd (TreeParent ann left right) =
     PARENT_TAG # optional_write cd ann @ write_inner cd left @ write_inner cd right"
| "write_inner cd (TreeLeaf h flags) = LEAF_TAG # hash_write cd h @ [flag_bits cd flags]"
| "write_inner cd TreeNil = [NIL_TAG]"

definition write_shard :: "('h, 'f) node_codec \<Rightarrow> ('h, 'f) prunable_tree \<Rightarrow> bytes" where
  "write_shard cd tree = SER_V1 # write_inner cd tree"

definition read_u8 :: "bytes \<Rightarrow> io_error + u8 \<times> bytes" where
  "read_u8 bs = (case bs of [] \<Rightarrow> Inl UnexpectedEof | b # rest \<Rightarrow> Inr (b, rest))"

text \<open>A reader of the crates, run on what is left.\<close>

definition run_reader :: "(bytes \<Rightarrow> io_error + 'a \<times> nat) \<Rightarrow> bytes \<Rightarrow> io_error + 'a \<times> bytes" where
  "run_reader f bs = bind_res (f bs) (\<lambda>(x, n). Inr (x, drop n bs))"

definition read_flags :: "('h, 'f) node_codec \<Rightarrow> bytes \<Rightarrow> io_error + 'f \<times> bytes" where
  "read_flags cd bs =
     bind_res (read_u8 bs) (\<lambda>(bits, rest).
     bind_res (ok_or (flags_from_bits cd bits)
       (InvalidData (Msg ''Byte value {} does not correspond to a valid set of retention flags'' [uint bits]))) (\<lambda>flags. Inr (flags, rest)))"

lemma run_reader_shrinks: "run_reader f bs = Inr (x, rest) \<Longrightarrow> length rest \<le> length bs"
  by (auto simp: run_reader_def bind_res_Inr_iff)

lemma read_flags_shrinks: "read_flags cd bs = Inr (x, rest) \<Longrightarrow> length rest < length bs"
  by (auto simp: read_flags_def read_u8_def bind_res_Inr_iff split: list.splits)

text \<open>
  The two subtrees of a node are read from ever shorter input, since a tree that was read has taken at least one byte; that is shown inside the
  termination proof, by induction on the calls made so far.
\<close>

function read_shard_v1 :: "('h, 'f) node_codec \<Rightarrow> bytes \<Rightarrow> io_error + ('h, 'f) prunable_tree \<times> bytes" where
  "read_shard_v1 cd bs =
     (case bs of
        [] \<Rightarrow> Inl UnexpectedEof
      | tag # rest \<Rightarrow>
          if tag = PARENT_TAG then
            (case run_reader (optional_read cd) rest of
               Inl e \<Rightarrow> Inl e
             | Inr (ann, rest1) \<Rightarrow> (case read_shard_v1 cd rest1 of
                 Inl e \<Rightarrow> Inl e
               | Inr (left, rest2) \<Rightarrow> (case read_shard_v1 cd rest2 of
                   Inl e \<Rightarrow> Inl e
                 | Inr (right, rest3) \<Rightarrow> Inr (TreeParent ann left right, rest3))))
          else if tag = LEAF_TAG then
            bind_res (run_reader (hash_read cd) rest) (\<lambda>(h, rest1).
            bind_res (read_flags cd rest1) (\<lambda>(flags, rest2). Inr (TreeLeaf h flags, rest2)))
          else if tag = NIL_TAG then Inr (TreeNil, rest)
          else Inl (InvalidData (Msg ''Node tag not recognized: {}'' [uint tag])))"
  by pat_completeness auto
termination
proof -
  have shrinks: "length rest < length bs" if "read_shard_v1_dom (cd, bs)" "read_shard_v1 cd bs = Inr (t, rest)"
    for cd :: "('h, 'f) node_codec" and bs t rest
    using that
  proof (induction arbitrary: t rest rule: read_shard_v1.pinduct)
    case (1 cd bs)
    from "1.prems" "1.hyps" show ?case
      apply (simp add: read_shard_v1.psimps split: list.split_asm if_split_asm)
      subgoal for tag bs'
        using "1.IH" by (fastforce split: sum.split_asm prod.split_asm dest: run_reader_shrinks)
      subgoal by (auto simp: bind_res_Inr_iff dest!: run_reader_shrinks read_flags_shrinks)
      done
  qed
  show ?thesis
    apply (relation "measure (length \<circ> snd)")
    subgoal by simp
    subgoal by (auto dest: run_reader_shrinks)
    subgoal for cd bs tag rest p ann rest1 q left rest2
      using run_reader_shrinks [of "optional_read cd" rest ann rest1] shrinks [of cd rest1 left rest2] by simp
    done
qed

declare read_shard_v1.simps [simp del]

definition read_shard :: "('h, 'f) node_codec \<Rightarrow> bytes \<Rightarrow> io_error + ('h, 'f) prunable_tree \<times> bytes" where
  "read_shard cd bs =
     bind_res (read_u8 bs) (\<lambda>(version, rest).
       if version = SER_V1 then read_shard_v1 cd rest
       else Inl (InvalidData (Msg ''Shard serialization version not recognized: {}'' [uint version])))"

section \<open>Reading inverts writing\<close>

text \<open>
  What the crates promise: their readers take back exactly what their writers wrote, and accept nothing else.
\<close>

locale exact_reader =
  fixes wr :: "'a \<Rightarrow> bytes" and rd :: "bytes \<Rightarrow> io_error + 'a \<times> bytes"
  assumes read_written: "rd (wr x @ rest) = Inr (x, rest)"
    and read_only_written: "rd bs = Inr (x, rest) \<Longrightarrow> bs = wr x @ rest"
begin

lemma written_injective: "wr x @ r = wr y @ s \<Longrightarrow> x = y \<and> r = s"
  using read_written by (metis Inr_inject prod.inject)

lemma prefix_refused:
  assumes "wr x = p @ q" "q \<noteq> []"
  shows "\<exists>e. rd p = Inl e"
proof (cases "rd p")
  case (Inr r)
  obtain y rest where "rd p = Inr (y, rest)" using Inr by (cases r) auto
  from read_only_written [OF this] assms(1) have "wr x @ [] = wr y @ (rest @ q)" by simp
  from written_injective [OF this] assms(2) show ?thesis by simp
qed simp

end

interpretation byte: exact_reader "\<lambda>b. [b]" read_u8
  by unfold_locales (auto simp: read_u8_def split: list.splits)

definition node_codec_exact :: "('h, 'f) node_codec \<Rightarrow> bool" where
  "node_codec_exact cd \<longleftrightarrow>
     (\<forall>h rest. hash_read cd (hash_write cd h @ rest) = Inr (h, length (hash_write cd h))) \<and>
     (\<forall>bs h n. hash_read cd bs = Inr (h, n) \<longrightarrow> take n bs = hash_write cd h) \<and>
     (\<forall>a rest. optional_read cd (optional_write cd a @ rest) = Inr (a, length (optional_write cd a))) \<and>
     (\<forall>bs a n. optional_read cd bs = Inr (a, n) \<longrightarrow> take n bs = optional_write cd a) \<and>
     (\<forall>bits flags. flags_from_bits cd bits = Some flags \<longleftrightarrow> bits = flag_bits cd flags)"

lemma run_reader_exact:
  assumes "\<forall>x rest. f (wr x @ rest) = Inr (x, length (wr x))" "\<forall>bs x n. f bs = Inr (x, n) \<longrightarrow> take n bs = wr x"
  shows "exact_reader wr (run_reader f)"
proof
  show "run_reader f (wr x @ rest) = Inr (x, rest)" for x rest using assms(1) by (simp add: run_reader_def)
  show "bs = wr x @ rest" if r: "run_reader f bs = Inr (x, rest)" for bs x rest
  proof -
    from r obtain n where "f bs = Inr (x, n)" "rest = drop n bs" by (auto simp: run_reader_def bind_res_Inr_iff)
    with assms(2) show ?thesis by (metis append_take_drop_id)
  qed
qed

lemma read_flags_exact: "node_codec_exact cd \<Longrightarrow> exact_reader (\<lambda>fl. [flag_bits cd fl]) (read_flags cd)"
  using byte.read_written
  by unfold_locales (auto simp: node_codec_exact_def read_flags_def bind_res_Inr_iff dest: byte.read_only_written)

lemma exact_readers:
  assumes "node_codec_exact cd"
  shows "exact_reader (hash_write cd) (run_reader (hash_read cd))" "exact_reader (optional_write cd) (run_reader (optional_read cd))"
  using assms by (auto simp: node_codec_exact_def intro!: run_reader_exact)

lemma read_write_inner:
  assumes cd: "node_codec_exact cd"
  shows "read_shard_v1 cd (write_inner cd t @ rest) = Inr (t, rest)"
proof (induction t arbitrary: rest)
  case TreeNil
  show ?case by (subst read_shard_v1.simps) (simp add: tag_defs)
next
  case (TreeLeaf h flags)
  have "read_flags cd (flag_bits cd flags # rest) = Inr (flags, rest)"
    using exact_reader.read_written [OF read_flags_exact [OF cd], of flags rest] by simp
  then show ?case
    by (subst read_shard_v1.simps) (simp add: exact_reader.read_written [OF exact_readers(1) [OF cd]] tag_defs)
next
  case (TreeParent ann left right)
  then show ?case
    by (subst read_shard_v1.simps) (simp add: exact_reader.read_written [OF exact_readers(2) [OF cd]] tag_defs)
qed

lemma read_only_write_inner:
  "node_codec_exact cd \<Longrightarrow> read_shard_v1 cd bs = Inr (t, rest) \<Longrightarrow> bs = write_inner cd t @ rest"
proof (induction cd bs arbitrary: t rest rule: read_shard_v1.induct)
  case (1 cd bs)
  from "1.prems"(2) obtain tag rest0 where bs: "bs = tag # rest0" 
    by (cases bs) (auto simp: read_shard_v1.simps [of cd "[]"])
  note opt = exact_reader.read_only_written [OF exact_readers(2) [OF "1.prems"(1)]]
  consider "tag = PARENT_TAG" | "tag = LEAF_TAG" | "tag = NIL_TAG" | "tag \<notin> {PARENT_TAG, LEAF_TAG, NIL_TAG}" by blast
  then show ?case
  proof cases
    case 1
    with "1.prems"(2) bs obtain ann rest1 left rest2 right where p: "run_reader (optional_read cd) rest0 = Inr (ann, rest1)"
        "read_shard_v1 cd rest1 = Inr (left, rest2)" "read_shard_v1 cd rest2 = Inr (right, rest)" "t = TreeParent ann left right"
      by (auto simp: read_shard_v1.simps [of cd "PARENT_TAG # rest0"] split: sum.split_asm prod.split_asm)
    with "1.IH" [OF bs 1 p(1) refl] "1.prems"(1) have "rest1 = write_inner cd left @ rest2" "rest2 = write_inner cd right @ rest" by blast+
    with opt [OF p(1)] bs 1 p(4) show ?thesis by simp
  next
    case 2
    with "1.prems"(2) bs obtain h rest1 flags where p: "run_reader (hash_read cd) rest0 = Inr (h, rest1)" "read_flags cd rest1 = Inr (flags, rest)"
        "t = TreeLeaf h flags"
      by (auto simp: read_shard_v1.simps [of cd "1 # rest0"] bind_res_Inr_iff tag_defs)
    with exact_reader.read_only_written [OF exact_readers(1) [OF "1.prems"(1)] p(1)]
      exact_reader.read_only_written [OF read_flags_exact [OF "1.prems"(1)] p(2)] bs 2 show ?thesis by simp
  qed (use "1.prems"(2) bs in \<open>auto simp: read_shard_v1.simps [of cd "tag # rest0"] read_shard_v1.simps [of cd "0 # rest0"] tag_defs\<close>)
qed

lemma shard_reader: "node_codec_exact cd \<Longrightarrow> exact_reader (write_shard cd) (read_shard cd)"
  by unfold_locales (auto simp: write_shard_def read_shard_def read_u8_def read_write_inner bind_res_Inr_iff
      dest: read_only_write_inner split: list.split_asm if_split_asm)

text \<open>
  Property C20. A stored shard is read back as the tree it was written from, whatever follows it in the input; and a shard that was cut short at any
  place is refused with an error, never read as some other tree.
\<close>

theorem shard_roundtrip:
  assumes "node_codec_exact cd"
  shows "read_shard cd (write_shard cd t @ rest) = Inr (t, rest) \<and>
    (\<forall>p q. write_shard cd t = p @ q \<and> q \<noteq> [] \<longrightarrow> (\<exists>e. read_shard cd p = Inl e))"
  using exact_reader.read_written [OF shard_reader [OF assms]] exact_reader.prefix_refused [OF shard_reader [OF assms]] by blast

section \<open>An example\<close>

text \<open>Hashes of one byte, and flags of which only one set is valid.\<close>

definition byte_codec :: "(u8, unit) node_codec" where
  "byte_codec = \<lparr>hash_write = (\<lambda>h. [h]), hash_read = (\<lambda>bs. case bs of [] \<Rightarrow> Inl UnexpectedEof | h # _ \<Rightarrow> Inr (h, 1)),
     optional_write = (\<lambda>a. case a of None \<Rightarrow> [0] | Some h \<Rightarrow> [1, h]),
     optional_read = (\<lambda>bs. case bs of
        [] \<Rightarrow> Inl UnexpectedEof
      | b # rest \<Rightarrow> if b = 0 then Inr (None, 1) else if b = 1 then (case rest of [] \<Rightarrow> Inl UnexpectedEof | h # _ \<Rightarrow> Inr (Some h, 2))
          else Inl (InvalidData (Msg [] []))),
     flag_bits = (\<lambda>_. 0), flags_from_bits = (\<lambda>b. if b = 0 then Some () else None)\<rparr>"

lemma byte_codec_exact: "node_codec_exact byte_codec"
  by (auto simp: node_codec_exact_def byte_codec_def split: list.splits option.splits if_splits)

definition example_shard :: "(u8, unit) prunable_tree" where
  "example_shard = TreeParent (Some 7) (TreeLeaf 9 ()) TreeNil"

theorem shard_roundtrip_witness:
  "write_shard byte_codec example_shard = [1, 2, 1, 7, 1, 9, 0, 0] \<and>
   read_shard byte_codec [1, 2, 1, 7, 1, 9, 0, 0] = Inr (example_shard, []) \<and>
   (\<exists>e. read_shard byte_codec [1, 2, 1, 7, 1, 9, 0] = Inl e)"
proof -
  have w: "write_shard byte_codec example_shard = [1, 2, 1, 7, 1, 9, 0, 0]"
    by (simp add: write_shard_def example_shard_def byte_codec_def tag_defs)
  have "write_shard byte_codec example_shard = [1, 2, 1, 7, 1, 9, 0] @ [0]" by (simp add: w)
  with shard_roundtrip [OF byte_codec_exact, of example_shard "[]"] w show ?thesis by force
qed

end
