(* ===== verification/ShardStore.thy ===== *)
theory ShardStore
  imports ShardCodec AnchorWitness "HOL-Library.FSet"
begin

text \<open>
  The tables behind a note commitment tree (\<open>pirate-storage-sqlite/src/shardtree_store.rs\<close>, tables of \<open>migrations.rs\<close>): the shards of
  the tree, its cap, the checkpoints with the marks removed at each, and the checkpoints to retain. Each pool has its own tables; the prefix of
  their names chooses the record \<open>tree_db\<close>.

  An operation returns the tables and its result; the store over a connection wraps it into a transaction (\<open>in_transaction\<close>),
  so that an error leaves nothing behind. The keys of the tables are enforced as SQLite does: an insert that violates a uniqueness
  constraint is an error. A shard is never stored without its data, so the column is not optional here. What the code asks of the \<open>shardtree\<close> crate about a tree is the record \<open>shard_lib\<close>.
\<close>

section \<open>Tables\<close>

record shard_row =
  sr_index :: i64
  sr_end_height :: "i64 option"
  sr_root_hash :: "bytes option"
  sr_data :: bytes

record tree_db =
  shard_rows :: "shard_row list"
  cap_rows :: "(i64 \<times> bytes) list"
  checkpoint_rows :: "checkpoint_row list"
  mark_rows :: "(u32 \<times> i64) list"
  retained_rows :: "u32 list option"

datatype checkpoint_tree_state = EmptyTree | AtPosition u64

record tree_checkpoint =
  tc_state :: checkpoint_tree_state
  tc_marks_removed :: "u64 fset"

datatype shard_store_error =
    StoreSerialization io_error
  | StoreQuery rusqlite_error
  | CheckpointConflict u32 tree_checkpoint checkpoint_tree_state "u64 fset option"
  | SubtreeDiscontinuity "u64 \<times> u64" "u64 \<times> u64"

text \<open>An address of a subtree: its level and index.\<close>

type_synonym tree_address = "u8 \<times> u64"

record ('h, 'f) shard_lib =
  sl_codec :: "('h, 'f) node_codec"
  misplaced :: "tree_address \<Rightarrow> ('h, 'f) prunable_tree \<Rightarrow> tree_address option"
  tree_annotation :: "('h, 'f) prunable_tree \<Rightarrow> 'h option option"
  reannotate_root :: "'h option \<Rightarrow> ('h, 'f) prunable_tree \<Rightarrow> ('h, 'f) prunable_tree"
  ephemeral_flags :: 'f
  shard_root_level :: u8
  cap_address :: tree_address
  insert_roots :: "('h, 'f) prunable_tree \<Rightarrow> u64 \<Rightarrow> 'h list \<Rightarrow> msg + ('h, 'f) prunable_tree"

definition as_i64 :: "u64 \<Rightarrow> i64" where
  "as_i64 v = sint v"

definition in_transaction :: "('s \<Rightarrow> 's \<times> ('e + 'a)) \<Rightarrow> 's \<Rightarrow> 's \<times> ('e + 'a)" where
  "in_transaction f s = (case f s of (s', Inr x) \<Rightarrow> (s', Inr x) | (_, Inl e) \<Rightarrow> (s, Inl e))"

section \<open>Shards\<close>

definition located_shard :: "('h, 'f) shard_lib \<Rightarrow> tree_address \<Rightarrow> bytes \<Rightarrow> shard_store_error + ('h, 'f) prunable_tree" where
  "located_shard lib addr data =
     bind_res (map_sum StoreSerialization fst (read_shard (sl_codec lib) data)) (\<lambda>tree.
       case misplaced lib addr tree of
         Some _ \<Rightarrow> Inl (StoreSerialization (InvalidData (Msg ''stored shard is not located at {:?}'' [])))
       | None \<Rightarrow> Inr tree)"

definition get_shard :: "('h, 'f) shard_lib \<Rightarrow> tree_address \<Rightarrow> tree_db \<Rightarrow> shard_store_error + ('h, 'f) prunable_tree option" where
  "get_shard lib addr db =
     (case find (\<lambda>r. sr_index r = as_i64 (snd addr)) (shard_rows db) of
        None \<Rightarrow> Inr None
      | Some r \<Rightarrow>
          bind_res (located_shard lib addr (sr_data r)) (\<lambda>tree.
            case sr_root_hash r of
              None \<Rightarrow> Inr (Some tree)
            | Some root_data \<Rightarrow>
                bind_res (map_sum StoreSerialization fst (hash_read (sl_codec lib) root_data)) (\<lambda>root.
                  Inr (Some (reannotate_root lib (Some root) tree)))))"

definition last_shard :: "('h, 'f) shard_lib \<Rightarrow> tree_db \<Rightarrow> shard_store_error + (tree_address \<times> ('h, 'f) prunable_tree) option" where
  "last_shard lib db =
     (case rev (sort_key sr_index (shard_rows db)) of
        [] \<Rightarrow> Inr None
      | r # _ \<Rightarrow>
          let addr = (shard_root_level lib, as_u64 (sr_index r))
          in bind_res (located_shard lib addr (sr_data r)) (\<lambda>tree. Inr (Some (addr, tree))))"

definition check_shard_discontinuity :: "u64 \<times> u64 \<Rightarrow> tree_db \<Rightarrow> shard_store_error + unit" where
  "check_shard_discontinuity ins db =
     (if shard_rows db = [] then Inr ()
      else let cur_start = as_u64 (Min (set (map sr_index (shard_rows db))));
               cur_end = as_u64 (Max (set (map sr_index (shard_rows db)))) + 1
        in if snd ins < cur_start \<or> cur_end < fst ins then Inl (SubtreeDiscontinuity ins (cur_start, cur_end)) else Inr ())"

text \<open>\<open>INSERT ... ON CONFLICT (shard_index) DO UPDATE\<close>; the hash of a root is unique among the shards.\<close>

definition root_hash_taken :: "i64 \<Rightarrow> bytes option \<Rightarrow> shard_row list \<Rightarrow> bool" where
  "root_hash_taken i h rows \<longleftrightarrow> h \<noteq> None \<and> list_ex (\<lambda>r. sr_index r \<noteq> i \<and> sr_root_hash r = h) rows"

definition upsert_tree_shard :: "shard_row \<Rightarrow> (shard_row \<Rightarrow> shard_row) \<Rightarrow> tree_db \<Rightarrow> tree_db \<times> (shard_store_error + unit)" where
  "upsert_tree_shard row f db =
     (if root_hash_taken (sr_index row) (sr_root_hash row) (shard_rows db) then (db, Inl (StoreQuery ConstraintViolation))
      else if sr_index row \<in> sr_index ` set (shard_rows db)
      then (db\<lparr>shard_rows := map (\<lambda>r. if sr_index r = sr_index row then f r else r) (shard_rows db)\<rparr>, Inr ())
      else (db\<lparr>shard_rows := shard_rows db @ [row]\<rparr>, Inr ()))"

definition put_shard :: "('h, 'f) shard_lib \<Rightarrow> tree_address \<Rightarrow> ('h, 'f) prunable_tree \<Rightarrow> tree_db \<Rightarrow> tree_db \<times> (shard_store_error + unit)" where
  "put_shard lib addr tree db =
     (let root_hash = (case tree_annotation lib tree of Some (Some h) \<Rightarrow> Some (hash_write (sl_codec lib) h) | _ \<Rightarrow> None);
          data = write_shard (sl_codec lib) tree;
          i = snd addr
      in case check_shard_discontinuity (i, i + 1) db of
           Inl e \<Rightarrow> (db, Inl e)
         | Inr _ \<Rightarrow> upsert_tree_shard \<lparr>sr_index = as_i64 i, sr_end_height = None, sr_root_hash = root_hash, sr_data = data\<rparr>
             (\<lambda>r. r\<lparr>sr_root_hash := root_hash, sr_data := data\<rparr>) db)"

definition get_shard_roots :: "('h, 'f) shard_lib \<Rightarrow> tree_db \<Rightarrow> tree_address list" where
  "get_shard_roots lib db = map (\<lambda>i. (shard_root_level lib, as_u64 i)) (sort (map sr_index (shard_rows db)))"

definition truncate_shards :: "u64 \<Rightarrow> tree_db \<Rightarrow> tree_db" where
  "truncate_shards i db = db\<lparr>shard_rows := filter (\<lambda>r. \<not> as_i64 i \<le> sr_index r) (shard_rows db)\<rparr>"

section \<open>The cap\<close>

definition get_cap :: "('h, 'f) shard_lib \<Rightarrow> tree_db \<Rightarrow> shard_store_error + ('h, 'f) prunable_tree" where
  "get_cap lib db =
     (case cap_rows db of [] \<Rightarrow> Inr TreeNil | (_, data) # _ \<Rightarrow> map_sum StoreSerialization fst (read_shard (sl_codec lib) data))"

definition put_cap :: "('h, 'f) shard_lib \<Rightarrow> ('h, 'f) prunable_tree \<Rightarrow> tree_db \<Rightarrow> tree_db" where
  "put_cap lib cap db =
     (let data = write_shard (sl_codec lib) cap
      in db\<lparr>cap_rows := (if 0 \<in> fst ` set (cap_rows db) then map (\<lambda>(i, d). (i, if i = 0 then data else d)) (cap_rows db)
           else cap_rows db @ [(0, data)])\<rparr>)"

section \<open>Checkpoints\<close>

definition state_of_position :: "i64 option \<Rightarrow> checkpoint_tree_state" where
  "state_of_position p = (case p of None \<Rightarrow> EmptyTree | Some v \<Rightarrow> AtPosition (as_u64 v))"

definition position_of_state :: "checkpoint_tree_state \<Rightarrow> i64 option" where
  "position_of_state s = (case s of EmptyTree \<Rightarrow> None | AtPosition p \<Rightarrow> Some (as_i64 p))"

definition min_checkpoint_id :: "tree_db \<Rightarrow> u32 option" where
  "min_checkpoint_id db = (if checkpoint_rows db = [] then None else Some (Min (set (map ck_id (checkpoint_rows db)))))"

definition max_checkpoint_id :: "tree_db \<Rightarrow> u32 option" where
  "max_checkpoint_id db = (if checkpoint_rows db = [] then None else Some (Max (set (map ck_id (checkpoint_rows db)))))"

fun insert_marks :: "u32 \<Rightarrow> u64 list \<Rightarrow> tree_db \<Rightarrow> tree_db \<times> (shard_store_error + unit)" where
  "insert_marks i [] db = (db, Inr ())"
| "insert_marks i (p # ps) db =
     (if (i, as_i64 p) \<in> set (mark_rows db) then (db, Inl (StoreQuery ConstraintViolation))
      else insert_marks i ps (db\<lparr>mark_rows := mark_rows db @ [(i, as_i64 p)]\<rparr>))"

definition get_marks_removed :: "u32 \<Rightarrow> tree_db \<Rightarrow> u64 fset" where
  "get_marks_removed i db = fset_of_list (map (as_u64 \<circ> snd) (filter (\<lambda>m. fst m = i) (mark_rows db)))"

definition get_checkpoint :: "u32 \<Rightarrow> tree_db \<Rightarrow> tree_checkpoint option" where
  "get_checkpoint i db =
     map_option (\<lambda>r. \<lparr>tc_state = state_of_position (ck_position r), tc_marks_removed = get_marks_removed i db\<rparr>)
       (find (\<lambda>r. ck_id r = i) (checkpoint_rows db))"

text \<open>
  The row is inserted unless the identifier is there; then what is there must be the same. (The last branch of the source, no row after
  a refused insert, cannot be reached on a table with this key.)
\<close>

definition add_checkpoint :: "u32 \<Rightarrow> tree_checkpoint \<Rightarrow> tree_db \<Rightarrow> tree_db \<times> (shard_store_error + unit)" where
  "add_checkpoint i c db =
     (let marks = sorted_list_of_fset (tc_marks_removed c)
      in if i \<notin> ck_id ` set (checkpoint_rows db)
         then insert_marks i marks
           (db\<lparr>checkpoint_rows := checkpoint_rows db @ [\<lparr>ck_id = i, ck_position = position_of_state (tc_state c)\<rparr>]\<rparr>)
         else case find (\<lambda>r. ck_id r = i) (checkpoint_rows db) of
           Some r \<Rightarrow>
             let current = state_of_position (ck_position r)
             in if current \<noteq> tc_state c then (db, Inl (CheckpointConflict i c current None))
                else let marks_removed = get_marks_removed i db
                  in if marks_removed = tc_marks_removed c then (db, Inr ())
                     else (db, Inl (CheckpointConflict i c current (Some marks_removed)))
         | None \<Rightarrow> insert_marks i marks db)"

definition checkpoint_count :: "tree_db \<Rightarrow> nat" where
  "checkpoint_count db = length (checkpoint_rows db)"

definition get_checkpoint_at_depth :: "nat \<Rightarrow> tree_db \<Rightarrow> (u32 \<times> tree_checkpoint) option" where
  "get_checkpoint_at_depth depth db =
     (case drop depth (rev (sort_key ck_id (checkpoint_rows db))) of
        [] \<Rightarrow> None
      | r # _ \<Rightarrow> Some (ck_id r, \<lparr>tc_state = state_of_position (ck_position r), tc_marks_removed = get_marks_removed (ck_id r) db\<rparr>))"

text \<open>\<open>ORDER BY position\<close>, empty trees first; rows of one position in the order of their key. The callback runs until it fails.\<close>

definition position_key :: "checkpoint_row \<Rightarrow> i64" where
  "position_key r = (case ck_position r of None \<Rightarrow> - (2 ^ 63) - 1 | Some p \<Rightarrow> p)"

definition checkpoints_by_position :: "nat \<Rightarrow> tree_db \<Rightarrow> (u32 \<times> tree_checkpoint) list" where
  "checkpoints_by_position limit db =
     map (\<lambda>r. (ck_id r, \<lparr>tc_state = state_of_position (ck_position r), tc_marks_removed = get_marks_removed (ck_id r) db\<rparr>))
       (take limit (sort_key position_key (sort_key ck_id (checkpoint_rows db))))"

fun each_checkpoint :: "(u32 \<Rightarrow> tree_checkpoint \<Rightarrow> 's \<Rightarrow> 's \<times> (shard_store_error + unit)) \<Rightarrow> (u32 \<times> tree_checkpoint) list \<Rightarrow> 's \<Rightarrow> 's \<times> (shard_store_error + unit)" where
  "each_checkpoint callback [] s = (s, Inr ())"
| "each_checkpoint callback ((i, c) # cs) s =
     (case callback i c s of (s', Inr _) \<Rightarrow> each_checkpoint callback cs s' | (s', Inl e) \<Rightarrow> (s', Inl e))"

definition with_checkpoints :: "nat \<Rightarrow> (u32 \<Rightarrow> tree_checkpoint \<Rightarrow> 's \<Rightarrow> 's \<times> (shard_store_error + unit)) \<Rightarrow> tree_db \<Rightarrow> 's \<Rightarrow> 's \<times> (shard_store_error + unit)" where
  "with_checkpoints limit callback db s = each_checkpoint callback (checkpoints_by_position limit db) s"

definition remove_checkpoint :: "u32 \<Rightarrow> tree_db \<Rightarrow> tree_db" where
  "remove_checkpoint i db =
     db\<lparr>mark_rows := filter (\<lambda>m. fst m \<noteq> i) (mark_rows db), checkpoint_rows := filter (\<lambda>r. ck_id r \<noteq> i) (checkpoint_rows db)\<rparr>"

definition update_checkpoint_with ::
    "u32 \<Rightarrow> (tree_checkpoint \<Rightarrow> shard_store_error + tree_checkpoint) \<Rightarrow> tree_db \<Rightarrow> tree_db \<times> (shard_store_error + bool)" where
  "update_checkpoint_with i update db =
     (case get_checkpoint i db of
        None \<Rightarrow> (db, Inr False)
      | Some c \<Rightarrow> (case update c of
            Inl e \<Rightarrow> (db, Inl e)
          | Inr c' \<Rightarrow> (case add_checkpoint i c' (remove_checkpoint i db) of
                (db', Inr _) \<Rightarrow> (db', Inr True) | (db', Inl e) \<Rightarrow> (db', Inl e))))"

definition add_retained_checkpoint :: "u32 \<Rightarrow> tree_db \<Rightarrow> tree_db \<times> (shard_store_error + unit)" where
  "add_retained_checkpoint i db =
     (case retained_rows db of
        None \<Rightarrow> (db, Inl (StoreQuery (OtherFailure (Msg ''no such table'' []))))
      | Some ids \<Rightarrow> (db\<lparr>retained_rows := Some (if i \<in> set ids then ids else ids @ [i])\<rparr>, Inr ()))"

definition remove_retained_checkpoint :: "u32 \<Rightarrow> tree_db \<Rightarrow> tree_db \<times> (shard_store_error + unit)" where
  "remove_retained_checkpoint i db =
     (case retained_rows db of
        None \<Rightarrow> (db, Inl (StoreQuery (OtherFailure (Msg ''no such table'' []))))
      | Some ids \<Rightarrow> (db\<lparr>retained_rows := Some (filter (\<lambda>j. j \<noteq> i) ids)\<rparr>, Inr ()))"

definition retained_checkpoints :: "tree_db \<Rightarrow> u32 fset" where
  "retained_checkpoints db = (case retained_rows db of None \<Rightarrow> {||} | Some ids \<Rightarrow> fset_of_list ids)"

definition truncate_checkpoints_retaining :: "u32 \<Rightarrow> tree_db \<Rightarrow> tree_db" where
  "truncate_checkpoints_retaining i db =
     db\<lparr>mark_rows := filter (\<lambda>m. \<not> i \<le> fst m) (mark_rows db), checkpoint_rows := filter (\<lambda>r. \<not> i < ck_id r) (checkpoint_rows db)\<rparr>"

section \<open>Roots of complete shards from the server\<close>

record 'h subtree_root =
  sub_end_height :: u32
  sub_root_hash :: 'h

datatype shard_tree_error = TreeStorage shard_store_error | TreeNotContained tree_address | TreeInsert msg

fun put_roots :: "('h, 'f) shard_lib \<Rightarrow> u64 \<Rightarrow> 'h subtree_root list \<Rightarrow> tree_db \<Rightarrow> tree_db \<times> (shard_store_error + unit)" where
  "put_roots lib i [] db = (db, Inr ())"
| "put_roots lib i (r # rs) db =
     (let root_data = hash_write (sl_codec lib) (sub_root_hash r); height = Some (uint (sub_end_height r))
      in case upsert_tree_shard \<lparr>sr_index = as_i64 i, sr_end_height = height, sr_root_hash = Some root_data,
             sr_data = write_shard (sl_codec lib) (TreeLeaf (sub_root_hash r) (ephemeral_flags lib))\<rparr>
           (\<lambda>row. row\<lparr>sr_end_height := height, sr_root_hash := Some root_data\<rparr>) db of
           (db', Inr _) \<Rightarrow> put_roots lib (i + 1) rs db'
         | (db', Inl e) \<Rightarrow> (db', Inl e))"

definition put_shard_roots :: "('h, 'f) shard_lib \<Rightarrow> u64 \<Rightarrow> 'h subtree_root list \<Rightarrow> tree_db \<Rightarrow> tree_db \<times> (shard_tree_error + unit)" where
  "put_shard_roots lib start_index roots db =
     (if roots = [] then (db, Inr ())
      else case get_cap lib db of
        Inl e \<Rightarrow> (db, Inl (TreeStorage e))
      | Inr cap \<Rightarrow>
          (case misplaced lib (cap_address lib) cap of
             Some a \<Rightarrow> (db, Inl (TreeNotContained a))
           | None \<Rightarrow> (case insert_roots lib cap start_index (map sub_root_hash roots) of
                 Inl m \<Rightarrow> (db, Inl (TreeInsert m))
               | Inr cap' \<Rightarrow>
                   let db1 = put_cap lib cap' db
                   in case check_shard_discontinuity (start_index, start_index + word_of_nat (length roots)) db1 of
                        Inl e \<Rightarrow> (db1, Inl (TreeStorage e))
                      | Inr _ \<Rightarrow> map_prod id (map_sum TreeStorage id) (put_roots lib start_index roots db1))))"

section \<open>The operations of the store\<close>

text \<open>Every writing operation runs in a transaction; its outcome is the tables it commits.\<close>

definition commit :: "('e \<Rightarrow> 'd) \<Rightarrow> ('s \<Rightarrow> 's \<times> ('e + 'a)) \<Rightarrow> 's \<Rightarrow> 'd + 's" where
  "commit err f s = (case in_transaction f s of (s', Inr _) \<Rightarrow> Inr s' | (_, Inl e) \<Rightarrow> Inl (err e))"

datatype ('h, 'f) tree_op =
    PutShard tree_address "('h, 'f) prunable_tree"
  | TruncateShards u64
  | PutCap "('h, 'f) prunable_tree"
  | PutShardRoots u64 "'h subtree_root list"
  | AddCheckpoint u32 tree_checkpoint
  | UpdateCheckpoint u32 "tree_checkpoint \<Rightarrow> shard_store_error + tree_checkpoint"
  | RemoveCheckpoint u32
  | TruncateCheckpoints u32
  | AddRetained u32
  | RemoveRetained u32

fun tree_step :: "('h, 'f) shard_lib \<Rightarrow> ('h, 'f) tree_op \<Rightarrow> tree_db \<Rightarrow> shard_tree_error + tree_db" where
  "tree_step lib (PutShard addr tree) db = commit TreeStorage (put_shard lib addr tree) db"
| "tree_step lib (TruncateShards i) db = Inr (truncate_shards i db)"
| "tree_step lib (PutCap cap) db = Inr (put_cap lib cap db)"
| "tree_step lib (PutShardRoots i roots) db = commit id (put_shard_roots lib i roots) db"
| "tree_step lib (AddCheckpoint i c) db = commit TreeStorage (add_checkpoint i c) db"
| "tree_step lib (UpdateCheckpoint i update) db = commit TreeStorage (update_checkpoint_with i update) db"
| "tree_step lib (RemoveCheckpoint i) db = Inr (remove_checkpoint i db)"
| "tree_step lib (TruncateCheckpoints i) db = Inr (truncate_checkpoints_retaining i db)"
| "tree_step lib (AddRetained i) db = commit TreeStorage (add_retained_checkpoint i) db"
| "tree_step lib (RemoveRetained i) db = commit TreeStorage (remove_retained_checkpoint i) db"

section \<open>Integers of the tables\<close>

lemma as_u64_as_i64 [simp]: "as_u64 (as_i64 v) = v"
  by (simp add: as_u64_def as_i64_def)

lemma as_i64_inject [simp]: "as_i64 v = as_i64 w \<longleftrightarrow> v = w"
  by (metis as_u64_as_i64)

lemma as_i64_small:
  assumes "uint v < 2 ^ 63"
  shows "as_i64 v = uint v"
proof -
  have "- (2 ^ 63) \<le> uint v" by (rule order_trans [OF _ uint_ge_0]) simp
  then have "signed_take_bit 63 (uint v) = uint v" using assms by (rule signed_take_bit_int_eq_self)
  then show ?thesis by (simp add: as_i64_def sint_uint)
qed

lemma state_position [simp]: "state_of_position (position_of_state s) = s"
  by (cases s) (simp_all add: state_of_position_def position_of_state_def)

section \<open>Keys of the tables\<close>

definition contiguous :: "i64 set \<Rightarrow> bool" where
  "contiguous I \<longleftrightarrow> (\<forall>i \<in> I. 0 \<le> i \<and> i < 2 ^ 63) \<and> (\<forall>i \<in> I. \<forall>j \<in> I. {i..j} \<subseteq> I)"

definition shard_keys_ok :: "tree_db \<Rightarrow> bool" where
  "shard_keys_ok db \<longleftrightarrow> distinct (map sr_index (shard_rows db)) \<and>
     (\<forall>r \<in> set (shard_rows db). \<forall>q \<in> set (shard_rows db). sr_root_hash r \<noteq> None \<and> sr_root_hash r = sr_root_hash q \<longrightarrow> sr_index r = sr_index q)"

definition shard_indices :: "tree_db \<Rightarrow> i64 set" where
  "shard_indices db = sr_index ` set (shard_rows db)"

definition checkpoints_ok :: "tree_db \<Rightarrow> bool" where
  "checkpoints_ok db \<longleftrightarrow> distinct (map ck_id (checkpoint_rows db)) \<and> distinct (mark_rows db) \<and>
     fst ` set (mark_rows db) \<subseteq> ck_id ` set (checkpoint_rows db)"

lemma contiguous_extend:
  assumes I: "finite I" "contiguous I" and J: "contiguous J" "J \<noteq> {}"
    and near: "I = {} \<or> \<not> (Max J + 1 < Min I \<or> Max I + 1 < Min J)" and f: "finite J"
  shows "contiguous (I \<union> J)"
proof (cases "I = {}")
  case False
  have cl: "k \<in> I \<union> J" if ij: "i \<in> I" "j \<in> J" "i \<le> k \<and> k \<le> j \<or> j \<le> k \<and> k \<le> i" for i j k
  proof (rule ccontr)
    assume n: "k \<notin> I \<union> J"
    have mi: "Min I \<in> I" "Max I \<in> I" "Min J \<in> J" "Max J \<in> J" using I(1) f False J(2) by auto
    have cI: "k \<in> I" if "a \<in> I" "b \<in> I" "a \<le> k" "k \<le> b" for a b using I(2) that by (force simp: contiguous_def)
    have cJ: "k \<in> J" if "a \<in> J" "b \<in> J" "a \<le> k" "k \<le> b" for a b using J(1) that by (force simp: contiguous_def)
    from ij(3) show False
    proof
      assume "i \<le> k \<and> k \<le> j"
      with n ij cI [of i "Max I"] cJ [of "Min J" j] mi have "Max I < k" "k < Min J" by (meson not_le UnCI)+
      with near False show False by linarith
    next
      assume "j \<le> k \<and> k \<le> i"
      with n ij cI [of "Min I" i] cJ [of j "Max J"] mi have "Max J < k" "k < Min I" by (meson not_le UnCI)+
      with near False show False by linarith
    qed
  qed
  show ?thesis unfolding contiguous_def
  proof (intro conjI ballI subsetI)
    fix i j k assume i: "i \<in> I \<union> J" and j: "j \<in> I \<union> J" and k: "k \<in> {i..j}"
    from i j consider "i \<in> I" "j \<in> I" | "i \<in> J" "j \<in> J" | "i \<in> I" "j \<in> J" | "i \<in> J" "j \<in> I" by blast
    then show "k \<in> I \<union> J"
    proof cases
      case 1
      then have "{i..j} \<subseteq> I" using I(2) by (simp add: contiguous_def)
      then show ?thesis using k by blast
    next
      case 2
      then have "{i..j} \<subseteq> J" using J(1) by (simp add: contiguous_def)
      then show ?thesis using k by blast
    qed (use cl k in auto)
  qed (use I(2) J(1) in \<open>auto simp: contiguous_def\<close>)
qed (use J in simp)

lemma upsert_tree_shard_Inr:
  assumes u: "upsert_tree_shard row f db = (db', Inr x)" and ok: "shard_keys_ok db"
    and f: "\<And>r. sr_index (f r) = sr_index r \<and> sr_root_hash (f r) = sr_root_hash row"
  shows "shard_keys_ok db' \<and> shard_indices db' = insert (sr_index row) (shard_indices db) \<and>
    cap_rows db' = cap_rows db \<and> checkpoint_rows db' = checkpoint_rows db \<and> mark_rows db' = mark_rows db \<and> retained_rows db' = retained_rows db"
proof -
  let ?i = "sr_index row"
  from u have free: "\<And>r. r \<in> set (shard_rows db) \<Longrightarrow> sr_root_hash row \<noteq> None \<Longrightarrow> sr_root_hash r = sr_root_hash row \<Longrightarrow> sr_index r = ?i"
    by (auto simp: upsert_tree_shard_def root_hash_taken_def list_ex_iff split: if_split_asm)
  show ?thesis
  proof (cases "?i \<in> sr_index ` set (shard_rows db)")
    case True
    define g where "g r = (if sr_index r = ?i then f r else r)" for r
    from u True have db': "db' = db\<lparr>shard_rows := map g (shard_rows db)\<rparr>" by (auto simp: upsert_tree_shard_def g_def [abs_def] split: if_split_asm)
    have same: "map (sr_index \<circ> g) (shard_rows db) = map sr_index (shard_rows db)" using f by (simp add: g_def)
    have ix: "sr_index (g r) = sr_index r" for r using f by (simp add: g_def)
    have hash: "sr_root_hash (g r) = (if sr_index r = ?i then sr_root_hash row else sr_root_hash r)" for r using f by (simp add: g_def)
    have "sr_index r = sr_index q" if "r \<in> set (shard_rows db)" "q \<in> set (shard_rows db)" "sr_root_hash (g r) \<noteq> None" "sr_root_hash (g r) = sr_root_hash (g q)" for r q
    proof (rule ccontr)
      assume n: "sr_index r \<noteq> sr_index q"
      have old: "sr_root_hash r \<noteq> sr_root_hash q \<or> sr_root_hash r = None" using ok that(1,2) n unfolding shard_keys_ok_def by blast
      consider "sr_index r = ?i" "sr_index q \<noteq> ?i" | "sr_index r \<noteq> ?i" "sr_index q = ?i" | "sr_index r \<noteq> ?i" "sr_index q \<noteq> ?i" using n by auto
      then show False
      proof cases
        case 1
        with hash [of r] hash [of q] have "sr_root_hash (g r) = sr_root_hash row" "sr_root_hash (g q) = sr_root_hash q" by presburger+
        with that(3,4) free [OF that(2)] 1 show False by metis
      next
        case 2
        with hash [of r] hash [of q] have "sr_root_hash (g q) = sr_root_hash row" "sr_root_hash (g r) = sr_root_hash r" by presburger+
        with that(3,4) free [OF that(1)] 2 show False by metis
      next
        case 3
        with hash [of r] hash [of q] have "sr_root_hash (g r) = sr_root_hash r" "sr_root_hash (g q) = sr_root_hash q" by presburger+
        with that(3,4) old show False by metis
      qed
    qed
    note new = this
    have "sr_index r = sr_index q" if "r \<in> set (shard_rows db')" "q \<in> set (shard_rows db')" "sr_root_hash r \<noteq> None \<and> sr_root_hash r = sr_root_hash q" for r q
    proof -
      from that(1,2) obtain r0 q0 where "r0 \<in> set (shard_rows db)" "q0 \<in> set (shard_rows db)" "r = g r0" "q = g q0" unfolding db' by auto
      with new [of r0 q0] that(3) ix show ?thesis by metis
    qed
    moreover have "distinct (map sr_index (shard_rows db'))" using ok by (simp add: db' same shard_keys_ok_def del: map_eq_conv)
    ultimately have "shard_keys_ok db'" unfolding shard_keys_ok_def by blast
    moreover have "sr_index ` set (map g (shard_rows db)) = sr_index ` set (shard_rows db)" using same by (metis set_map map_map)
    ultimately show ?thesis using True by (simp add: db' shard_indices_def insert_absorb)
  next
    case False
    with u have db': "db' = db\<lparr>shard_rows := shard_rows db @ [row]\<rparr>" by (auto simp: upsert_tree_shard_def split: if_split_asm)
    have "sr_index r = sr_index q" if "r \<in> set (shard_rows db')" "q \<in> set (shard_rows db')" "sr_root_hash r \<noteq> None \<and> sr_root_hash r = sr_root_hash q" for r q
    proof -
      from that(1,2) consider "r \<in> set (shard_rows db)" "q \<in> set (shard_rows db)" | "r = row" "q = row" | "r = row" "q \<in> set (shard_rows db)"
        | "r \<in> set (shard_rows db)" "q = row" unfolding db' by auto
      then show ?thesis
      proof cases
        case 1
        with ok that(3) show ?thesis unfolding shard_keys_ok_def by blast
      next
        case 3
        with free [of q] that(3) show ?thesis by metis
      next
        case 4
        with free [of r] that(3) show ?thesis by metis
      qed simp
    qed
    moreover have "distinct (map sr_index (shard_rows db'))" using ok False by (simp add: db' shard_keys_ok_def)
    ultimately have "shard_keys_ok db'" unfolding shard_keys_ok_def by blast
    then show ?thesis by (simp add: db' shard_indices_def)
  qed
qed

lemma as_u64_nonneg: "0 \<le> i \<Longrightarrow> i < 2 ^ 63 \<Longrightarrow> uint (as_u64 i) = i"
  by (simp add: as_u64_def uint_word_of_int_eq take_bit_int_eq_self)

lemma shard_indices_finite [simp]: "finite (shard_indices db)"
  by (simp add: shard_indices_def)

lemma check_near:
  assumes c: "check_shard_discontinuity (a, b) db = Inr x" and I: "contiguous (shard_indices db)" "shard_indices db \<noteq> {}"
  shows "Min (shard_indices db) \<le> uint b \<and> uint a \<le> Max (shard_indices db) + 1"
proof -
  let ?I = "shard_indices db"
  have "Min ?I \<in> ?I" "Max ?I \<in> ?I" using I(2) by auto
  with I(1) have r: "0 \<le> Min ?I" "Min ?I < 2 ^ 63" "0 \<le> Max ?I" "Max ?I < 2 ^ 63" unfolding contiguous_def by blast+
  from I(2) c have n: "\<not> b < as_u64 (Min ?I)" "\<not> as_u64 (Max ?I) + 1 < a"
    by (auto simp: check_shard_discontinuity_def shard_indices_def Let_def split: if_split_asm)
  have m: "uint (as_u64 (Min ?I)) = Min ?I" "uint (as_u64 (Max ?I)) = Max ?I" using r as_u64_nonneg by blast+
  have "uint (as_u64 (Max ?I) + 1) = Max ?I + 1" using r(3,4) by (simp add: uint_word_ariths m)
  with n m show ?thesis by (simp add: word_less_def)
qed

lemma contiguous_range: "0 \<le> a \<Longrightarrow> b \<le> 2 ^ 63 \<Longrightarrow> contiguous {a..<b}"
  by (auto simp: contiguous_def)

lemma contiguous_after_check:
  assumes c: "check_shard_discontinuity (a, b) db = Inr x" and I: "contiguous (shard_indices db)" and ab: "a < b" "uint b \<le> 2 ^ 63"
  shows "contiguous (shard_indices db \<union> {uint a..<uint b})"
proof -
  have lt: "uint a < uint b" using ab(1) by (simp add: word_less_def)
  have "Min {uint a..<uint b} = uint a" by (rule Min_eqI) (use lt in auto)
  moreover have "Max {uint a..<uint b} = uint b - 1" by (rule Max_eqI) (use lt in auto)
  ultimately have "shard_indices db = {} \<or> \<not> (Max {uint a..<uint b} + 1 < Min (shard_indices db) \<or> Max (shard_indices db) + 1 < Min {uint a..<uint b})"
    using check_near [OF c I] by linarith
  then show ?thesis using I lt ab(2) by (intro contiguous_extend contiguous_range) simp_all
qed

lemma put_shard_Inr:
  assumes p: "put_shard lib addr tree db = (db', Inr x)" and ok: "shard_keys_ok db" "contiguous (shard_indices db)" and i: "uint (snd addr) < 2 ^ 63 - 1"
  shows "shard_keys_ok db' \<and> contiguous (shard_indices db') \<and> shard_indices db' = insert (uint (snd addr)) (shard_indices db)"
proof -
  let ?i = "snd addr"
  from p have c: "check_shard_discontinuity (?i, ?i + 1) db = Inr ()"
    by (auto simp: put_shard_def Let_def split: sum.split_asm)
  from i have plus: "uint (?i + 1) = uint ?i + 1" by (simp add: uint_word_ariths)
  have "as_i64 ?i = uint ?i" by (rule as_i64_small) (use i in simp)
  with p c have "shard_keys_ok db' \<and> shard_indices db' = insert (uint ?i) (shard_indices db)"
    unfolding put_shard_def Let_def by (simp add: upsert_tree_shard_Inr [OF _ ok(1)] split: sum.split_asm)
  moreover have "contiguous (shard_indices db \<union> {uint ?i..<uint (?i + 1)})"
    by (rule contiguous_after_check [OF c ok(2)]) (use i plus in \<open>simp_all add: word_less_def\<close>)
  moreover have "shard_indices db \<union> {uint ?i..<uint ?i + 1} = insert (uint ?i) (shard_indices db)" by auto
  ultimately show ?thesis unfolding plus by simp
qed

lemma put_roots_Inr:
  "put_roots lib i roots db = (db', Inr x) \<Longrightarrow> shard_keys_ok db \<Longrightarrow> uint i + int (length roots) < 2 ^ 63 \<Longrightarrow>
   shard_keys_ok db' \<and> shard_indices db' = shard_indices db \<union> {uint i..<uint i + int (length roots)} \<and> cap_rows db' = cap_rows db \<and>
   checkpoint_rows db' = checkpoint_rows db \<and> mark_rows db' = mark_rows db \<and> retained_rows db' = retained_rows db"
proof (induction roots arbitrary: i db)
  case (Cons r rs)
  let ?row = "\<lparr>sr_index = as_i64 i, sr_end_height = Some (uint (sub_end_height r)), sr_root_hash = Some (hash_write (sl_codec lib) (sub_root_hash r)),
    sr_data = write_shard (sl_codec lib) (TreeLeaf (sub_root_hash r) (ephemeral_flags lib))\<rparr>"
  let ?f = "\<lambda>row. row\<lparr>sr_end_height := Some (uint (sub_end_height r)), sr_root_hash := Some (hash_write (sl_codec lib) (sub_root_hash r))\<rparr>"
  from Cons.prems(1) obtain db1 where u: "upsert_tree_shard ?row ?f db = (db1, Inr ())" and p: "put_roots lib (i + 1) rs db1 = (db', Inr x)"
    by (auto simp: Let_def split: prod.split_asm sum.split_asm)
  have db1: "shard_keys_ok db1 \<and> shard_indices db1 = insert (sr_index ?row) (shard_indices db) \<and> cap_rows db1 = cap_rows db \<and>
      checkpoint_rows db1 = checkpoint_rows db \<and> mark_rows db1 = mark_rows db \<and> retained_rows db1 = retained_rows db"
    by (rule upsert_tree_shard_Inr [OF u Cons.prems(2)]) simp
  have i: "uint i < 2 ^ 63" "uint (i + 1) = uint i + 1" using Cons.prems(3) by (simp_all add: uint_word_ariths)
  have "{uint i..<uint i + int (length (r # rs))} = insert (uint i) {uint i + 1..<uint i + 1 + int (length rs)}" by auto
  with Cons.IH [OF p] db1 i Cons.prems(3) as_i64_small [OF i(1)] show ?case by simp
qed simp

lemma map_sum_Inr_iff: "map_sum f id r = Inr x \<longleftrightarrow> r = Inr x"
  by (cases r) auto

lemma put_shard_roots_Inr:
  assumes p: "put_shard_roots lib start roots db = (db', Inr x)" and ok: "shard_keys_ok db" "contiguous (shard_indices db)"
    and small: "uint start + int (length roots) < 2 ^ 63"
  shows "shard_keys_ok db' \<and> contiguous (shard_indices db') \<and> checkpoint_rows db' = checkpoint_rows db \<and> mark_rows db' = mark_rows db"
proof (cases "roots = []")
  case False
  with p obtain cap where c: "check_shard_discontinuity (start, start + word_of_nat (length roots)) (put_cap lib cap db) = Inr ()"
    and r: "put_roots lib start roots (put_cap lib cap db) = (db', Inr x)"
    by (auto simp: put_shard_roots_def Let_def map_prod_def map_sum_Inr_iff split: sum.split_asm option.split_asm prod.split_asm)
  have same: "shard_rows (put_cap lib cap db) = shard_rows db" "checkpoint_rows (put_cap lib cap db) = checkpoint_rows db" "mark_rows (put_cap lib cap db) = mark_rows db"
    by (simp_all add: put_cap_def Let_def)
  have k: "shard_keys_ok (put_cap lib cap db)" "shard_indices (put_cap lib cap db) = shard_indices db" 
    using ok(1) unfolding shard_keys_ok_def shard_indices_def same by blast+
  have len: "uint (start + word_of_nat (length roots)) = uint start + int (length roots)"
  proof -
    have "int (length roots) < 2 ^ 63" by (rule le_less_trans [OF _ small]) simp
    moreover have "(2 :: int) ^ 63 < 2 ^ 64" by simp
    ultimately have "int (length roots) < 2 ^ 64" by (rule less_trans)
    then have "uint (word_of_nat (length roots) :: u64) = int (length roots)" by (simp add: unsigned_of_nat take_bit_nat_eq_self)
    then show ?thesis using small by (simp add: uint_word_ariths)
  qed
  have "contiguous (shard_indices (put_cap lib cap db) \<union> {uint start..<uint (start + word_of_nat (length roots))})"
    by (rule contiguous_after_check [OF c]) (use ok(2) k len small False in \<open>simp_all add: word_less_def\<close>)
  with put_roots_Inr [OF r k(1) small] same k(2) len show ?thesis by simp
qed (use p ok in \<open>simp add: put_shard_roots_def\<close>)

lemma truncate_shards_ok:
  assumes "shard_keys_ok db" "contiguous (shard_indices db)" "uint i < 2 ^ 63"
  shows "shard_keys_ok (truncate_shards i db) \<and> contiguous (shard_indices (truncate_shards i db)) \<and>
    shard_indices (truncate_shards i db) = {j \<in> shard_indices db. j < uint i}"
proof -
  have ix: "shard_indices (truncate_shards i db) = {j \<in> shard_indices db. j < uint i}"
    using as_i64_small [OF assms(3)] by (auto simp: truncate_shards_def shard_indices_def)
  have "contiguous {j \<in> shard_indices db. j < uint i}"
    using assms(2) unfolding contiguous_def by (fastforce simp: subset_iff)
  moreover have "shard_keys_ok (truncate_shards i db)"
    using assms(1) unfolding shard_keys_ok_def truncate_shards_def by (simp add: distinct_map_filter) blast
  ultimately show ?thesis using ix by simp
qed

section \<open>Checkpoints as a map\<close>

lemma insert_marks_new:
  "distinct ps \<Longrightarrow> \<forall>p \<in> set ps. (i, as_i64 p) \<notin> set (mark_rows db) \<Longrightarrow>
   insert_marks i ps db = (db\<lparr>mark_rows := mark_rows db @ map (\<lambda>p. (i, as_i64 p)) ps\<rparr>, Inr ())"
proof (induction ps arbitrary: db)
  case (Cons p ps)
  have "\<forall>q \<in> set ps. (i, as_i64 q) \<notin> set (mark_rows (db\<lparr>mark_rows := mark_rows db @ [(i, as_i64 p)]\<rparr>))" using Cons.prems by auto
  from Cons.IH [OF _ this] Cons.prems show ?case by simp
qed simp

lemma distinct_marks [simp]: "distinct (sorted_list_of_fset ps)"
  by (simp add: sorted_list_of_fset.rep_eq)

lemma insert_marks_fresh:
  "i \<notin> fst ` set (mark_rows db) \<Longrightarrow>
   insert_marks i (sorted_list_of_fset ps) db = (db\<lparr>mark_rows := mark_rows db @ map (\<lambda>p. (i, as_i64 p)) (sorted_list_of_fset ps)\<rparr>, Inr ())"
  by (rule insert_marks_new) (use distinct_marks in force)+

lemma find_key_None: "find (\<lambda>r. f r = k) xs = None \<longleftrightarrow> k \<notin> f ` set xs"
  by (auto simp: find_None_iff)

lemma find_key_append: "find P (xs @ ys) = (case find P xs of Some x \<Rightarrow> Some x | None \<Rightarrow> find P ys)"
  by (induction xs) auto

lemma find_key_filter: "find (\<lambda>r. f r = k) (filter (\<lambda>r. P (f r)) xs) = (if P k then find (\<lambda>r. f r = k) xs else None)"
  by (induction xs) auto

lemma get_checkpoint_None: "get_checkpoint i db = None \<longleftrightarrow> i \<notin> ck_id ` set (checkpoint_rows db)"
  by (simp add: get_checkpoint_def find_key_None)

lemma add_checkpoint_new:
  assumes ok: "checkpoints_ok db" and new: "get_checkpoint i db = None"
  shows "\<exists>db'. add_checkpoint i c db = (db', Inr ()) \<and> checkpoints_ok db' \<and> shard_rows db' = shard_rows db \<and>
    (\<lambda>j. get_checkpoint j db') = (\<lambda>j. get_checkpoint j db)(i \<mapsto> c)"
proof -
  let ?ps = "sorted_list_of_fset (tc_marks_removed c)"
  let ?row = "\<lparr>ck_id = i, ck_position = position_of_state (tc_state c)\<rparr>"
  let ?db = "db\<lparr>checkpoint_rows := checkpoint_rows db @ [?row], mark_rows := mark_rows db @ map (\<lambda>p. (i, as_i64 p)) ?ps\<rparr>"
  have i: "i \<notin> ck_id ` set (checkpoint_rows db)" using new by (simp add: get_checkpoint_None)
  then have m: "i \<notin> fst ` set (mark_rows db)" using ok by (auto simp: checkpoints_ok_def)
  have "add_checkpoint i c db = (?db, Inr ())"
    using i m by (simp add: add_checkpoint_def insert_marks_fresh)
  moreover have "checkpoints_ok ?db"
    using ok i m by (auto simp: checkpoints_ok_def distinct_map inj_on_def image_iff)
  moreover have "get_checkpoint j ?db = ((\<lambda>j. get_checkpoint j db)(i \<mapsto> c)) j" for j
  proof (cases "j = i")
    case True
    have "filter (\<lambda>m. fst m = i) (mark_rows db) = []" using m by (auto simp: filter_empty_conv image_iff)
    moreover have "find (\<lambda>r. ck_id r = i) (checkpoint_rows db) = None" using i by (simp add: find_key_None)
    ultimately show ?thesis using True
      by (simp add: get_checkpoint_def get_marks_removed_def find_key_append comp_def)
  next
    case False
    then show ?thesis by (simp add: get_checkpoint_def get_marks_removed_def find_key_append split: option.splits)
  qed
  ultimately show ?thesis by (intro exI [of _ ?db]) auto
qed

lemma add_checkpoint_again:
  assumes "get_checkpoint i db = Some d"
  shows "add_checkpoint i c db = (db, if c = d then Inr () else
    Inl (CheckpointConflict i c (tc_state d) (if tc_state d = tc_state c then Some (tc_marks_removed d) else None)))"
proof -
  from assms obtain r where r: "find (\<lambda>r. ck_id r = i) (checkpoint_rows db) = Some r"
      "d = \<lparr>tc_state = state_of_position (ck_position r), tc_marks_removed = get_marks_removed i db\<rparr>"
    by (auto simp: get_checkpoint_def)
  then have "i \<in> ck_id ` set (checkpoint_rows db)" using find_key_None [of ck_id i "checkpoint_rows db"] by auto
  with r show ?thesis by (cases c) (auto simp: add_checkpoint_def Let_def)
qed

definition without_marks :: "tree_checkpoint \<Rightarrow> tree_checkpoint" where
  "without_marks c = c\<lparr>tc_marks_removed := {||}\<rparr>"

text \<open>Deleting rows by the identifier of their checkpoint.\<close>

lemma marks_filtered: "filter (\<lambda>m. fst m = j) (filter (\<lambda>m. Q (fst m)) ms) = (if Q j then filter (\<lambda>m. fst m = j) ms else [])"
  by (induction ms) auto

lemma get_checkpoint_filtered:
  "get_checkpoint j (db\<lparr>mark_rows := filter (\<lambda>m. Q (fst m)) (mark_rows db), checkpoint_rows := filter (\<lambda>r. P (ck_id r)) (checkpoint_rows db)\<rparr>) =
     (if P j then map_option (\<lambda>c. if Q j then c else without_marks c) (get_checkpoint j db) else None)"
proof -
  have "get_marks_removed j (db\<lparr>mark_rows := filter (\<lambda>m. Q (fst m)) (mark_rows db), checkpoint_rows := rows\<rparr>) =
      (if Q j then get_marks_removed j db else {||})" for rows
    using marks_filtered [of j Q "mark_rows db"] by (simp add: get_marks_removed_def del: filter_filter)
  then show ?thesis
    using find_key_filter [of ck_id j P "checkpoint_rows db"]
    by (cases "find (\<lambda>r. ck_id r = j) (checkpoint_rows db)") (auto simp: get_checkpoint_def without_marks_def)
qed

lemma remove_checkpoint_map: "get_checkpoint j (remove_checkpoint i db) = (if j = i then None else get_checkpoint j db)"
  unfolding remove_checkpoint_def
  using get_checkpoint_filtered [where j = j and db = db and P = "\<lambda>k. k \<noteq> i" and Q = "\<lambda>k. k \<noteq> i"] by (simp add: option.map_ident)

lemma truncate_checkpoints_map:
  "get_checkpoint j (truncate_checkpoints_retaining i db) =
     (if j < i then get_checkpoint j db else if j = i then map_option without_marks (get_checkpoint j db) else None)"
  unfolding truncate_checkpoints_retaining_def
  using get_checkpoint_filtered [where j = j and db = db and Q = "\<lambda>k. \<not> i \<le> k" and P = "\<lambda>k. \<not> i < k"] by (auto simp: option.map_ident not_le not_less)

lemma checkpoints_ok_filtered:
  assumes ok: "checkpoints_ok db" and PQ: "\<And>k. Q k \<Longrightarrow> P k"
  shows "checkpoints_ok (db\<lparr>mark_rows := filter (\<lambda>m. Q (fst m)) (mark_rows db), checkpoint_rows := filter (\<lambda>r. P (ck_id r)) (checkpoint_rows db)\<rparr>)"
proof -
  have "fst m \<in> ck_id ` set (filter (\<lambda>r. P (ck_id r)) (checkpoint_rows db))" if "m \<in> set (mark_rows db)" "Q (fst m)" for m
  proof -
    from that(1) ok obtain r where "r \<in> set (checkpoint_rows db)" "fst m = ck_id r" by (fastforce simp: checkpoints_ok_def)
    with PQ [OF that(2)] show ?thesis by auto
  qed
  with ok show ?thesis by (auto simp: checkpoints_ok_def distinct_map_filter)
qed

lemma remove_checkpoint_ok: "checkpoints_ok db \<Longrightarrow> checkpoints_ok (remove_checkpoint i db)"
  unfolding remove_checkpoint_def by (rule checkpoints_ok_filtered [where P = "\<lambda>k. k \<noteq> i" and Q = "\<lambda>k. k \<noteq> i"])

lemma truncate_checkpoints_ok: "checkpoints_ok db \<Longrightarrow> checkpoints_ok (truncate_checkpoints_retaining i db)"
  unfolding truncate_checkpoints_retaining_def
  by (rule checkpoints_ok_filtered [where P = "\<lambda>k. \<not> i < k" and Q = "\<lambda>k. \<not> i \<le> k"]) auto

lemma update_checkpoint_with_ok:
  assumes ok: "checkpoints_ok db" and d: "get_checkpoint i db = Some d" "update d = Inr c"
  shows "\<exists>db'. update_checkpoint_with i update db = (db', Inr True) \<and> checkpoints_ok db' \<and> shard_rows db' = shard_rows db \<and>
    (\<lambda>j. get_checkpoint j db') = (\<lambda>j. get_checkpoint j db)(i \<mapsto> c)"
proof -
  have "get_checkpoint i (remove_checkpoint i db) = None" by (simp add: remove_checkpoint_map)
  from add_checkpoint_new [OF remove_checkpoint_ok [OF ok] this, of c] obtain db'
    where db': "add_checkpoint i c (remove_checkpoint i db) = (db', Inr ())" "checkpoints_ok db'" "shard_rows db' = shard_rows (remove_checkpoint i db)"
      "(\<lambda>j. get_checkpoint j db') = (\<lambda>j. get_checkpoint j (remove_checkpoint i db))(i \<mapsto> c)" by blast
  have "(\<lambda>j. get_checkpoint j (remove_checkpoint i db))(i \<mapsto> c) = (\<lambda>j. get_checkpoint j db)(i \<mapsto> c)"
    by (rule ext) (simp add: remove_checkpoint_map)
  moreover have "shard_rows (remove_checkpoint i db) = shard_rows db" by (simp add: remove_checkpoint_def)
  ultimately show ?thesis using db' d by (intro exI [of _ db']) (simp add: update_checkpoint_with_def)
qed

section \<open>Depth\<close>

lemma sorted_nth_above:
  fixes ids :: "'a :: linorder list"
  assumes "distinct ids" "i \<in> set ids"
  shows "length (filter (\<lambda>j. i < j) ids) < length ids \<and> rev (sort ids) ! length (filter (\<lambda>j. i < j) ids) = i"
proof -
  let ?s = "sort ids" and ?k = "length (filter (\<lambda>j. i < j) ids)"
  have "sort ids = sort (filter (\<lambda>j. j < i) ids) @ [i] @ sort (filter (\<lambda>j. i < j) ids)"
  proof (rule sorted_distinct_set_unique)
    show "set (sort ids) = set (sort (filter (\<lambda>j. j < i) ids) @ [i] @ sort (filter (\<lambda>j. i < j) ids))"
      using assms(2) by (auto simp: not_less_iff_gr_or_eq)
  qed (use assms in \<open>auto simp: sorted_append less_imp_le intro: less_trans\<close>)
  then have "rev ?s = rev (sort (filter (\<lambda>j. i < j) ids)) @ [i] @ rev (sort (filter (\<lambda>j. j < i) ids))" by simp
  then have "rev ?s ! ?k = i" by (simp add: nth_append)
  moreover have "?k < length ids" using length_filter_less [OF assms(2), of "\<lambda>j. i < j"] by simp
  ultimately show ?thesis by simp
qed

lemma map_sort_key: "map f (sort_key f xs) = sort (map f xs)"
  by (rule properties_for_sort [symmetric]) simp_all

lemma find_distinct:
  assumes "distinct (map f xs)" "r \<in> set xs"
  shows "find (\<lambda>q. f q = f r) xs = Some r"
  using assms by (induction xs) auto

text \<open>A checkpoint stands at the depth that counts the checkpoints above it.\<close>

lemma get_checkpoint_at_depth_of:
  assumes ok: "checkpoints_ok db" and c: "get_checkpoint i db = Some c"
  shows "get_checkpoint_at_depth (length (filter (\<lambda>j. i < j) (map ck_id (checkpoint_rows db)))) db = Some (i, c)"
proof -
  let ?ids = "map ck_id (checkpoint_rows db)" and ?rs = "rev (sort_key ck_id (checkpoint_rows db))"
  let ?k = "length (filter (\<lambda>j. i < j) ?ids)"
  have i: "i \<in> set ?ids" using c get_checkpoint_None [of i db] by auto
  have d: "distinct ?ids" using ok by (simp add: checkpoints_ok_def)
  have "map ck_id ?rs = rev (sort ?ids)" by (simp add: rev_map [symmetric] map_sort_key)
  with sorted_nth_above [OF d i] have k: "?k < length ?rs" "ck_id (?rs ! ?k) = i" by (metis length_map length_rev length_sort, metis length_map length_rev length_sort nth_map)
  have "?rs ! ?k \<in> set (checkpoint_rows db)" using nth_mem [OF k(1)] by simp
  from find_distinct [OF d this] k(2) have f: "find (\<lambda>q. ck_id q = i) (checkpoint_rows db) = Some (?rs ! ?k)" by simp
  have "drop ?k ?rs = ?rs ! ?k # drop (Suc ?k) ?rs" using k(1) by (simp add: Cons_nth_drop_Suc)
  with k(2) c f show ?thesis unfolding get_checkpoint_at_depth_def by (simp add: get_checkpoint_def)
qed

text \<open>
  Property C28. The depth at which a spend asks the tree names the right checkpoint. For the checkpoint identifier and depth found for an anchor
  height, the store has a checkpoint of that identifier, returns it for that depth, and has no later one at or below the anchor.
\<close>

theorem anchor_depth_names_checkpoint:
  assumes ok: "checkpoints_ok db" and d: "checkpoint_depth_at_or_below (checkpoint_rows db) anchor = Inr (Some (i, depth))"
  shows "\<exists>c. get_checkpoint i db = Some c \<and> get_checkpoint_at_depth depth db = Some (i, c) \<and> unat i \<le> unat anchor \<and>
    (\<forall>j e. get_checkpoint j db = Some e \<and> unat j \<le> unat anchor \<longrightarrow> j \<le> i)"
proof -
  let ?ids = "map ck_id (checkpoint_rows db)"
  from d obtain a where a: "anchor = u64_from_u32 a" and ne: "filter (\<lambda>i. i \<le> a) ?ids \<noteq> []" and i: "i = Max (set (filter (\<lambda>i. i \<le> a) ?ids))"
    and depth: "depth = length (filter (\<lambda>j. i < j) ?ids)"
    by (auto simp: checkpoint_depth_at_or_below_def Let_def bind_res_Inr_iff u32_try_from_Some_iff split: if_split_asm)
  have u: "unat anchor = unat a" using a by (simp add: unat_u64_from_u32)
  have "i \<in> set (filter (\<lambda>i. i \<le> a) ?ids)" unfolding i by (rule Max_in [OF finite_set]) (use ne in \<open>simp only: set_empty simp_thms\<close>)
  then have in_ids: "i \<in> ck_id ` set (checkpoint_rows db)" "i \<le> a" by auto
  then obtain c where c: "get_checkpoint i db = Some c" using get_checkpoint_None [of i db] by auto
  have "j \<le> i" if "get_checkpoint j db = Some e" "unat j \<le> unat anchor" for j e
  proof -
    have "j \<in> set (filter (\<lambda>i. i \<le> a) ?ids)" using that get_checkpoint_None [of j db] u by (auto simp: word_le_nat_alt)
    then show ?thesis unfolding i by (intro Max_ge) auto
  qed
  with c get_checkpoint_at_depth_of [OF ok c] in_ids(2) show ?thesis by (auto simp: depth u word_le_nat_alt)
qed

section \<open>What the store promises\<close>

text \<open>
  Property C18. The tables of checkpoints implement a map from identifiers to checkpoints. Adding a new checkpoint succeeds and updates the map at its
  identifier; adding one that is there again changes nothing, and reports a conflict exactly if it differs; updating replaces, removing deletes, and
  truncating keeps the checkpoints below, the one at the given identifier without its removed marks, and no other. Each keeps the keys of the tables and
  the shards, and the number of checkpoints is the size of the map.
\<close>

theorem checkpoints_refine_map:
  assumes ok: "checkpoints_ok db"
  shows "(case get_checkpoint i db of
      None \<Rightarrow> (\<exists>db'. add_checkpoint i c db = (db', Inr ()) \<and> checkpoints_ok db' \<and> shard_rows db' = shard_rows db \<and>
        (\<lambda>j. get_checkpoint j db') = (\<lambda>j. get_checkpoint j db)(i \<mapsto> c)) \<and> update_checkpoint_with i update db = (db, Inr False)
    | Some d \<Rightarrow> add_checkpoint i c db = (db, if c = d then Inr () else
        Inl (CheckpointConflict i c (tc_state d) (if tc_state d = tc_state c then Some (tc_marks_removed d) else None))) \<and>
      (case update d of
         Inl e \<Rightarrow> update_checkpoint_with i update db = (db, Inl e)
       | Inr d' \<Rightarrow> \<exists>db'. update_checkpoint_with i update db = (db', Inr True) \<and> checkpoints_ok db' \<and> shard_rows db' = shard_rows db \<and>
           (\<lambda>j. get_checkpoint j db') = (\<lambda>j. get_checkpoint j db)(i \<mapsto> d'))) \<and>
    checkpoints_ok (remove_checkpoint i db) \<and> (\<lambda>j. get_checkpoint j (remove_checkpoint i db)) = (\<lambda>j. get_checkpoint j db)(i := None) \<and>
    checkpoints_ok (truncate_checkpoints_retaining i db) \<and> (\<lambda>j. get_checkpoint j (truncate_checkpoints_retaining i db)) =
      (\<lambda>j. if j < i then get_checkpoint j db else if j = i then map_option without_marks (get_checkpoint j db) else None) \<and>
    checkpoint_count db = card (dom (\<lambda>j. get_checkpoint j db))"
proof -
  have "dom (\<lambda>j. get_checkpoint j db) = set (map ck_id (checkpoint_rows db))"
    using get_checkpoint_None [of _ db] by (auto simp: dom_def)
  then have "checkpoint_count db = card (dom (\<lambda>j. get_checkpoint j db))"
    using ok distinct_card [of "map ck_id (checkpoint_rows db)"] by (simp add: checkpoint_count_def checkpoints_ok_def)
  moreover have "(\<lambda>j. get_checkpoint j (remove_checkpoint i db)) = (\<lambda>j. get_checkpoint j db)(i := None)"
    by (rule ext) (simp add: remove_checkpoint_map)
  moreover have "update_checkpoint_with i update db = (db, Inr False)" if "get_checkpoint i db = None"
    using that by (simp add: update_checkpoint_with_def)
  moreover have "case update d of
       Inl e \<Rightarrow> update_checkpoint_with i update db = (db, Inl e)
     | Inr d' \<Rightarrow> \<exists>db'. update_checkpoint_with i update db = (db', Inr True) \<and> checkpoints_ok db' \<and> shard_rows db' = shard_rows db \<and>
         (\<lambda>j. get_checkpoint j db') = (\<lambda>j. get_checkpoint j db)(i \<mapsto> d')" if "get_checkpoint i db = Some d" for d
    using that update_checkpoint_with_ok [OF ok that, of update] by (cases "update d") (simp_all add: update_checkpoint_with_def)
  ultimately show ?thesis
    using add_checkpoint_new [OF ok, of i c] add_checkpoint_again [of i db _ c]
      remove_checkpoint_ok [OF ok] truncate_checkpoints_ok [OF ok] truncate_checkpoints_map [of _ i db]
    by (cases "get_checkpoint i db") simp_all
qed

lemma find_map_update:
  assumes "\<And>r. key (f r) = key r"
  shows "find (\<lambda>r. key r = j) (map (\<lambda>r. if key r = k then f r else r) rs) =
    (if j = k then map_option f (find (\<lambda>r. key r = j) rs) else find (\<lambda>r. key r = j) rs)"
  using assms by (induction rs) auto

lemma upsert_tree_shard_find:
  assumes u: "upsert_tree_shard row f db = (db', Inr x)" and f: "\<And>r. sr_index (f r) = sr_index r"
  shows "find (\<lambda>r. sr_index r = j) (shard_rows db') =
    (if j = sr_index row then Some (case find (\<lambda>r. sr_index r = j) (shard_rows db) of Some r \<Rightarrow> f r | None \<Rightarrow> row)
     else find (\<lambda>r. sr_index r = j) (shard_rows db))"
proof (cases "sr_index row \<in> sr_index ` set (shard_rows db)")
  case True
  then obtain r where "find (\<lambda>r. sr_index r = sr_index row) (shard_rows db) = Some r"
    using find_key_None [of sr_index "sr_index row" "shard_rows db"] by auto
  moreover from u True have "shard_rows db' = map (\<lambda>r. if sr_index r = sr_index row then f r else r) (shard_rows db)"
    by (auto simp: upsert_tree_shard_def split: if_split_asm)
  ultimately show ?thesis using find_map_update [of sr_index f j "sr_index row" "shard_rows db", OF f] by simp
next
  case False
  then have "find (\<lambda>r. sr_index r = sr_index row) (shard_rows db) = None" by (simp add: find_key_None)
  moreover from u False have "shard_rows db' = shard_rows db @ [row]" by (auto simp: upsert_tree_shard_def split: if_split_asm)
  ultimately show ?thesis by (auto simp: find_key_append split: option.split)
qed

text \<open>
  Property C27. A shard that was stored is the shard that is read, annotation of its root included, and storing it changes no other shard.
\<close>

theorem stored_shard_read_back:
  assumes cd: "node_codec_exact (sl_codec lib)" and place: "misplaced lib addr tree = None"
    and root: "\<And>h. tree_annotation lib tree = Some (Some h) \<Longrightarrow> reannotate_root lib (Some h) tree = tree"
    and p: "put_shard lib addr tree db = (db', Inr x)"
  shows "get_shard lib addr db' = Inr (Some tree) \<and> (\<forall>a. snd a \<noteq> snd addr \<longrightarrow> get_shard lib a db' = get_shard lib a db)"
proof -
  let ?i = "as_i64 (snd addr)"
  let ?h = "case tree_annotation lib tree of Some (Some h) \<Rightarrow> Some (hash_write (sl_codec lib) h) | _ \<Rightarrow> None"
  let ?data = "write_shard (sl_codec lib) tree"
  have rows: "find (\<lambda>r. sr_index r = j) (shard_rows db') =
      (if j = ?i then Some (case find (\<lambda>r. sr_index r = ?i) (shard_rows db) of
           Some r \<Rightarrow> r\<lparr>sr_root_hash := ?h, sr_data := ?data\<rparr>
         | None \<Rightarrow> \<lparr>sr_index = ?i, sr_end_height = None, sr_root_hash = ?h, sr_data = ?data\<rparr>)
       else find (\<lambda>r. sr_index r = j) (shard_rows db))" for j
  proof -
    have u: "upsert_tree_shard \<lparr>sr_index = ?i, sr_end_height = None, sr_root_hash = ?h, sr_data = ?data\<rparr>
        (\<lambda>r. r\<lparr>sr_root_hash := ?h, sr_data := ?data\<rparr>) db = (db', Inr x)"
      using p by (auto simp: put_shard_def Let_def split: sum.split_asm)
    show ?thesis using upsert_tree_shard_find [OF u, of j] by simp
  qed
  have "read_shard (sl_codec lib) ?data = Inr (tree, [])"
    using exact_reader.read_written [OF shard_reader [OF cd], of tree "[]"] by simp
  then have l: "located_shard lib addr ?data = Inr tree" using place by (simp add: located_shard_def)
  have hr: "hash_read (sl_codec lib) (hash_write (sl_codec lib) h) = Inr (h, length (hash_write (sl_codec lib) h))" for h
    using cd unfolding node_codec_exact_def by (metis append_Nil2)
  obtain r where r: "find (\<lambda>r. sr_index r = ?i) (shard_rows db') = Some r" "sr_root_hash r = ?h" "sr_data r = ?data"
    using rows [of ?i] by (cases "find (\<lambda>r. sr_index r = ?i) (shard_rows db)") auto
  have "get_shard lib addr db' = Inr (Some tree)"
    using l r hr root by (auto simp: get_shard_def split: option.splits)
  moreover have "get_shard lib a db' = get_shard lib a db" if "snd a \<noteq> snd addr" for a
    using rows [of "as_i64 (snd a)"] that by (simp add: get_shard_def)
  ultimately show ?thesis by blast
qed

section \<open>The invariant of the tables\<close>

definition tree_ok :: "tree_db \<Rightarrow> bool" where
  "tree_ok db \<longleftrightarrow> shard_keys_ok db \<and> contiguous (shard_indices db) \<and> checkpoints_ok db"

text \<open>Indices of shards stay in the range of a signed column; a tree of depth 32 has at most \<open>2 ^ 16\<close> of them.\<close>

fun op_in_bounds :: "('h, 'f) tree_op \<Rightarrow> bool" where
  "op_in_bounds (PutShard addr tree) \<longleftrightarrow> uint (snd addr) < 2 ^ 63 - 1"
| "op_in_bounds (TruncateShards i) \<longleftrightarrow> uint i < 2 ^ 63"
| "op_in_bounds (PutShardRoots i roots) \<longleftrightarrow> uint i + int (length roots) < 2 ^ 63"
| "op_in_bounds _ \<longleftrightarrow> True"

lemma commit_Inr: "commit err f s = Inr s' \<longleftrightarrow> (\<exists>x. f s = (s', Inr x))"
  by (auto simp: commit_def in_transaction_def split: prod.splits sum.splits)

lemma shards_cong:
  assumes "shard_rows db' = shard_rows db"
  shows "shard_keys_ok db' = shard_keys_ok db" "shard_indices db' = shard_indices db"
  unfolding shard_keys_ok_def shard_indices_def assms by (rule refl)+

lemma tree_ok_shards_kept:
  "shard_rows db' = shard_rows db \<Longrightarrow> checkpoints_ok db' \<Longrightarrow> tree_ok db \<Longrightarrow> tree_ok db'"
  using shards_cong [of db' db] by (simp add: tree_ok_def)

lemma put_shard_keeps_checkpoints:
  "put_shard lib addr tree db = (db', Inr x) \<Longrightarrow> checkpoint_rows db' = checkpoint_rows db \<and> mark_rows db' = mark_rows db"
  by (auto simp: put_shard_def Let_def upsert_tree_shard_def split: sum.split_asm if_split_asm)

lemma add_checkpoint_ok:
  assumes "add_checkpoint i c db = (db', Inr x)" "tree_ok db"
  shows "tree_ok db'"
proof (cases "get_checkpoint i db")
  case None
  with add_checkpoint_new [of db i c] assms have "shard_rows db' = shard_rows db" "checkpoints_ok db'" by (auto simp: tree_ok_def)
  then show ?thesis using assms(2) by (rule tree_ok_shards_kept)
next
  case (Some d)
  with add_checkpoint_again [OF this, of c] assms show ?thesis by (auto split: if_split_asm)
qed

lemma update_checkpoint_ok:
  assumes u: "update_checkpoint_with i update db = (db', Inr x)" and ok: "tree_ok db"
  shows "tree_ok db'"
proof (cases "get_checkpoint i db")
  case None
  with assms show ?thesis by (simp add: update_checkpoint_with_def)
next
  case (Some d)
  with u obtain d' where "update d = Inr d'" by (cases "update d") (auto simp: update_checkpoint_with_def)
  with update_checkpoint_with_ok [of db i d update d'] Some u ok have "shard_rows db' = shard_rows db" "checkpoints_ok db'"
    by (auto simp: tree_ok_def)
  then show ?thesis using ok by (rule tree_ok_shards_kept)
qed

lemma tree_step_ok:
  assumes ok: "tree_ok db" and bound: "op_in_bounds op" and s: "tree_step lib op db = Inr db'"
  shows "tree_ok db'"
proof (cases op)
  case (PutShard addr tree)
  with s obtain x where p: "put_shard lib addr tree db = (db', Inr x)" by (auto simp: commit_Inr)
  from ok PutShard bound have "shard_keys_ok db' \<and> contiguous (shard_indices db')" using put_shard_Inr [OF p] by (auto simp: tree_ok_def)
  with put_shard_keeps_checkpoints [OF p] ok show ?thesis by (simp add: tree_ok_def checkpoints_ok_def)
next
  case (TruncateShards i)
  from ok have k: "shard_keys_ok db" "contiguous (shard_indices db)" by (simp_all add: tree_ok_def)
  have "uint i < 2 ^ 63" using bound TruncateShards by simp
  from truncate_shards_ok [OF k this] have "shard_keys_ok (truncate_shards i db) \<and> contiguous (shard_indices (truncate_shards i db))" by blast
  moreover have "checkpoints_ok (truncate_shards i db)" using ok by (simp add: truncate_shards_def tree_ok_def checkpoints_ok_def)
  ultimately show ?thesis using s TruncateShards by (auto simp: tree_ok_def)
next
  case (PutCap cap)
  with s have "shard_rows db' = shard_rows db" "checkpoint_rows db' = checkpoint_rows db" "mark_rows db' = mark_rows db"
    by (auto simp: put_cap_def Let_def)
  with ok shards_cong [of db' db] show ?thesis by (simp add: tree_ok_def checkpoints_ok_def)
next
  case (PutShardRoots i roots)
  with s obtain x where p: "put_shard_roots lib i roots db = (db', Inr x)" by (auto simp: commit_Inr)
  from ok PutShardRoots bound put_shard_roots_Inr [OF p] show ?thesis by (auto simp: tree_ok_def checkpoints_ok_def)
next
  case (AddCheckpoint i c)
  with s ok show ?thesis by (auto simp: commit_Inr intro: add_checkpoint_ok)
next
  case (UpdateCheckpoint i update)
  with s ok show ?thesis by (auto simp: commit_Inr intro: update_checkpoint_ok)
next
  case (RemoveCheckpoint i)
  with s have "db' = remove_checkpoint i db" by simp
  moreover have "shard_rows (remove_checkpoint i db) = shard_rows db" by (simp add: remove_checkpoint_def)
  ultimately show ?thesis using ok remove_checkpoint_ok [of db i] tree_ok_shards_kept [OF _ _ ok, of db'] by (simp add: tree_ok_def)
next
  case (TruncateCheckpoints i)
  with s have "db' = truncate_checkpoints_retaining i db" by simp
  moreover have "shard_rows (truncate_checkpoints_retaining i db) = shard_rows db" by (simp add: truncate_checkpoints_retaining_def)
  ultimately show ?thesis using ok truncate_checkpoints_ok [of db i] tree_ok_shards_kept [OF _ _ ok, of db'] by (simp add: tree_ok_def)
next
  case (AddRetained i)
  with s have "shard_rows db' = shard_rows db" "checkpoint_rows db' = checkpoint_rows db" "mark_rows db' = mark_rows db"
    by (auto simp: commit_Inr add_retained_checkpoint_def split: option.split_asm)
  with ok shards_cong [of db' db] show ?thesis by (simp add: tree_ok_def checkpoints_ok_def)
next
  case (RemoveRetained i)
  with s have "shard_rows db' = shard_rows db" "checkpoint_rows db' = checkpoint_rows db" "mark_rows db' = mark_rows db"
    by (auto simp: commit_Inr remove_retained_checkpoint_def split: option.split_asm)
  with ok shards_cong [of db' db] show ?thesis by (simp add: tree_ok_def checkpoints_ok_def)
qed

interpretation tree_machine: invariant_machine "tree_step lib" op_in_bounds tree_ok for lib :: "('h, 'f) shard_lib"
  by unfold_locales (rule tree_step_ok)

text \<open>
  Property C19. Whatever is done to the tables of a tree, in any order, its stored shards have consecutive indices without a gap, one row each and no root hash
  twice; a checkpoint has one row; and no removed mark is left without its checkpoint, so a checkpoint that was removed can be added again.
\<close>

theorem tree_tables_invariant:
  assumes "tree_ok db" "list_all op_in_bounds ops"
  shows "tree_ok (run_ops (tree_step lib) ops db)"
  using assms by (rule tree_machine.inv_run)

section \<open>Examples\<close>

text \<open>The store of a tree with hashes of one byte: two shards and the checkpoints 100 and 105.\<close>

definition example_shard_lib :: "(u8, unit) shard_lib" where
  "example_shard_lib = \<lparr>sl_codec = byte_codec, misplaced = (\<lambda>_ _. None),
     tree_annotation = (\<lambda>t. case t of TreeParent a _ _ \<Rightarrow> Some a | _ \<Rightarrow> None),
     reannotate_root = (\<lambda>a t. case t of TreeParent _ l r \<Rightarrow> TreeParent a l r | _ \<Rightarrow> t), ephemeral_flags = (), shard_root_level = 16,
     cap_address = (16, 0), insert_roots = (\<lambda>t _ _. Inr t)\<rparr>"

definition empty_tree_db :: tree_db where
  "empty_tree_db = \<lparr>shard_rows = [], cap_rows = [], checkpoint_rows = [], mark_rows = [], retained_rows = Some []\<rparr>"

lemma empty_tree_ok: "tree_ok empty_tree_db"
  by (simp add: tree_ok_def empty_tree_db_def shard_keys_ok_def shard_indices_def contiguous_def checkpoints_ok_def)

definition example_ops :: "(u8, unit) tree_op list" where
  "example_ops = [PutShard (16, 0) example_shard, PutShardRoots 1 [\<lparr>sub_end_height = 100, sub_root_hash = 8\<rparr>], PutShard (16, 5) example_shard,
     AddCheckpoint 100 \<lparr>tc_state = EmptyTree, tc_marks_removed = {||}\<rparr>, AddCheckpoint 105 \<lparr>tc_state = AtPosition 3, tc_marks_removed = {||}\<rparr>]"

theorem tree_tables_invariant_witness:
  "tree_ok (run_ops (tree_step example_shard_lib) example_ops empty_tree_db) \<and>
   shard_indices (run_ops (tree_step example_shard_lib) example_ops empty_tree_db) = {0, 1} \<and>
   map ck_id (checkpoint_rows (run_ops (tree_step example_shard_lib) example_ops empty_tree_db)) = [100, 105]"
proof -
  have "list_all op_in_bounds example_ops" by (simp add: example_ops_def)
  from tree_tables_invariant [OF empty_tree_ok this, of example_shard_lib]
  show ?thesis
    by (simp add: example_ops_def empty_tree_db_def exec_op_def commit_def in_transaction_def put_shard_def check_shard_discontinuity_def Let_def
        upsert_tree_shard_def root_hash_taken_def as_i64_def as_u64_def put_shard_roots_def get_cap_def put_cap_def example_shard_lib_def example_shard_def
        byte_codec_def add_checkpoint_def shard_indices_def sorted_list_of_fset.rep_eq word_less_nat_alt insert_commute)
qed

theorem stored_shard_read_back_witness:
  "\<exists>db'. put_shard example_shard_lib (16, 0) example_shard empty_tree_db = (db', Inr ()) \<and>
     get_shard example_shard_lib (16, 0) db' = Inr (Some example_shard)"
proof -
  obtain db' where p: "put_shard example_shard_lib (16, 0) example_shard empty_tree_db = (db', Inr ())"
    by (simp add: put_shard_def empty_tree_db_def check_shard_discontinuity_def upsert_tree_shard_def root_hash_taken_def Let_def)
  have "node_codec_exact (sl_codec example_shard_lib)" "misplaced example_shard_lib (16, 0) example_shard = None"
    by (simp_all add: example_shard_lib_def byte_codec_exact)
  moreover have "reannotate_root example_shard_lib (Some h) example_shard = example_shard" if "tree_annotation example_shard_lib example_shard = Some (Some h)" for h
    using that by (simp add: example_shard_lib_def example_shard_def)
  ultimately show ?thesis using stored_shard_read_back [OF _ _ _ p] p by blast
qed

definition example_tree_db :: tree_db where
  "example_tree_db = empty_tree_db\<lparr>checkpoint_rows := [\<lparr>ck_id = 100, ck_position = None\<rparr>, \<lparr>ck_id = 105, ck_position = Some 3\<rparr>], mark_rows := [(105, 2)]\<rparr>"

lemma example_tree_checkpoints: "checkpoints_ok example_tree_db"
  by (simp add: checkpoints_ok_def example_tree_db_def empty_tree_db_def)

theorem anchor_depth_names_checkpoint_witness:
  "get_checkpoint_at_depth 1 example_tree_db = Some (100, \<lparr>tc_state = EmptyTree, tc_marks_removed = {||}\<rparr>)"
proof -
  have "checkpoint_depth_at_or_below (checkpoint_rows example_tree_db) 104 = Inr (Some (100, 1))"
    by (simp add: checkpoint_depth_at_or_below_def example_tree_db_def u32_try_from_def)
  from anchor_depth_names_checkpoint [OF example_tree_checkpoints this]
  have "\<exists>c. get_checkpoint 100 example_tree_db = Some c \<and> get_checkpoint_at_depth 1 example_tree_db = Some (100, c)" by blast
  then show ?thesis by (auto simp: get_checkpoint_def example_tree_db_def get_marks_removed_def state_of_position_def)
qed

theorem checkpoints_refine_map_witness:
  "add_checkpoint 105 \<lparr>tc_state = AtPosition 4, tc_marks_removed = {||}\<rparr> example_tree_db =
     (example_tree_db, Inl (CheckpointConflict 105 \<lparr>tc_state = AtPosition 4, tc_marks_removed = {||}\<rparr> (AtPosition 3) None)) \<and>
   get_checkpoint 105 (truncate_checkpoints_retaining 105 example_tree_db) = Some \<lparr>tc_state = AtPosition 3, tc_marks_removed = {||}\<rparr>"
proof -
  have c: "get_checkpoint 105 example_tree_db = Some \<lparr>tc_state = AtPosition 3, tc_marks_removed = {|2|}\<rparr>"
    by (simp add: get_checkpoint_def example_tree_db_def get_marks_removed_def state_of_position_def as_u64_def)
  note all = checkpoints_refine_map [OF example_tree_checkpoints, of 105 "\<lparr>tc_state = AtPosition 4, tc_marks_removed = {||}\<rparr>" Inr, unfolded c option.case]
  have "get_checkpoint 105 (truncate_checkpoints_retaining 105 example_tree_db) = map_option without_marks (get_checkpoint 105 example_tree_db)"
    using all by (simp add: fun_eq_iff)
  then show ?thesis using all c by (simp add: without_marks_def)
qed

end
