(* ===== verification/Spec2Isabelle.thy ===== *)
theory Spec2Isabelle
  imports Truncation Diversifier SpendSafety QortalFlow ShardStore
begin

text \<open>
  \<^bold>\<open>A verification of the Stashi wallet core.\<close>

  Stashi is a light wallet for the shielded coins of the Pirate chain. Its Rust core lives under
  \<open>src/crates\<close>. Blocks arrive from a light server (\<open>pirate-sync-lightd\<close>), are scanned for notes and
  stored in an encrypted SQLite database (\<open>pirate-storage-sqlite\<close>); the cryptographic and accounting
  rules are in \<open>pirate-core\<close> and \<open>pirate-params\<close>; \<open>pirate-wallet-service\<close> puts these together into the
  operations a user interface calls. This development models the logic of these parts that decides
  what is stored, when money may be spent and what a transaction contains.

  \<^bold>\<open>How the parts interact.\<close> The sync engine delivers linked blocks in height order
  (\<open>OrderedStream\<close>), moves a cursor and a window of block headers (\<open>SyncState\<close>), and on a reorganisation
  truncates every table above the fork (\<open>Truncation\<close>). Ranges still to be scanned or repaired are the rows
  of the scan queue (\<open>ScanQueue\<close>). Together with the imports and interruptions of the wallet they drive
  the spendability row (\<open>Spendability\<close>, \<open>SpendFlow\<close>), which gates every send and names the anchors a
  send may use; before the engine calls the wallet spendable it has the repository check every unspent note
  (\<open>WitnessCheck\<close>). Notes are rows of encrypted columns (\<open>NoteRows\<close>), read as the unspent notes and
  the balance (\<open>NoteQueries\<close>), marked and released as transactions confirm or expire (\<open>NoteSpends\<close>), and given their
  Merkle witnesses at an anchor (\<open>AnchorWitness\<close>) out of trees whose shards and checkpoints are stored beside them (\<open>ShardCodec\<close>, \<open>ShardStore\<close>). A send (\<open>TxFlow\<close>) passes the gate, reads the notes and keys of the account
  (\<open>SpendKeys\<close>), selects (\<open>Selection\<close>) at a fee (\<open>Fees\<close>), caches the selection until the user signs
  (\<open>SendCaches\<close>), and has the transaction planned (\<open>Builder\<close>) under the rules of the network
  (\<open>Params\<close>, \<open>Activation\<close>), with memos (\<open>Memo\<close>) and change to the wallet's addresses
  (\<open>AddressStore\<close>, \<open>Diversifier\<close>). Contracts of an exchange are funded and redeemed by transactions of their own kind
  (\<open>Qortal\<close>, \<open>QortalFlow\<close>), which share the keys, the note table and the gate.

  \<^bold>\<open>The theories.\<close>
  \<^item> \<open>Prelude\<close>: machine integers with the checked and saturating operations of Rust, results as sums, and
    the locales \<open>invariant_machine\<close> (an invariant kept by every step is kept by every run) that the stateful
    components interpret. \<open>Errors\<close>: the error enums and their classification; conversions to SQL integers.
  \<^item> \<open>Params\<close>: \<open>pirate-params\<close> and the change policy: networks, activation rules, subsidies, checkpoints.
  \<^item> \<open>Fees\<close>, \<open>Selection\<close>: fee validation and the dust rule; the note selectors at 64 bits. Selection
    is the shortest sufficient prefix, succeeds exactly when the notes suffice, and conserves value.
  \<^item> \<open>Utf8\<close>, \<open>Memo\<close>: UTF-8 and the memo field; every field decodes, and decoding inverts encoding.
  \<^item> \<open>ScanQueue\<close>: \<open>scan_queue.rs\<close>; queueing refines the union of height sets.
  \<^item> \<open>Spendability\<close>, \<open>SpendFlow\<close>: \<open>spendability_state.rs\<close>, the gate of \<open>sync_control.rs\<close>, the witness check of
    \<open>sync.rs\<close> and the other writers of the row. The safety theorems quantify over every sequence of these.
  \<^item> \<open>SyncState\<close>, \<open>Truncation\<close>: \<open>sync_state.rs\<close>: atomic batches, retries, and truncation with the resetting
    of spends, the re-anchoring of the trees and the rebuilding of shard metadata.
  \<^item> \<open>OrderedStream\<close>: \<open>ordered_stream.rs\<close>: whatever is delivered is a linked prefix of the range.
  \<^item> \<open>Activation\<close>: \<open>activation.rs\<close>, \<open>consensus.rs\<close>: the search for the activation height, against an
    arbitrary and against an honest server.
  \<^item> \<open>Diversifier\<close>, \<open>AddressStore\<close>: address rotation and the address table; addresses are not handed out twice.
  \<^item> \<open>Builder\<close>: \<open>shielded_builder.rs\<close> and the Sapling-only builder of \<open>transaction.rs\<close>, up to the calls they
    make to the Zcash crates: value is conserved, spends are authorised, change returns.
  \<^item> \<open>SendCaches\<close>, \<open>SpendKeys\<close>, \<open>TxFlow\<close>: \<open>tx_flow.rs\<close>: caches with age limits, key groups, building
    and signing. The end-to-end theorem says that what was approved is what is signed.
  \<^item> \<open>NoteRows\<close>, \<open>NoteQueries\<close>, \<open>NoteSpends\<close>: the note part of \<open>repository.rs\<close>: rows of encrypted columns, the
    folding of duplicate rows, the unspent notes and the balance, spends by nullifier and by row, spends seen before their
    note, outgoing transactions with their expiry. Each query and update is characterised over the decrypted notes (\<open>plain_notes\<close>).
  \<^item> \<open>AnchorWitness\<close>: \<open>frontier_witness.rs\<close>: the checkpoint of an anchor and the witness of each note; a note that
    leaves it has a path that leads to the anchor.
  \<^item> \<open>ShardCodec\<close>, \<open>ShardStore\<close>: \<open>shardtree_serialization.rs\<close>, \<open>shardtree_store.rs\<close>: the bytes of a shard are read back and a cut one is refused;
    shards have consecutive indices, the checkpoint tables implement a map, and the depth a witness is asked for at is that of the right checkpoint.
  \<^item> \<open>WitnessCheck\<close>: \<open>check_witnesses\<close> of \<open>repository.rs\<close>: it fails closed, and its repair ranges cover what the notes need.
  \<^item> \<open>SpendSafety\<close>: the parts together: notes of an accepted transaction are not offered again, and a
    wallet the engine calls spendable has all its notes ready.

  \<^item> \<open>Qortal\<close>, \<open>QortalFlow\<close>: \<open>qortal_p2sh.rs\<close> of \<open>pirate-core\<close> and of the wallet service: the script pushes, the transactions that
    fund and redeem a contract, and the requests. A funding balances, a redemption spends the named coin exactly by the right branch of its contract; and a funding
    request, as the service puts it together, always ends in an error, since its notes carry no Merkle path.

  \<^bold>\<open>Conventions.\<close> Integers keep the width of the source (\<open>u32\<close>, \<open>u64\<close>); SQL integers and \<open>i64\<close> values
  are \<open>int\<close>. A \<open>Result\<close> is a sum with the error on the left; messages are a format string and its
  numbers. Tables are lists of rows, in the order the queries return them. Hash maps are association
  lists or maps. Times, identifiers and randomness are arguments. Loops are structural or carry
  a termination proof, so no fuel is used; the retry loop of the store is bounded by its attempts.

  \<^bold>\<open>What is an argument.\<close> The Zcash crates (proving, signing, address codecs, key derivation, the decoding of
  notes: \<open>note_codec\<close>), the encryption of a column (\<open>cipher\<close>), the queries of the shardtree and its hashes
  (\<open>tree_queries\<close>, \<open>tree_lib\<close>), Base58 and script hashes (\<open>qortal_codec\<close>), the bundle builders and signatures of contract
  transactions (\<open>qortal_lib\<close>), the hashes of a tree and the shardtree crate's operations on it (\<open>node_codec\<close>, \<open>shard_lib\<close>) and the server are arguments
  of the definitions that use them; where a theorem needs their behaviour it is a named hypothesis
  with a witness. \<open>SpendKeys\<close> takes the source of notes and \<open>SpendFlow\<close> the check of notes as an argument; \<open>NoteQueries\<close>,
  \<open>AnchorWitness\<close> and \<open>WitnessCheck\<close> define them, and \<open>SpendSafety\<close> puts them in.

  \<^bold>\<open>Not modelled.\<close> Networking (\<open>pirate-net\<close>, \<open>client.rs\<close>), generated bindings (\<open>pirate-ffi-frb\<close>),
  the command line, the user interface, logging, schema migrations beyond the tables used here, trial decryption and the
  pipeline that scans blocks, the growing of the commitment trees, the import and removal of keys, the history of
  transactions, and the other files the component table lists. They are input and output, calls to crates, or
  generated code, or come after the parts above in the order of what decides about money.
\<close>

end
